(* ===== verification/Relay_Prelude.thy ===== *)
theory Relay_Prelude
  imports Main "HOL-Library.Word" "HOL-Library.AList"
begin

text \<open>
  Shared vocabulary of the development: the machine integers of the C++ code, the outcome
  of an operation that may leave the defined behaviour of the language, generic lemmas on
  words, lists and association lists (the model of \<open>std::unordered_map\<close>), and the locale
  of a component that handles a sequence of events.
\<close>

unbundle bit_operations_syntax

section \<open>Machine integers and bytes\<close>

type_synonym u8 = "8 word"
type_synonym u16 = "16 word"
type_synonym u32 = "32 word"
type_synonym u64 = "64 word"
type_synonym bytes = "u8 list"

named_theorems bit_index_sets
  "the index sets of fixed-width words as explicit sets, to decide a word equation bit by bit"

lemma lessThan_8 [bit_index_sets]: "{..<8} = {0,1,2,3,4,5,6,7::nat}"
  by (simp add: lessThan_nat_numeral lessThan_Suc insert_commute)

lemma lessThan_16 [bit_index_sets]: "{..<16} = {0,1,2,3,4,5,6,7,8,9,10,11,12,13,14,15::nat}"
  by (simp add: lessThan_nat_numeral lessThan_Suc insert_commute)

lemma lessThan_32 [bit_index_sets]:
  "{..<32} = {0,1,2,3,4,5,6,7,8,9,10,11,12,13,14,15,16,17,18,19,20,21,22,23,24,25,26,27,
     28,29,30,31::nat}"
  by (simp add: lessThan_nat_numeral lessThan_Suc insert_commute)

lemma lessThan_64 [bit_index_sets]: "{..<64} = {..<32} \<union> (\<lambda>n. n + 32) ` {..<32::nat}"
proof -
  have "{..<64} = {..<32} \<union> {32..<64::nat}" by auto
  also have "{32..<64::nat} = (\<lambda>n. n + 32) ` {..<32::nat}"
    by (simp add: lessThan_atLeast0)
  finally show ?thesis .
qed

lemma word8_eqI: "\<forall>n\<in>{..<8}. bit x n = bit y n \<Longrightarrow> x = (y::u8)"
  by (rule bit_word_eqI) simp

lemma word16_eqI: "\<forall>n\<in>{..<16}. bit x n = bit y n \<Longrightarrow> x = (y::u16)"
  by (rule bit_word_eqI) simp

lemma word32_eqI: "\<forall>n\<in>{..<32}. bit x n = bit y n \<Longrightarrow> x = (y::u32)"
  by (rule bit_word_eqI) simp

lemma word64_eqI: "\<forall>n\<in>{..<64}. bit x n = bit y n \<Longrightarrow> x = (y::u64)"
  by (rule bit_word_eqI) simp

section \<open>Undefined behaviour as a value\<close>

text \<open>
  An operation whose C++ counterpart can read or write outside an object, use a value that
  was never set, fail an assertion or invalidate an iterator it is still using returns
  \<open>Inl\<close> of a \<open>fault\<close>; so does one that locks a mutex it holds, uses freed memory, breaks the
  rules of a libuv handle, casts a pointer to the wrong class or does not return.
\<close>

datatype fault =
    Out_Of_Bounds
  | Null_Dereference
  | Assertion_Failed
  | Indeterminate_Value
  | Iterator_Invalidated
  | Division_By_Zero
  | Deadlock
  | Use_After_Free
  | Handle_Misuse
  | No_Return
  | Shift_Out_Of_Range
  | Key_Not_Found
  | File_Not_Found
  | Signed_Overflow
  | Wrong_Type

type_synonym 'a outcome = "fault + 'a"

fun map_outcome :: "('a \<Rightarrow> 'b) \<Rightarrow> 'a outcome \<Rightarrow> 'b outcome" where
  "map_outcome f (Inl e) = Inl e"
| "map_outcome f (Inr x) = Inr (f x)"

fun bind_outcome :: "'a outcome \<Rightarrow> ('a \<Rightarrow> 'b outcome) \<Rightarrow> 'b outcome" where
  "bind_outcome (Inl e) k = Inl e"
| "bind_outcome (Inr x) k = k x"

lemma map_outcome_Inl_iff [simp]: "map_outcome f r = Inl e \<longleftrightarrow> r = Inl e"
  by (cases r) auto

lemma map_outcome_Inr_iff [simp]: "map_outcome f r = Inr y \<longleftrightarrow> (\<exists>x. r = Inr x \<and> y = f x)"
  by (cases r) auto

lemma map_outcome_comp: "map_outcome f (map_outcome g r) = map_outcome (\<lambda>x. f (g x)) r"
  by (cases r) auto

lemma map_outcome_ident [simp]: "map_outcome (\<lambda>x. x) r = r"
  by (cases r) auto

lemma bind_outcome_Inr_iff:
  "bind_outcome r k = Inr y \<longleftrightarrow> (\<exists>x. r = Inr x \<and> k x = Inr y)"
  by (cases r) auto

lemma bind_outcome_Inl_iff:
  "bind_outcome r k = Inl e \<longleftrightarrow> r = Inl e \<or> (\<exists>x. r = Inr x \<and> k x = Inl e)"
  by (cases r) auto

section \<open>Lists\<close>

lemma dropWhile_eq_drop_length: "dropWhile P xs = drop (length (takeWhile P xs)) xs"
  by (induction xs) auto

lemma length_takeWhile_less:
  "x \<in> set xs \<Longrightarrow> \<not> P x \<Longrightarrow> length (takeWhile P xs) < length xs"
  by (induction xs) auto

lemma take_drop_split: "take m xs @ take n (drop m xs) = take (m + n) xs"
  by (simp add: take_add)

section \<open>Integers as bytes\<close>

text \<open>
  The bytes of an integer, least significant byte first: the memory of the little-endian
  hosts the server runs on.
\<close>

definition le_bytes :: "nat \<Rightarrow> nat \<Rightarrow> bytes" where
  "le_bytes k n = map (\<lambda>i. of_nat (n div 256 ^ i)) [0..<k]"

definition from_le :: "bytes \<Rightarrow> nat" where
  "from_le bs = foldr (\<lambda>b n. unat b + 256 * n) bs 0"

lemma length_le_bytes [simp]: "length (le_bytes k n) = k"
  by (simp add: le_bytes_def)

lemma le_bytes_Suc: "le_bytes (Suc k) n = of_nat n # le_bytes k (n div 256)"
proof (rule nth_equalityI)
  fix i assume "i < length (le_bytes (Suc k) n)"
  then show "le_bytes (Suc k) n ! i = (of_nat n # le_bytes k (n div 256)) ! i"
    by (cases i) (simp_all add: le_bytes_def div_mult2_eq del: upt_Suc)
qed simp

lemma from_le_le_bytes: "from_le (le_bytes k n) = n mod 256 ^ k"
proof (induction k arbitrary: n)
  case 0
  then show ?case by (simp add: le_bytes_def from_le_def)
next
  case (Suc k)
  have "from_le (le_bytes (Suc k) n) = n mod 256 + 256 * from_le (le_bytes k (n div 256))"
    by (simp add: le_bytes_Suc from_le_def unat_of_nat take_bit_eq_mod)
  also have "\<dots> = n mod (256 * 256 ^ k)" by (simp add: Suc mod_mult2_eq)
  finally show ?case by simp
qed

lemma from_le_u32 [simp]: "of_nat (from_le (le_bytes 4 (unat (w :: u32)))) = w"
proof -
  have "unat w < 256 ^ 4" using unsigned_less [of w, where 'a = nat] by simp
  then show ?thesis by (simp add: from_le_le_bytes del: power_numeral)
qed

lemma from_le_u16 [simp]: "of_nat (from_le (le_bytes 2 (unat (w :: u16)))) = w"
proof -
  have "unat w < 256 ^ 2" using unsigned_less [of w, where 'a = nat] by simp
  then show ?thesis by (simp add: from_le_le_bytes del: power_numeral)
qed

section \<open>Association lists\<close>

text \<open>
  A hash table of the standard library is an association list with distinct keys in the
  (unspecified) order an iteration would visit; lookups are \<open>map_of\<close>.
\<close>

lemmas alist_conv [simp] = update_conv' delete_conv'

lemma distinct_keys_update [simp]:
  "distinct (map fst (AList.update k v al)) = distinct (map fst al)"
  by (simp add: update_keys)

section \<open>Components that handle a sequence of events\<close>

text \<open>
  Running the handler of a component over a list of events, threading its state,
  collecting what it emits and stopping at the first fault.
\<close>

fun run_events ::
  "('s \<Rightarrow> 'e \<Rightarrow> ('s \<times> 'o list) outcome) \<Rightarrow> 's \<Rightarrow> 'e list \<Rightarrow> ('s \<times> 'o list) outcome" where
  "run_events h s [] = Inr (s, [])"
| "run_events h s (e # es) =
     bind_outcome (h s e) (\<lambda>(s', out). map_outcome (\<lambda>(s'', out'). (s'', out @ out'))
       (run_events h s' es))"

lemma run_events_append:
  "run_events h s (es @ fs) =
     bind_outcome (run_events h s es) (\<lambda>(s', out). map_outcome (\<lambda>(s'', out'). (s'', out @ out'))
       (run_events h s' fs))"
proof (induction es arbitrary: s)
  case Nil
  show ?case by (cases "run_events h s fs") auto
next
  case (Cons e es)
  show ?case
  proof (cases "h s e")
    case (Inr r)
    obtain s' out where r: "r = (s', out)" by (cases r)
    show ?thesis
    proof (cases "run_events h s' es")
      case (Inr r')
      with Cons.IH [of s'] \<open>h s e = Inr r\<close> r show ?thesis
        by (cases "run_events h (fst r') fs") (auto split: prod.splits)
    qed (use Cons.IH [of s'] \<open>h s e = Inr r\<close> r in simp)
  qed simp
qed

text \<open>
  The contract of a component: its handler keeps the invariant on every event that its
  clients may send it; a safe component also never faults on such an event.
\<close>

locale event_handler =
  fixes handle :: "'s \<Rightarrow> 'e \<Rightarrow> ('s \<times> 'o list) outcome"
    and inv :: "'s \<Rightarrow> bool"
    and allowed :: "'e \<Rightarrow> bool"
  assumes handle_inv: "inv s \<Longrightarrow> allowed e \<Longrightarrow> handle s e = Inr (s', out) \<Longrightarrow> inv s'"
begin

lemma run_inv:
  "inv s \<Longrightarrow> \<forall>e\<in>set es. allowed e \<Longrightarrow> run_events handle s es = Inr (s', out) \<Longrightarrow> inv s'"
proof (induction es arbitrary: s out)
  case (Cons e es)
  then obtain t o1 o2 where "handle s e = Inr (t, o1)" "run_events handle t es = Inr (s', o2)"
    by (auto simp: bind_outcome_Inr_iff)
  moreover from this Cons.prems handle_inv have "inv t" by fastforce
  ultimately show ?case using Cons by simp
qed simp

end

locale safe_event_handler = event_handler +
  assumes handle_safe: "inv s \<Longrightarrow> allowed e \<Longrightarrow> \<exists>r. handle s e = Inr r"
begin

lemma run_safe:
  "inv s \<Longrightarrow> \<forall>e\<in>set es. allowed e \<Longrightarrow> \<exists>s' out. run_events handle s es = Inr (s', out) \<and> inv s'"
proof (induction es arbitrary: s)
  case (Cons e es)
  then have e: "allowed e" "\<forall>e\<in>set es. allowed e" by simp_all
  from handle_safe [OF Cons.prems(1) e(1)] obtain t o1 where h: "handle s e = Inr (t, o1)"
    by fastforce
  have "inv t" by (rule handle_inv [OF Cons.prems(1) e(1) h])
  from Cons.IH [OF this e(2)] obtain u o2 where "run_events handle t es = Inr (u, o2)" "inv u"
    by blast
  with h show ?case by simp
qed simp

end

end
