(* ===== verification/Net_Base.thy ===== *)
theory Net_Base
  imports Relay_Prelude
begin

text \<open>
  \<open>src/src/simple_uv/net_base.h\<close>: byte order, the integer serialisers and the packet
  header of the TCP protocol. The byte order of the host, which \<open>IsLittleendian\<close> reads
  from memory, is the parameter \<open>le\<close> of every definition that depends on it. A pointer
  argument is the list of the bytes that are readable from it on; reading past its end is
  \<open>Inl Out_Of_Bounds\<close>.
\<close>

unbundle bit_operations_syntax

section \<open>Byte order\<close>

text \<open>\<open>htonl\<close> and \<open>ntohl\<close> of the standard library, and \<open>__builtin_bswap64\<close>.\<close>

definition bswap16 :: "u16 \<Rightarrow> u16" where
  "bswap16 x = push_bit 8 (x AND 0xff) OR drop_bit 8 (x AND 0xff00)"

definition bswap32 :: "u32 \<Rightarrow> u32" where
  "bswap32 x = push_bit 24 (x AND 0xff) OR push_bit 8 (x AND 0xff00)
     OR drop_bit 8 (x AND 0xff0000) OR drop_bit 24 (x AND 0xff000000)"

definition bswap64 :: "u64 \<Rightarrow> u64" where
  "bswap64 x = push_bit 56 (x AND 0xff) OR push_bit 40 (x AND 0xff00)
     OR push_bit 24 (x AND 0xff0000) OR push_bit 8 (x AND 0xff000000)
     OR drop_bit 8 (x AND 0xff00000000) OR drop_bit 24 (x AND 0xff0000000000)
     OR drop_bit 40 (x AND 0xff000000000000) OR drop_bit 56 (x AND 0xff00000000000000)"

definition htons :: "bool \<Rightarrow> u16 \<Rightarrow> u16" where
  "htons le x = (if le then bswap16 x else x)"

definition htonl :: "bool \<Rightarrow> u32 \<Rightarrow> u32" where
  "htonl le x = (if le then bswap32 x else x)"

definition ntohl :: "bool \<Rightarrow> u32 \<Rightarrow> u32" where
  "ntohl le x = (if le then bswap32 x else x)"

text \<open>\<open>Phata::htonll2\<close> and \<open>Phata::ntohll2\<close>, in their Linux variant.\<close>

definition htonll2 :: "bool \<Rightarrow> u64 \<Rightarrow> u64" where
  "htonll2 le num = (if le then bswap64 num else num)"

definition ntohll2 :: "bool \<Rightarrow> u64 \<Rightarrow> u64" where
  "ntohll2 le num = (if le then bswap64 num else num)"

lemma bswap16_bswap16 [simp]: "bswap16 (bswap16 x) = x"
  by (rule word16_eqI, unfold bit_index_sets) (simp add: bswap16_def bit_simps)

lemma bswap32_bswap32 [simp]: "bswap32 (bswap32 x) = x"
  by (rule word32_eqI, unfold bit_index_sets) (simp add: bswap32_def bit_simps)

lemma bswap64_bswap64 [simp]: "bswap64 (bswap64 x) = x"
  by (rule word64_eqI, unfold bit_index_sets) (simp add: bswap64_def bit_simps)

lemma ntohl_htonl [simp]: "ntohl le (htonl le x) = x"
  by (simp add: ntohl_def htonl_def)

lemma htonl_ntohl [simp]: "htonl le (ntohl le x) = x"
  by (simp add: ntohl_def htonl_def)

lemma ntohll2_htonll2 [simp]: "ntohll2 le (htonll2 le x) = x"
  by (simp add: ntohll2_def htonll2_def)

lemma htonll2_ntohll2 [simp]: "htonll2 le (ntohll2 le x) = x"
  by (simp add: ntohll2_def htonll2_def)

section \<open>Integers to bytes and back\<close>

text \<open>
  \<open>Int32ToChar\<close>: the network-order value is held in an \<open>unsigned long\<close> (64 bits on
  the LP64 platforms the makefiles target) and its four low bytes are stored highest first.
\<close>

definition Int32ToChar :: "bool \<Rightarrow> u32 \<Rightarrow> bytes" where
  "Int32ToChar le intnum =
     (let network_byteorder = ucast (htonl le intnum) :: u64 in
      [ucast (drop_bit 24 (network_byteorder AND 0xff000000)),
       ucast (drop_bit 16 (network_byteorder AND 0x00ff0000)),
       ucast (drop_bit 8 (network_byteorder AND 0x0000ff00)),
       ucast (network_byteorder AND 0x000000ff)])"

definition join_bytes32 :: "u8 \<Rightarrow> u8 \<Rightarrow> u8 \<Rightarrow> u8 \<Rightarrow> u32" where
  "join_bytes32 c0 c1 c2 c3 =
     push_bit 24 (ucast c0) + push_bit 16 (ucast c1) + push_bit 8 (ucast c2) + ucast c3"

definition CharToInt32 :: "bool \<Rightarrow> bytes \<Rightarrow> u32 outcome" where
  "CharToInt32 le charnum =
     (if length charnum < 4 then Inl Out_Of_Bounds
      else Inr (ntohl le (join_bytes32 (charnum ! 0) (charnum ! 1) (charnum ! 2) (charnum ! 3))))"

definition Int64ToChar :: "bool \<Rightarrow> u64 \<Rightarrow> bytes" where
  "Int64ToChar le intnum =
     (let network_byteorder = htonll2 le intnum in
      [ucast (drop_bit 56 (network_byteorder AND 0xff00000000000000)),
       ucast (drop_bit 48 (network_byteorder AND 0x00ff000000000000)),
       ucast (drop_bit 40 (network_byteorder AND 0x0000ff0000000000)),
       ucast (drop_bit 32 (network_byteorder AND 0x000000ff00000000)),
       ucast (drop_bit 24 (network_byteorder AND 0x00000000ff000000)),
       ucast (drop_bit 16 (network_byteorder AND 0x0000000000ff0000)),
       ucast (drop_bit 8 (network_byteorder AND 0x000000000000ff00)),
       ucast (network_byteorder AND 0x00000000000000ff)])"

text \<open>
  \<open>CharToInt64\<close>: the four upper bytes are converted to \<open>uint64_t\<close> before they are
  shifted, the others are shifted as 32-bit \<open>int\<close> values and sign-extended by the sum.
\<close>

definition join_bytes64 :: "u8 \<Rightarrow> u8 \<Rightarrow> u8 \<Rightarrow> u8 \<Rightarrow> u8 \<Rightarrow> u8 \<Rightarrow> u8 \<Rightarrow> u8 \<Rightarrow> u64" where
  "join_bytes64 c0 c1 c2 c3 c4 c5 c6 c7 =
     push_bit 56 (ucast c0) + push_bit 48 (ucast c1) + push_bit 40 (ucast c2)
     + push_bit 32 (ucast c3) + scast (push_bit 24 (ucast c4 :: u32))
     + scast (push_bit 16 (ucast c5 :: u32)) + scast (push_bit 8 (ucast c6 :: u32)) + ucast c7"

definition CharToInt64 :: "bool \<Rightarrow> bytes \<Rightarrow> u64 outcome" where
  "CharToInt64 le charnum =
     (if length charnum < 8 then Inl Out_Of_Bounds
      else Inr (ntohll2 le (join_bytes64 (charnum ! 0) (charnum ! 1) (charnum ! 2) (charnum ! 3)
        (charnum ! 4) (charnum ! 5) (charnum ! 6) (charnum ! 7))))"

lemma length_Int32ToChar [simp]: "length (Int32ToChar le x) = 4"
  by (simp add: Int32ToChar_def Let_def)

lemma length_Int64ToChar [simp]: "length (Int64ToChar le x) = 8"
  by (simp add: Int64ToChar_def Let_def)

lemma join_bytes32_or:
  "join_bytes32 c0 c1 c2 c3 =
     push_bit 24 (ucast c0) OR push_bit 16 (ucast c1) OR push_bit 8 (ucast c2) OR ucast c3"
  unfolding join_bytes32_def
  by (subst disjunctive_add_eq_or, rule bit_word_eqI, simp add: bit_simps,
      fastforce dest: bit_imp_le_length)+ (simp add: or.assoc)

lemma join_bytes32_Int32ToChar:
  "Int32ToChar le x = [c0, c1, c2, c3] \<Longrightarrow> join_bytes32 c0 c1 c2 c3 = htonl le x"
  by (rule word32_eqI, unfold bit_index_sets)
    (auto simp: join_bytes32_or Int32ToChar_def Let_def bit_simps)

lemma CharToInt32_Int32ToChar_gen:
  "CharToInt32 le (Int32ToChar le' x @ rest) = Inr (ntohl le (htonl le' x))"
proof -
  obtain c0 c1 c2 c3 where c: "Int32ToChar le' x = [c0, c1, c2, c3]"
    by (simp add: Int32ToChar_def Let_def)
  then show ?thesis by (simp add: CharToInt32_def join_bytes32_Int32ToChar [OF c])
qed

lemma CharToInt32_Int32ToChar [simp]: "CharToInt32 le (Int32ToChar le x @ rest) = Inr x"
  by (simp add: CharToInt32_Int32ToChar_gen)

lemma not_bit_u8: "8 \<le> n \<Longrightarrow> \<not> bit (c::u8) n"
  by (auto dest: bit_imp_le_length)

lemma scast_push_bit_24:
  "scast (push_bit 24 (ucast c :: u32)) =
     (push_bit 24 (ucast (c::u8)) - (if bit c 7 then 0x100000000 else 0) :: u64)"
proof -
  let ?m = "(if bit c 7 then 0xffffffff00000000 else 0) :: u64"
  have "scast (push_bit 24 (ucast c :: u32)) = push_bit 24 (ucast c) OR ?m"
    by (rule word64_eqI, unfold bit_index_sets) (simp add: bit_simps not_bit_u8)
  also have "\<dots> = push_bit 24 (ucast c) + ?m"
    by (rule disjunctive_add_eq_or [symmetric], rule word64_eqI, unfold bit_index_sets)
      (simp add: bit_simps not_bit_u8)
  finally show ?thesis by simp
qed

lemma scast_push_bit_small:
  "scast (push_bit 16 (ucast (c::u8)) :: u32) = (push_bit 16 (ucast c) :: u64)"
  "scast (push_bit 8 (ucast c) :: u32) = (push_bit 8 (ucast c) :: u64)"
  by (rule word64_eqI, unfold bit_index_sets, simp add: bit_simps not_bit_u8)+

lemma add_or_u64: "(\<forall>n\<in>{..<64}. \<not> (bit x n \<and> bit y n)) \<Longrightarrow> x + y = x OR (y::u64)"
  by (rule disjunctive_add_eq_or, rule word64_eqI) (simp add: bit_simps)

lemma join_bytes64_eq:
  "join_bytes64 c0 c1 c2 c3 c4 c5 c6 c7 =
     (push_bit 56 (ucast c0) OR push_bit 48 (ucast c1) OR push_bit 40 (ucast c2)
      OR push_bit 32 (ucast c3) OR push_bit 24 (ucast c4) OR push_bit 16 (ucast c5)
      OR push_bit 8 (ucast c6) OR ucast c7) - (if bit c4 7 then 0x100000000 else 0)"
proof -
  let ?h = "push_bit 56 (ucast c0) OR push_bit 48 (ucast c1) OR push_bit 40 (ucast c2)
      OR push_bit 32 (ucast c3) :: u64"
  let ?l = "push_bit 24 (ucast c4) OR push_bit 16 (ucast c5)
      OR push_bit 8 (ucast c6) OR ucast c7 :: u64"
  have 1: "push_bit 56 (ucast c0) + push_bit 48 (ucast c1) + push_bit 40 (ucast c2)
      + push_bit 32 (ucast c3) = ?h"
    by (subst add_or_u64, unfold bit_index_sets, simp add: bit_simps not_bit_u8)+
      (simp add: or.assoc)
  have 2: "push_bit 24 (ucast c4) + push_bit 16 (ucast c5) + push_bit 8 (ucast c6) + ucast c7 = ?l"
    by (subst add_or_u64, unfold bit_index_sets, simp add: bit_simps not_bit_u8)+
      (simp add: or.assoc)
  have 3: "?h + ?l = ?h OR ?l"
    by (subst add_or_u64, unfold bit_index_sets) (simp_all add: bit_simps not_bit_u8)
  have "join_bytes64 c0 c1 c2 c3 c4 c5 c6 c7 =
      (push_bit 56 (ucast c0) + push_bit 48 (ucast c1) + push_bit 40 (ucast c2) + push_bit 32 (ucast c3))
      + (push_bit 24 (ucast c4) + push_bit 16 (ucast c5) + push_bit 8 (ucast c6) + ucast c7)
      - (if bit c4 7 then 0x100000000 else 0)"
    unfolding join_bytes64_def scast_push_bit_24 scast_push_bit_small by (simp add: algebra_simps)
  then show ?thesis by (simp only: 1 2 3 or.assoc)
qed

lemma join_bytes64_Int64ToChar:
  assumes "Int64ToChar le x = [c0, c1, c2, c3, c4, c5, c6, c7]"
  shows "join_bytes64 c0 c1 c2 c3 c4 c5 c6 c7 =
     htonll2 le x - (if bit (htonll2 le x) 31 then 0x100000000 else 0)"
proof -
  have "push_bit 56 (ucast c0) OR push_bit 48 (ucast c1) OR push_bit 40 (ucast c2)
      OR push_bit 32 (ucast c3) OR push_bit 24 (ucast c4) OR push_bit 16 (ucast c5)
      OR push_bit 8 (ucast c6) OR ucast c7 = htonll2 le x"
    using assms by (intro word64_eqI, unfold bit_index_sets)
      (auto simp: Int64ToChar_def Let_def bit_simps not_bit_u8)
  moreover have "bit c4 7 = bit (htonll2 le x) 31"
    using assms by (auto simp: Int64ToChar_def Let_def bit_simps)
  ultimately show ?thesis by (simp add: join_bytes64_eq)
qed

lemma CharToInt64_Int64ToChar:
  "CharToInt64 le (Int64ToChar le x @ rest) =
     Inr (ntohll2 le (htonll2 le x - (if bit (htonll2 le x) 31 then 0x100000000 else 0)))"
proof -
  obtain c0 c1 c2 c3 c4 c5 c6 c7 where c: "Int64ToChar le x = [c0, c1, c2, c3, c4, c5, c6, c7]"
    by (simp add: Int64ToChar_def Let_def)
  then show ?thesis by (simp add: CharToInt64_def join_bytes64_Int64ToChar [OF c])
qed

section \<open>The packet header\<close>

text \<open>
  \<open>NetPacket\<close>, packed: 34 bytes. Its \<open>check\<close> array holds 16 bytes.
\<close>

record NetPacket =
  np_version :: u32
  np_header :: u8
  np_tail :: u8
  np_check :: bytes
  np_type :: u32
  np_datalen :: u32
  np_reserve :: u32

definition NET_PACKAGE_VERSION :: u32 where
  "NET_PACKAGE_VERSION = 0x01"

definition NET_PACKAGE_HEADLEN :: nat where
  "NET_PACKAGE_HEADLEN = 34"

definition wf_NetPacket :: "NetPacket \<Rightarrow> bool" where
  "wf_NetPacket p \<longleftrightarrow> length (np_check p) = 16"

text \<open>\<open>NetPacketToChar\<close>: the bytes it stores into \<open>chardata\<close>.\<close>

definition NetPacketToChar :: "bool \<Rightarrow> NetPacket \<Rightarrow> bytes" where
  "NetPacketToChar le package =
     Int32ToChar le (np_version package) @ [np_header package, np_tail package]
     @ np_check package @ Int32ToChar le (np_type package)
     @ Int32ToChar le (np_datalen package) @ Int32ToChar le (np_reserve package)"

definition CharToNetPacket :: "bool \<Rightarrow> bytes \<Rightarrow> NetPacket outcome" where
  "CharToNetPacket le chardata =
     (if length chardata < NET_PACKAGE_HEADLEN then Inl Out_Of_Bounds
      else bind_outcome (CharToInt32 le chardata) (\<lambda>version.
           bind_outcome (CharToInt32 le (drop 22 chardata)) (\<lambda>type.
           bind_outcome (CharToInt32 le (drop 26 chardata)) (\<lambda>datalen.
           bind_outcome (CharToInt32 le (drop 30 chardata)) (\<lambda>reserve.
             Inr \<lparr>np_version = version, np_header = chardata ! 4, np_tail = chardata ! 5,
                  np_check = take 16 (drop 6 chardata), np_type = type,
                  np_datalen = datalen, np_reserve = reserve\<rparr>)))))"

lemma length_NetPacketToChar [simp]:
  "wf_NetPacket p \<Longrightarrow> length (NetPacketToChar le p) = NET_PACKAGE_HEADLEN"
  by (simp add: NetPacketToChar_def wf_NetPacket_def NET_PACKAGE_HEADLEN_def)

lemma CharToNetPacket_total:
  assumes "NET_PACKAGE_HEADLEN \<le> length bs"
  obtains p where "CharToNetPacket le bs = Inr p" "wf_NetPacket p"
proof -
  have "\<exists>v. CharToInt32 le (drop k bs) = Inr v" if "k \<le> 30" for k
    using assms that by (simp add: CharToInt32_def NET_PACKAGE_HEADLEN_def)
  from this [of 0] this [of 22] this [of 26] this [of 30] show thesis
    using assms that by (auto simp: CharToNetPacket_def wf_NetPacket_def NET_PACKAGE_HEADLEN_def)
qed

lemma CharToNetPacket_append:
  "NET_PACKAGE_HEADLEN \<le> length bs \<Longrightarrow> CharToNetPacket le (bs @ cs) = CharToNetPacket le bs"
  by (simp add: CharToNetPacket_def CharToInt32_def NET_PACKAGE_HEADLEN_def nth_append)

lemma CharToNetPacket_NetPacketToChar_gen:
  assumes "wf_NetPacket p"
  shows "CharToNetPacket le (NetPacketToChar le' p @ rest) =
    Inr (p\<lparr>np_version := ntohl le (htonl le' (np_version p)),
      np_type := ntohl le (htonl le' (np_type p)),
      np_datalen := ntohl le (htonl le' (np_datalen p)),
      np_reserve := ntohl le (htonl le' (np_reserve p))\<rparr>)"
proof -
  have len: "length (np_check p) = 16" using assms by (simp add: wf_NetPacket_def)
  let ?bs = "NetPacketToChar le' p @ rest"
  have parts: "drop 22 ?bs = Int32ToChar le' (np_type p) @ drop 26 ?bs"
    "drop 26 ?bs = Int32ToChar le' (np_datalen p) @ drop 30 ?bs"
    "drop 30 ?bs = Int32ToChar le' (np_reserve p) @ rest"
    "?bs = Int32ToChar le' (np_version p) @ drop 4 ?bs"
    "drop 4 ?bs = np_header p # np_tail p # drop 6 ?bs"
    "take 16 (drop 6 ?bs) = np_check p"
    using len by (simp_all add: NetPacketToChar_def)
  have "?bs ! 4 = drop 4 ?bs ! 0" "?bs ! 5 = drop 4 ?bs ! 1" "34 \<le> length ?bs"
    using len by (simp_all add: NetPacketToChar_def nth_append)
  moreover have "CharToInt32 le ?bs = Inr (ntohl le (htonl le' (np_version p)))"
    by (subst parts(4)) (rule CharToInt32_Int32ToChar_gen)
  moreover have "CharToInt32 le (drop 22 ?bs) = Inr (ntohl le (htonl le' (np_type p)))"
    by (subst parts(1)) (rule CharToInt32_Int32ToChar_gen)
  moreover have "CharToInt32 le (drop 26 ?bs) = Inr (ntohl le (htonl le' (np_datalen p)))"
    by (subst parts(2)) (rule CharToInt32_Int32ToChar_gen)
  moreover have "CharToInt32 le (drop 30 ?bs) = Inr (ntohl le (htonl le' (np_reserve p)))"
    by (subst parts(3)) (rule CharToInt32_Int32ToChar_gen)
  ultimately show ?thesis
    using parts(6) parts(5) by (simp add: CharToNetPacket_def NET_PACKAGE_HEADLEN_def)
qed

section \<open>Properties\<close>

text \<open>
  Reading back a packet header that \<open>NetPacketToChar\<close> wrote on a host of
  the same byte order returns the header, whatever bytes follow it.
\<close>

theorem NetPacket_roundtrip:
  "wf_NetPacket p \<Longrightarrow> CharToNetPacket le (NetPacketToChar le p @ rest) = Inr p"
  by (simp add: CharToNetPacket_NetPacketToChar_gen)

theorem NetPacket_roundtrip_witness:
  "CharToNetPacket True (NetPacketToChar True \<lparr>np_version = 1, np_header = 1, np_tail = 2,
      np_check = replicate 16 7, np_type = 11008, np_datalen = 0x12345678, np_reserve = 0\<rparr> @ [9])
   = Inr \<lparr>np_version = 1, np_header = 1, np_tail = 2,
      np_check = replicate 16 7, np_type = 11008, np_datalen = 0x12345678, np_reserve = 0\<rparr>"
  by (rule NetPacket_roundtrip) (simp add: wf_NetPacket_def)

text \<open>
  The serialiser swaps the bytes twice on a little-endian host: the wire order
  is the byte order of the sender, not network order as the comments say, so a big-endian
  receiver reads every integer of a little-endian sender's header byte-reversed.
\<close>

theorem NetPacket_cross_endian:
  assumes "wf_NetPacket p"
  shows "CharToNetPacket False (NetPacketToChar True p @ rest) =
     Inr (p\<lparr>np_version := bswap32 (np_version p), np_type := bswap32 (np_type p),
       np_datalen := bswap32 (np_datalen p), np_reserve := bswap32 (np_reserve p)\<rparr>)
   \<and> CharToNetPacket True (NetPacketToChar False p @ rest) =
     Inr (p\<lparr>np_version := bswap32 (np_version p), np_type := bswap32 (np_type p),
       np_datalen := bswap32 (np_datalen p), np_reserve := bswap32 (np_reserve p)\<rparr>)"
  using assms by (simp add: CharToNetPacket_NetPacketToChar_gen htonl_def ntohl_def)

theorem NetPacket_cross_endian_witness:
  "CharToNetPacket False (NetPacketToChar True \<lparr>np_version = 1, np_header = 1, np_tail = 2,
      np_check = replicate 16 7, np_type = 0x11223344, np_datalen = 4, np_reserve = 0\<rparr> @ [])
   = Inr \<lparr>np_version = 0x01000000, np_header = 1, np_tail = 2,
      np_check = replicate 16 7, np_type = 0x44332211, np_datalen = 0x04000000, np_reserve = 0\<rparr>"
  using NetPacket_cross_endian [of "\<lparr>np_version = 1, np_header = 1, np_tail = 2,
      np_check = replicate 16 7, np_type = 0x11223344, np_datalen = 4, np_reserve = 0\<rparr>" "[]"]
  by (simp add: wf_NetPacket_def bswap32_def)

text \<open>
  \<open>CharToInt64\<close> recovers a 64-bit value that \<open>Int64ToChar\<close> wrote exactly
  when bit 31 of its network-order form is clear: otherwise the fifth byte is sign-extended
  by its 32-bit shift and \<open>2 ^ 32\<close> is lost from the value.
\<close>

theorem Int64_roundtrip_iff:
  "CharToInt64 le (Int64ToChar le x @ rest) = Inr x \<longleftrightarrow> \<not> bit (htonll2 le x) 31"
proof -
  have "ntohll2 le y = x \<longleftrightarrow> y = htonll2 le x" for y
    by (metis ntohll2_htonll2 htonll2_ntohll2)
  then show ?thesis by (simp add: CharToInt64_Int64ToChar)
qed

end
