(* ===== verification/Fifo_Spec.thy ===== *)
theory Fifo_Spec
  imports Relay_Prelude
begin

text \<open>
  The contract of a bounded byte queue, as the TCP client relies on it
  (\<open>m_buferWrite\<close> of \<open>src/src/simple_uv/tcpclient.h\<close>): what \<open>write\<close> accepts is
  appended to the contents, \<open>read\<close> takes a prefix of them, and neither leaves the defined
  behaviour of the language. The laws are stated as a locale; the theory of the circular
  buffer interprets it.
\<close>

section \<open>Operations and their runs\<close>

datatype 'a fifo_op = Fifo_Write "'a list" | Fifo_Read nat

text \<open>
  Running a sequence of operations: the state reached, the elements accepted by the writes
  and the elements returned by the reads, in order.
\<close>

fun fifo_run ::
  "('q \<Rightarrow> 'a list \<Rightarrow> int \<Rightarrow> ('q \<times> int) outcome) \<Rightarrow> ('q \<Rightarrow> int \<Rightarrow> ('q \<times> 'a list) outcome) \<Rightarrow>
   'q \<Rightarrow> 'a fifo_op list \<Rightarrow> ('q \<times> 'a list \<times> 'a list) outcome" where
  "fifo_run wr rd q [] = Inr (q, [], [])"
| "fifo_run wr rd q (Fifo_Write xs # ops) =
     bind_outcome (wr q xs (int (length xs))) (\<lambda>(q', n).
       map_outcome (\<lambda>(q'', ins, outs). (q'', take (nat n) xs @ ins, outs))
         (fifo_run wr rd q' ops))"
| "fifo_run wr rd q (Fifo_Read k # ops) =
     bind_outcome (rd q (int k)) (\<lambda>(q', ys).
       map_outcome (\<lambda>(q'', ins, outs). (q'', ins, ys @ outs)) (fifo_run wr rd q' ops))"

section \<open>The contract\<close>

locale bounded_fifo =
  fixes wr :: "'q \<Rightarrow> 'a list \<Rightarrow> int \<Rightarrow> ('q \<times> int) outcome"
    and rd :: "'q \<Rightarrow> int \<Rightarrow> ('q \<times> 'a list) outcome"
    and contents :: "'q \<Rightarrow> 'a list"
    and cap :: "'q \<Rightarrow> nat"
    and inv :: "'q \<Rightarrow> bool"
  assumes bounded: "inv q \<Longrightarrow> length (contents q) \<le> cap q"
    and write_law: "\<lbrakk>inv q; nat n \<le> length xs; k = min (nat n) (cap q - length (contents q))\<rbrakk> \<Longrightarrow>
      \<exists>q'. wr q xs n = Inr (q', int k) \<and> inv q' \<and> cap q' = cap q
        \<and> contents q' = contents q @ take k xs"
    and read_law: "\<lbrakk>inv q; k = nat n\<rbrakk> \<Longrightarrow>
      \<exists>q'. rd q n = Inr (q', take k (contents q)) \<and> inv q' \<and> cap q' = cap q
        \<and> contents q' = drop k (contents q)"
begin

lemma write_total:
  assumes "inv q" "nat n \<le> length xs"
  obtains q' where "wr q xs n = Inr (q', int (min (nat n) (cap q - length (contents q))))"
    "inv q'" "cap q' = cap q"
    "contents q' = contents q @ take (min (nat n) (cap q - length (contents q))) xs"
  using write_law [OF assms refl] by blast

lemma read_total:
  assumes "inv q"
  obtains q' where "rd q n = Inr (q', take (nat n) (contents q))" "inv q'" "cap q' = cap q"
    "contents q' = drop (nat n) (contents q)"
  using read_law [OF assms refl] by blast

lemma run_fifo:
  assumes "inv q"
  shows "\<exists>q' ins outs. fifo_run wr rd q ops = Inr (q', ins, outs) \<and> inv q' \<and> cap q' = cap q
     \<and> contents q @ ins = outs @ contents q'"
  using assms
proof (induction ops arbitrary: q)
  case (Cons a ops)
  show ?case
  proof (cases a)
    case (Fifo_Write xs)
    obtain q1 where q1: "wr q xs (int (length xs)) =
        Inr (q1, int (min (nat (int (length xs))) (cap q - length (contents q))))"
      "inv q1" "cap q1 = cap q"
      "contents q1 = contents q @ take (min (nat (int (length xs))) (cap q - length (contents q))) xs"
      using Cons.prems by (rule write_total [of q "int (length xs)" xs]) simp
    from Cons.IH [OF \<open>inv q1\<close>] obtain q2 ins outs where
      "fifo_run wr rd q1 ops = Inr (q2, ins, outs)" "inv q2" "cap q2 = cap q1"
      "contents q1 @ ins = outs @ contents q2"
      by blast
    with q1 Fifo_Write show ?thesis by auto
  next
    case (Fifo_Read k)
    obtain q1 where "rd q (int k) = Inr (q1, take (nat (int k)) (contents q))" "inv q1"
      "cap q1 = cap q" "contents q1 = drop (nat (int k)) (contents q)"
      using Cons.prems by (rule read_total)
    moreover from Cons.IH [OF \<open>inv q1\<close>] obtain q2 ins outs where
      "fifo_run wr rd q1 ops = Inr (q2, ins, outs)" "inv q2" "cap q2 = cap q1"
      "contents q1 @ ins = outs @ contents q2"
      by blast
    ultimately show ?thesis
      using Fifo_Read by (auto simp: append_take_drop_id simp flip: append_assoc)
        (metis append.assoc append_take_drop_id)
  qed
qed simp

end

end
