(* ===== verification/Circular_Buffer.thy ===== *)
theory Circular_Buffer
  imports Fifo_Spec
begin

text \<open>
  \<open>CPodCircularBuffer\<close> of \<open>src/src/simple_uv/PodCircularBuffer.h\<close>: an array used as
  a ring, with a read and a write position and two flags that tell the empty ring from the
  full one. A \<open>memcpy\<close> that leaves the array or the caller's buffer, and a failed
  \<open>assert\<close>, are faults. The buffer refines a bounded queue: \<open>cb_contents\<close> is the
  sequence of unread elements.
\<close>

section \<open>State and operations\<close>

record 'a circular_buffer =
  m_pBuf :: "'a list"
  m_nBufSize :: nat
  m_nReadPos :: nat
  m_nWritePos :: nat
  m_bEmpty :: bool
  m_bFull :: bool

text \<open>The constructor: the array of \<open>new T[capacity]\<close> holds arbitrary elements.\<close>

definition cb_new :: "'a list \<Rightarrow> 'a circular_buffer" where
  "cb_new raw = \<lparr>m_pBuf = raw, m_nBufSize = length raw, m_nReadPos = 0, m_nWritePos = 0,
     m_bEmpty = True, m_bFull = False\<rparr>"

definition cb_clear :: "'a circular_buffer \<Rightarrow> 'a circular_buffer" where
  "cb_clear cb = cb\<lparr>m_nReadPos := 0, m_nWritePos := 0, m_bEmpty := True, m_bFull := False\<rparr>"

definition cb_size :: "'a circular_buffer \<Rightarrow> nat" where
  "cb_size cb =
     (if m_bEmpty cb then 0
      else if m_bFull cb then m_nBufSize cb
      else if m_nReadPos cb < m_nWritePos cb then m_nWritePos cb - m_nReadPos cb
      else m_nBufSize cb - m_nReadPos cb + m_nWritePos cb)"

text \<open>\<open>memcpy(&dst[pos], src, n * sizeof(T))\<close>, and the read of \<open>n\<close> elements at a position.\<close>

definition blit :: "'a list \<Rightarrow> nat \<Rightarrow> 'a list \<Rightarrow> nat \<Rightarrow> 'a list outcome" where
  "blit dst pos src n =
     (if pos + n \<le> length dst \<and> n \<le> length src
      then Inr (take pos dst @ take n src @ drop (pos + n) dst)
      else Inl Out_Of_Bounds)"

definition slice_at :: "'a list \<Rightarrow> nat \<Rightarrow> nat \<Rightarrow> 'a list outcome" where
  "slice_at src pos n =
     (if pos + n \<le> length src then Inr (take n (drop pos src)) else Inl Out_Of_Bounds)"

definition check_assert :: "bool \<Rightarrow> 'b \<Rightarrow> 'b outcome" where
  "check_assert b x = (if b then Inr x else Inl Assertion_Failed)"

text \<open>The two \<open>assert\<close>s on the positions.\<close>

definition positions_ok :: "'a circular_buffer \<Rightarrow> bool" where
  "positions_ok cb \<longleftrightarrow> m_nReadPos cb \<le> m_nBufSize cb \<and> m_nWritePos cb \<le> m_nBufSize cb"

definition cb_write ::
  "'a circular_buffer \<Rightarrow> 'a list \<Rightarrow> int \<Rightarrow> ('a circular_buffer \<times> int) outcome" where
  "cb_write cb0 buf count0 =
     (if count0 \<le> 0 then Inr (cb0, 0)
      else if m_bFull cb0 then Inr (cb0, 0)
      else
        let cb = cb0\<lparr>m_bEmpty := False\<rparr>; count = nat count0;
            r = m_nReadPos cb; w = m_nWritePos cb in
        if r = w then
          let leftcount = m_nBufSize cb - w in
          if leftcount > count then
            map_outcome (\<lambda>b. (cb\<lparr>m_pBuf := b, m_nWritePos := w + count\<rparr>, int count))
              (blit (m_pBuf cb) w buf count)
          else
            bind_outcome (blit (m_pBuf cb) w buf leftcount) (\<lambda>b.
              let w' = (if r > count - leftcount then count - leftcount else w) in
              map_outcome (\<lambda>b'. (cb\<lparr>m_pBuf := b', m_nWritePos := w', m_bFull := (w' = r)\<rparr>,
                  int (leftcount + w')))
                (blit b 0 (drop leftcount buf) w'))
        else if r < w then
          let leftcount = m_nBufSize cb - w in
          if leftcount > count then
            bind_outcome (blit (m_pBuf cb) w buf count) (\<lambda>b.
              let cb' = cb\<lparr>m_pBuf := b, m_nWritePos := w + count, m_bFull := (r = w + count)\<rparr> in
              check_assert (positions_ok cb') (cb', int count))
          else
            bind_outcome (blit (m_pBuf cb) w buf leftcount) (\<lambda>b.
              let w' = (if r \<ge> count - leftcount then count - leftcount else r) in
              bind_outcome (blit b 0 (drop leftcount buf) w') (\<lambda>b'.
                let cb' = cb\<lparr>m_pBuf := b', m_nWritePos := w', m_bFull := (r = w')\<rparr> in
                check_assert (positions_ok cb') (cb', int (leftcount + w'))))
        else
          let leftcount = r - w in
          if leftcount > count then
            bind_outcome (blit (m_pBuf cb) w buf count) (\<lambda>b.
              let cb' = cb\<lparr>m_pBuf := b, m_nWritePos := w + count, m_bFull := (r = w + count)\<rparr> in
              check_assert (positions_ok cb') (cb', int count))
          else
            bind_outcome (blit (m_pBuf cb) w buf leftcount) (\<lambda>b.
              let cb' = cb\<lparr>m_pBuf := b, m_nWritePos := w + leftcount,
                           m_bFull := (r = w + leftcount)\<rparr> in
              check_assert (m_bFull cb' \<and> positions_ok cb') (cb', int leftcount)))"

text \<open>
  \<open>read\<close>: the elements it copies into the caller's buffer (their number is its return
  value; the caller's buffer has room for \<open>count\<close> elements).
\<close>

definition cb_read ::
  "'a circular_buffer \<Rightarrow> int \<Rightarrow> ('a circular_buffer \<times> 'a list) outcome" where
  "cb_read cb0 count0 =
     (if count0 \<le> 0 then Inr (cb0, [])
      else if m_bEmpty cb0 then Inr (cb0, [])
      else
        let cb = cb0\<lparr>m_bFull := False\<rparr>; count = nat count0;
            r = m_nReadPos cb; w = m_nWritePos cb in
        if r = w then
          let leftcount = m_nBufSize cb - r in
          if leftcount > count then
            map_outcome (\<lambda>xs. (cb\<lparr>m_nReadPos := r + count, m_bEmpty := (r + count = w)\<rparr>, xs))
              (slice_at (m_pBuf cb) r count)
          else
            bind_outcome (slice_at (m_pBuf cb) r leftcount) (\<lambda>xs.
              let r' = (if w > count - leftcount then count - leftcount else w) in
              map_outcome (\<lambda>ys. (cb\<lparr>m_nReadPos := r', m_bEmpty := (r' = w)\<rparr>, xs @ ys))
                (slice_at (m_pBuf cb) 0 r'))
        else if r < w then
          let leftcount = w - r; c = (if leftcount > count then count else leftcount) in
          bind_outcome (slice_at (m_pBuf cb) r c) (\<lambda>xs.
            let cb' = cb\<lparr>m_nReadPos := r + c, m_bEmpty := (r + c = w)\<rparr> in
            check_assert (positions_ok cb') (cb', xs))
        else
          let leftcount = m_nBufSize cb - r in
          if leftcount > count then
            bind_outcome (slice_at (m_pBuf cb) r count) (\<lambda>xs.
              let cb' = cb\<lparr>m_nReadPos := r + count, m_bEmpty := (r + count = w)\<rparr> in
              check_assert (positions_ok cb') (cb', xs))
          else
            bind_outcome (slice_at (m_pBuf cb) r leftcount) (\<lambda>xs.
              let r' = (if w \<ge> count - leftcount then count - leftcount else w) in
              bind_outcome (slice_at (m_pBuf cb) 0 r') (\<lambda>ys.
                let cb' = cb\<lparr>m_nReadPos := r', m_bEmpty := (r' = w)\<rparr> in
                check_assert (positions_ok cb') (cb', xs @ ys))))"

section \<open>Invariant and abstraction\<close>

definition cb_inv :: "'a circular_buffer \<Rightarrow> bool" where
  "cb_inv cb \<longleftrightarrow> length (m_pBuf cb) = m_nBufSize cb \<and> m_nReadPos cb < m_nBufSize cb
     \<and> m_nWritePos cb < m_nBufSize cb \<and> \<not> (m_bEmpty cb \<and> m_bFull cb)
     \<and> (m_nReadPos cb = m_nWritePos cb \<longleftrightarrow> m_bEmpty cb \<or> m_bFull cb)"

definition cb_contents :: "'a circular_buffer \<Rightarrow> 'a list" where
  "cb_contents cb =
     (let r = m_nReadPos cb; w = m_nWritePos cb in
      if m_bEmpty cb then []
      else if r < w then take (w - r) (drop r (m_pBuf cb))
      else drop r (m_pBuf cb) @ take w (m_pBuf cb))"

lemmas cb_defs = cb_inv_def cb_contents_def positions_ok_def check_assert_def blit_def slice_at_def

lemma cb_inv_new: "raw \<noteq> [] \<Longrightarrow> cb_inv (cb_new raw) \<and> cb_contents (cb_new raw) = []"
  by (simp add: cb_defs cb_new_def)

lemma cb_inv_clear: "cb_inv cb \<Longrightarrow> cb_inv (cb_clear cb) \<and> cb_contents (cb_clear cb) = []"
  by (auto simp: cb_defs cb_clear_def)

lemma length_cb_contents: "cb_inv cb \<Longrightarrow> length (cb_contents cb) = cb_size cb"
  by (auto simp: cb_defs cb_size_def Let_def)

lemma cb_size_bound: "cb_inv cb \<Longrightarrow> cb_size cb \<le> m_nBufSize cb"
  by (auto simp: cb_defs cb_size_def)

text \<open>The array after a \<open>memcpy\<close> of \<open>n\<close> elements to position \<open>p\<close>, read piecewise.\<close>

definition patch :: "'a list \<Rightarrow> nat \<Rightarrow> 'a list \<Rightarrow> nat \<Rightarrow> 'a list" where
  "patch dst p src n = take p dst @ take n src @ drop (p + n) dst"

lemma blit_patch:
  "p + n \<le> length dst \<Longrightarrow> n \<le> length src \<Longrightarrow> blit dst p src n = Inr (patch dst p src n)"
  by (simp add: blit_def patch_def)

lemma length_patch [simp]:
  "p + n \<le> length dst \<Longrightarrow> n \<le> length src \<Longrightarrow> length (patch dst p src n) = length dst"
  by (simp add: patch_def)

lemma take_patch [simp]:
  "k \<le> p \<Longrightarrow> p \<le> length dst \<Longrightarrow> take k (patch dst p src n) = take k dst"
  by (simp add: patch_def min_def)

lemma drop_patch [simp]:
  "p + n \<le> k \<Longrightarrow> p + n \<le> length dst \<Longrightarrow> n \<le> length src \<Longrightarrow> drop k (patch dst p src n) = drop k dst"
  by (simp add: patch_def)

lemma drop_patch_below:
  "r \<le> p \<Longrightarrow> p + n \<le> length dst \<Longrightarrow> n \<le> length src \<Longrightarrow>
   drop r (patch dst p src n) = take (p - r) (drop r dst) @ take n src @ drop (p + n) dst"
  by (simp add: patch_def drop_take)

lemma take_patch_end:
  "p + n \<le> length dst \<Longrightarrow> n \<le> length src \<Longrightarrow> take (p + n) (patch dst p src n) = take p dst @ take n src"
  by (simp add: patch_def)

lemma cb_write_empty:
  assumes inv: "cb_inv cb" and len: "nat n \<le> length xs" and "0 < n" and e: "m_bEmpty cb"
    and k: "k = min (nat n) (m_nBufSize cb - length (cb_contents cb))"
  shows "\<exists>cb'. cb_write cb xs n = Inr (cb', int k) \<and> cb_inv cb' \<and> m_nBufSize cb' = m_nBufSize cb
     \<and> cb_contents cb' = cb_contents cb @ take k xs"
proof -
  define c where "c = nat n"
  obtain B S p where cb: "cb = \<lparr>m_pBuf = B, m_nBufSize = S, m_nReadPos = p, m_nWritePos = p,
      m_bEmpty = True, m_bFull = False\<rparr>" and B: "length B = S" and p: "p < S"
    using inv e by (cases cb) (auto simp: cb_inv_def)
  have k': "k = min c S" and c: "n = int c" "0 < c" "c \<le> length xs"
    using k len \<open>0 < n\<close> by (auto simp: c_def cb cb_contents_def)
  show ?thesis
  proof (cases "c < S - p")
    case True
    then have "k = c" "p + c < S" using k' by simp_all
    with True c B p show ?thesis
      by (simp add: cb cb_write_def Let_def blit_patch cb_inv_def cb_contents_def
          drop_patch_below)
  next
    case False
    define w' where "w' = (if p > c - (S - p) then c - (S - p) else p)"
    have w': "w' \<le> p" "w' \<le> c - (S - p)" "k = (S - p) + w'" using False p k' by (auto simp: w'_def)
    define D where "D = patch (patch B p xs (S - p)) 0 (drop (S - p) xs) w'"
    have D: "length D = S" "drop p D = take (S - p) xs" "take w' D = take w' (drop (S - p) xs)"
      using w' False B p c take_patch_end [of 0 w' "patch B p xs (S - p)" "drop (S - p) xs"]
      by (auto simp: D_def drop_patch_below)
    have "cb_write cb xs n = Inr (cb\<lparr>m_bEmpty := False, m_pBuf := D, m_nWritePos := w',
        m_bFull := (w' = p)\<rparr>, int k)"
      using False c B p w'(3) by (simp add: cb cb_write_def Let_def blit_patch D_def w'_def)
    moreover have "take k xs = take (S - p) xs @ take w' (drop (S - p) xs)"
      by (simp only: w'(3) take_add)
    ultimately show ?thesis
      using D w'(1) p by (auto simp: cb cb_inv_def cb_contents_def)
  qed
qed

lemma cb_write_linear:
  assumes inv: "cb_inv cb" and len: "nat n \<le> length xs" and "0 < n"
    and rw: "m_nReadPos cb < m_nWritePos cb"
    and k: "k = min (nat n) (m_nBufSize cb - length (cb_contents cb))"
  shows "\<exists>cb'. cb_write cb xs n = Inr (cb', int k) \<and> cb_inv cb' \<and> m_nBufSize cb' = m_nBufSize cb
     \<and> cb_contents cb' = cb_contents cb @ take k xs"
proof -
  define c where "c = nat n"
  obtain B S r w where cb: "cb = \<lparr>m_pBuf = B, m_nBufSize = S, m_nReadPos = r, m_nWritePos = w,
      m_bEmpty = False, m_bFull = False\<rparr>" and B: "length B = S" and p: "w < S" "r < w"
    using inv rw by (cases cb) (auto simp: cb_inv_def)
  have k': "k = min c (S - (w - r))" and c: "n = int c" "0 < c" "c \<le> length xs"
    using k len \<open>0 < n\<close> p B by (auto simp: c_def cb cb_contents_def Let_def)
  show ?thesis
  proof (cases "c < S - w")
    case True
    then have "k = c" "w + c < S" using k' p by simp_all
    with True c B p show ?thesis
      by (simp add: cb cb_write_def Let_def blit_patch cb_inv_def cb_contents_def
          drop_patch_below check_assert_def positions_ok_def)
  next
    case False
    define w' where "w' = (if r \<ge> c - (S - w) then c - (S - w) else r)"
    have w': "w' \<le> r" "w' \<le> c - (S - w)" "k = (S - w) + w'" using False p k' by (auto simp: w'_def)
    define D where "D = patch (patch B w xs (S - w)) 0 (drop (S - w) xs) w'"
    have D: "length D = S" "drop r D = take (w - r) (drop r B) @ take (S - w) xs"
      "take w' D = take w' (drop (S - w) xs)"
      using w' False B p c take_patch_end [of 0 w' "patch B w xs (S - w)" "drop (S - w) xs"]
      by (auto simp: D_def drop_patch_below)
    have "cb_write cb xs n = Inr (cb\<lparr>m_pBuf := D, m_nWritePos := w', m_bFull := (r = w')\<rparr>, int k)"
      using False c B p w'(3)
      by (simp add: cb cb_write_def Let_def blit_patch D_def w'_def check_assert_def positions_ok_def)
    moreover have "take k xs = take (S - w) xs @ take w' (drop (S - w) xs)"
      by (simp only: w'(3) take_add)
    ultimately show ?thesis
      using D w'(1) p by (auto simp: cb cb_inv_def cb_contents_def)
  qed
qed

lemma cb_write_wrapped:
  assumes inv: "cb_inv cb" and len: "nat n \<le> length xs" and "0 < n"
    and rw: "m_nWritePos cb < m_nReadPos cb"
    and k: "k = min (nat n) (m_nBufSize cb - length (cb_contents cb))"
  shows "\<exists>cb'. cb_write cb xs n = Inr (cb', int k) \<and> cb_inv cb' \<and> m_nBufSize cb' = m_nBufSize cb
     \<and> cb_contents cb' = cb_contents cb @ take k xs"
proof -
  define c where "c = nat n"
  obtain B S r w where cb: "cb = \<lparr>m_pBuf = B, m_nBufSize = S, m_nReadPos = r, m_nWritePos = w,
      m_bEmpty = False, m_bFull = False\<rparr>" and B: "length B = S" and p: "r < S" "w < r"
    using inv rw by (cases cb) (auto simp: cb_inv_def)
  have k': "k = min c (r - w)" and c: "n = int c" "0 < c" "c \<le> length xs"
    using k len \<open>0 < n\<close> p B by (auto simp: c_def cb cb_contents_def Let_def)
  have k1: "0 < k" "w + k \<le> r" "k \<le> length xs" using k' c p by auto
  let ?cb = "cb\<lparr>m_pBuf := patch B w xs k, m_nWritePos := w + k, m_bFull := (r = w + k)\<rparr>"
  have "cb_write cb xs n = Inr (?cb, int k)"
    using c B p k'
    by (cases "c < r - w")
      (simp_all add: cb cb_write_def Let_def blit_patch check_assert_def positions_ok_def)
  moreover have "cb_inv ?cb" "cb_contents ?cb = cb_contents cb @ take k xs"
    using k1 B p by (auto simp: cb cb_inv_def cb_contents_def Let_def take_patch_end)
  ultimately show ?thesis by auto
qed

lemma cb_write_law:
  assumes inv: "cb_inv cb" and len: "nat n \<le> length xs"
    and k: "k = min (nat n) (m_nBufSize cb - length (cb_contents cb))"
  shows "\<exists>cb'. cb_write cb xs n = Inr (cb', int k) \<and> cb_inv cb' \<and> m_nBufSize cb' = m_nBufSize cb
     \<and> cb_contents cb' = cb_contents cb @ take k xs"
proof -
  consider "n \<le> 0" | "0 < n" "m_bFull cb" | "0 < n" "m_bEmpty cb"
    | "0 < n" "m_nReadPos cb < m_nWritePos cb" | "0 < n" "m_nWritePos cb < m_nReadPos cb"
    using inv by (fastforce simp: cb_inv_def)
  then show ?thesis
  proof cases
    case 1
    with inv k show ?thesis by (simp add: cb_write_def)
  next
    case 2
    with inv have "length (cb_contents cb) = m_nBufSize cb"
      by (auto simp: length_cb_contents cb_size_def cb_inv_def)
    with 2 inv k show ?thesis by (simp add: cb_write_def)
  qed (use assms cb_write_empty cb_write_linear cb_write_wrapped in blast)+
qed

lemma cb_read_law:
  assumes inv: "cb_inv cb" and k: "k = nat n"
  shows "\<exists>cb'. cb_read cb n = Inr (cb', take k (cb_contents cb)) \<and> cb_inv cb'
     \<and> m_nBufSize cb' = m_nBufSize cb \<and> cb_contents cb' = drop k (cb_contents cb)"
proof -
  obtain B S r w e f where cb: "cb = \<lparr>m_pBuf = B, m_nBufSize = S, m_nReadPos = r, m_nWritePos = w,
      m_bEmpty = e, m_bFull = f\<rparr>"
    by (cases cb) auto
  note i = inv [unfolded cb cb_inv_def, simplified]
  consider "n \<le> 0 \<or> e" | "0 < n" "\<not> e" "r < w" | "0 < n" "\<not> e" "w \<le> r" by linarith
  then show ?thesis
  proof cases
    case 1
    with inv k show ?thesis by (auto simp: cb cb_read_def cb_contents_def)
  next
    case 2
    define c where "c = (if w - r > k then k else w - r)"
    have c: "0 < c" "c \<le> w - r" "take k (take (w - r) (drop r B)) = take c (drop r B)"
      "drop k (take (w - r) (drop r B)) = take (w - (r + c)) (drop (r + c) B)"
      using 2 k by (auto simp: c_def min_def drop_take add.commute)
    have rc: "r + c \<le> S" using c(2) i 2 by auto
    have "cb_read cb n = Inr (cb\<lparr>m_bFull := False, m_nReadPos := r + c,
        m_bEmpty := (r + c = w)\<rparr>, take c (drop r B))"
      using 2 i rc k by (cases "k < w - r")
        (simp_all add: cb cb_read_def Let_def slice_at_def check_assert_def positions_ok_def c_def)
    with c i 2 show ?thesis
      by (auto simp: cb cb_inv_def cb_contents_def Let_def)
  next
    case 3
    show ?thesis
    proof (cases "k < S - r")
      case True
      then have "cb_read cb n = Inr (cb\<lparr>m_bFull := False, m_nReadPos := r + k,
          m_bEmpty := (r + k = w)\<rparr>, take k (drop r B))"
        using 3 i by (auto simp: cb cb_read_def Let_def slice_at_def check_assert_def
            positions_ok_def k)
      with True 3 i k show ?thesis
        by (auto simp: cb cb_inv_def cb_contents_def Let_def add.commute)
    next
      case False
      define r' where "r' = (if w \<ge> k - (S - r) then k - (S - r) else w)"
      have r': "r' \<le> w" "r' \<le> k - (S - r)"
        "take k (drop r B @ take w B) = drop r B @ take r' B"
        "drop k (drop r B @ take w B) = take (w - r') (drop r' B)"
        using False 3 i by (auto simp: r'_def min_def drop_take)
      have "cb_read cb n = Inr (cb\<lparr>m_bFull := False, m_nReadPos := r',
          m_bEmpty := (r' = w)\<rparr>, drop r B @ take r' B)"
        using 3 i False by (auto simp: cb cb_read_def Let_def slice_at_def check_assert_def
            positions_ok_def k r'_def)
      with r' 3 i show ?thesis
        by (auto simp: cb cb_inv_def cb_contents_def Let_def)
    qed
  qed
qed

section \<open>The ring implements the bounded queue\<close>

interpretation ring: bounded_fifo cb_write cb_read cb_contents m_nBufSize cb_inv
proof unfold_locales
  show "length (cb_contents q) \<le> m_nBufSize q" if "cb_inv q" for q :: "'a circular_buffer"
    using that by (simp add: length_cb_contents cb_size_bound)
qed (rule cb_write_law cb_read_law; assumption)+

section \<open>Properties\<close>

text \<open>
  \<open>write\<close> never faults on a well-formed ring: it accepts as many of the
  \<open>count\<close> elements as there is room for, returns that number and appends them to the
  unread elements, in order.
\<close>

theorem cb_write_refines:
  assumes "cb_inv cb" and "nat count \<le> length buf"
  shows "\<exists>cb'. cb_write cb buf count =
      Inr (cb', int (min (nat count) (m_nBufSize cb - length (cb_contents cb))))
    \<and> cb_inv cb' \<and> m_nBufSize cb' = m_nBufSize cb
    \<and> cb_contents cb' = cb_contents cb @ take (m_nBufSize cb - length (cb_contents cb)) (take (nat count) buf)"
proof -
  obtain cb' where "cb_write cb buf count =
      Inr (cb', int (min (nat count) (m_nBufSize cb - length (cb_contents cb))))"
    "cb_inv cb'" "m_nBufSize cb' = m_nBufSize cb"
    "cb_contents cb' = cb_contents cb @ take (min (nat count) (m_nBufSize cb - length (cb_contents cb))) buf"
    using assms by (rule ring.write_total)
  then show ?thesis by (simp add: min.commute)
qed

theorem cb_write_refines_witness:
  "\<exists>cb'. cb_write \<lparr>m_pBuf = [1, 2, 3, 4::nat], m_nBufSize = 4, m_nReadPos = 3, m_nWritePos = 1,
        m_bEmpty = False, m_bFull = False\<rparr> [7, 8, 9] 3 = Inr (cb', 2)
     \<and> cb_contents cb' = [4, 1, 7, 8]"
  using cb_write_refines [of "\<lparr>m_pBuf = [1, 2, 3, 4::nat], m_nBufSize = 4, m_nReadPos = 3,
        m_nWritePos = 1, m_bEmpty = False, m_bFull = False\<rparr>" 3 "[7, 8, 9]"]
  by (auto simp: cb_inv_def cb_contents_def numeral_eq_Suc)

text \<open>
  \<open>read\<close> never faults on a well-formed ring: it returns the oldest
  \<open>count\<close> unread elements (all of them if there are fewer) and leaves the rest unread.
\<close>

theorem cb_read_refines:
  assumes "cb_inv cb"
  shows "\<exists>cb'. cb_read cb count = Inr (cb', take (nat count) (cb_contents cb)) \<and> cb_inv cb'
    \<and> m_nBufSize cb' = m_nBufSize cb \<and> cb_contents cb' = drop (nat count) (cb_contents cb)"
  using assms by (rule ring.read_total) blast

theorem cb_read_refines_witness:
  "\<exists>cb'. cb_read \<lparr>m_pBuf = [1, 2, 3, 4::nat], m_nBufSize = 4, m_nReadPos = 3, m_nWritePos = 1,
        m_bEmpty = False, m_bFull = False\<rparr> 5 = Inr (cb', [4, 1]) \<and> cb_contents cb' = []"
  using cb_read_refines [of "\<lparr>m_pBuf = [1, 2, 3, 4::nat], m_nBufSize = 4, m_nReadPos = 3,
        m_nWritePos = 1, m_bEmpty = False, m_bFull = False\<rparr>" 5]
  by (auto simp: cb_inv_def cb_contents_def)

text \<open>
  Property C24. Over any sequence of writes and reads from a new ring of positive capacity no
  operation faults, and the elements accepted by the writes are exactly the elements
  returned by the reads followed by the elements still unread: nothing is lost, duplicated
  or reordered.
\<close>

theorem cb_fifo:
  assumes "raw \<noteq> []"
  shows "\<exists>cb ins outs. fifo_run cb_write cb_read (cb_new raw) ops = Inr (cb, ins, outs)
    \<and> cb_inv cb \<and> ins = outs @ cb_contents cb"
  using ring.run_fifo [of "cb_new raw" ops] cb_inv_new [OF assms] by auto

theorem cb_fifo_witness:
  "\<exists>cb. fifo_run cb_write cb_read (cb_new [0, 0, 0::nat])
     [Fifo_Write [1, 2], Fifo_Read 1, Fifo_Write [3, 4, 5], Fifo_Read 2]
     = Inr (cb, [1, 2, 3, 4], [1, 2, 3]) \<and> cb_contents cb = [4]"
proof -
  obtain cb ins outs where r: "fifo_run cb_write cb_read (cb_new [0, 0, 0::nat])
     [Fifo_Write [1, 2], Fifo_Read 1, Fifo_Write [3, 4, 5], Fifo_Read 2] = Inr (cb, ins, outs)"
    and c: "ins = outs @ cb_contents cb"
    using cb_fifo [of "[0, 0, 0::nat]"
        "[Fifo_Write [1, 2], Fifo_Read 1, Fifo_Write [3, 4, 5], Fifo_Read 2]"] by auto
  from r have "ins = [1, 2, 3, 4]" "outs = [1, 2, 3]"
    by (auto simp: cb_new_def cb_write_def cb_read_def Let_def blit_def slice_at_def
        check_assert_def positions_ok_def numeral_eq_Suc)
  with r c show ?thesis by auto
qed

end
