(* ===== verification/Md5.thy ===== *)
theory Md5
  imports Relay_Prelude
begin

text \<open>
  The MD5 digest of the packet payloads (\<open>simple_uv/md5.cpp\<close>, \<open>md5.h\<close>): a 64-bit-register
  version of the RSA reference code. The first half translates it, with the 32-bit fields of
  \<open>MD5_CTX\<close>, the 64-bit \<open>unsigned long\<close> registers of the block function (whose upper halves
  hold garbage between the rounds) and the buffering of partial blocks. The second half
  states the digest as RFC 1321 does, on 32-bit words and a padded message, and proves that
  the buffered implementation computes it for every way of cutting the message into updates.
\<close>

unbundle bit_operations_syntax

section \<open>The block function\<close>

definition ROTATE :: "u64 \<Rightarrow> nat \<Rightarrow> u64" where
  "ROTATE a n = push_bit n a OR drop_bit (32 - n) (a AND 0xffffffff)"

definition HOST_c2l :: "bytes \<Rightarrow> u64" where
  "HOST_c2l c = ucast (c ! 0) OR push_bit 8 (ucast (c ! 1)) OR push_bit 16 (ucast (c ! 2))
     OR push_bit 24 (ucast (c ! 3))"

definition HOST_l2c :: "u32 \<Rightarrow> bytes" where
  "HOST_l2c l = [ucast (l AND 0xff), ucast (drop_bit 8 l AND 0xff),
     ucast (drop_bit 16 l AND 0xff), ucast (drop_bit 24 l AND 0xff)]"

datatype round = R0 | R1 | R2 | R3

text \<open>The macros \<open>F\<close>, \<open>G\<close>, \<open>H\<close> and \<open>I\<close>, by the round macro that uses them.\<close>

fun round_fn :: "round \<Rightarrow> u64 \<Rightarrow> u64 \<Rightarrow> u64 \<Rightarrow> u64" where
  "round_fn R0 b c d = (((c XOR d) AND b) XOR d)"
| "round_fn R1 b c d = (((b XOR c) AND d) XOR c)"
| "round_fn R2 b c d = (b XOR c XOR d)"
| "round_fn R3 b c d = ((NOT d OR b) XOR c)"

text \<open>
  One line \<open>Rr(a, b, c, d, X(x), s, t)\<close> of the block function. The lines take the
  registers in the order A B C D, D A B C, C D A B, B C D A in turn, so the register tuple
  is handed on rotated by one place.
\<close>

fun md5_op :: "u64 list \<Rightarrow> u64 \<times> u64 \<times> u64 \<times> u64 \<Rightarrow> round \<times> nat \<times> nat \<times> u64
    \<Rightarrow> u64 \<times> u64 \<times> u64 \<times> u64" where
  "md5_op X (a, b, c, d) (r, x, s, t) =
     (let a1 = a + (X ! x + t + round_fn r b c d); a2 = ROTATE a1 s in (d, a2 + b, b, c))"

definition md5_ops :: "(round \<times> nat \<times> nat \<times> u64) list" where
  "md5_ops = [
     (R0, 0, 7, 0xd76aa478), (R0, 1, 12, 0xe8c7b756),
     (R0, 2, 17, 0x242070db), (R0, 3, 22, 0xc1bdceee),
     (R0, 4, 7, 0xf57c0faf), (R0, 5, 12, 0x4787c62a),
     (R0, 6, 17, 0xa8304613), (R0, 7, 22, 0xfd469501),
     (R0, 8, 7, 0x698098d8), (R0, 9, 12, 0x8b44f7af),
     (R0, 10, 17, 0xffff5bb1), (R0, 11, 22, 0x895cd7be),
     (R0, 12, 7, 0x6b901122), (R0, 13, 12, 0xfd987193),
     (R0, 14, 17, 0xa679438e), (R0, 15, 22, 0x49b40821),
     (R1, 1, 5, 0xf61e2562), (R1, 6, 9, 0xc040b340),
     (R1, 11, 14, 0x265e5a51), (R1, 0, 20, 0xe9b6c7aa),
     (R1, 5, 5, 0xd62f105d), (R1, 10, 9, 0x02441453),
     (R1, 15, 14, 0xd8a1e681), (R1, 4, 20, 0xe7d3fbc8),
     (R1, 9, 5, 0x21e1cde6), (R1, 14, 9, 0xc33707d6),
     (R1, 3, 14, 0xf4d50d87), (R1, 8, 20, 0x455a14ed),
     (R1, 13, 5, 0xa9e3e905), (R1, 2, 9, 0xfcefa3f8),
     (R1, 7, 14, 0x676f02d9), (R1, 12, 20, 0x8d2a4c8a),
     (R2, 5, 4, 0xfffa3942), (R2, 8, 11, 0x8771f681),
     (R2, 11, 16, 0x6d9d6122), (R2, 14, 23, 0xfde5380c),
     (R2, 1, 4, 0xa4beea44), (R2, 4, 11, 0x4bdecfa9),
     (R2, 7, 16, 0xf6bb4b60), (R2, 10, 23, 0xbebfbc70),
     (R2, 13, 4, 0x289b7ec6), (R2, 0, 11, 0xeaa127fa),
     (R2, 3, 16, 0xd4ef3085), (R2, 6, 23, 0x04881d05),
     (R2, 9, 4, 0xd9d4d039), (R2, 12, 11, 0xe6db99e5),
     (R2, 15, 16, 0x1fa27cf8), (R2, 2, 23, 0xc4ac5665),
     (R3, 0, 6, 0xf4292244), (R3, 7, 10, 0x432aff97),
     (R3, 14, 15, 0xab9423a7), (R3, 5, 21, 0xfc93a039),
     (R3, 12, 6, 0x655b59c3), (R3, 3, 10, 0x8f0ccc92),
     (R3, 10, 15, 0xffeff47d), (R3, 1, 21, 0x85845dd1),
     (R3, 8, 6, 0x6fa87e4f), (R3, 15, 10, 0xfe2ce6e0),
     (R3, 6, 15, 0xa3014314), (R3, 13, 21, 0x4e0811a1),
     (R3, 4, 6, 0xf7537e82), (R3, 11, 10, 0xbd3af235),
     (R3, 2, 15, 0x2ad7d2bb), (R3, 9, 21, 0xeb86d391)]"

record MD5_CTX =
  md_A :: u32
  md_B :: u32
  md_C :: u32
  md_D :: u32
  md_Nl :: u32
  md_Nh :: u32
  md_data :: bytes
  md_num :: nat

definition MD5_CBLOCK :: nat where
  "MD5_CBLOCK = 64"

text \<open>
  One iteration of the loop of \<open>md5_block_data_order\<close>: the sixteen \<open>HOST_c2l\<close> reads, the
  64 lines and the four \<open>A = c->A += A\<close>.
\<close>

definition md5_block :: "MD5_CTX \<Rightarrow> bytes \<Rightarrow> MD5_CTX" where
  "md5_block c block = (
     let X = map (\<lambda>i. HOST_c2l (drop (4 * i) block)) [0..<16];
         (a, b, cc, d) = foldl (md5_op X) (ucast (md_A c), ucast (md_B c), ucast (md_C c), ucast (md_D c)) md5_ops
     in c\<lparr>md_A := ucast (ucast (md_A c) + a), md_B := ucast (ucast (md_B c) + b),
          md_C := ucast (ucast (md_C c) + cc), md_D := ucast (ucast (md_D c) + d)\<rparr>)"

primrec md5_block_data_order :: "MD5_CTX \<Rightarrow> bytes \<Rightarrow> nat \<Rightarrow> MD5_CTX" where
  "md5_block_data_order c dat 0 = c"
| "md5_block_data_order c dat (Suc n) =
     md5_block_data_order (md5_block c (take 64 dat)) (drop 64 dat) n"

section \<open>Buffering\<close>

definition MD5_Init :: MD5_CTX where
  "MD5_Init = \<lparr>md_A = 0x67452301, md_B = 0xefcdab89, md_C = 0x98badcfe, md_D = 0x10325476,
     md_Nl = 0, md_Nh = 0, md_data = replicate 64 0, md_num = 0\<rparr>"

text \<open>\<open>memcpy(p + n, xs, len)\<close> and \<open>memset\<close> on the 64 bytes of the \<open>data\<close> field.\<close>

definition put_bytes :: "bytes \<Rightarrow> nat \<Rightarrow> bytes \<Rightarrow> bytes" where
  "put_bytes p n xs = take n p @ xs @ drop (n + length xs) p"

text \<open>The tail of \<open>MD5_Update\<close>: whole blocks straight from the input, the rest buffered.\<close>

definition MD5_Update_rest :: "MD5_CTX \<Rightarrow> bytes \<Rightarrow> MD5_CTX" where
  "MD5_Update_rest c dat = (
     let n = length dat div MD5_CBLOCK;
         c1 = (if n > 0 then md5_block_data_order c dat n else c);
         dat1 = (if n > 0 then drop (n * MD5_CBLOCK) dat else dat)
     in if length dat1 \<noteq> 0
        then c1\<lparr>md_num := length dat1, md_data := put_bytes (md_data c1) 0 dat1\<rparr>
        else c1)"

definition MD5_Update :: "MD5_CTX \<Rightarrow> bytes \<Rightarrow> MD5_CTX" where
  "MD5_Update c dat = (
     let len = length dat in
     if len = 0 then c
     else
       let l = md_Nl c + push_bit 3 (of_nat len);
           nh = (if l < md_Nl c then md_Nh c + 1 else md_Nh c) + of_nat (len div 2 ^ 29);
           c = c\<lparr>md_Nl := l, md_Nh := nh\<rparr>;
           n = md_num c
       in if n \<noteq> 0 then
            if len \<ge> MD5_CBLOCK \<or> len + n \<ge> MD5_CBLOCK then
              let p = put_bytes (md_data c) n (take (MD5_CBLOCK - n) dat);
                  c = md5_block_data_order (c\<lparr>md_data := p\<rparr>) p 1
              in MD5_Update_rest (c\<lparr>md_num := 0, md_data := replicate 64 0\<rparr>) (drop (MD5_CBLOCK - n) dat)
            else c\<lparr>md_data := put_bytes (md_data c) n dat, md_num := n + len\<rparr>
          else MD5_Update_rest c dat)"

definition MD5_Final :: "MD5_CTX \<Rightarrow> bytes \<times> MD5_CTX" where
  "MD5_Final c = (
     let p = put_bytes (md_data c) (md_num c) [0x80];
         n = md_num c + 1;
         (c, p, n) = (if n > MD5_CBLOCK - 8
            then let p = put_bytes p n (replicate (MD5_CBLOCK - n) 0)
                 in (md5_block_data_order c p 1, p, 0)
            else (c, p, n));
         p = put_bytes p n (replicate (MD5_CBLOCK - 8 - n) 0);
         p = put_bytes p (MD5_CBLOCK - 8) (HOST_l2c (md_Nl c) @ HOST_l2c (md_Nh c));
         c = md5_block_data_order c p 1;
         c = c\<lparr>md_num := 0, md_data := replicate 64 0\<rparr>
     in (HOST_l2c (md_A c) @ HOST_l2c (md_B c) @ HOST_l2c (md_C c) @ HOST_l2c (md_D c), c))"

definition MD5 :: "bytes \<Rightarrow> bytes" where
  "MD5 d = fst (MD5_Final (MD5_Update MD5_Init d))"

section \<open>RFC 1321\<close>

text \<open>The digest as the RFC describes it, on 32-bit words.\<close>

type_synonym chain = "u32 \<times> u32 \<times> u32 \<times> u32"

fun rfc_fn :: "nat \<Rightarrow> u32 \<Rightarrow> u32 \<Rightarrow> u32 \<Rightarrow> u32" where
  "rfc_fn i x y z = (if i < 16 then (x AND y) OR (NOT x AND z)
     else if i < 32 then (x AND z) OR (y AND NOT z)
     else if i < 48 then x XOR y XOR z
     else y XOR (x OR NOT z))"

definition rfc_index :: "nat \<Rightarrow> nat" where
  "rfc_index i = (if i < 16 then i else if i < 32 then (5 * i + 1) mod 16
     else if i < 48 then (3 * i + 5) mod 16 else 7 * i mod 16)"

definition rfc_shift :: "nat \<Rightarrow> nat" where
  "rfc_shift i = [[7,12,17,22],[5,9,14,20],[4,11,16,23],[6,10,15,21]] ! (i div 16) ! (i mod 4)"

definition rfc_const :: "u32 list" where
  "rfc_const = [
     0xd76aa478, 0xe8c7b756, 0x242070db, 0xc1bdceee, 0xf57c0faf, 0x4787c62a,
     0xa8304613, 0xfd469501, 0x698098d8, 0x8b44f7af, 0xffff5bb1, 0x895cd7be,
     0x6b901122, 0xfd987193, 0xa679438e, 0x49b40821, 0xf61e2562, 0xc040b340,
     0x265e5a51, 0xe9b6c7aa, 0xd62f105d, 0x02441453, 0xd8a1e681, 0xe7d3fbc8,
     0x21e1cde6, 0xc33707d6, 0xf4d50d87, 0x455a14ed, 0xa9e3e905, 0xfcefa3f8,
     0x676f02d9, 0x8d2a4c8a, 0xfffa3942, 0x8771f681, 0x6d9d6122, 0xfde5380c,
     0xa4beea44, 0x4bdecfa9, 0xf6bb4b60, 0xbebfbc70, 0x289b7ec6, 0xeaa127fa,
     0xd4ef3085, 0x04881d05, 0xd9d4d039, 0xe6db99e5, 0x1fa27cf8, 0xc4ac5665,
     0xf4292244, 0x432aff97, 0xab9423a7, 0xfc93a039, 0x655b59c3, 0x8f0ccc92,
     0xffeff47d, 0x85845dd1, 0x6fa87e4f, 0xfe2ce6e0, 0xa3014314, 0x4e0811a1,
     0xf7537e82, 0xbd3af235, 0x2ad7d2bb, 0xeb86d391]"

fun rfc_step :: "u32 list \<Rightarrow> chain \<Rightarrow> nat \<Rightarrow> chain" where
  "rfc_step X (a, b, c, d) i =
     (d, b + word_rotl (rfc_shift i) (a + rfc_fn i b c d + X ! rfc_index i + rfc_const ! i), b, c)"

definition rfc_word :: "bytes \<Rightarrow> nat \<Rightarrow> u32" where
  "rfc_word m i = ucast (m ! (4 * i)) + 256 * ucast (m ! (4 * i + 1))
     + 65536 * ucast (m ! (4 * i + 2)) + 16777216 * ucast (m ! (4 * i + 3))"

fun rfc_compress :: "chain \<Rightarrow> bytes \<Rightarrow> chain" where
  "rfc_compress (a, b, c, d) block = (
     let X = map (rfc_word block) [0..<16];
         (a', b', c', d') = foldl (rfc_step X) (a, b, c, d) [0..<64]
     in (a + a', b + b', c + c', d + d'))"

definition rfc_iv :: chain where
  "rfc_iv = (0x67452301, 0xefcdab89, 0x98badcfe, 0x10325476)"

function rfc_absorb :: "chain \<Rightarrow> bytes \<Rightarrow> chain" where
  "rfc_absorb h m = (if length m < 64 then h else rfc_absorb (rfc_compress h (take 64 m)) (drop 64 m))"
  by auto
termination by (relation "measure (\<lambda>(h, m). length m)") auto

definition rfc_pad :: "bytes \<Rightarrow> bytes" where
  "rfc_pad m = m @ 0x80 # replicate ((119 - length m mod 64) mod 64) 0
     @ le_bytes 8 (8 * length m)"

fun rfc_output :: "chain \<Rightarrow> bytes" where
  "rfc_output (a, b, c, d) =
     le_bytes 4 (unat a) @ le_bytes 4 (unat b) @ le_bytes 4 (unat c) @ le_bytes 4 (unat d)"

definition rfc_md5 :: "bytes \<Rightarrow> bytes" where
  "rfc_md5 m = rfc_output (rfc_absorb rfc_iv (rfc_pad m))"

section \<open>The 64-bit registers compute the 32-bit rounds\<close>

lemma ucast_add: "(ucast (x + y) :: u32) = ucast (x::u64) + ucast y"
proof -
  have "unat (ucast (x + y) :: u32) = unat (ucast x + ucast y :: u32)"
    by (simp add: unsigned_ucast_eq unat_word_ariths take_bit_eq_mod mod_add_eq mod_mod_cancel)
  then show ?thesis by (simp add: word_unat_eq_iff)
qed

lemma mask32: "(0xffffffff::u64) = mask 32" by (simp add: mask_eq_exp_minus_1)
lemma ucast_logic: "(ucast (x AND y) :: u32) = ucast (x::u64) AND ucast y"
  "(ucast (x OR y) :: u32) = ucast (x::u64) OR ucast y"
  "(ucast (x XOR y) :: u32) = ucast (x::u64) XOR ucast y"
  "(ucast (NOT x) :: u32) = NOT (ucast (x::u64))"
  by (rule bit_word_eqI, auto simp: bit_simps)+
lemma ucast_ROTATE:
  assumes "0 < n" "n < 32"
  shows "(ucast (ROTATE a n) :: u32) = word_rotl n (ucast a)"
proof (rule bit_word_eqI)
  fix i assume i: "i < LENGTH(32)"
  show "bit (ucast (ROTATE a n) :: u32) i = bit (word_rotl n (ucast a :: u32)) i"
  proof (cases "n \<le> i")
    case True
    then have "(i + (32 - n)) mod 32 = i - n"
      using assms i by (simp add: mod_if)
    with True assms i show ?thesis
      unfolding ROTATE_def mask32 by (auto simp: bit_simps)
  next
    case False
    with assms i show ?thesis
      unfolding ROTATE_def mask32 by (auto simp: bit_simps add.commute [of i 32])
  qed
qed
lemma mask8: "(0xff :: u32) = mask 8"
  by (simp add: mask_eq_exp_minus_1)

lemma low_byte: "(ucast (x AND 0xff :: u32) :: u8) = of_nat (unat x)"
proof -
  have "(ucast (x AND 0xff) :: u8) = ucast x"
    unfolding mask8 by (auto intro!: bit_word_eqI simp: bit_simps)
  then show ?thesis by simp
qed

lemma HOST_l2c_le: "HOST_l2c l = le_bytes 4 (unat l)"
proof -
  have *: "(ucast (drop_bit n l AND 0xff) :: u8) = of_nat (unat l div 2 ^ n)" for n
    unfolding low_byte unat_drop_bit_eq by (simp only: drop_bit_eq_div)
  show ?thesis
    using low_byte [of l] unfolding HOST_l2c_def le_bytes_def * by (simp add: upt_rec)
qed

lemma add_bytes:
  "(ucast (x::u8) :: u32) + 256 * ucast (y::u8) + 65536 * ucast (z::u8) + 16777216 * ucast (w::u8)
   = ucast x OR push_bit 8 (ucast y) OR push_bit 16 (ucast z) OR push_bit 24 (ucast w)"
proof -
  have u8: "\<not> bit w n" if "8 \<le> n" for w :: u8 and n
    using bit_imp_le_length [of w n] that by auto
  have "(ucast x :: u32) + push_bit 8 (ucast y) = ucast x OR push_bit 8 (ucast y)"
    by (rule disjunctive_add_eq_or)
      (auto intro!: bit_word_eqI simp: bit_simps u8)
  moreover have "(ucast x OR push_bit 8 (ucast y) :: u32) + push_bit 16 (ucast z)
      = (ucast x OR push_bit 8 (ucast y)) OR push_bit 16 (ucast z)"
    by (rule disjunctive_add_eq_or)
      (auto intro!: bit_word_eqI simp: bit_simps u8)
  moreover have "((ucast x OR push_bit 8 (ucast y)) OR push_bit 16 (ucast z) :: u32)
        + push_bit 24 (ucast w)
      = ((ucast x OR push_bit 8 (ucast y)) OR push_bit 16 (ucast z)) OR push_bit 24 (ucast w)"
    by (rule disjunctive_add_eq_or)
      (auto intro!: bit_word_eqI simp: bit_simps u8)
  ultimately show ?thesis by (simp add: push_bit_eq_mult or.assoc mult.commute)
qed

lemma HOST_c2l_word:
  assumes "4 * i + 3 < length m"
  shows "ucast (HOST_c2l (drop (4 * i) m)) = rfc_word m i"
  using assms unfolding rfc_word_def add_bytes HOST_c2l_def ucast_logic
  by (auto intro!: bit_word_eqI simp: bit_simps add.commute)

lemma md5_ops_table:
  "map (\<lambda>(r, x, s, t). (r, x, s, ucast t)) md5_ops
   = map (\<lambda>i. ([R0, R1, R2, R3] ! (i div 16), rfc_index i, rfc_shift i, rfc_const ! i)) [0..<64]"
  by (simp add: md5_ops_def rfc_index_def rfc_shift_def rfc_const_def upt_conv_Cons)

lemma length_md5_ops [simp]: "length md5_ops = 64"
  by (simp add: md5_ops_def)

lemma md5_ops_nth:
  assumes "i < 64"
  obtains t where "md5_ops ! i = ([R0, R1, R2, R3] ! (i div 16), rfc_index i, rfc_shift i, t)"
    "ucast t = rfc_const ! i"
proof -
  obtain r x s t where op: "md5_ops ! i = (r, x, s, t)" by (cases "md5_ops ! i")
  have "(r, x, s, ucast t) = ([R0, R1, R2, R3] ! (i div 16), rfc_index i, rfc_shift i, rfc_const ! i)"
    using arg_cong [OF md5_ops_table, of "\<lambda>xs. xs ! i"] assms op by simp
  then show thesis using op that by simp
qed

lemma rfc_index_less: "rfc_index i < 16"
  by (simp add: rfc_index_def)

lemma rfc_shift_bounds:
  assumes "i < 64"
  shows "0 < rfc_shift i \<and> rfc_shift i < 32"
proof -
  have "\<forall>i\<in>set [0..<64]. 0 < rfc_shift i \<and> rfc_shift i < 32"
    by (simp add: rfc_shift_def upt_conv_Cons)
  then show ?thesis using assms by simp
qed

lemma round_fn_low:
  assumes "i < 64"
  shows "(ucast (round_fn ([R0, R1, R2, R3] ! (i div 16)) b c d) :: u32)
    = rfc_fn i (ucast b) (ucast c) (ucast d)"
proof -
  have "i div 16 = 0 \<and> i < 16 \<or> i div 16 = 1 \<and> 16 \<le> i \<and> i < 32 \<or> i div 16 = 2 \<and> 32 \<le> i \<and> i < 48 \<or> i div 16 = 3 \<and> 48 \<le> i"
    using assms by linarith
  then show ?thesis
    by (auto simp: bit_simps intro!: bit_word_eqI)
qed

fun low_words :: "u64 \<times> u64 \<times> u64 \<times> u64 \<Rightarrow> chain" where
  "low_words (a, b, c, d) = (ucast a, ucast b, ucast c, ucast d)"

lemma md5_op_low:
  assumes "i < 64" "\<forall>j<16. ucast (X ! j) = Y ! j"
  shows "low_words (md5_op X r (md5_ops ! i)) = rfc_step Y (low_words r) i"
proof -
  obtain t where t: "md5_ops ! i = ([R0, R1, R2, R3] ! (i div 16), rfc_index i, rfc_shift i, t)"
    "ucast t = rfc_const ! i" using md5_ops_nth [OF assms(1)] .
  obtain a b c d where r: "r = (a, b, c, d)" by (cases r)
  have X: "(ucast (X ! rfc_index i) :: u32) = Y ! rfc_index i"
    using assms(2) rfc_index_less by blast
  show ?thesis
    using rfc_shift_bounds [OF assms(1)] t(2)
    by (simp add: t(1) r Let_def ucast_add ucast_ROTATE round_fn_low [OF assms(1)] X ac_simps del: rfc_fn.simps)
qed

lemma foldl_md5_ops_low:
  assumes "\<forall>j<16. ucast (X ! j) = Y ! j"
  shows "low_words (foldl (md5_op X) r md5_ops) = foldl (rfc_step Y) (low_words r) [0..<64]"
proof -
  have step: "low_words (foldl (\<lambda>r i. md5_op X r (md5_ops ! i)) r [0..<n]) = foldl (rfc_step Y) (low_words r) [0..<n]"
    if "n \<le> 64" for n
    using that by (induction n) (simp_all add: md5_op_low [OF _ assms])
  have "md5_ops = map (nth md5_ops) [0..<64]"
    using map_nth [of md5_ops] by simp
  then have "foldl (md5_op X) r md5_ops = foldl (\<lambda>r i. md5_op X r (md5_ops ! i)) r [0..<64]"
    by (metis foldl_map)
  then show ?thesis using step [of 64] by simp
qed

lemma ucast_up_down [simp]: "ucast (ucast (x::u32) :: u64) = x"
  by (auto intro!: bit_word_eqI simp: bit_simps)

fun chain_of :: "MD5_CTX \<Rightarrow> chain" where
  "chain_of c = (md_A c, md_B c, md_C c, md_D c)"

fun set_chain :: "MD5_CTX \<Rightarrow> chain \<Rightarrow> MD5_CTX" where
  "set_chain x (a, b, c, d) = x\<lparr>md_A := a, md_B := b, md_C := c, md_D := d\<rparr>"

lemma md5_block_compress:
  assumes "64 \<le> length block"
  shows "md5_block c block = set_chain c (rfc_compress (chain_of c) block)"
proof -
  define X where "X = map (\<lambda>i. HOST_c2l (drop (4 * i) block)) [0..<16]"
  have X: "\<forall>j<16. ucast (X ! j) = map (rfc_word block) [0..<16] ! j"
    using assms by (simp add: X_def HOST_c2l_word)
  let ?r = "(ucast (md_A c), ucast (md_B c), ucast (md_C c), ucast (md_D c)) :: u64 \<times> u64 \<times> u64 \<times> u64"
  obtain a b cc d where f: "foldl (md5_op X) ?r md5_ops = (a, b, cc, d)"
    by (cases "foldl (md5_op X) ?r md5_ops")
  have "low_words (foldl (md5_op X) ?r md5_ops)
      = foldl (rfc_step (map (rfc_word block) [0..<16])) (low_words ?r) [0..<64]"
    by (rule foldl_md5_ops_low [OF X])
  then have "foldl (rfc_step (map (rfc_word block) [0..<16])) (chain_of c) [0..<64]
      = (ucast a, ucast b, ucast cc, ucast d)" using f by simp
  then show ?thesis
    using f by (simp add: md5_block_def X_def [symmetric] Let_def ucast_add)
qed

section \<open>Buffered input\<close>

declare rfc_absorb.simps [simp del]

lemma rfc_absorb_short: "length m < 64 \<Longrightarrow> rfc_absorb h m = h"
  by (simp add: rfc_absorb.simps)

lemma rfc_absorb_one: "length m = 64 \<Longrightarrow> rfc_absorb h m = rfc_compress h m"
  by (simp add: rfc_absorb.simps [of h m] rfc_absorb_short)

lemma rfc_absorb_append:
  "length m mod 64 = 0 \<Longrightarrow> rfc_absorb h (m @ x) = rfc_absorb (rfc_absorb h m) x"
proof (induction h m rule: rfc_absorb.induct)
  case (1 h m)
  show ?case
  proof (cases "length m < 64")
    case True
    with 1(2) show ?thesis by (simp add: rfc_absorb_short)
  next
    case False
    then have "(length m - 64) mod 64 = 0" using 1(2) by presburger
    with False 1(1) show ?thesis by (simp add: rfc_absorb.simps [of h])
  qed
qed

definition whole_blocks :: "bytes \<Rightarrow> bytes" where
  "whole_blocks m = take (64 * (length m div 64)) m"

definition last_block :: "bytes \<Rightarrow> bytes" where
  "last_block m = drop (64 * (length m div 64)) m"

lemma whole_last [simp]: "whole_blocks m @ last_block m = m"
  by (simp add: whole_blocks_def last_block_def)

lemma length_whole: "length (whole_blocks m) = 64 * (length m div 64)"
  by (simp add: whole_blocks_def)

lemma length_partial [simp]: "length (last_block m) = length m mod 64"
  by (simp add: last_block_def minus_mult_div_eq_mod)

lemma rfc_absorb_whole: "rfc_absorb h m = rfc_absorb h (whole_blocks m)"
proof -
  have "rfc_absorb h (whole_blocks m @ last_block m) = rfc_absorb (rfc_absorb h (whole_blocks m)) (last_block m)"
    by (rule rfc_absorb_append) (simp add: length_whole)
  then show ?thesis by (simp add: rfc_absorb_short)
qed

lemma whole_append:
  assumes "length x mod 64 = 0"
  shows "whole_blocks (x @ y) = x @ whole_blocks y" "last_block (x @ y) = last_block y"
proof -
  obtain k where k: "length x = 64 * k" using assms by auto
  then have "(length x + length y) div 64 = k + length y div 64" by simp
  then show "whole_blocks (x @ y) = x @ whole_blocks y" "last_block (x @ y) = last_block y"
    by (simp_all add: whole_blocks_def last_block_def k)
qed

lemma set_chain_simps [simp]:
  "chain_of (set_chain c h) = h" "set_chain (set_chain c h) h' = set_chain c h'"
  "set_chain c (chain_of c) = c"
  by (cases h; cases h'; simp)+

lemma set_chain_fields [simp]:
  "md_Nl (set_chain c h) = md_Nl c" "md_Nh (set_chain c h) = md_Nh c"
  "md_data (set_chain c h) = md_data c" "md_num (set_chain c h) = md_num c"
  by (cases h; simp)+

lemma md5_blocks_absorb:
  "64 * n \<le> length d \<Longrightarrow> md5_block_data_order c d n = set_chain c (rfc_absorb (chain_of c) (take (64 * n) d))"
proof (induction n arbitrary: c d)
  case 0
  then show ?case by (simp add: rfc_absorb_short del: chain_of.simps)
next
  case (Suc n)
  have "rfc_absorb h (take (64 * Suc n) d) = rfc_absorb (rfc_compress h (take 64 d)) (take (64 * n) (drop 64 d))" for h
    using Suc.prems by (simp add: rfc_absorb.simps [of h] take_drop min_def add.commute)
  then show ?case
    using Suc.prems Suc.IH [of "drop 64 d"] md5_block_compress [of "take 64 d"]
    by (simp del: chain_of.simps set_chain.simps)
qed

lemma rfc_absorb_append_partial:
  "rfc_absorb h (m @ x) = rfc_absorb (rfc_absorb h m) (last_block m @ x)"
proof -
  have "rfc_absorb h (whole_blocks m @ (last_block m @ x)) = rfc_absorb (rfc_absorb h (whole_blocks m)) (last_block m @ x)"
    by (rule rfc_absorb_append) (simp add: length_whole)
  moreover have "whole_blocks m @ (last_block m @ x) = m @ x" by (metis append_assoc whole_last)
  ultimately show ?thesis using rfc_absorb_whole [of h m] by simp
qed

definition ctx_of :: "bytes \<Rightarrow> MD5_CTX" where
  "ctx_of m = set_chain
     \<lparr>md_A = 0, md_B = 0, md_C = 0, md_D = 0, md_Nl = of_nat (8 * length m),
      md_Nh = of_nat (8 * length m div 2 ^ 32),
      md_data = last_block m @ replicate (64 - length m mod 64) 0, md_num = length m mod 64\<rparr>
     (rfc_absorb rfc_iv m)"

lemma chain_of_ctx [simp]: "chain_of (ctx_of m) = rfc_absorb rfc_iv m"
  unfolding ctx_of_def set_chain_simps ..

lemma ctx_of_fields [simp]:
  "md_Nl (ctx_of m) = of_nat (8 * length m)"
  "md_Nh (ctx_of m) = of_nat (8 * length m div 2 ^ 32)"
  "md_data (ctx_of m) = last_block m @ replicate (64 - length m mod 64) 0"
  "md_num (ctx_of m) = length m mod 64"
  by (simp_all add: ctx_of_def)

lemma ctx_eqI:
  "chain_of c = chain_of c' \<Longrightarrow> md_Nl c = md_Nl c' \<Longrightarrow> md_Nh c = md_Nh c' \<Longrightarrow> md_data c = md_data c'
    \<Longrightarrow> md_num c = md_num c' \<Longrightarrow> c = (c' :: MD5_CTX)"
  by (cases c; cases c') simp

lemma MD5_Init_ctx: "MD5_Init = ctx_of []"
  by (rule ctx_eqI) (simp_all add: MD5_Init_def rfc_absorb_short rfc_iv_def last_block_def del: chain_of.simps, simp)

lemma bit_count_low: "(of_nat (8 * a) :: u32) + push_bit 3 (of_nat b) = of_nat (8 * (a + b))"
  by (simp add: push_bit_eq_mult distrib_left)

lemma div_add_carry:
  assumes "0 < M"
  shows "(x + y) div M = x div M + y div M + (if (x + y) mod M < x mod M then 1 else (0::nat))"
proof -
  obtain q r where x: "x = M * q + r" "r < M" using assms by (metis mult_div_mod_eq mod_less_divisor)
  obtain p s where y: "y = M * p + s" "s < M" using assms by (metis mult_div_mod_eq mod_less_divisor)
  have e: "x + y = M * (q + p) + (r + s)" by (simp add: x y distrib_left)
  show ?thesis
  proof (cases "r + s < M")
    case True
    then have "(x + y) div M = q + p" "(x + y) mod M = r + s" unfolding e by simp_all
    then show ?thesis using x y by simp
  next
    case False
    then have e': "x + y = M * (q + p + 1) + (r + s - M)" "r + s - M < M"
      using e x(2) y(2) by (simp_all add: distrib_left)
    have "(M * a + b) div M = a \<and> (M * a + b) mod M = b" if "b < M" for a b
      using that by simp
    from this [OF e'(2), of "q + p + 1"] have "(x + y) div M = q + p + 1" "(x + y) mod M = r + s - M"
      unfolding e'(1) by simp_all
    then show ?thesis using x y False by simp
  qed
qed

lemma bit_count_high:
  fixes a b :: nat
  defines "l \<equiv> (of_nat (8 * a) :: u32) + push_bit 3 (of_nat b)"
  shows "(if l < of_nat (8 * a) then of_nat (8 * a div 2 ^ 32) + 1 else of_nat (8 * a div 2 ^ 32))
     + of_nat (b div 2 ^ 29) = (of_nat (8 * (a + b) div 2 ^ 32) :: u32)"
proof -
  let ?M = "2 ^ 32 :: nat"
  have l: "unat l = (8 * a + 8 * b) mod ?M"
    unfolding l_def bit_count_low unat_of_nat by (simp add: distrib_left take_bit_eq_mod)
  have "l < of_nat (8 * a) \<longleftrightarrow> (8 * a + 8 * b) mod ?M < 8 * a mod ?M"
    unfolding word_less_nat_alt l unat_of_nat by (simp add: take_bit_eq_mod del: of_nat_mult)
  moreover have "b div 2 ^ 29 = 8 * b div ?M" by simp
  moreover have "(8 * a + 8 * b) div ?M = 8 * a div ?M + 8 * b div ?M
      + (if (8 * a + 8 * b) mod ?M < 8 * a mod ?M then 1 else 0)"
  by (rule div_add_carry) simp
  ultimately show ?thesis by (simp add: distrib_left)
qed

lemma set_chain_update [simp]:
  "set_chain c h\<lparr>md_Nl := x\<rparr> = set_chain (c\<lparr>md_Nl := x\<rparr>) h"
  "set_chain c h\<lparr>md_Nh := x\<rparr> = set_chain (c\<lparr>md_Nh := x\<rparr>) h"
  "set_chain c h\<lparr>md_data := y\<rparr> = set_chain (c\<lparr>md_data := y\<rparr>) h"
  "set_chain c h\<lparr>md_num := z\<rparr> = set_chain (c\<lparr>md_num := z\<rparr>) h"
  by (cases h; simp)+

lemma chain_of_update [simp]:
  "chain_of (c\<lparr>md_Nl := x\<rparr>) = chain_of c" "chain_of (c\<lparr>md_Nh := x\<rparr>) = chain_of c"
  "chain_of (c\<lparr>md_data := y\<rparr>) = chain_of c" "chain_of (c\<lparr>md_num := z\<rparr>) = chain_of c"
  by simp_all

declare chain_of.simps [simp del] set_chain.simps [simp del]

lemma MD5_Update_rest_fields:
  fixes d :: bytes
  assumes "md_num c = 0" "md_data c = replicate 64 0"
  defines "r \<equiv> MD5_Update_rest c d"
  shows "chain_of r = rfc_absorb (chain_of c) d" "md_Nl r = md_Nl c" "md_Nh r = md_Nh c"
    "md_data r = last_block d @ replicate (64 - length d mod 64) 0" "md_num r = length d mod 64"
proof -
  define n where "n = length d div 64"
  have r: "r = (let c1 = set_chain c (rfc_absorb (chain_of c) d) in
      if length d mod 64 \<noteq> 0 then c1\<lparr>md_num := length d mod 64, md_data := put_bytes (md_data c) 0 (last_block d)\<rparr> else c1)"
  proof (cases "n = 0")
    case True
    then have "length d < 64" by (auto simp: n_def)
    then show ?thesis using True
      by (simp add: r_def MD5_Update_rest_def MD5_CBLOCK_def n_def [symmetric] rfc_absorb_short last_block_def)
  next
    case False
    have "md5_block_data_order c d n = set_chain c (rfc_absorb (chain_of c) d)"
      using md5_blocks_absorb [of n d c] rfc_absorb_whole [of "chain_of c" d]
      by (simp add: n_def whole_blocks_def)
    moreover have "drop (n * 64) d = last_block d" by (simp add: n_def last_block_def mult.commute)
    moreover have "last_block d = [] \<longleftrightarrow> length d mod 64 = 0"
      using length_partial [of d] by (metis length_0_conv)
    ultimately show ?thesis using False
      unfolding r_def MD5_Update_rest_def MD5_CBLOCK_def n_def [symmetric] Let_def by simp
  qed
  have p: "put_bytes (replicate 64 0) 0 (last_block d) = last_block d @ replicate (64 - length d mod 64) 0"
    by (simp add: put_bytes_def)
  have z: "last_block d = []" if "length d mod 64 = 0"
    using length_partial [of d] that by (metis length_0_conv)
  show "chain_of r = rfc_absorb (chain_of c) d" "md_Nl r = md_Nl c" "md_Nh r = md_Nh c"
    by (simp_all add: r Let_def)
  show "md_data r = last_block d @ replicate (64 - length d mod 64) 0" "md_num r = length d mod 64"
    using z by (auto simp: r Let_def assms p)
qed

lemma MD5_Update_ctx: "MD5_Update (ctx_of m) d = ctx_of (m @ d)"
proof (cases "d = []")
  case False
  define n where "n = length m mod 64"
  have n: "n < 64" by (simp add: n_def)
  define c where "c = ctx_of m\<lparr>md_Nl := of_nat (8 * length (m @ d)), md_Nh := of_nat (8 * length (m @ d) div 2 ^ 32)\<rparr>"
  have count: "ctx_of m\<lparr>md_Nl := md_Nl (ctx_of m) + push_bit 3 (of_nat (length d)),
      md_Nh := (if md_Nl (ctx_of m) + push_bit 3 (of_nat (length d)) < md_Nl (ctx_of m)
        then md_Nh (ctx_of m) + 1 else md_Nh (ctx_of m)) + of_nat (length d div 2 ^ 29)\<rparr> = c"
    unfolding ctx_of_fields bit_count_high unfolding bit_count_low c_def length_append ..
  have upd: "MD5_Update (ctx_of m) d = (if n \<noteq> 0 then
            if length d \<ge> 64 \<or> length d + n \<ge> 64 then
              let p = put_bytes (md_data c) n (take (64 - n) d);
                  c = md5_block_data_order (c\<lparr>md_data := p\<rparr>) p 1
              in MD5_Update_rest (c\<lparr>md_num := 0, md_data := replicate 64 0\<rparr>) (drop (64 - n) d)
            else c\<lparr>md_data := put_bytes (md_data c) n d, md_num := n + length d\<rparr>
          else MD5_Update_rest c d)"
    using False unfolding MD5_Update_def Let_def count MD5_CBLOCK_def by (simp add: c_def n_def)
  have c: "chain_of c = rfc_absorb rfc_iv m" "md_data c = last_block m @ replicate (64 - n) 0" "md_num c = n"
    "md_Nl c = of_nat (8 * length (m @ d))" "md_Nh c = of_nat (8 * length (m @ d) div 2 ^ 32)"
    by (simp_all add: c_def n_def)
  have lp: "length (last_block m) = n" by (simp add: n_def)
  have lw: "length (whole_blocks m) mod 64 = 0" by (simp add: length_whole)
  have split: "m @ d = whole_blocks m @ (last_block m @ d)"
    by (metis append_assoc whole_last)
  have ab: "rfc_absorb rfc_iv (m @ d) = rfc_absorb (rfc_absorb rfc_iv m) (last_block m @ d)"
    by (rule rfc_absorb_append_partial)
  have pd: "last_block (m @ d) = last_block (last_block m @ d)"
    unfolding split by (rule whole_append [OF lw])
  have ln: "length (m @ d) mod 64 = (n + length d) mod 64"
    by (simp add: n_def mod_add_left_eq)
  show ?thesis
  proof (cases "n = 0")
    case True
    then have "last_block m = []" using lp length_0_conv by metis
    with True show ?thesis unfolding upd
      using MD5_Update_rest_fields [of c d] c ln ab pd by (intro ctx_eqI) simp_all
  next
    case n0: False
    show ?thesis
    proof (cases "length d + n \<ge> 64")
      case True
      define d1 where "d1 = take (64 - n) d"
      define d2 where "d2 = drop (64 - n) d"
      have d: "d = d1 @ d2" and l1: "length d1 = 64 - n" using True by (simp_all add: d1_def d2_def)
      define c2 where "c2 = set_chain (c\<lparr>md_num := 0, md_data := replicate 64 0\<rparr>) (rfc_absorb (rfc_absorb rfc_iv m) (last_block m @ d1))"
      have "put_bytes (md_data c) n d1 = last_block m @ d1"
        using lp l1 n by (simp add: put_bytes_def c)
      then have u: "MD5_Update (ctx_of m) d = MD5_Update_rest c2 d2"
        using n0 True lp l1 n unfolding upd d1_def [symmetric] d2_def [symmetric] c2_def
        by (simp add: Let_def md5_block_compress rfc_absorb_one c)
      have k: "length (last_block m @ d1) mod 64 = 0" using lp l1 n by simp
      have c2: "chain_of c2 = rfc_absorb (rfc_absorb rfc_iv m) (last_block m @ d1)"
         "md_num c2 = 0" "md_data c2 = replicate 64 0" "md_Nl c2 = md_Nl c" "md_Nh c2 = md_Nh c" by (simp_all add: c2_def)
      have "last_block (m @ d) = last_block d2" "rfc_absorb rfc_iv (m @ d) = rfc_absorb (chain_of c2) d2"
        using whole_append(2) [OF k, of d2] rfc_absorb_append [OF k, of _ d2] pd ab by (simp_all add: d c2)
      moreover have "length (m @ d) mod 64 = length d2 mod 64"
        unfolding ln using l1 n by (simp add: d)
      ultimately show ?thesis unfolding u
        using MD5_Update_rest_fields [OF c2(2,3), of d2] c c2 by (intro ctx_eqI) simp_all
    next
      case False
      then have s: "length (last_block m @ d) < 64" using lp by simp
      have "last_block (last_block m @ d) = last_block m @ d"
        using s by (simp add: last_block_def)
      moreover have "put_bytes (md_data c) n d = last_block m @ d @ replicate (64 - (n + length d)) 0"
        using False lp n by (simp add: put_bytes_def c)
      ultimately show ?thesis unfolding upd
        using n0 False s lp c ln ab pd by (intro ctx_eqI) (simp_all add: rfc_absorb_short)
    qed
  qed
qed (simp add: MD5_Update_def)

lemma le_bytes_count:
  "le_bytes 4 (unat (of_nat n :: u32)) @ le_bytes 4 (unat (of_nat (n div 2 ^ 32) :: u32)) = le_bytes 8 n"
proof -
  have low: "(of_nat (take_bit 32 n div 2 ^ k) :: u8) = of_nat (n div 2 ^ k)" if "k \<le> 24" for k n
  proof -
    have "take_bit 8 (drop_bit k (take_bit 32 n)) = take_bit 8 (drop_bit k n)"
      using that by (simp add: drop_bit_take_bit min_absorb1)
    then show ?thesis by (simp add: word_of_nat_eq_iff drop_bit_eq_div)
  qed
  show ?thesis
    unfolding le_bytes_def unat_of_nat
    using low [of 0 n] low [of 8 n] low [of 16 n] low [of 24 n]
      low [of 0 "n div 2 ^ 32"] low [of 8 "n div 2 ^ 32"] low [of 16 "n div 2 ^ 32"] low [of 24 "n div 2 ^ 32"]
    by (simp add: upt_rec div_mult2_eq [symmetric] take_bit_eq_mod)
qed

lemma put_bytes_append: "length xs = n \<Longrightarrow> put_bytes (xs @ ys) n zs = xs @ zs @ drop (length zs) ys"
  by (simp add: put_bytes_def)

lemma rfc_output_chain:
  "HOST_l2c (md_A c) @ HOST_l2c (md_B c) @ HOST_l2c (md_C c) @ HOST_l2c (md_D c)
   = rfc_output (chain_of c)"
  by (simp add: HOST_l2c_le chain_of.simps)

lemma md5_block_Nl_Nh [simp]:
  "md_Nl (md5_block c b) = md_Nl c" "md_Nh (md5_block c b) = md_Nh c"
  by (simp_all add: md5_block_def Let_def split: prod.split)

lemma MD5_Final_one_block:
  assumes "md_num c + 1 \<le> 56"
    "put_bytes (put_bytes (put_bytes (md_data c) (md_num c) [0x80]) (md_num c + 1)
       (replicate (56 - (md_num c + 1)) 0)) 56 (HOST_l2c (md_Nl c) @ HOST_l2c (md_Nh c)) = b"
    "length b = 64"
  shows "fst (MD5_Final c) = rfc_output (rfc_compress (chain_of c) b)"
  using assms unfolding MD5_Final_def Let_def MD5_CBLOCK_def
  by (simp add: rfc_output_chain md5_block_compress)

lemma MD5_Final_two_blocks:
  assumes "56 < md_num c + 1"
    "put_bytes (put_bytes (md_data c) (md_num c) [0x80]) (md_num c + 1)
       (replicate (64 - (md_num c + 1)) 0) = b"
    "put_bytes (put_bytes b 0 (replicate 56 0)) 56 (HOST_l2c (md_Nl c) @ HOST_l2c (md_Nh c)) = b'"
    "length b = 64" "length b' = 64"
  shows "fst (MD5_Final c) = rfc_output (rfc_compress (rfc_compress (chain_of c) b) b')"
  using assms unfolding MD5_Final_def Let_def MD5_CBLOCK_def
  by (simp add: rfc_output_chain md5_block_compress)

lemma MD5_Final_ctx: "fst (MD5_Final (ctx_of m)) = rfc_md5 m"
proof -
  define n where "n = length m mod 64"
  have n: "n < 64" by (simp add: n_def)
  define L where "L = le_bytes 8 (8 * length m)"
  have L: "HOST_l2c (md_Nl (ctx_of m)) @ HOST_l2c (md_Nh (ctx_of m)) = L" 
    unfolding HOST_l2c_le ctx_of_fields le_bytes_count L_def ..
  have lL: "length L = 8" by (simp add: L_def le_bytes_def)
  have lw: "length (whole_blocks m) mod 64 = 0" by (simp add: length_whole)
  have lp: "length (last_block m) = n" by (simp add: n_def)
  define h where "h = rfc_absorb rfc_iv m"
  have pad: "rfc_absorb rfc_iv (m @ x) = rfc_absorb h (last_block m @ x)" for x
    unfolding h_def by (rule rfc_absorb_append_partial)
  have p0: "put_bytes (md_data (ctx_of m)) n [0x80] = last_block m @ 0x80 # replicate (63 - n) 0"
    using lp n by (simp add: put_bytes_append n_def [symmetric])
  show ?thesis
  proof (cases "n + 1 > 56")
    case True
    define b1 where "b1 = last_block m @ 0x80 # replicate (63 - n) 0"
    have b1: "put_bytes b1 (n + 1) (replicate (64 - (n + 1)) 0) = b1" "length b1 = 64"
      using n lp by (simp_all add: b1_def put_bytes_def)
    have b2: "put_bytes (put_bytes b1 0 (replicate 56 0)) 56 L = replicate 56 0 @ L"
      using b1(2) lL by (simp add: put_bytes_def)
    have e: "119 - n = (63 - n) + 56" using n by simp
    have "last_block m @ (0x80 # replicate (119 - n) 0 @ L) = b1 @ (replicate 56 0 @ L)"
      unfolding e b1_def replicate_add by (simp only: append.simps append_assoc)
    moreover have "rfc_pad m = m @ (0x80 # replicate (119 - n) 0 @ L)"
      using True n by (simp add: rfc_pad_def L_def n_def [symmetric])
    ultimately have "rfc_absorb rfc_iv (rfc_pad m) = rfc_absorb h (b1 @ (replicate 56 0 @ L))"
      by (simp only: pad)
    then have "rfc_absorb rfc_iv (rfc_pad m) = rfc_compress (rfc_compress h b1) (replicate 56 0 @ L)"
      using b1(2) lL by (simp add: rfc_absorb_append rfc_absorb_one)
    moreover have "fst (MD5_Final (ctx_of m))
        = rfc_output (rfc_compress (rfc_compress (chain_of (ctx_of m)) b1) (replicate 56 0 @ L))"
    proof (rule MD5_Final_two_blocks)
      show "56 < md_num (ctx_of m) + 1" using True by (simp add: n_def)
      show "put_bytes (put_bytes (md_data (ctx_of m)) (md_num (ctx_of m)) [0x80]) (md_num (ctx_of m) + 1)
          (replicate (64 - (md_num (ctx_of m) + 1)) 0) = b1"
        unfolding ctx_of_fields(4) n_def [symmetric] p0 b1_def [symmetric] by (rule b1(1))
      show "put_bytes (put_bytes b1 0 (replicate 56 0)) 56
          (HOST_l2c (md_Nl (ctx_of m)) @ HOST_l2c (md_Nh (ctx_of m))) = replicate 56 0 @ L"
        unfolding L by (rule b2)
    qed (simp_all add: b1(2) lL)
    ultimately show ?thesis by (simp add: rfc_md5_def h_def)
  next
    case False
    define b where "b = last_block m @ 0x80 # replicate (55 - n) 0 @ L"
    have b: "put_bytes (put_bytes (last_block m @ 0x80 # replicate (63 - n) 0) (n + 1) (replicate (55 - n) 0)) 56 L = b" "length b = 64"
      using False lp lL n by (simp_all add: b_def put_bytes_def take_Cons' Suc_diff_le)
    have "(119 - n) mod 64 = 55 - n" using False by (simp add: mod_if)
    then have "rfc_absorb rfc_iv (rfc_pad m) = rfc_compress h b"
      using b(2) by (simp add: rfc_pad_def L_def [symmetric] n_def [symmetric] pad b_def [symmetric] rfc_absorb_one)
    moreover have "fst (MD5_Final (ctx_of m)) = rfc_output (rfc_compress (chain_of (ctx_of m)) b)"
    proof (rule MD5_Final_one_block)
      show "md_num (ctx_of m) + 1 \<le> 56" using False by (simp add: n_def)
      have "56 - (n + 1) = 55 - n" by simp
      then show "put_bytes (put_bytes (put_bytes (md_data (ctx_of m)) (md_num (ctx_of m)) [0x80])
          (md_num (ctx_of m) + 1) (replicate (56 - (md_num (ctx_of m) + 1)) 0)) 56
          (HOST_l2c (md_Nl (ctx_of m)) @ HOST_l2c (md_Nh (ctx_of m))) = b"
        unfolding ctx_of_fields(4) n_def [symmetric] p0 L using b(1) by simp
    qed (rule b(2))
    ultimately show ?thesis by (simp add: rfc_md5_def h_def)
  qed
qed

text \<open>
  Property C29. \<open>MD5\<close> is the digest of RFC 1321: the block function on 64-bit registers, the
  buffering and the padding compute what the RFC defines on 32-bit words.
\<close>

theorem MD5_rfc1321: "MD5 m = rfc_md5 m"
  by (simp add: MD5_def MD5_Init_ctx MD5_Update_ctx MD5_Final_ctx)

text \<open>
  However a message is cut into calls of \<open>MD5_Update\<close>, the digest is that of
  the whole message.
\<close>

theorem MD5_updates:
  "fst (MD5_Final (foldl MD5_Update MD5_Init ds)) = rfc_md5 (concat ds)"
proof -
  have "foldl MD5_Update (ctx_of m) ds = ctx_of (m @ concat ds)" for m
    by (induction ds arbitrary: m) (simp_all add: MD5_Update_ctx)
  then show ?thesis by (simp add: MD5_Init_ctx MD5_Final_ctx)
qed

lemma length_MD5 [simp]: "length (MD5 m) = 16"
  by (simp add: MD5_def MD5_Init_ctx MD5_Update_ctx MD5_Final_def Let_def HOST_l2c_def)

end
