(* ===== verification/Stream_Spec.thy ===== *)
theory Stream_Spec
  imports Relay_Prelude
begin

text \<open>
  The contract of a component that cuts a byte stream into messages. A receiver is called
  with the bytes in the pieces the socket delivers them in; the specification is a parser of
  the whole stream. What a call promises is stated for one piece, with an arbitrary rest
  of the stream behind it; that the pieces do not matter is proved once, for every
  receiver that keeps the promise.
\<close>

lemma map_outcome_id [simp]: "map_outcome id r = r"
  by (cases r) auto

lemma map_outcome_append_Nil [simp]: "map_outcome ((@) []) r = r"
  by (cases r) auto

lemma map_outcome_append_Cons [simp]: "map_outcome ((@) [x]) r = map_outcome (Cons x) r"
  by (cases r) auto

lemma map_outcome_append_append:
  "map_outcome ((@) (xs @ ys)) r = map_outcome ((@) xs) (map_outcome ((@) ys) r)"
  by (cases r) auto

text \<open>
  Feeding the pieces one by one, collecting the messages. \<open>None\<close> is a call that does not
  return.
\<close>

fun run_chunks ::
  "('s \<Rightarrow> 'b list \<Rightarrow> ('s \<times> 'o list) outcome option) \<Rightarrow> 's \<Rightarrow> 'b list list
   \<Rightarrow> ('s \<times> 'o list) outcome option" where
  "run_chunks recv s [] = Some (Inr (s, []))"
| "run_chunks recv s (c # cs) = (case recv s c of
     None \<Rightarrow> None
   | Some (Inl e) \<Rightarrow> Some (Inl e)
   | Some (Inr (s', out)) \<Rightarrow>
       map_option (map_outcome (\<lambda>(s'', out'). (s'', out @ out'))) (run_chunks recv s' cs))"

text \<open>
  What a call on the state \<open>s\<close> with the bytes \<open>inp\<close> may answer: after a fault no
  continuation of the stream has a meaning; otherwise the messages are those the parser
  takes off the front of the stream, and nothing complete stays behind.
\<close>

definition chunk_result ::
  "('b list \<Rightarrow> 'o list outcome) \<Rightarrow> ('s \<Rightarrow> 'b list) \<Rightarrow> ('s \<Rightarrow> bool) \<Rightarrow> 's \<Rightarrow> 'b list
   \<Rightarrow> ('s \<times> 'o list) outcome \<Rightarrow> bool" where
  "chunk_result parse pend ok s inp r \<longleftrightarrow> (case r of
     Inl f \<Rightarrow> \<forall>z. z \<noteq> [] \<longrightarrow> parse (pend s @ inp @ z) = Inl f
   | Inr (s', out) \<Rightarrow> ok s' \<and> parse (pend s') = Inr []
       \<and> (\<forall>z. parse (pend s @ inp @ z) = map_outcome ((@) out) (parse (pend s' @ z))))"

locale stream_receiver =
  fixes recv :: "'s \<Rightarrow> 'b list \<Rightarrow> ('s \<times> 'o list) outcome option"
    and parse :: "'b list \<Rightarrow> 'o list outcome"
    and pend :: "'s \<Rightarrow> 'b list"
    and inv :: "'s \<Rightarrow> bool"
  assumes recv_law: "inv s \<Longrightarrow> \<exists>r. recv s inp = Some r \<and> chunk_result parse pend inv s inp r"
    and idle: "inv s \<Longrightarrow> parse (pend s) = Inr []"
begin

lemma run_law:
  "inv s \<Longrightarrow> \<exists>r. run_chunks recv s cs = Some r \<and> chunk_result parse pend inv s (concat cs) r"
proof (induction cs arbitrary: s)
  case Nil
  then show ?case by (simp add: chunk_result_def idle)
next
  case (Cons c cs)
  obtain r where r: "recv s c = Some r" "chunk_result parse pend inv s c r"
    using recv_law [OF Cons.prems] by blast
  show ?case
  proof (cases r)
    case (Inl f)
    then show ?thesis using r by (simp add: chunk_result_def)
  next
    case (Inr p)
    obtain s' out where p: "p = (s', out)" by (cases p)
    have inv': "inv s'" and front: "\<And>z. parse (pend s @ c @ z) = map_outcome ((@) out) (parse (pend s' @ z))"
      using r(2) by (simp_all add: chunk_result_def Inr p)
    obtain r' where r': "run_chunks recv s' cs = Some r'" "chunk_result parse pend inv s' (concat cs) r'"
      using Cons.IH [OF inv'] by blast
    have "chunk_result parse pend inv s (concat (c # cs)) (map_outcome (\<lambda>(s'', out'). (s'', out @ out')) r')"
      using r'(2) by (cases r')
        (auto simp: chunk_result_def front map_outcome_append_append split: prod.splits)
    then show ?thesis using r(1) r'(1) by (simp add: Inr p)
  qed
qed

text \<open>
  A run over all the pieces ends; without a fault its messages are the parse of the stream.
\<close>

lemma run_parse:
  assumes "inv s" "pend s = []"
  shows "\<exists>r. run_chunks recv s cs = Some r \<and> (case r of
      Inl f \<Rightarrow> \<forall>z. z \<noteq> [] \<longrightarrow> parse (concat cs @ z) = Inl f
    | Inr (s', out) \<Rightarrow> inv s' \<and> parse (concat cs) = Inr out)"
proof -
  obtain r where r: "run_chunks recv s cs = Some r" "chunk_result parse pend inv s (concat cs) r"
    using run_law [OF assms(1)] by blast
  show ?thesis
  proof (cases r)
    case (Inr p)
    obtain s' out where p: "p = (s', out)" by (cases p)
    have "inv s'" "parse (pend s') = Inr []"
      "\<And>z. parse (concat cs @ z) = map_outcome ((@) out) (parse (pend s' @ z))"
      using r(2) by (simp_all add: chunk_result_def Inr p assms(2))
    from this(1,2) this(3) [of "[]"] show ?thesis using r(1) by (simp add: Inr p)
  qed (use r assms(2) in \<open>simp add: chunk_result_def\<close>)
qed

end

end
