(* ===== verification/Packet_Sync.thy ===== *)
theory Packet_Sync
  imports Net_Base Md5 Stream_Spec
begin

text \<open>
  The packet synchroniser of a TCP connection (\<open>simple_uv/PacketSync.cpp\<close>, \<open>PacketSync.h\<close>):
  it cuts the byte stream that \<open>recvdata\<close> receives in arbitrary pieces into packets
  \<open>HEAD, 34-byte header, payload, TAIL\<close>, resynchronising on the next \<open>HEAD\<close> byte when a
  header, a tail or a digest does not match. The buffers \<open>thread_readdata\<close> and
  \<open>thread_packetdata\<close> are their valid prefix (of length \<open>truepacketlen\<close> and \<open>getdatalen\<close>) and
  their allocated length. The specification is a parser of the whole stream.
\<close>

section \<open>State\<close>

datatype parse_state = PARSE_HEAD | PARSE_NOTHING

record packet_sync =
  parsetype :: parse_state
  readcap :: nat
  readdata :: bytes
  packcap :: nat
  packdata :: bytes
  headpos :: nat
  HEAD :: u8
  TAIL :: u8
  theNexPacket :: NetPacket
  packet_cb :: bool

definition BUFFER_SIZE :: nat where
  "BUFFER_SIZE = 1024 * 10"

definition packet_sync_new :: "NetPacket \<Rightarrow> packet_sync" where
  "packet_sync_new junk = \<lparr>parsetype = PARSE_NOTHING, readcap = BUFFER_SIZE, readdata = [],
     packcap = BUFFER_SIZE, packdata = [], headpos = 0, HEAD = 0, TAIL = 0,
     theNexPacket = junk, packet_cb = False\<rparr>"

definition Start :: "u8 \<Rightarrow> u8 \<Rightarrow> packet_sync \<Rightarrow> packet_sync" where
  "Start packhead packtail ps = ps\<lparr>HEAD := packhead, TAIL := packtail\<rparr>"

definition SetPacketCB :: "packet_sync \<Rightarrow> packet_sync" where
  "SetPacketCB ps = ps\<lparr>packet_cb := True\<rparr>"

section \<open>recvdata\<close>

type_synonym delivery = "NetPacket \<times> bytes"

text \<open>
  What an iteration of the loop does next: \<open>continue\<close> with the unread input and the packets
  it delivered, fall through to the payload part, or \<open>return\<close>.
\<close>

datatype sync_next =
    Sync_Continue packet_sync bytes "delivery list"
  | Sync_Fall packet_sync bytes
  | Sync_Return packet_sync

fun find_byte :: "u8 \<Rightarrow> bytes \<Rightarrow> nat option" where
  "find_byte b [] = None"
| "find_byte b (x # xs) = (if x = b then Some 0 else map_option Suc (find_byte b xs))"

text \<open>Lines 9 to 17: as much of the input as \<open>thread_readdata\<close> has room for.\<close>

definition sync_fill :: "packet_sync \<Rightarrow> bytes \<Rightarrow> packet_sync \<times> bytes" where
  "sync_fill ps inp = (
     let room = readcap ps - length (readdata ps) in
     if room \<ge> length inp then (ps\<lparr>readdata := readdata ps @ inp\<rparr>, [])
     else (ps\<lparr>readdata := readdata ps @ take room inp\<rparr>, drop room inp))"

text \<open>
  Lines 48 to 58: the header is accepted. The sum \<open>datalen + 1\<close> is a 32-bit one and
  \<open>getdatalen\<close> the smaller of two values cast to \<open>int\<close>: a negative one is a huge count for
  the \<open>memcpy\<close> that follows.
\<close>

definition sync_accept_head :: "packet_sync \<Rightarrow> bytes \<Rightarrow> sync_next outcome" where
  "sync_accept_head ps inp = (
     let need = np_datalen (theNexPacket ps) + 1;
         cap = (if packcap ps < unat (np_datalen (theNexPacket ps)) + 1 then unat need
                else packcap ps);
         avail = drop (headpos ps + 1 + NET_PACKAGE_HEADLEN) (readdata ps);
         getdatalen = min (sint (of_nat (length avail) :: u32)) (sint need)
     in if getdatalen < 0 \<or> nat getdatalen > cap then Inl Out_Of_Bounds
        else Inr (Sync_Fall (ps\<lparr>parsetype := PARSE_HEAD, packcap := cap,
                    packdata := take (nat getdatalen) avail\<rparr>) inp))"

text \<open>Lines 8 to 59, for a synchroniser that has no header yet.\<close>

definition sync_head :: "bool \<Rightarrow> packet_sync \<Rightarrow> bytes \<Rightarrow> sync_next outcome" where
  "sync_head le ps0 inp0 = (
     let (ps, inp) = sync_fill ps0 inp0 in
     case find_byte (HEAD ps) (readdata ps) of
       None \<Rightarrow> Inr (Sync_Continue (ps\<lparr>readdata := []\<rparr>) inp [])
     | Some hp \<Rightarrow>
         let ps = ps\<lparr>headpos := hp\<rparr> in
         if length (readdata ps) - hp - 1 < NET_PACKAGE_HEADLEN
         then Inr (Sync_Continue
                (if hp \<noteq> 0 then ps\<lparr>readdata := drop hp (readdata ps)\<rparr> else ps) inp [])
         else bind_outcome (CharToNetPacket le (drop (hp + 1) (readdata ps))) (\<lambda>p.
           let ps = ps\<lparr>theNexPacket := p\<rparr> in
           if np_header p \<noteq> HEAD ps \<or> np_tail p \<noteq> TAIL ps
           then Inr (Sync_Continue (ps\<lparr>readdata := drop (hp + 1) (readdata ps)\<rparr>) inp [])
           else sync_accept_head ps inp))"

text \<open>
  Lines 78 to 91 and 104 to 117: look for the next head behind the current one, in
  \<open>thread_readdata\<close> if it holds the whole packet and otherwise in a copy of the header and
  the payload put together again.
\<close>

definition sync_resync :: "packet_sync \<Rightarrow> packet_sync" where
  "sync_resync ps = (
     let n = unat (np_datalen (theNexPacket ps) + 1) in
     (if length (readdata ps) - headpos ps - 1 - NET_PACKAGE_HEADLEN \<ge> n
      then ps\<lparr>readdata := drop (headpos ps + 1) (readdata ps)\<rparr>
      else ps\<lparr>readcap := max (readcap ps) (NET_PACKAGE_HEADLEN + n),
              readdata := take NET_PACKAGE_HEADLEN (drop (headpos ps + 1) (readdata ps))
                @ take n (packdata ps)\<rparr>)
     \<lparr>parsetype := PARSE_NOTHING\<rparr>)"

text \<open>
  Line 75 compares a \<open>char\<close>, which is signed on the platforms of the server, with an
  \<open>unsigned char\<close>: both are promoted to \<open>int\<close>.
\<close>

definition tail_matches :: "u8 \<Rightarrow> u8 \<Rightarrow> bool" where
  "tail_matches c t \<longleftrightarrow> sint c = uint t"

definition payload_md5 :: "u32 \<Rightarrow> bytes \<Rightarrow> bytes" where
  "payload_md5 datalen d = (if datalen = 0 then replicate 16 0 else MD5 d)"

text \<open>Lines 120 to 132: drop the packet from \<open>thread_readdata\<close> and call back.\<close>

definition sync_deliver :: "packet_sync \<Rightarrow> bytes \<Rightarrow> sync_next" where
  "sync_deliver ps inp = (
     let datalen = unat (np_datalen (theNexPacket ps));
         n = unat (np_datalen (theNexPacket ps) + 1);
         rd = (if length (readdata ps) - headpos ps - 1 - NET_PACKAGE_HEADLEN \<ge> n
               then drop (headpos ps + NET_PACKAGE_HEADLEN + datalen + 2) (readdata ps) else []);
         pd = (if packet_cb ps then (packdata ps)[datalen := 0] else packdata ps)
     in Sync_Continue (ps\<lparr>readdata := rd, packdata := pd, parsetype := PARSE_NOTHING\<rparr>) inp
          (if packet_cb ps then [(theNexPacket ps, take datalen (packdata ps))] else []))"

text \<open>Lines 74 to 132, once the payload and the tail byte are there.\<close>

definition sync_check :: "packet_sync \<Rightarrow> bytes \<Rightarrow> sync_next outcome" where
  "sync_check ps inp = (
     let p = theNexPacket ps; datalen = unat (np_datalen p) in
     if datalen \<ge> length (packdata ps) then Inl Out_Of_Bounds
     else if \<not> tail_matches (packdata ps ! datalen) (TAIL ps)
     then Inr (Sync_Continue (sync_resync ps) inp [])
     else if np_check p \<noteq> payload_md5 (np_datalen p) (take datalen (packdata ps))
     then Inr (Sync_Continue (sync_resync ps) inp [])
     else Inr (sync_deliver ps inp))"

text \<open>Lines 61 to 73: take what is missing of the payload and the tail from the input.\<close>

definition sync_payload :: "packet_sync \<Rightarrow> bytes \<Rightarrow> sync_next outcome" where
  "sync_payload ps inp = (
     let n = unat (np_datalen (theNexPacket ps) + 1); got = length (packdata ps) in
     if got < n then
       if got + length inp < n then
         if got + length inp > packcap ps then Inl Out_Of_Bounds
         else Inr (Sync_Return (ps\<lparr>packdata := packdata ps @ inp\<rparr>))
       else if n > packcap ps then Inl Out_Of_Bounds
       else sync_check (ps\<lparr>packdata := packdata ps @ take (n - got) inp\<rparr>) (drop (n - got) inp)
     else sync_check ps inp)"

definition sync_iter :: "bool \<Rightarrow> packet_sync \<Rightarrow> bytes \<Rightarrow> sync_next outcome" where
  "sync_iter le ps inp = (
     if parsetype ps = PARSE_NOTHING then
       bind_outcome (sync_head le ps inp) (\<lambda>r. case r of
           Sync_Fall ps' inp' \<Rightarrow> sync_payload ps' inp'
         | _ \<Rightarrow> Inr r)
     else sync_payload ps inp)"

partial_function (option) sync_loop ::
  "bool \<Rightarrow> packet_sync \<Rightarrow> bytes \<Rightarrow> delivery list \<Rightarrow> (packet_sync \<times> delivery list) outcome option" where
  "sync_loop le ps inp out = (
     if inp \<noteq> [] \<or> length (readdata ps) \<ge> NET_PACKAGE_HEADLEN + 2 then
       (case sync_iter le ps inp of
          Inl e \<Rightarrow> Some (Inl e)
        | Inr (Sync_Continue ps' inp' ds) \<Rightarrow> sync_loop le ps' inp' (out @ ds)
        | Inr (Sync_Fall ps' inp') \<Rightarrow> sync_loop le ps' inp' out
        | Inr (Sync_Return ps') \<Rightarrow> Some (Inr (ps', out)))
     else Some (Inr (ps, out)))"

definition recvdata ::
  "bool \<Rightarrow> packet_sync \<Rightarrow> bytes \<Rightarrow> (packet_sync \<times> delivery list) outcome option" where
  "recvdata le ps dat = sync_loop le ps dat []"

section \<open>Sending\<close>

definition PacketData2 :: "bool \<Rightarrow> NetPacket \<Rightarrow> bytes option \<Rightarrow> (NetPacket \<times> bytes) outcome" where
  "PacketData2 le packet dat = (
     let n = unat (np_datalen packet);
         d = (case dat of None \<Rightarrow> [] | Some d \<Rightarrow> d);
         packet = packet\<lparr>np_check := (if np_datalen packet = 0 \<or> dat = None
                    then replicate 16 0 else MD5 (take n d))\<rparr>
     in if n \<noteq> 0 \<and> dat = None then Inl Null_Dereference
        else if length d < n then Inl Out_Of_Bounds
        else Inr (packet, np_header packet # NetPacketToChar le packet @ take n d @ [np_tail packet]))"

section \<open>The stream grammar\<close>

text \<open>A packet as it stands in the stream is accepted when its tail and its digest match.\<close>

definition frame_ok :: "u8 \<Rightarrow> NetPacket \<Rightarrow> bytes \<Rightarrow> u8 \<Rightarrow> bool" where
  "frame_ok T p d b \<longleftrightarrow> tail_matches b T \<and> np_check p = payload_md5 (np_datalen p) d"

text \<open>
  The packets of a stream. A header with the right marks and a \<open>datalen\<close> of \<open>2 ^ 31 - 1\<close> or
  more is where the implementation leaves its buffers.
\<close>

function frames :: "bool \<Rightarrow> u8 \<Rightarrow> u8 \<Rightarrow> bytes \<Rightarrow> delivery list outcome" where
  "frames le H T [] = Inr []"
| "frames le H T (x # t) =
     (if x \<noteq> H then frames le H T t
      else if length t < 35 then Inr []
      else case CharToNetPacket le t of Inl e \<Rightarrow> Inl e | Inr p \<Rightarrow>
        let n = unat (np_datalen p) in
        if np_header p \<noteq> H \<or> np_tail p \<noteq> T then frames le H T t
        else if 2 ^ 31 - 1 \<le> n then Inl Out_Of_Bounds
        else if length t < 35 + n then Inr []
        else if frame_ok T p (take n (drop 34 t)) (t ! (34 + n))
        then map_outcome (Cons (p, take n (drop 34 t))) (frames le H T (drop (35 + n) t))
        else frames le H T t)"
  by pat_completeness auto
termination by (relation "measure (\<lambda>(le, H, T, s). length s)") auto

section \<open>The implementation against the grammar\<close>

declare frames.simps [simp del]

lemma frames_Nil [simp]: "frames le H T [] = Inr []"
  by (simp add: frames.simps)

lemma frames_skip: "H \<notin> set xs \<Longrightarrow> frames le H T (xs @ s) = frames le H T s"
  by (induction xs) (auto simp: frames.simps)

lemma frames_short:
  "length s < 36 \<Longrightarrow> frames le H T s = Inr []"
  by (induction s) (simp_all add: frames.simps)

lemma find_byte_None_iff: "find_byte b xs = None \<longleftrightarrow> b \<notin> set xs"
  by (induction xs) auto

lemma find_byte_SomeD:
  "find_byte b xs = Some i \<Longrightarrow> i < length xs \<and> xs ! i = b \<and> b \<notin> set (take i xs)"
  by (induction xs arbitrary: i) (auto split: if_splits)

lemma frames_at_head:
  assumes "find_byte H xs = Some i"
  shows "frames le H T (xs @ s) = frames le H T (H # drop (Suc i) xs @ s)"
proof -
  from find_byte_SomeD [OF assms] have i: "i < length xs" "xs ! i = H" "H \<notin> set (take i xs)"
    by auto
  then have "xs @ s = take i xs @ (H # drop (Suc i) xs @ s)"
    by (metis append.assoc append_Cons append_take_drop_id Cons_nth_drop_Suc)
  then show ?thesis using frames_skip [OF i(3)] by metis
qed

text \<open>The bytes that were received and not yet turned into packets or thrown away.\<close>

definition pending :: "packet_sync \<Rightarrow> bytes" where
  "pending ps = (case parsetype ps of PARSE_NOTHING \<Rightarrow> readdata ps
     | PARSE_HEAD \<Rightarrow> drop (headpos ps) (readdata ps)
         @ drop (length (readdata ps) - (headpos ps + 35)) (packdata ps))"

definition sync_buf_inv :: "packet_sync \<Rightarrow> bool" where
  "sync_buf_inv ps \<longleftrightarrow> packet_cb ps \<and> 10240 \<le> readcap ps \<and> readcap ps \<le> 2 ^ 31 + 33
     \<and> length (readdata ps) \<le> readcap ps"

definition sync_head_inv :: "bool \<Rightarrow> packet_sync \<Rightarrow> bool" where
  "sync_head_inv le ps \<longleftrightarrow> (let p = theNexPacket ps; n = unat (np_datalen p) + 1;
       avail = drop (headpos ps + 35) (readdata ps) in
     headpos ps + 35 \<le> length (readdata ps) \<and> readdata ps ! headpos ps = HEAD ps
     \<and> CharToNetPacket le (drop (headpos ps + 1) (readdata ps)) = Inr p
     \<and> np_header p = HEAD ps \<and> np_tail p = TAIL ps
     \<and> n < 2 ^ 31 \<and> n \<le> packcap ps
     \<and> packdata ps = take n (avail @ drop (length avail) (packdata ps)))"

definition sync_inv :: "bool \<Rightarrow> packet_sync \<Rightarrow> bool" where
  "sync_inv le ps \<longleftrightarrow> sync_buf_inv ps \<and> (parsetype ps = PARSE_HEAD \<longrightarrow> sync_head_inv le ps)"

text \<open>Between two calls a synchroniser that has a header is short of payload.\<close>

definition sync_wait :: "packet_sync \<Rightarrow> bool" where
  "sync_wait ps \<longleftrightarrow> (parsetype ps = PARSE_HEAD \<longrightarrow>
     length (packdata ps) < unat (np_datalen (theNexPacket ps)) + 1)"

lemma pending_head:
  assumes "parsetype ps = PARSE_HEAD" "sync_head_inv le ps"
  obtains t where "pending ps = HEAD ps # t" "34 \<le> length t"
    "\<And>s. CharToNetPacket le (t @ s) = Inr (theNexPacket ps)"
    "packdata ps = take (unat (np_datalen (theNexPacket ps)) + 1) (drop 34 t)"
proof
  let ?n = "unat (np_datalen (theNexPacket ps)) + 1"
  let ?h = "headpos ps" and ?r = "readdata ps"
  let ?c = "drop (length ?r - (?h + 35)) (packdata ps)"
  let ?t = "drop (?h + 1) ?r @ ?c"
  from assms have h: "?h + 35 \<le> length ?r" "?r ! ?h = HEAD ps"
    "CharToNetPacket le (drop (?h + 1) ?r) = Inr (theNexPacket ps)"
    "packdata ps = take ?n (drop (?h + 35) ?r @ ?c)"
    by (auto simp: sync_head_inv_def Let_def)
  then show "pending ps = HEAD ps # ?t"
    using assms(1) Cons_nth_drop_Suc [of ?h ?r] by (simp add: pending_def)
  show "34 \<le> length ?t" using h(1) by simp
  show "CharToNetPacket le (?t @ s) = Inr (theNexPacket ps)" for s
    using CharToNetPacket_append [of "drop (?h + 1) ?r" le "?c @ s"] h(1,3)
    by (simp add: NET_PACKAGE_HEADLEN_def)
  have "drop 34 ?t = drop (?h + 35) ?r @ ?c"
    using h(1) by (simp add: add.commute)
  then show "packdata ps = take ?n (drop 34 ?t)" using h(4) by simp
qed

definition sync_step_ok ::
  "bool \<Rightarrow> packet_sync \<Rightarrow> bytes \<Rightarrow> packet_sync \<Rightarrow> bytes \<Rightarrow> delivery list \<Rightarrow> bool" where
  "sync_step_ok le ps inp ps' inp' ds \<longleftrightarrow> sync_inv le ps' \<and> HEAD ps' = HEAD ps \<and> TAIL ps' = TAIL ps
     \<and> (\<forall>z. frames le (HEAD ps) (TAIL ps) (pending ps @ inp @ z)
          = map_outcome ((@) ds) (frames le (HEAD ps) (TAIL ps) (pending ps' @ inp' @ z)))
     \<and> length (pending ps') + 2 * length inp' \<le> length (pending ps) + 2 * length inp"

lemma need_wrap:
  "unat (x :: u32) + 1 < 2 ^ 31 \<Longrightarrow> unat (x + 1) = unat x + 1"
  by (simp add: unat_word_ariths)

lemma pending_resync:
  assumes "sync_head_inv le ps" "parsetype ps = PARSE_HEAD"
    "length (packdata ps) = unat (np_datalen (theNexPacket ps)) + 1"
  shows "pending ps = HEAD ps # pending (sync_resync ps)"
proof -
  let ?n = "unat (np_datalen (theNexPacket ps)) + 1"
  let ?h = "headpos ps" and ?r = "readdata ps"
  from assms have h: "?h + 35 \<le> length ?r" "?r ! ?h = HEAD ps" "?n < 2 ^ 31"
    "packdata ps = take ?n (drop (?h + 35) ?r @ drop (length ?r - (?h + 35)) (packdata ps))"
    by (auto simp: sync_head_inv_def Let_def)
  have n: "unat (np_datalen (theNexPacket ps) + 1) = ?n" by (rule need_wrap [OF h(3)])
  have P: "pending ps = HEAD ps # drop (?h + 1) ?r @ drop (length ?r - (?h + 35)) (packdata ps)"
    using assms(2) h(1,2) Cons_nth_drop_Suc [of ?h ?r] by (simp add: pending_def)
  show ?thesis
  proof (cases "length ?r - ?h - 1 - 34 \<ge> ?n")
    case True
    then have "length ?r - (?h + 35) \<ge> length (packdata ps)" using assms(3) by simp
    then show ?thesis unfolding P sync_resync_def n using True
      by (simp add: pending_def NET_PACKAGE_HEADLEN_def)
  next
    case False
    have "packdata ps = drop (?h + 35) ?r @ drop (length ?r - (?h + 35)) (packdata ps)"
    proof -
      have "length (drop (?h + 35) ?r @ drop (length ?r - (?h + 35)) (packdata ps)) = ?n"
        using False assms(3) by simp
      then show ?thesis using h(4) by (metis order_refl take_all)
    qed
    moreover have "drop (?h + 1) ?r = take 34 (drop (?h + 1) ?r) @ drop (?h + 35) ?r"
      using append_take_drop_id [of 34 "drop (?h + 1) ?r"] by (simp add: add.commute)
    ultimately have "drop (?h + 1) ?r @ drop (length ?r - (?h + 35)) (packdata ps)
        = take 34 (drop (?h + 1) ?r) @ packdata ps"
      by (metis append_assoc)
    then show ?thesis unfolding P sync_resync_def n using False assms(3)
      by (simp add: pending_def NET_PACKAGE_HEADLEN_def)
  qed
qed

lemma frames_complete:
  assumes "35 + unat (np_datalen p) \<le> length t" "CharToNetPacket le t = Inr p"
    "np_header p = H" "np_tail p = T" "unat (np_datalen p) + 1 < 2 ^ 31"
  shows "frames le H T (H # t) =
    (if frame_ok T p (take (unat (np_datalen p)) (drop 34 t)) (t ! (34 + unat (np_datalen p)))
     then map_outcome (Cons (p, take (unat (np_datalen p)) (drop 34 t)))
       (frames le H T (drop (35 + unat (np_datalen p)) t))
     else frames le H T t)"
  using assms by (subst frames.simps) (simp add: Let_def)

lemma sync_check_ok:
  assumes inv: "sync_inv le ps" "parsetype ps = PARSE_HEAD"
    and len: "length (packdata ps) = unat (np_datalen (theNexPacket ps)) + 1"
  shows "\<exists>ps' ds. sync_check ps inp = Inr (Sync_Continue ps' inp ds)
    \<and> sync_step_ok le ps inp ps' inp ds \<and> sync_wait ps'
    \<and> length (pending ps') < length (pending ps)"
proof -
  let ?p = "theNexPacket ps"
  let ?d = "unat (np_datalen ?p)"
  have head: "sync_head_inv le ps" and buf: "sync_buf_inv ps"
    using inv by (simp_all add: sync_inv_def)
  obtain t where P: "pending ps = HEAD ps # t" and t: "34 \<le> length t"
    and c: "\<And>s. CharToNetPacket le (t @ s) = Inr ?p" and pd: "packdata ps = take (?d + 1) (drop 34 t)"
    by (rule pending_head [OF inv(2) head]) blast
  have d: "?d + 1 < 2 ^ 31" "np_header ?p = HEAD ps" "np_tail ?p = TAIL ps"
    "headpos ps + 35 \<le> length (readdata ps)"
    using head by (auto simp: sync_head_inv_def Let_def)
  have n: "unat (np_datalen ?p + 1) = ?d + 1" by (rule need_wrap [OF d(1)])
  have lt: "35 + ?d \<le> length t" using len pd t by simp
  have pay: "take ?d (packdata ps) = take ?d (drop 34 t)" "packdata ps ! ?d = t ! (34 + ?d)"
    using lt by (simp_all add: pd take_drop)
  have fr: "frames le (HEAD ps) (TAIL ps) (pending ps @ inp @ z) =
      (if frame_ok (TAIL ps) ?p (take ?d (packdata ps)) (packdata ps ! ?d)
       then map_outcome (Cons (?p, take ?d (packdata ps)))
         (frames le (HEAD ps) (TAIL ps) (drop (35 + ?d) t @ inp @ z))
       else frames le (HEAD ps) (TAIL ps) (t @ inp @ z))" for z
    using frames_complete [of ?p "t @ inp @ z" le "HEAD ps" "TAIL ps"] lt c d
    by (simp add: P pay nth_append)
  show ?thesis
  proof (cases "frame_ok (TAIL ps) ?p (take ?d (packdata ps)) (packdata ps ! ?d)")
    case False
    define ps' where "ps' = sync_resync ps"
    have "t = pending ps'"
      using pending_resync [OF head inv(2) len] P by (simp add: ps'_def)
    moreover have "sync_inv le ps'" "HEAD ps' = HEAD ps" "TAIL ps' = TAIL ps"
      using buf d len by (auto simp: ps'_def sync_inv_def sync_buf_inv_def sync_resync_def Let_def n
          NET_PACKAGE_HEADLEN_def)
    moreover have "sync_check ps inp = Inr (Sync_Continue ps' inp [])"
      using False len by (auto simp: sync_check_def Let_def frame_ok_def ps'_def)
    moreover have "sync_wait ps'" by (simp add: ps'_def sync_wait_def sync_resync_def Let_def)
    ultimately show ?thesis using False fr P by (auto simp: sync_step_ok_def)
  next
    case True
    define ps' where "ps' = ps\<lparr>readdata := drop (35 + ?d) t, packdata := (packdata ps)[?d := 0],
      parsetype := PARSE_NOTHING\<rparr>"
    let ?r = "readdata ps" and ?h = "headpos ps"
    have Pd: "pending ps = drop ?h ?r @ drop (length ?r - (?h + 35)) (packdata ps)"
      using inv(2) by (simp add: pending_def)
    have t_eq: "drop (35 + ?d) t = (if length ?r - ?h - 1 - 34 \<ge> ?d + 1 then drop (?h + 36 + ?d) ?r else [])"
    proof -
      have "drop (35 + ?d) t = drop (36 + ?d) (pending ps)" by (simp add: P drop_Cons')
      also have "\<dots> = (if length ?r - ?h - 1 - 34 \<ge> ?d + 1 then drop (?h + 36 + ?d) ?r else [])"
        using d(4) len unfolding Pd by (auto simp: add.commute add.left_commute)
      finally show ?thesis .
    qed
    have "sync_deliver ps inp = Sync_Continue ps' inp [(?p, take ?d (packdata ps))]"
      using buf unfolding sync_deliver_def Let_def n ps'_def t_eq
      by (simp add: sync_buf_inv_def NET_PACKAGE_HEADLEN_def add.commute add.left_commute)
    then have "sync_check ps inp = Inr (Sync_Continue ps' inp [(?p, take ?d (packdata ps))])"
      using True len by (auto simp: sync_check_def Let_def frame_ok_def)
    moreover have "sync_inv le ps'"
      using buf by (auto simp: ps'_def sync_inv_def sync_buf_inv_def t_eq)
    ultimately show ?thesis using True fr P
      by (auto simp: sync_step_ok_def ps'_def pending_def sync_wait_def)
  qed
qed

lemma sync_extend:
  assumes inv: "sync_inv le ps" "parsetype ps = PARSE_HEAD"
    and less: "length (packdata ps) < unat (np_datalen (theNexPacket ps)) + 1"
    and fits: "length (packdata ps) + length x \<le> unat (np_datalen (theNexPacket ps)) + 1"
  defines "ps' \<equiv> ps\<lparr>packdata := packdata ps @ x\<rparr>"
  shows "sync_inv le ps'" "pending ps' = pending ps @ x"
proof -
  let ?n = "unat (np_datalen (theNexPacket ps)) + 1"
  let ?R = "drop (headpos ps + 35) (readdata ps)"
  let ?c = "drop (length ?R) (packdata ps)"
  have head: "packdata ps = take ?n (?R @ ?c)"
    using inv by (auto simp: sync_inv_def sync_head_inv_def Let_def)
  then have "length (packdata ps) = min ?n (length (?R @ ?c))" by (metis length_take min.commute)
  then have "length (?R @ ?c) \<le> ?n" using less by linarith
  then have pd: "packdata ps = ?R @ ?c" using head by (metis take_all)
  then have R: "length ?R \<le> length (packdata ps)" by (metis length_append le_add1)
  have A: "packdata ps @ x = take ?n (?R @ drop (length ?R) (packdata ps @ x))"
    using fits R pd by (metis append_assoc drop_append diff_is_0_eq' drop0 length_append take_all)
  have e: "packdata ps' = packdata ps @ x" "readdata ps' = readdata ps" "headpos ps' = headpos ps"
    "HEAD ps' = HEAD ps" "TAIL ps' = TAIL ps" "theNexPacket ps' = theNexPacket ps"
    "packcap ps' = packcap ps" "readcap ps' = readcap ps" "packet_cb ps' = packet_cb ps"
    "parsetype ps' = parsetype ps"
    by (simp_all add: ps'_def)
  have "sync_head_inv le ps" "sync_buf_inv ps" using inv by (simp_all add: sync_inv_def)
  then show "sync_inv le ps'"
    using A unfolding sync_inv_def sync_head_inv_def sync_buf_inv_def Let_def e by blast
  show "pending ps' = pending ps @ x"
    using inv(2) R by (simp add: pending_def ps'_def)
qed

lemma packdata_bound:
  assumes "sync_inv le ps" "parsetype ps = PARSE_HEAD"
  shows "length (packdata ps) \<le> unat (np_datalen (theNexPacket ps)) + 1"
    "unat (np_datalen (theNexPacket ps) + 1) = unat (np_datalen (theNexPacket ps)) + 1"
    "unat (np_datalen (theNexPacket ps)) + 1 \<le> packcap ps"
proof -
  let ?n = "unat (np_datalen (theNexPacket ps)) + 1"
  have h: "packdata ps = take ?n (drop (headpos ps + 35) (readdata ps) @
      drop (length (drop (headpos ps + 35) (readdata ps))) (packdata ps))" "?n < 2 ^ 31" "?n \<le> packcap ps"
    using assms unfolding sync_inv_def sync_head_inv_def Let_def by blast+
  show "length (packdata ps) \<le> ?n"
    by (metis h(1) length_take min.cobounded2)
  show "unat (np_datalen (theNexPacket ps) + 1) = ?n" by (rule need_wrap [OF h(2)])
  show "?n \<le> packcap ps" by (rule h(3))
qed

lemma frames_waiting:
  assumes "sync_inv le ps" "parsetype ps = PARSE_HEAD"
    and less: "length (packdata ps) < unat (np_datalen (theNexPacket ps)) + 1"
  shows "frames le (HEAD ps) (TAIL ps) (pending ps) = Inr []"
proof -
  have head: "sync_head_inv le ps" using assms by (simp add: sync_inv_def)
  obtain t where P: "pending ps = HEAD ps # t" and t: "34 \<le> length t"
    and c: "\<And>s. CharToNetPacket le (t @ s) = Inr (theNexPacket ps)"
    and pd: "packdata ps = take (unat (np_datalen (theNexPacket ps)) + 1) (drop 34 t)"
    by (rule pending_head [OF assms(2) head]) blast
  have lt: "length t < 35 + unat (np_datalen (theNexPacket ps))"
    using less t unfolding pd by simp
  have h: "np_header (theNexPacket ps) = HEAD ps" "np_tail (theNexPacket ps) = TAIL ps"
    "unat (np_datalen (theNexPacket ps)) + 1 < 2 ^ 31"
    using head by (auto simp: sync_head_inv_def Let_def)
  show ?thesis unfolding P using c [of "[]"] lt h
    by (subst frames.simps) (simp add: Let_def)
qed

lemma sync_payload_ok:
  assumes inv: "sync_inv le ps" "parsetype ps = PARSE_HEAD"
  shows "(\<exists>ps'. sync_payload ps inp = Inr (Sync_Return ps') \<and> sync_step_ok le ps inp ps' [] []
      \<and> sync_wait ps' \<and> frames le (HEAD ps) (TAIL ps) (pending ps') = Inr [])
    \<or> (\<exists>ps' inp' ds. sync_payload ps inp = Inr (Sync_Continue ps' inp' ds)
      \<and> sync_step_ok le ps inp ps' inp' ds \<and> sync_wait ps'
      \<and> length (pending ps') + 2 * length inp' < length (pending ps) + 2 * length inp)"
proof -
  let ?n = "unat (np_datalen (theNexPacket ps)) + 1"
  let ?got = "length (packdata ps)"
  note b = packdata_bound [OF inv]
  consider (full) "?got = ?n" | (more) "?got < ?n" "?got + length inp < ?n"
    | (enough) "?got < ?n" "?n \<le> ?got + length inp"
    using b(1) by linarith
  then show ?thesis
  proof cases
    case full
    obtain ps' ds where "sync_check ps inp = Inr (Sync_Continue ps' inp ds)"
      "sync_step_ok le ps inp ps' inp ds" "sync_wait ps'" "length (pending ps') < length (pending ps)"
      using sync_check_ok [OF inv full] by blast
    then show ?thesis using full b(2) by (simp add: sync_payload_def)
  next
    case more
    define ps' where "ps' = ps\<lparr>packdata := packdata ps @ inp\<rparr>"
    have e: "sync_inv le ps'" "pending ps' = pending ps @ inp"
      using sync_extend [OF inv more(1), of inp] more(2) by (simp_all add: ps'_def)
    have w: "sync_wait ps'" using more by (simp add: sync_wait_def ps'_def)
    have "sync_payload ps inp = Inr (Sync_Return ps')"
      using more b by (simp add: sync_payload_def Let_def ps'_def)
    moreover have "frames le (HEAD ps) (TAIL ps) (pending ps') = Inr []"
      using frames_waiting [OF e(1)] more inv(2) by (simp add: ps'_def)
    moreover have "sync_step_ok le ps inp ps' [] []"
      using e by (simp add: sync_step_ok_def) (simp add: ps'_def)
    ultimately show ?thesis using w by blast
  next
    case enough
    define x where "x = take (?n - ?got) inp"
    define y where "y = drop (?n - ?got) inp"
    have xy: "inp = x @ y" "?got + length x = ?n" using enough by (simp_all add: x_def y_def)
    define ps1 where "ps1 = ps\<lparr>packdata := packdata ps @ x\<rparr>"
    have e: "sync_inv le ps1" "pending ps1 = pending ps @ x"
      using sync_extend [OF inv enough(1), of x] xy(2) by (simp_all add: ps1_def)
    have "parsetype ps1 = PARSE_HEAD" "length (packdata ps1) = unat (np_datalen (theNexPacket ps1)) + 1"
      using inv(2) xy(2) by (simp_all add: ps1_def)
    from sync_check_ok [OF e(1) this]
    obtain ps' ds where c: "sync_check ps1 y = Inr (Sync_Continue ps' y ds)"
      "sync_step_ok le ps1 y ps' y ds" "length (pending ps') < length (pending ps1)" "sync_wait ps'"
      by blast
    have "sync_payload ps inp = Inr (Sync_Continue ps' y ds)"
      using enough b c(1) by (simp add: sync_payload_def Let_def ps1_def x_def y_def)
    moreover have "sync_step_ok le ps inp ps' y ds"
      using c(2,3) e(2) by (simp add: sync_step_ok_def xy(1)) (simp add: ps1_def)
    ultimately show ?thesis using c(3,4) e(2) xy(1) by auto
  qed
qed

lemma sint_u32:
  "sint (w :: u32) = (if unat w < 2 ^ 31 then int (unat w) else int (unat w) - 2 ^ 32)"
proof -
  have b: "0 \<le> uint w" "uint w < 2 ^ 32" using uint_lt2p [of w] by simp_all
  have u: "int (unat w) = uint w" by simp
  have "sint w = (uint w + 2 ^ 31) mod 2 ^ 32 - 2 ^ 31"
    by (simp add: sint_uint signed_take_bit_eq_take_bit_shift take_bit_eq_mod)
  moreover have "(uint w + 2 ^ 31) mod 2 ^ 32 = (if uint w < 2 ^ 31 then uint w + 2 ^ 31 else uint w - 2 ^ 31)"
  proof (cases "uint w < 2 ^ 31")
    case False
    have "(uint w + 2 ^ 31) mod 2 ^ 32 = (uint w + 2 ^ 31 - 2 ^ 32) mod 2 ^ 32"
      using False b by (intro mod_pos_geq) simp_all
    also have "\<dots> = uint w - 2 ^ 31" using False b by simp
    finally show ?thesis using False by simp
  qed (use b in simp)
  moreover have "unat w < 2147483648 \<longleftrightarrow> uint w < 2147483648" using u by linarith
  ultimately show ?thesis unfolding u by simp
qed

lemma sint_of_nat_u32: "n < 2 ^ 31 \<Longrightarrow> sint (of_nat n :: u32) = int n"
  by (simp add: sint_u32 unat_of_nat take_bit_nat_eq_self)

lemma need_zero:
  assumes "2 ^ 32 \<le> unat (x :: u32) + 1"
  shows "x + 1 = 0"
proof -
  have "unat x < 2 ^ 32" by (rule order.strict_trans2 [OF unsigned_less]) simp
  with assms have "unat x = 2 ^ 32 - 1" by simp
  then show ?thesis by (simp add: word_unat_eq_iff unat_word_ariths)
qed

lemma sync_fill_split:
  assumes "sync_buf_inv ps"
  obtains x y where "inp = x @ y" "sync_fill ps inp = (ps\<lparr>readdata := readdata ps @ x\<rparr>, y)"
    "length (readdata ps @ x) \<le> readcap ps" "inp \<noteq> [] \<Longrightarrow> readdata ps @ x \<noteq> []"
    "y \<noteq> [] \<Longrightarrow> length (readdata ps @ x) = readcap ps"
proof (cases "length inp \<le> readcap ps - length (readdata ps)")
  case True
  then show thesis using assms that [of inp "[]"]
    by (auto simp: sync_fill_def sync_buf_inv_def)
next
  case False
  let ?k = "readcap ps - length (readdata ps)"
  have "readdata ps @ take ?k inp \<noteq> []" "length (readdata ps @ take ?k inp) = readcap ps"
    using False assms by (auto simp: sync_buf_inv_def)
  then show thesis using False that [of "take ?k inp" "drop ?k inp"]
    by (simp add: sync_fill_def Let_def)
qed

lemma frames_huge:
  assumes "35 \<le> length t" "CharToNetPacket le t = Inr p" "np_header p = H" "np_tail p = T"
    "2 ^ 31 \<le> unat (np_datalen p) + 1"
  shows "frames le H T (H # t) = Inl Out_Of_Bounds"
  using assms by (subst frames.simps) (simp add: Let_def)

lemma frames_bad_head:
  assumes "34 \<le> length t" "CharToNetPacket le t = Inr p" "np_header p \<noteq> H \<or> np_tail p \<noteq> T"
  shows "frames le H T (H # t) = frames le H T t"
  using assms by (subst frames.simps) (auto simp: Let_def frames_short)

text \<open>The outcome of \<open>sync_accept_head\<close>, by the size of the announced payload.\<close>

lemma sync_accept_head_cases:
  assumes buf: "sync_buf_inv ps" and h: "headpos ps + 35 \<le> length (readdata ps)"
  defines "d \<equiv> unat (np_datalen (theNexPacket ps))"
  shows "d + 1 < 2 ^ 31 \<Longrightarrow> sync_accept_head ps inp = Inr (Sync_Fall (ps\<lparr>parsetype := PARSE_HEAD,
      packcap := max (packcap ps) (d + 1),
      packdata := take (d + 1) (drop (headpos ps + 35) (readdata ps))\<rparr>) inp)"
    and "2 ^ 31 \<le> d + 1 \<Longrightarrow> d + 1 < 2 ^ 32 \<Longrightarrow> sync_accept_head ps inp = Inl Out_Of_Bounds"
    and "2 ^ 32 \<le> d + 1 \<Longrightarrow> \<exists>ps'. sync_accept_head ps inp = Inr (Sync_Fall ps' inp)
      \<and> packdata ps' = [] \<and> theNexPacket ps' = theNexPacket ps"
proof -
  let ?R = "drop (headpos ps + 35) (readdata ps)"
  have R: "sint (of_nat (length ?R) :: u32) = int (length ?R)"
    using buf h by (intro sint_of_nat_u32) (auto simp: sync_buf_inv_def)
  have dl: "headpos ps + 1 + NET_PACKAGE_HEADLEN = headpos ps + 35" by (simp add: NET_PACKAGE_HEADLEN_def)
  show "sync_accept_head ps inp = Inr (Sync_Fall (ps\<lparr>parsetype := PARSE_HEAD,
      packcap := max (packcap ps) (d + 1), packdata := take (d + 1) ?R\<rparr>) inp)" if "d + 1 < 2 ^ 31"
  proof -
    have n: "unat (np_datalen (theNexPacket ps) + 1) = d + 1"
      using need_wrap that by (simp add: d_def)
    then have s: "sint (np_datalen (theNexPacket ps) + 1) = int (d + 1)"
      using that by (simp add: sint_u32)
    have c: "(if packcap ps < d + 1 then d + 1 else packcap ps) = max (packcap ps) (d + 1)" by simp
    have m: "nat (min (int (length ?R)) (int (d + 1))) = min (length ?R) (d + 1)" by simp
    show ?thesis
      unfolding sync_accept_head_def Let_def dl R s n d_def [symmetric] c m
      by (auto simp: min_def)
  qed
  show "sync_accept_head ps inp = Inl Out_Of_Bounds" if "2 ^ 31 \<le> d + 1" "d + 1 < 2 ^ 32"
  proof -
    have n: "unat (np_datalen (theNexPacket ps) + 1) = d + 1"
      using that by (simp add: d_def unat_word_ariths)
    then have "sint (np_datalen (theNexPacket ps) + 1) < 0" using that by (simp add: sint_u32)
    then show ?thesis unfolding sync_accept_head_def Let_def by (simp add: min_def)
  qed
  show "\<exists>ps'. sync_accept_head ps inp = Inr (Sync_Fall ps' inp)
      \<and> packdata ps' = [] \<and> theNexPacket ps' = theNexPacket ps" if "2 ^ 32 \<le> d + 1"
  proof -
    have z: "np_datalen (theNexPacket ps) + 1 = 0" using that unfolding d_def by (rule need_zero)
    have m: "min (sint (word_of_nat (length ?R) :: u32)) (sint (0 :: u32)) = 0" unfolding R by simp
    show ?thesis unfolding sync_accept_head_def Let_def dl z m by simp
  qed
qed

lemma sync_iter_head_ok:
  assumes inv: "sync_inv le ps" "parsetype ps = PARSE_NOTHING"
    and guard: "inp \<noteq> [] \<or> 36 \<le> length (readdata ps)"
  obtains (fault) "sync_head le ps inp = Inl Out_Of_Bounds \<or> (\<exists>ps' inp'.
      sync_head le ps inp = Inr (Sync_Fall ps' inp') \<and> sync_payload ps' inp' = Inl Out_Of_Bounds)"
      "\<And>z. z \<noteq> [] \<Longrightarrow> frames le (HEAD ps) (TAIL ps) (pending ps @ inp @ z) = Inl Out_Of_Bounds"
  | (continue) ps' inp' where "sync_head le ps inp = Inr (Sync_Continue ps' inp' [])"
      "sync_step_ok le ps inp ps' inp' []" "sync_wait ps'"
      "length (pending ps') + 2 * length inp' < length (pending ps) + 2 * length inp"
  | (fall) ps' inp' where "sync_head le ps inp = Inr (Sync_Fall ps' inp')"
      "sync_step_ok le ps inp ps' inp' []" "parsetype ps' = PARSE_HEAD"
proof -
  have buf: "sync_buf_inv ps" using inv(1) by (simp add: sync_inv_def)
  obtain x y where xy: "inp = x @ y" "sync_fill ps inp = (ps\<lparr>readdata := readdata ps @ x\<rparr>, y)"
    "length (readdata ps @ x) \<le> readcap ps" "inp \<noteq> [] \<Longrightarrow> readdata ps @ x \<noteq> []"
    "y \<noteq> [] \<Longrightarrow> length (readdata ps @ x) = readcap ps"
    by (rule sync_fill_split [OF buf]) blast
  define r where "r = readdata ps @ x"
  define ps1 where "ps1 = ps\<lparr>readdata := r\<rparr>"
  have P: "pending ps = readdata ps" using inv(2) by (simp add: pending_def)
  have Pz: "pending ps @ inp @ z = r @ y @ z" for z by (simp add: P r_def xy(1))
  have nonempty: "r \<noteq> []" using guard xy(4) by (auto simp: r_def)
  have cap: "length r \<le> readcap ps" "10240 \<le> readcap ps" "readcap ps \<le> 2 ^ 31 + 33" "packet_cb ps"
    using xy(3) buf by (simp_all add: r_def sync_buf_inv_def)
  have shrinks: "sync_step_ok le ps inp ps2 y [] \<and> sync_wait ps2
      \<and> length (pending ps2) + 2 * length y < length (pending ps) + 2 * length inp"
    if "ps2 = ps1\<lparr>headpos := hp, theNexPacket := p, readdata := r2\<rparr>" "length r2 < length r \<or> length r2 = length r \<and> x \<noteq> []"
      "\<And>z. frames le (HEAD ps) (TAIL ps) (r @ z) = frames le (HEAD ps) (TAIL ps) (r2 @ z)"
    for ps2 hp p r2
    using that cap inv(2) P xy(1)
    by (auto simp: sync_step_ok_def sync_inv_def sync_buf_inv_def ps1_def pending_def Pz r_def sync_wait_def)
  show thesis
  proof (cases "find_byte (HEAD ps) r")
    case None
    have "sync_head le ps inp = Inr (Sync_Continue (ps1\<lparr>readdata := []\<rparr>) y [])"
      using None by (simp add: sync_head_def xy(2) Let_def r_def [symmetric] ps1_def)
    moreover have "sync_step_ok le ps inp (ps1\<lparr>readdata := []\<rparr>) y [] \<and> sync_wait (ps1\<lparr>readdata := []\<rparr>)
      \<and> length (pending (ps1\<lparr>readdata := []\<rparr>)) + 2 * length y < length (pending ps) + 2 * length inp"
      using None nonempty
      by (intro shrinks [of _ "[]" "theNexPacket ps" "headpos ps"])
        (auto simp: find_byte_None_iff ps1_def frames_skip)
    ultimately show thesis using continue by blast
  next
    case (Some hp)
    note hp = find_byte_SomeD [OF Some]
    have fr: "frames le (HEAD ps) (TAIL ps) (r @ z) = frames le (HEAD ps) (TAIL ps) (HEAD ps # drop (Suc hp) r @ z)" for z
      by (rule frames_at_head [OF Some])
    have dr: "drop hp r = HEAD ps # drop (Suc hp) r"
      using hp Cons_nth_drop_Suc [of hp r] by simp
    define ps2 where "ps2 = ps1\<lparr>headpos := hp\<rparr>"
    show thesis
    proof (cases "length r - hp - 1 < 34")
      case True
      have "sync_head le ps inp = Inr (Sync_Continue (if hp \<noteq> 0 then ps2\<lparr>readdata := drop hp r\<rparr> else ps2) y [])"
        using Some True by (simp add: sync_head_def xy(2) Let_def r_def [symmetric] ps1_def ps2_def NET_PACKAGE_HEADLEN_def)
      also have "(if hp \<noteq> 0 then ps2\<lparr>readdata := drop hp r\<rparr> else ps2) = ps2\<lparr>readdata := drop hp r\<rparr>"
        by (simp add: ps2_def ps1_def)
      finally have e: "sync_head le ps inp = Inr (Sync_Continue (ps2\<lparr>readdata := drop hp r\<rparr>) y [])" .
      have "x \<noteq> []" if "hp = 0"
      proof
        assume "x = []"
        then have "length (readdata ps) \<le> 34" "inp = y" using True that xy(1) by (simp_all add: r_def)
        then show False using guard xy(5) cap(2) \<open>x = []\<close> by (cases "y = []") auto
      qed
      note xne = this
      have "sync_step_ok le ps inp (ps2\<lparr>readdata := drop hp r\<rparr>) y [] \<and> sync_wait (ps2\<lparr>readdata := drop hp r\<rparr>)
          \<and> length (pending (ps2\<lparr>readdata := drop hp r\<rparr>)) + 2 * length y < length (pending ps) + 2 * length inp"
      proof (intro shrinks [of _ "drop hp r" "theNexPacket ps" hp])
        show "frames le (HEAD ps) (TAIL ps) (r @ z) = frames le (HEAD ps) (TAIL ps) (drop hp r @ z)" for z
          unfolding fr dr by simp
        show "length (drop hp r) < length r \<or> length (drop hp r) = length r \<and> x \<noteq> []"
          using hp xne by (cases "hp = 0") auto
      qed (simp add: ps2_def ps1_def)
      then show thesis using e continue by blast
    next
      case False
      let ?t = "drop (Suc hp) r"
      have lt: "34 \<le> length ?t" using False by simp
      obtain p where p: "CharToNetPacket le ?t = Inr p"
        using lt CharToNetPacket_total [of ?t le] by (auto simp: NET_PACKAGE_HEADLEN_def)
      have pz: "CharToNetPacket le (?t @ z) = Inr p" for z
        using CharToNetPacket_append [of ?t le z] p lt by (simp add: NET_PACKAGE_HEADLEN_def)
      define ps3 where "ps3 = ps2\<lparr>theNexPacket := p\<rparr>"
      have step: "sync_head le ps inp = (if np_header p \<noteq> HEAD ps \<or> np_tail p \<noteq> TAIL ps
           then Inr (Sync_Continue (ps3\<lparr>readdata := ?t\<rparr>) y []) else sync_accept_head ps3 y)"
        using Some False p
        by (simp add: sync_head_def xy(2) Let_def r_def [symmetric] ps1_def ps2_def ps3_def NET_PACKAGE_HEADLEN_def)
      show thesis
      proof (cases "np_header p \<noteq> HEAD ps \<or> np_tail p \<noteq> TAIL ps")
        case True
        have "frames le (HEAD ps) (TAIL ps) (r @ z) = frames le (HEAD ps) (TAIL ps) (?t @ z)" for z
          unfolding fr using True lt pz by (intro frames_bad_head) auto
        then have "sync_step_ok le ps inp (ps3\<lparr>readdata := ?t\<rparr>) y [] \<and> sync_wait (ps3\<lparr>readdata := ?t\<rparr>)
          \<and> length (pending (ps3\<lparr>readdata := ?t\<rparr>)) + 2 * length y < length (pending ps) + 2 * length inp"
          using hp by (intro shrinks [of _ ?t p hp]) (auto simp: ps3_def ps2_def ps1_def)
        moreover have "sync_head le ps inp = Inr (Sync_Continue (ps3\<lparr>readdata := ?t\<rparr>) y [])"
          using step True by simp
        ultimately show thesis using continue by blast
      next
        case good: False
        then have mark: "np_header p = HEAD ps" "np_tail p = TAIL ps" by simp_all
        have f3: "readdata ps3 = r" "headpos ps3 = hp" "theNexPacket ps3 = p" "HEAD ps3 = HEAD ps"
          "TAIL ps3 = TAIL ps" "packet_cb ps3" "readcap ps3 = readcap ps" "packcap ps3 = packcap ps"
          using cap by (simp_all add: ps3_def ps2_def ps1_def)
        have buf3: "sync_buf_inv ps3" using cap f3 by (simp add: sync_buf_inv_def)
        have h3: "headpos ps3 + 35 \<le> length (readdata ps3)" using False hp f3 by simp
        note acc = sync_accept_head_cases [OF buf3 h3, unfolded f3, of y]
        show thesis
        proof (cases "unat (np_datalen p) + 1 < 2 ^ 31")
          case True
          define ps4 where "ps4 = ps3\<lparr>parsetype := PARSE_HEAD, packcap := max (packcap ps) (unat (np_datalen p) + 1),
            packdata := take (unat (np_datalen p) + 1) (drop (hp + 35) r)\<rparr>"
          have f4: "readdata ps4 = r" "headpos ps4 = hp" "theNexPacket ps4 = p" "HEAD ps4 = HEAD ps"
            "TAIL ps4 = TAIL ps" "packet_cb ps4" "readcap ps4 = readcap ps"
            "packcap ps4 = max (packcap ps) (unat (np_datalen p) + 1)" "parsetype ps4 = PARSE_HEAD"
            "packdata ps4 = take (unat (np_datalen p) + 1) (drop (hp + 35) r)"
            by (simp_all add: ps4_def f3)
          have "sync_inv le ps4"
            using cap hp False p mark True
            unfolding sync_inv_def sync_buf_inv_def sync_head_inv_def Let_def f4 using f4(6) by auto
          moreover have P4: "pending ps4 = HEAD ps # ?t"
            by (simp add: pending_def f4 dr)
          ultimately have "sync_step_ok le ps inp ps4 y []"
            using fr hp by (auto simp: sync_step_ok_def Pz f4 P4 P r_def xy(1))
          then show thesis using acc(1) [OF True] step good fall f4(9) by (auto simp: ps4_def)
        next
          case huge: False
          have "frames le (HEAD ps) (TAIL ps) (pending ps @ inp @ z) = Inl Out_Of_Bounds" if "z \<noteq> []" for z
          proof -
            have "35 \<le> length (?t @ y @ z)" using that lt by (cases z) auto
            then show ?thesis unfolding Pz fr using pz mark huge by (intro frames_huge) auto
          qed
          moreover have "sync_head le ps inp = Inl Out_Of_Bounds \<or> (\<exists>ps' inp'.
              sync_head le ps inp = Inr (Sync_Fall ps' inp') \<and> sync_payload ps' inp' = Inl Out_Of_Bounds)"
          proof (cases "unat (np_datalen p) + 1 < 2 ^ 32")
            case True
            then show ?thesis using acc(2) huge step good by simp
          next
            case False
            then obtain ps' where a: "sync_accept_head ps3 y = Inr (Sync_Fall ps' y)"
              "packdata ps' = []" "theNexPacket ps' = p" using acc(3) by auto
            have "np_datalen p + 1 = 0" using False by (intro need_zero) simp
            then have "sync_payload ps' y = Inl Out_Of_Bounds"
              using a by (simp add: sync_payload_def sync_check_def Let_def)
            then show ?thesis using a(1) step good by auto
          qed
          ultimately show thesis using fault by blast
        qed
      qed
    qed
  qed
qed

lemma sync_iter_ok:
  assumes inv: "sync_inv le ps" and guard: "inp \<noteq> [] \<or> 36 \<le> length (readdata ps)"
  obtains (fault) "sync_iter le ps inp = Inl Out_Of_Bounds"
      "\<And>z. z \<noteq> [] \<Longrightarrow> frames le (HEAD ps) (TAIL ps) (pending ps @ inp @ z) = Inl Out_Of_Bounds"
  | (continue) ps' inp' ds where "sync_iter le ps inp = Inr (Sync_Continue ps' inp' ds)"
      "sync_step_ok le ps inp ps' inp' ds" "sync_wait ps'"
      "length (pending ps') + 2 * length inp' < length (pending ps) + 2 * length inp"
  | (return) ps' where "sync_iter le ps inp = Inr (Sync_Return ps')" "sync_step_ok le ps inp ps' [] []"
      "sync_wait ps'" "frames le (HEAD ps) (TAIL ps) (pending ps') = Inr []"
proof (cases "parsetype ps")
  case PARSE_HEAD
  then have e: "sync_iter le ps inp = sync_payload ps inp" by (simp add: sync_iter_def)
  from sync_payload_ok [OF inv PARSE_HEAD, of inp] show thesis
    using e continue return by auto
next
  case PARSE_NOTHING
  from inv this guard show thesis
  proof (cases rule: sync_iter_head_ok)
    case fault
    then have "sync_iter le ps inp = Inl Out_Of_Bounds"
      using PARSE_NOTHING by (auto simp: sync_iter_def)
    with fault(2) show ?thesis using that(1) by blast
  next
    case (continue ps' inp')
    then show ?thesis using PARSE_NOTHING that(2) [of ps' inp' "[]"] by (simp add: sync_iter_def)
  next
    case (fall ps1 inp1)
    have e: "sync_iter le ps inp = sync_payload ps1 inp1"
      using fall(1) PARSE_NOTHING by (simp add: sync_iter_def)
    have inv1: "sync_inv le ps1" using fall(2) by (simp add: sync_step_ok_def)
    from sync_payload_ok [OF inv1 fall(3), of inp1] show ?thesis
    proof (elim disjE exE conjE)
      fix ps' assume "sync_payload ps1 inp1 = Inr (Sync_Return ps')" "sync_step_ok le ps1 inp1 ps' [] []"
        "sync_wait ps'" "frames le (HEAD ps1) (TAIL ps1) (pending ps') = Inr []"
      then show thesis using e fall(2) that(3) [of ps'] by (simp add: sync_step_ok_def)
    next
      fix ps' inp' ds assume a: "sync_payload ps1 inp1 = Inr (Sync_Continue ps' inp' ds)"
        "sync_step_ok le ps1 inp1 ps' inp' ds" "sync_wait ps'"
        "length (pending ps') + 2 * length inp' < length (pending ps1) + 2 * length inp1"
      have "sync_step_ok le ps inp ps' inp' ds"
        using fall(2) a(2) by (simp add: sync_step_ok_def)
      moreover have "length (pending ps') + 2 * length inp' < length (pending ps) + 2 * length inp"
        using fall(2) a(4) by (simp add: sync_step_ok_def)
      ultimately show thesis using e a(1,3) that(2) [of ps' inp' ds] by simp
    qed
  qed
qed

text \<open>A synchroniser with the marks \<open>H\<close> and \<open>T\<close> between two calls.\<close>

definition sync_ready :: "bool \<Rightarrow> u8 \<Rightarrow> u8 \<Rightarrow> packet_sync \<Rightarrow> bool" where
  "sync_ready le H T ps \<longleftrightarrow> sync_inv le ps \<and> sync_wait ps \<and> HEAD ps = H \<and> TAIL ps = T
     \<and> frames le H T (pending ps) = Inr []"

abbreviation "sync_result le H T \<equiv> chunk_result (frames le H T) pending (sync_ready le H T)"

lemma sync_idle:
  assumes "sync_inv le ps" "sync_wait ps" "length (readdata ps) < 36"
  shows "frames le (HEAD ps) (TAIL ps) (pending ps) = Inr []"
proof (cases "parsetype ps")
  case PARSE_NOTHING
  then show ?thesis using assms(3) by (simp add: pending_def frames_short)
next
  case PARSE_HEAD
  then show ?thesis using frames_waiting [OF assms(1) PARSE_HEAD] assms(2) by (simp add: sync_wait_def)
qed

text \<open>The loop ends, and its result is the one the grammar gives.\<close>

lemma sync_loop_ok:
  assumes "sync_inv le ps" "sync_wait ps" "HEAD ps = H" "TAIL ps = T"
  shows "\<exists>r. sync_loop le ps inp out = Some (map_outcome (\<lambda>(ps', ds). (ps', out @ ds)) r)
    \<and> sync_result le H T ps inp r"
  using assms
proof (induction "length (pending ps) + 2 * length inp" arbitrary: ps inp out rule: less_induct)
  case less
  note inv = less.prems(1,2) and mark = less.prems(3,4)
  show ?case
  proof (cases "inp \<noteq> [] \<or> 36 \<le> length (readdata ps)")
    case False
    then have "sync_loop le ps inp out = Some (Inr (ps, out))"
      by (simp add: sync_loop.simps NET_PACKAGE_HEADLEN_def)
    moreover have "sync_result le H T ps inp (Inr (ps, []))"
      using False inv sync_idle [OF inv] by (simp add: chunk_result_def sync_ready_def mark)
    ultimately show ?thesis by (intro exI [of _ "Inr (ps, [])"]) simp
  next
    case True
    then have g: "inp \<noteq> [] \<or> NET_PACKAGE_HEADLEN + 2 \<le> length (readdata ps)"
      by (simp add: NET_PACKAGE_HEADLEN_def)
    from inv(1) True show ?thesis
    proof (cases rule: sync_iter_ok)
      case fault
      then show ?thesis using g
        by (intro exI [of _ "Inl Out_Of_Bounds"]) (simp add: sync_loop.simps chunk_result_def mark)
    next
      case (return ps')
      then show ?thesis using g
        by (intro exI [of _ "Inr (ps', [])"])
          (simp add: sync_loop.simps chunk_result_def sync_step_ok_def sync_ready_def mark)
    next
      case (continue ps' inp' ds)
      have step: "sync_loop le ps inp out = sync_loop le ps' inp' (out @ ds)"
        using continue(1) g by (subst sync_loop.simps) simp
      have "sync_inv le ps'" "HEAD ps' = H" "TAIL ps' = T"
        using continue(2) by (simp_all add: sync_step_ok_def mark)
      from less.hyps [OF continue(4) this(1) continue(3) this(2,3), of "out @ ds"]
      obtain r where r: "sync_loop le ps' inp' (out @ ds)
          = Some (map_outcome (\<lambda>(ps', es). (ps', (out @ ds) @ es)) r)"
        "sync_result le H T ps' inp' r" by blast
      let ?r = "map_outcome (\<lambda>(ps', es). (ps', ds @ es)) r"
      have "map_outcome (\<lambda>(ps', es). (ps', (out @ ds) @ es)) r
          = map_outcome (\<lambda>(ps', es). (ps', out @ es)) ?r"
        by (cases r) (auto split: prod.split)
      moreover have "sync_result le H T ps inp ?r"
        using r(2) continue(2)
        by (cases r) (auto simp: chunk_result_def sync_step_ok_def map_outcome_append_append mark
            split: prod.splits)
      ultimately show ?thesis using step r(1) by metis
    qed
  qed
qed

lemma recvdata_law:
  assumes "sync_ready le H T ps"
  shows "\<exists>r. recvdata le ps inp = Some r \<and> sync_result le H T ps inp r"
proof -
  obtain r where "sync_loop le ps inp [] = Some (map_outcome (\<lambda>(ps', ds). (ps', [] @ ds)) r)"
    "sync_result le H T ps inp r"
    using sync_loop_ok [of le ps H T inp "[]"] assms by (auto simp: sync_ready_def)
  moreover have "map_outcome (\<lambda>(ps', ds). (ps', [] @ ds)) r = r" by (cases r) auto
  ultimately show ?thesis by (simp add: recvdata_def)
qed

interpretation sync: stream_receiver "recvdata le" "frames le H T" pending "sync_ready le H T" for le H T
  by unfold_locales (blast intro: recvdata_law, simp add: sync_ready_def)

definition sync_started :: "u8 \<Rightarrow> u8 \<Rightarrow> NetPacket \<Rightarrow> packet_sync" where
  "sync_started H T junk = SetPacketCB (Start H T (packet_sync_new junk))"

lemma sync_started_ready:
  "sync_ready le H T (sync_started H T junk)" "pending (sync_started H T junk) = []"
  by (simp_all add: sync_started_def SetPacketCB_def Start_def packet_sync_new_def sync_ready_def
      sync_inv_def sync_buf_inv_def sync_wait_def pending_def BUFFER_SIZE_def)

lemma frames_packet:
  assumes "wf_NetPacket p" "np_header p = H" "np_tail p = T" "length d = unat (np_datalen p)"
    "unat (np_datalen p) + 1 < 2 ^ 31" "frame_ok T p d T"
  shows "frames le H T (H # NetPacketToChar le p @ d @ [T] @ s)
    = map_outcome (Cons (p, d)) (frames le H T s)"
proof -
  let ?n = "unat (np_datalen p)"
  have l: "length (NetPacketToChar le p) = 34"
    using assms(1) by (simp add: NET_PACKAGE_HEADLEN_def)
  let ?t = "NetPacketToChar le p @ d @ [T] @ s"
  have "CharToNetPacket le ?t = Inr p" using assms(1) by (simp add: CharToNetPacket_NetPacketToChar_gen)
  moreover have "take ?n (drop 34 ?t) = d" "?t ! (34 + ?n) = T" "drop (35 + ?n) ?t = s" "35 + ?n \<le> length ?t"
    using l assms(4) by (simp_all add: nth_append)
  ultimately show ?thesis using frames_complete [of p ?t le H T] assms by simp
qed

lemma tail_matches_iff: "tail_matches b T \<longleftrightarrow> b = T \<and> T < 0x80"
proof -
  have s: "sint c = (if c < 0x80 then uint c else uint c - 2 ^ 8)" for c :: u8
  proof -
    have b: "0 \<le> uint c" "uint c < 2 ^ 8" using uint_lt2p [of c] by simp_all
    have "sint c = (uint c + 2 ^ 7) mod 2 ^ 8 - 2 ^ 7"
      by (simp add: sint_uint signed_take_bit_eq_take_bit_shift take_bit_eq_mod)
    moreover have "(uint c + 2 ^ 7) mod 2 ^ 8 = (if uint c < 2 ^ 7 then uint c + 2 ^ 7 else uint c - 2 ^ 7)"
    proof (cases "uint c < 2 ^ 7")
      case False
      have "(uint c + 2 ^ 7) mod 2 ^ 8 = (uint c + 2 ^ 7 - 2 ^ 8) mod 2 ^ 8"
        using False b by (intro mod_pos_geq) simp_all
      also have "\<dots> = uint c - 2 ^ 7" using False b by simp
      finally show ?thesis using False by simp
    qed (use b in simp)
    ultimately show ?thesis by (simp add: word_less_def)
  qed
  have "uint b < 256" "0 \<le> uint T" using uint_lt2p [of b] by simp_all
  then have "uint b - 256 \<noteq> uint T" by linarith
  then show ?thesis
    unfolding tail_matches_def s [of b] by (auto simp: word_less_def word_uint_eq_iff)
qed

lemma frames_high_tail:
  "\<not> T < 0x80 \<Longrightarrow> frames le H T s = Inr ds \<Longrightarrow> ds = []"
proof (induction le H T s arbitrary: ds rule: frames.induct)
  case (2 le H T x t)
  have "\<not> frame_ok T p d b" for p d b using 2(5) by (simp add: frame_ok_def tail_matches_iff)
  moreover have "(if x \<noteq> H then frames le H T t
      else if length t < 35 then Inr []
      else case CharToNetPacket le t of Inl e \<Rightarrow> Inl e | Inr p \<Rightarrow>
        let n = unat (np_datalen p) in
        if np_header p \<noteq> H \<or> np_tail p \<noteq> T then frames le H T t
        else if 2 ^ 31 - 1 \<le> n then Inl Out_Of_Bounds
        else if length t < 35 + n then Inr []
        else if frame_ok T p (take n (drop 34 t)) (t ! (34 + n))
        then map_outcome (Cons (p, take n (drop 34 t))) (frames le H T (drop (35 + n) t))
        else frames le H T t) = Inr ds"
    using 2(6) by (simp only: frames.simps(2))
  ultimately show ?case
    using 2(1-5) by (auto simp: Let_def split: if_splits sum.splits)
qed simp

text \<open>The bytes that go out for a packet.\<close>

definition wire :: "bool \<Rightarrow> NetPacket \<times> bytes \<Rightarrow> bytes" where
  "wire le q = (case PacketData2 le (fst q) (Some (snd q)) of Inr (_, w) \<Rightarrow> w | Inl _ \<Rightarrow> [])"

definition with_check :: "NetPacket \<times> bytes \<Rightarrow> NetPacket \<times> bytes" where
  "with_check q = ((fst q)\<lparr>np_check := payload_md5 (np_datalen (fst q)) (snd q)\<rparr>, snd q)"

definition sendable :: "u8 \<Rightarrow> u8 \<Rightarrow> NetPacket \<times> bytes \<Rightarrow> bool" where
  "sendable H T q \<longleftrightarrow> np_header (fst q) = H \<and> np_tail (fst q) = T
     \<and> length (snd q) = unat (np_datalen (fst q)) \<and> unat (np_datalen (fst q)) + 1 < 2 ^ 31"

lemma wire_eq:
  assumes "sendable H T q"
  shows "wire le q = H # NetPacketToChar le (fst (with_check q)) @ snd q @ [T]"
  using assms by (auto simp: sendable_def wire_def PacketData2_def Let_def with_check_def payload_md5_def)

lemma frames_wire:
  assumes "sendable H T q" "T < 0x80"
  shows "frames le H T (wire le q @ s) = map_outcome (Cons (with_check q)) (frames le H T s)"
  using frames_packet [of "fst (with_check q)" H T "snd q" le s] assms wire_eq [OF assms(1)]
  by (simp add: with_check_def sendable_def wf_NetPacket_def payload_md5_def frame_ok_def tail_matches_iff)

lemma frames_wires:
  "\<forall>q\<in>set qs. sendable H T q \<Longrightarrow> T < 0x80 \<Longrightarrow>
    frames le H T (concat (map (wire le) qs) @ s) = map_outcome ((@) (map with_check qs)) (frames le H T s)"
proof (induction qs)
  case (Cons q qs)
  then have "frames le H T (wire le q @ concat (map (wire le) qs) @ s)
      = map_outcome (Cons (with_check q)) (map_outcome ((@) (map with_check qs)) (frames le H T s))"
    by (simp add: frames_wire)
  then show ?case by (cases "frames le H T s") simp_all
qed simp

section \<open>Properties\<close>

text \<open>
  Property C5. Whatever bytes arrive and in whatever pieces, every call of \<open>recvdata\<close>
  returns, and the packets called back are exactly those of the stream grammar, in order;
  the only way to leave the buffers is an oversized header, which the grammar names.
\<close>

theorem recvdata_stream:
  "\<exists>r. run_chunks (recvdata le) (sync_started H T junk) cs = Some r \<and> (case r of
      Inl f \<Rightarrow> \<forall>b z. frames le H T (concat cs @ b # z) = Inl f
    | Inr (ps', out) \<Rightarrow> frames le H T (concat cs) = Inr out)"
proof -
  note s = sync_started_ready(1) [of le H T junk] sync_started_ready(2) [of H T junk]
  obtain r where "run_chunks (recvdata le) (sync_started H T junk) cs = Some r"
    "case r of Inl f \<Rightarrow> \<forall>z. z \<noteq> [] \<longrightarrow> frames le H T (concat cs @ z) = Inl f
      | Inr (s', out) \<Rightarrow> sync_ready le H T s' \<and> frames le H T (concat cs) = Inr out"
    using sync.run_parse [OF s] by blast
  then show ?thesis by (cases r) auto
qed

text \<open>A receiver that stands between two packets takes the packets that follow.\<close>

lemma packets_received:
  assumes "\<forall>q\<in>set qs. sendable H T q" "T < 0x80" "concat cs = concat (map (wire le) qs)"
    "sync_ready le H T ps" "pending ps = []"
  shows "\<exists>ps'. run_chunks (recvdata le) ps cs = Some (Inr (ps', map with_check qs))"
proof -
  note fr = frames_wires [OF assms(1,2), of le, folded assms(3)]
  obtain r where r: "run_chunks (recvdata le) ps cs = Some r"
    "case r of Inl f \<Rightarrow> \<forall>z. z \<noteq> [] \<longrightarrow> frames le H T (concat cs @ z) = Inl f
      | Inr (s', out) \<Rightarrow> sync_ready le H T s' \<and> frames le H T (concat cs) = Inr out"
    using sync.run_parse [OF assms(4,5)] by blast
  show ?thesis
  proof (cases r)
    case (Inl f)
    then have "frames le H T (concat cs @ [0]) = Inl f" using r(2) by simp
    then show ?thesis using fr [of "[0]"] by (simp add: frames_short)
  next
    case (Inr x)
    then show ?thesis using r fr [of "[]"] by auto
  qed
qed

text \<open>
  Property C4. Packets built by \<open>PacketData2\<close> come out of \<open>recvdata\<close> unchanged, in order and
  complete, however the stream is cut into pieces.
\<close>

theorem packets_roundtrip:
  assumes "\<forall>q\<in>set qs. sendable H T q" "T < 0x80" "concat cs = concat (map (wire le) qs)"
  shows "\<exists>ps'. run_chunks (recvdata le) (sync_started H T junk) cs = Some (Inr (ps', map with_check qs))"
  by (rule packets_received [OF assms sync_started_ready])

definition sample_packet :: "u32 \<Rightarrow> bytes \<Rightarrow> NetPacket" where
  "sample_packet n check = \<lparr>np_version = 1, np_header = 2, np_tail = 3, np_check = check,
     np_type = 0x51, np_datalen = n, np_reserve = 0\<rparr>"

theorem packets_roundtrip_witness:
  "\<exists>ps'. run_chunks (recvdata True) (sync_started 2 3 (sample_packet 0 []))
      [take 7 (wire True (sample_packet 2 [], [8, 9])), drop 7 (wire True (sample_packet 2 [], [8, 9])),
       wire True (sample_packet 0 [], [])]
    = Some (Inr (ps', [(sample_packet 2 (MD5 [8, 9]), [8, 9]),
        (sample_packet 0 (replicate 16 0), [])]))"
  using packets_roundtrip [of "[(sample_packet 2 [], [8, 9]), (sample_packet 0 [], [])]" 2 3
      "[take 7 (wire True (sample_packet 2 [], [8, 9])), drop 7 (wire True (sample_packet 2 [], [8, 9])),
       wire True (sample_packet 0 [], [])]" True "sample_packet 0 []"]
  by (simp add: sendable_def with_check_def payload_md5_def sample_packet_def)

text \<open>
  Property C36. A header with the right marks that announces \<open>2 ^ 31 - 1\<close> or more payload
  bytes makes \<open>recvdata\<close> leave its buffers as soon as it is read: the test for a negative
  \<open>datalen\<close> is on an unsigned field and never true.
\<close>

theorem recvdata_oversize:
  assumes "wf_NetPacket p" "np_header p = H" "np_tail p = T" "2 ^ 31 \<le> unat (np_datalen p) + 1"
  shows "run_chunks (recvdata le) (sync_started H T junk) [H # NetPacketToChar le p @ [b]]
    = Some (Inl Out_Of_Bounds)"
proof -
  let ?s = "NetPacketToChar le p @ [b]"
  have fr: "frames le H T (H # ?s @ z) = Inl Out_Of_Bounds" for z
    using assms CharToNetPacket_NetPacketToChar_gen [OF assms(1), of le le "[b] @ z"]
    by (intro frames_huge [of _ _ p]) (simp_all add: NET_PACKAGE_HEADLEN_def)
  obtain r where r: "run_chunks (recvdata le) (sync_started H T junk) [H # ?s] = Some r"
    "case r of Inl f \<Rightarrow> \<forall>z. z \<noteq> [] \<longrightarrow> frames le H T (concat [H # ?s] @ z) = Inl f
      | Inr (s', out) \<Rightarrow> sync_ready le H T s' \<and> frames le H T (concat [H # ?s]) = Inr out"
    using sync.run_parse [OF sync_started_ready(1) [of le H T junk] sync_started_ready(2) [of H T junk]] by blast
  show ?thesis
  proof (cases r)
    case (Inl f)
    have "frames le H T (concat [H # ?s] @ [0]) = Inl f"
      using r(2) [unfolded Inl sum.case, rule_format, of "[0]"] by simp
    then show ?thesis using fr [of "[0]"] r(1) Inl by simp
  next
    case (Inr x)
    then show ?thesis using r(2) fr [of "[]"] by auto
  qed
qed

theorem recvdata_oversize_witness:
  "run_chunks (recvdata True) (sync_started 2 3 (sample_packet 0 []))
     [2 # NetPacketToChar True (sample_packet 0xffffffff (replicate 16 0)) @ [0]]
   = Some (Inl Out_Of_Bounds)"
  by (rule recvdata_oversize) (simp_all add: wf_NetPacket_def sample_packet_def)

text \<open>
  With a tail mark of \<open>0x80\<close> or more no packet is ever delivered: the tail byte
  is compared as a signed \<open>char\<close>.
\<close>

theorem recvdata_high_tail:
  assumes "\<not> T < 0x80" "run_chunks (recvdata le) (sync_started H T junk) cs = Some (Inr (ps', out))"
  shows "out = []"
proof -
  obtain r where "run_chunks (recvdata le) (sync_started H T junk) cs = Some r"
    "case r of Inl f \<Rightarrow> \<forall>z. z \<noteq> [] \<longrightarrow> frames le H T (concat cs @ z) = Inl f
      | Inr (s', out) \<Rightarrow> sync_ready le H T s' \<and> frames le H T (concat cs) = Inr out"
    using sync.run_parse [OF sync_started_ready(1) [of le H T junk] sync_started_ready(2) [of H T junk]] by blast
  then have "frames le H T (concat cs) = Inr out" using assms(2) by auto
  then show ?thesis by (rule frames_high_tail [OF assms(1)])
qed

theorem recvdata_high_tail_witness:
  "\<exists>ps' out. run_chunks (recvdata True) (sync_started 2 0x83 (sample_packet 0 [])) [[2, 7]] = Some (Inr (ps', out))
    \<and> out = []"
proof -
  obtain r where r: "run_chunks (recvdata True) (sync_started 2 0x83 (sample_packet 0 [])) [[2, 7]] = Some r"
    "case r of Inl f \<Rightarrow> \<forall>z. z \<noteq> [] \<longrightarrow> frames True 2 0x83 (concat [[2, 7]] @ z) = Inl f
      | Inr (s', out) \<Rightarrow> sync_ready True 2 0x83 s' \<and> frames True 2 0x83 (concat [[2, 7]]) = Inr out"
    using sync.run_parse [OF sync_started_ready(1) [of True 2 "0x83" "sample_packet 0 []"]
        sync_started_ready(2) [of 2 "0x83" "sample_packet 0 []"]] by blast
  have "r \<noteq> Inl f" for f
  proof
    assume f: "r = Inl f"
    show False using r(2) [unfolded f sum.case, rule_format, of "[0]"] by (simp add: frames_short)
  qed
  then obtain ps' out where "r = Inr (ps', out)" by (cases r) auto
  with r(1) recvdata_high_tail [of "0x83" True 2 "sample_packet 0 []" "[[2, 7]]" ps' out]
  show ?thesis by simp
qed

end
