(* ===== verification/Udp_Handle.thy ===== *)
theory Udp_Handle
  imports Relay_Prelude
begin

text \<open>
  The UDP endpoint under the media server and the client's UDP module
  (\<open>simple_uv/UDPHandle.cpp\<close>, \<open>UDPHandle.h\<close>, \<open>UdpPacket.h\<close>): the packed 12-byte packet header as
  it lies in the memory of a little-endian host, the receive callback, which reads every
  datagram into one static buffer and looks at it through a \<open>UdpPacket\<close>, and \<open>send\<close> with its
  byte counter.
\<close>

section \<open>The packet\<close>

text \<open>
  The anonymous union of \<open>dstUserId\<close> and \<open>sessionId\<close> is one field; \<open>type\<close> and \<open>del\<close> are bit
  fields of one byte, \<open>type\<close> in its low seven bits.
\<close>

record UdpPacket =
  up_userId :: u32
  up_index :: u8
  up_type :: "7 word"
  up_del :: bool
  up_dstUserId :: u32
  up_localPort :: u16

abbreviation up_sessionId :: "UdpPacket \<Rightarrow> u32" where
  "up_sessionId \<equiv> up_dstUserId"

definition UDP_PACKET_SIZE :: nat where
  "UDP_PACKET_SIZE = 12"

definition udp_bytes :: "UdpPacket \<Rightarrow> bytes" where
  "udp_bytes p = le_bytes 4 (unat (up_userId p))
     @ [up_index p, of_nat (unat (up_type p) + (if up_del p then 128 else 0))]
     @ le_bytes 4 (unat (up_dstUserId p)) @ le_bytes 2 (unat (up_localPort p))"

definition udp_of_bytes :: "bytes \<Rightarrow> UdpPacket" where
  "udp_of_bytes b = \<lparr>up_userId = of_nat (from_le (take 4 b)), up_index = b ! 4,
     up_type = of_nat (unat (b ! 5) mod 128), up_del = (unat (b ! 5) \<ge> 128),
     up_dstUserId = of_nat (from_le (take 4 (drop 6 b))),
     up_localPort = of_nat (from_le (take 2 (drop 10 b)))\<rparr>"

section \<open>The handle\<close>

record sockaddr_in =
  sin_family :: u16
  sin_port :: u16
  sin_addr :: u32
  sin_zero :: bytes

text \<open>
  \<open>uh_buf\<close> is the static array of \<open>AllocBufferForUdpRecv\<close>, 65536 bytes that keep what earlier
  datagrams left in them.
\<close>

record udp_handle =
  uh_buf :: bytes
  m_nSendByteCount :: u64
  m_nRecvByteCount :: u64

definition UDP_BUFFER_SIZE :: nat where
  "UDP_BUFFER_SIZE = 65536"

definition udp_handle_new :: udp_handle where
  "udp_handle_new = \<lparr>uh_buf = replicate UDP_BUFFER_SIZE 0, m_nSendByteCount = 0, m_nRecvByteCount = 0\<rparr>"

text \<open>
  What a handler of this library asks of the socket: \<open>Udp_Send\<close> is \<open>uv_udp_send\<close>,
  \<open>Sendmsg\<close> the system call.
\<close>

datatype udp_out = Udp_Send bytes sockaddr_in | Sendmsg bytes sockaddr_in

definition udp_send ::
  "bytes \<Rightarrow> sockaddr_in \<Rightarrow> 'a udp_handle_scheme \<Rightarrow> 'a udp_handle_scheme \<times> udp_out list" where
  "udp_send msg addr h =
     (h\<lparr>m_nSendByteCount := m_nSendByteCount h + of_nat (length msg)\<rparr>, [Udp_Send msg addr])"

text \<open>The operating system stores a datagram, cut to the buffer, at the front of the buffer.\<close>

definition udp_recv_into :: "bytes \<Rightarrow> bytes \<Rightarrow> bytes" where
  "udp_recv_into d buf = take (length buf) d @ drop (length d) buf"

text \<open>
  \<open>OnUdpRead\<close>: the packet, the datagram and the address that it hands to \<open>ParsePacket\<close>. A
  datagram of six bytes is enough for it to read all twelve of the packet.
\<close>

definition OnUdpRead :: "int \<Rightarrow> bytes \<Rightarrow> sockaddr_in option \<Rightarrow> 'a udp_handle_scheme
    \<Rightarrow> 'a udp_handle_scheme \<times> (UdpPacket \<times> bytes \<times> sockaddr_in) option" where
  "OnUdpRead nread buf addr h =
     (if nread < 0 then (h, None)
      else if nread = 0 then (h, None)
      else case addr of None \<Rightarrow> (h, None)
      | Some a \<Rightarrow>
          if nread < 6 then (h, None)
          else (h\<lparr>m_nRecvByteCount := m_nRecvByteCount h + of_int nread\<rparr>,
                Some (udp_of_bytes buf, take (nat nread) buf, a)))"

text \<open>A datagram from allocation of the buffer to \<open>ParsePacket\<close>.\<close>

definition udp_receive :: "bytes \<Rightarrow> sockaddr_in option \<Rightarrow> 'a udp_handle_scheme
    \<Rightarrow> 'a udp_handle_scheme \<times> (UdpPacket \<times> bytes \<times> sockaddr_in) option" where
  "udp_receive d addr h = (
     let buf = udp_recv_into d (uh_buf h);
         nread = int (min (length d) (length (uh_buf h)))
     in OnUdpRead nread buf addr (h\<lparr>uh_buf := buf\<rparr>))"

section \<open>The socket\<close>

text \<open>
  \<open>m_udpHandle\<close> is initialised in the constructor only. \<open>Udp_Closed\<close> is a handle that \<open>uv_close\<close> was called
  on: a start that succeeds and a stop assert that it is not. \<open>ret\<close> is what \<open>uv_udp_recv_start\<close> answers; an
  error, as for a handle that receives already, changes nothing.
\<close>

datatype udp_socket = Udp_Open | Udp_Receiving | Udp_Closed

definition udp_recv_start :: "int \<Rightarrow> udp_socket \<Rightarrow> udp_socket outcome" where
  "udp_recv_start ret u = (if ret \<noteq> 0 then Inr u
     else if u = Udp_Closed then Inl Handle_Misuse else Inr Udp_Receiving)"

definition udp_Close :: "udp_socket \<Rightarrow> udp_socket outcome" where
  "udp_Close u = (if u = Udp_Closed then Inl Handle_Misuse else Inr Udp_Open)"

definition setBroadcast :: "int \<Rightarrow> bool" where
  "setBroadcast iret = (if iret \<noteq> 0 then False else True)"

text \<open>\<open>CUDPClient::Connect\<close>: the return codes of \<open>uv_ip4_addr\<close> and \<open>uv_udp_recv_start\<close>.\<close>

definition udp_client_Connect :: "int \<Rightarrow> int \<Rightarrow> udp_socket \<Rightarrow> (udp_socket \<times> bool) outcome" where
  "udp_client_Connect addr_ret recv_ret u = (
     if addr_ret \<noteq> 0 then Inr (u, False)
     else map_outcome (\<lambda>u. (u, recv_ret = 0)) (udp_recv_start recv_ret u))"

section \<open>Lemmas\<close>

lemma length_udp_bytes [simp]: "length (udp_bytes p) = UDP_PACKET_SIZE"
  by (simp add: udp_bytes_def UDP_PACKET_SIZE_def)

lemma udp_of_bytes_append: "udp_of_bytes (udp_bytes p @ rest) = p"
proof -
  let ?t = "unat (up_type p) + (if up_del p then 128 else 0)"
  have t: "unat (up_type p) < 128"
    using unsigned_less [of "up_type p", where 'a = nat] by simp
  then have u: "unat (of_nat ?t :: u8) = ?t"
    unfolding unat_of_nat by (intro mod_less) auto
  have del: "?t \<ge> 128 \<longleftrightarrow> up_del p" and ty: "?t mod 128 = unat (up_type p)"
    using t by simp_all
  have parts: "take 4 (udp_bytes p @ rest) = le_bytes 4 (unat (up_userId p))"
    "take 4 (drop 6 (udp_bytes p @ rest)) = le_bytes 4 (unat (up_dstUserId p))"
    "take 2 (drop 10 (udp_bytes p @ rest)) = le_bytes 2 (unat (up_localPort p))"
    "(udp_bytes p @ rest) ! 4 = up_index p" "(udp_bytes p @ rest) ! 5 = of_nat ?t"
    by (simp_all add: udp_bytes_def nth_append)
  show ?thesis unfolding udp_of_bytes_def parts u del ty by simp
qed

lemma udp_receive_buf:
  "fst (udp_receive d a h) = fst (udp_receive d a h)\<lparr>uh_buf := udp_recv_into d (uh_buf h)\<rparr>"
  by (auto simp: udp_receive_def OnUdpRead_def Let_def split: option.split)

lemma udp_receive_some:
  assumes "length (uh_buf h) = UDP_BUFFER_SIZE" "6 \<le> length d" "length d \<le> UDP_BUFFER_SIZE"
  shows "snd (udp_receive d (Some a) h) = Some (udp_of_bytes (d @ drop (length d) (uh_buf h)), d, a)"
proof -
  have "min (length d) (length (uh_buf h)) = length d" "d \<noteq> []" using assms by auto
  then show ?thesis
    using assms by (simp add: udp_receive_def Let_def OnUdpRead_def udp_recv_into_def)
qed

section \<open>Properties\<close>

text \<open>
  A packet that was sent with \<open>udp_bytes\<close>, with or without media behind it, is
  the packet the receiver's \<open>ParsePacket\<close> gets, together with the datagram.
\<close>

theorem udp_packet_roundtrip:
  assumes "length (uh_buf h) = UDP_BUFFER_SIZE" "length media \<le> 60000"
  shows "snd (udp_receive (udp_bytes p @ media) (Some a) h) = Some (p, udp_bytes p @ media, a)"
  using assms udp_receive_some [OF assms(1), of "udp_bytes p @ media" a]
  by (simp add: UDP_PACKET_SIZE_def UDP_BUFFER_SIZE_def udp_of_bytes_append)

theorem udp_packet_roundtrip_witness:
  "snd (udp_receive (udp_bytes \<lparr>up_userId = 7, up_index = 0, up_type = 0x51, up_del = True,
        up_dstUserId = 9, up_localPort = 40000\<rparr> @ [1, 2])
      (Some \<lparr>sin_family = 2, sin_port = 1, sin_addr = 1, sin_zero = replicate 8 0\<rparr>) udp_handle_new)
    = Some (\<lparr>up_userId = 7, up_index = 0, up_type = 0x51, up_del = True,
        up_dstUserId = 9, up_localPort = 40000\<rparr>, udp_bytes \<lparr>up_userId = 7, up_index = 0,
        up_type = 0x51, up_del = True, up_dstUserId = 9, up_localPort = 40000\<rparr> @ [1, 2],
      \<lparr>sin_family = 2, sin_port = 1, sin_addr = 1, sin_zero = replicate 8 0\<rparr>)"
  by (rule udp_packet_roundtrip) (simp_all add: udp_handle_new_def)

text \<open>
  The test \<open>nread < 6\<close> is six bytes short of the packet: a datagram of six to
  eleven bytes is parsed with the rest of its header taken from an earlier datagram.
\<close>

theorem udp_stale_header:
  assumes "length (uh_buf h) = UDP_BUFFER_SIZE"
  shows "\<exists>q. snd (udp_receive (take 6 (udp_bytes p)) (Some a) (fst (udp_receive (udp_bytes p') b h)))
      = Some (q, take 6 (udp_bytes p), a)
    \<and> up_type q = up_type p \<and> up_userId q = up_userId p
    \<and> up_dstUserId q = up_dstUserId p' \<and> up_localPort q = up_localPort p'"
proof -
  let ?r = "udp_recv_into (udp_bytes p') (uh_buf h)"
  have r: "?r = udp_bytes p' @ drop 12 (uh_buf h)" "length ?r = UDP_BUFFER_SIZE"
    using assms by (simp_all add: udp_recv_into_def UDP_PACKET_SIZE_def UDP_BUFFER_SIZE_def)
  let ?h = "fst (udp_receive (udp_bytes p') b h)"
  have b: "uh_buf ?h = ?r" by (subst udp_receive_buf) simp
  let ?q = "p\<lparr>up_dstUserId := up_dstUserId p', up_localPort := up_localPort p'\<rparr>"
  have q: "take 6 (udp_bytes p) @ drop 6 (udp_bytes p') = udp_bytes ?q"
    by (simp add: udp_bytes_def)
  have "take 6 (udp_bytes p) @ drop 6 ?r = udp_bytes ?q @ drop 12 (uh_buf h)"
    unfolding r(1) using q by (simp add: UDP_PACKET_SIZE_def)
  then have "udp_of_bytes (take 6 (udp_bytes p) @ drop 6 ?r) = ?q"
    by (simp only: udp_of_bytes_append)
  then have "snd (udp_receive (take 6 (udp_bytes p)) (Some a) ?h) = Some (?q, take 6 (udp_bytes p), a)"
    using udp_receive_some [of ?h "take 6 (udp_bytes p)" a] r(2)
    by (simp add: b UDP_PACKET_SIZE_def UDP_BUFFER_SIZE_def)
  then show ?thesis by simp
qed

theorem udp_stale_header_witness:
  "\<exists>q. snd (udp_receive (take 6 (udp_bytes \<lparr>up_userId = 1, up_index = 0, up_type = 0x59, up_del = False,
        up_dstUserId = 2, up_localPort = 3\<rparr>))
      (Some \<lparr>sin_family = 2, sin_port = 1, sin_addr = 1, sin_zero = replicate 8 0\<rparr>)
      (fst (udp_receive (udp_bytes \<lparr>up_userId = 5, up_index = 0, up_type = 0x51, up_del = False,
        up_dstUserId = 6, up_localPort = 7\<rparr>) None udp_handle_new))) = Some q
    \<and> up_type (fst q) = 0x59 \<and> up_dstUserId (fst q) = 6"
  using udp_stale_header [of udp_handle_new "\<lparr>up_userId = 1, up_index = 0, up_type = 0x59, up_del = False,
        up_dstUserId = 2, up_localPort = 3\<rparr>" "\<lparr>sin_family = 2, sin_port = 1, sin_addr = 1, sin_zero = replicate 8 0\<rparr>"
      "\<lparr>up_userId = 5, up_index = 0, up_type = 0x51, up_del = False,
        up_dstUserId = 6, up_localPort = 7\<rparr>" None]
  by (auto simp: udp_handle_new_def)

end
