(* ===== verification/Media_Server.thy ===== *)
theory Media_Server
  imports Udp_Handle
begin

text \<open>
  The media server (\<open>relay_server_sdk/media_server.cpp\<close>, \<open>media_server.h\<close>): the table of logged-in
  users with, for each of them, the users it sends media to (\<open>dataTo\<close>) and the users it
  receives from (\<open>dataFrom\<close>), the handlers of the UDP packets and of the messages the signaling
  server passes on, the verification of logins and the timers. The hash tables are
  association lists in iteration order. An insertion into the table while it is being
  iterated may rehash it and is a fault.
\<close>

section \<open>State\<close>

record ForwardTable =
  ft_addr :: sockaddr_in
  ft_sessionId :: u32
  ft_expireTime :: u64
  ft_localUdpPort :: u16
  dataTo :: "(u32 \<times> sockaddr_in) list"
  dataFrom :: "u32 list"

type_synonym forward_map = "(u32 \<times> ForwardTable) list"

record media_server = udp_handle +
  m_mapForwardTable :: forward_map
  m_strValidateUrl :: string
  m_strValidateUrlOnLogin :: string

definition m_nTimeout :: u64 where
  "m_nTimeout = 30000"

definition MULTI_FORWARD_MSG :: nat where "MULTI_FORWARD_MSG = 0x50"
definition LOGIN_MSG :: nat where "LOGIN_MSG = 0x51"
definition LOGOUT_MSG :: nat where "LOGOUT_MSG = 0x52"
definition ACK_LOGIN :: nat where "ACK_LOGIN = 0x54"
definition ACK_LOGOUT :: nat where "ACK_LOGOUT = 0x55"
definition ACK_P2P_ADDR :: nat where "ACK_P2P_ADDR = 0x58"
definition SINGLE_FORWARD_MSG :: nat where "SINGLE_FORWARD_MSG = 0x59"

text \<open>The value-initialised entry that \<open>operator[]\<close> inserts for a missing key.\<close>

definition zero_addr :: sockaddr_in where
  "zero_addr = \<lparr>sin_family = 0, sin_port = 0, sin_addr = 0, sin_zero = replicate 8 0\<rparr>"

definition zero_table :: ForwardTable where
  "zero_table = \<lparr>ft_addr = zero_addr, ft_sessionId = 0, ft_expireTime = 0, ft_localUdpPort = 0,
     dataTo = [], dataFrom = []\<rparr>"

section \<open>Accesses to the table\<close>

text \<open>\<open>m[k]\<close> and a change of what it refers to; \<open>find(k)\<close> and, if found, a change of it.\<close>

definition modify_at :: "u32 \<Rightarrow> (ForwardTable \<Rightarrow> ForwardTable) \<Rightarrow> forward_map \<Rightarrow> forward_map" where
  "modify_at k f m = AList.update k (f (case map_of m k of Some t \<Rightarrow> t | None \<Rightarrow> zero_table)) m"

definition modify_found :: "u32 \<Rightarrow> (ForwardTable \<Rightarrow> ForwardTable) \<Rightarrow> forward_map \<Rightarrow> forward_map" where
  "modify_found k f m = (case map_of m k of Some t \<Rightarrow> AList.update k (f t) m | None \<Rightarrow> m)"

definition dataTo_erase :: "u32 \<Rightarrow> ForwardTable \<Rightarrow> ForwardTable" where
  "dataTo_erase u t = t\<lparr>dataTo := AList.delete u (dataTo t)\<rparr>"

definition dataFrom_erase :: "u32 \<Rightarrow> ForwardTable \<Rightarrow> ForwardTable" where
  "dataFrom_erase u t = t\<lparr>dataFrom := removeAll u (dataFrom t)\<rparr>"

definition dataTo_set :: "u32 \<Rightarrow> sockaddr_in \<Rightarrow> ForwardTable \<Rightarrow> ForwardTable" where
  "dataTo_set u a t = t\<lparr>dataTo := AList.update u a (dataTo t)\<rparr>"

definition dataFrom_insert :: "u32 \<Rightarrow> ForwardTable \<Rightarrow> ForwardTable" where
  "dataFrom_insert u t = t\<lparr>dataFrom := List.insert u (dataFrom t)\<rparr>"

section \<open>What the server asks of its surroundings\<close>

text \<open>
  \<open>Queue_Work\<close> is \<open>uv_queue_work\<close> with a copy of the packet and the address,
  \<open>User_Timeout\<close> the call of the signaling server's \<open>OnUserTimeout\<close>, \<open>P2P_Reply\<close> that of its
  \<open>OnUvThreadMessage\<close>.
\<close>

record VerifyCtx =
  vc_msg :: UdpPacket
  vc_srcAddr :: sockaddr_in

record CRspP2PAddrMsg =
  rsp_dstUserId :: u32
  rsp_dstIp :: u32
  rsp_dstPort :: u16
  rsp_dstLocalUdpPort :: u16
  rsp_clientId :: int
  rsp_success :: bool

datatype media_out =
    Net udp_out
  | Queue_Work VerifyCtx
  | User_Timeout u32
  | P2P_Reply CRspP2PAddrMsg
  | Report_Status u64

section \<open>Packets\<close>

definition OnAckClient ::
  "nat \<Rightarrow> UdpPacket \<Rightarrow> sockaddr_in \<Rightarrow> media_server \<Rightarrow> media_server \<times> media_out list" where
  "OnAckClient msg packet srcAddr s = (
     let ack = packet\<lparr>up_del := (msg = ACK_P2P_ADDR), up_type := of_nat msg\<rparr>;
         (s', out) = udp_send (udp_bytes ack) srcAddr s
     in (s', map Net out))"

definition OnUpdateActiveTime :: "u64 \<Rightarrow> u32 \<Rightarrow> media_server \<Rightarrow> media_server" where
  "OnUpdateActiveTime now userId s = s\<lparr>m_mapForwardTable :=
     modify_at userId (\<lambda>t. t\<lparr>ft_expireTime := now + 3 * m_nTimeout\<rparr>) (m_mapForwardTable s)\<rparr>"

definition OnRecvLoginMsg ::
  "u64 \<Rightarrow> UdpPacket \<Rightarrow> sockaddr_in \<Rightarrow> media_server \<Rightarrow> media_server \<times> media_out list" where
  "OnRecvLoginMsg now msg srcAddr s = (
     let it = map_of (m_mapForwardTable s) (up_userId msg) in
     if (case it of None \<Rightarrow> True
         | Some t \<Rightarrow> ft_addr t \<noteq> srcAddr \<and> up_sessionId msg \<noteq> ft_sessionId t)
     then (s, [Queue_Work \<lparr>vc_msg = msg, vc_srcAddr = srcAddr\<rparr>])
     else let (s', out) = OnAckClient ACK_LOGIN msg srcAddr s
          in (OnUpdateActiveTime now (up_userId msg) s', out))"

text \<open>\<open>insert\<close> leaves an entry that is there already as it is.\<close>

definition OnUpdateLoginInfo ::
  "u64 \<Rightarrow> UdpPacket \<Rightarrow> sockaddr_in \<Rightarrow> media_server \<Rightarrow> media_server \<times> media_out list" where
  "OnUpdateLoginInfo now msg srcAddr s = (
     let (s', out) = OnAckClient ACK_LOGIN msg srcAddr s;
         table = \<lparr>ft_addr = srcAddr, ft_sessionId = up_sessionId msg,
           ft_expireTime = now + 3 * m_nTimeout, ft_localUdpPort = up_localPort msg,
           dataTo = [], dataFrom = []\<rparr>;
         m = m_mapForwardTable s'
     in (s'\<lparr>m_mapForwardTable := (case map_of m (up_userId msg) of
            None \<Rightarrow> m @ [(up_userId msg, table)] | Some _ \<Rightarrow> m)\<rparr>, out))"

text \<open>
  \<open>ID_Verification\<close>, in the thread pool: the validator is asked when a URL is configured, its
  answer 0 is success. \<open>AfterVerification\<close>, on the loop, finds the answer in the context.
\<close>

definition ID_Verification ::
  "(u32 \<Rightarrow> u32 \<Rightarrow> string \<Rightarrow> int) \<Rightarrow> (u32 \<Rightarrow> u32 \<Rightarrow> u32 \<Rightarrow> string \<Rightarrow> int)
    \<Rightarrow> VerifyCtx \<Rightarrow> media_server \<Rightarrow> media_server \<times> bool" where
  "ID_Verification validate_on_login validate ctx s = (
     let msg = vc_msg ctx; u = up_userId msg in
     if unat (up_type msg) = LOGIN_MSG then
       (s, if m_strValidateUrlOnLogin s \<noteq> []
           then validate_on_login u (up_sessionId msg) (m_strValidateUrlOnLogin s) \<noteq> 0
           else False)
     else if m_strValidateUrl s \<noteq> [] then
       (let m = modify_at u (\<lambda>t. t) (m_mapForwardTable s)
        in (s\<lparr>m_mapForwardTable := m\<rparr>,
            validate u (case map_of m u of Some t \<Rightarrow> ft_sessionId t | None \<Rightarrow> 0)
              (up_dstUserId msg) (m_strValidateUrl s) \<noteq> 0))
     else (s, False))"

definition AfterVerification ::
  "u64 \<Rightarrow> VerifyCtx \<Rightarrow> bool \<Rightarrow> media_server \<Rightarrow> media_server \<times> media_out list" where
  "AfterVerification now ctx success s =
     (if unat (up_type (vc_msg ctx)) = LOGIN_MSG \<and> \<not> success
      then OnUpdateLoginInfo now (vc_msg ctx) (vc_srcAddr ctx) s
      else (s, []))"

definition OnRecvSingleForwardMsg ::
  "UdpPacket \<Rightarrow> bytes \<Rightarrow> sockaddr_in \<Rightarrow> media_server \<Rightarrow> media_server \<times> media_out list" where
  "OnRecvSingleForwardMsg msg buf srcAddr s =
     (case map_of (m_mapForwardTable s) (up_dstUserId msg) of
        None \<Rightarrow> (s, [])
      | Some receiver \<Rightarrow>
          let (s', out) = udp_send buf (ft_addr receiver) s in (s', map Net out))"

text \<open>
  The macro \<open>addr_verification\<close> is defined a second time as nothing, so the address of the
  sender is not compared with the one it logged in from.
\<close>

definition OnRecvMultiForwardMsg ::
  "UdpPacket \<Rightarrow> bytes \<Rightarrow> sockaddr_in \<Rightarrow> media_server \<Rightarrow> media_server \<times> media_out list" where
  "OnRecvMultiForwardMsg msg buf srcAddr s =
     (case map_of (m_mapForwardTable s) (up_userId msg) of
        None \<Rightarrow> (s, [])
      | Some t \<Rightarrow> (s, map (\<lambda>(_, a). Net (Sendmsg buf a)) (dataTo t)))"

definition OnRecvLogoutMsg ::
  "UdpPacket \<Rightarrow> bytes \<Rightarrow> sockaddr_in \<Rightarrow> media_server \<Rightarrow> media_server \<times> media_out list" where
  "OnRecvLogoutMsg msg buf srcAddr s0 = (
     let (s, out) = OnAckClient ACK_LOGOUT msg srcAddr s0; u = up_userId msg; m = m_mapForwardTable s in
     case map_of m u of
       None \<Rightarrow> (s, out)
     | Some t \<Rightarrow> (s\<lparr>m_mapForwardTable :=
         AList.delete u (fold (\<lambda>d. modify_at d (dataTo_erase u)) (dataFrom t) m)\<rparr>, out))"

text \<open>The dispatch that \<open>BEGIN_UDPUV_BIND\<close> and its companions expand to.\<close>

definition ParsePacket ::
  "u64 \<Rightarrow> UdpPacket \<Rightarrow> bytes \<Rightarrow> sockaddr_in \<Rightarrow> media_server \<Rightarrow> media_server \<times> media_out list" where
  "ParsePacket now packet buf srcAddr s = (
     let ty = unat (up_type packet) in
     if ty < MULTI_FORWARD_MSG then OnRecvMultiForwardMsg packet buf srcAddr s
     else if ty = LOGIN_MSG then OnRecvLoginMsg now packet srcAddr s
     else if ty = SINGLE_FORWARD_MSG then OnRecvSingleForwardMsg packet buf srcAddr s
     else if ty = LOGOUT_MSG then OnRecvLogoutMsg packet buf srcAddr s
     else (s, []))"

section \<open>Messages from the signaling server\<close>

text \<open>
  \<open>OnLogout\<close> walks the two sets of the user's own entry, which the walk does not change: the
  user itself is skipped.
\<close>

definition OnLogout :: "u32 \<Rightarrow> media_server \<Rightarrow> media_server" where
  "OnLogout u s = (
     let m = m_mapForwardTable s in
     case map_of m u of
       None \<Rightarrow> s
     | Some t \<Rightarrow>
         let m1 = fold (\<lambda>d m. if d = u then m else modify_found d (dataTo_erase u) m) (dataFrom t) m;
             m2 = fold (\<lambda>d m. if d = u then m else modify_found d (dataFrom_erase u) m)
                    (map fst (dataTo t)) m1
         in s\<lparr>m_mapForwardTable := AList.delete u m2\<rparr>)"

definition OnLeaveRoom :: "u32 \<Rightarrow> media_server \<Rightarrow> media_server" where
  "OnLeaveRoom u s = (
     let m = m_mapForwardTable s in
     case map_of m u of
       None \<Rightarrow> s
     | Some t \<Rightarrow>
         let m1 = fold (\<lambda>d. modify_found d (dataTo_erase u)) (dataFrom t) m
         in s\<lparr>m_mapForwardTable := modify_found u (\<lambda>t. t\<lparr>dataFrom := [], dataTo := []\<rparr>) m1\<rparr>)"

definition OnUpdateForwardTable :: "u32 \<Rightarrow> u32 \<Rightarrow> bool \<Rightarrow> media_server \<Rightarrow> media_server" where
  "OnUpdateForwardTable srcUserId dstUserId add s = (
     let m = m_mapForwardTable s in
     case (map_of m srcUserId, map_of m dstUserId) of
       (Some src, Some dst) \<Rightarrow>
         s\<lparr>m_mapForwardTable :=
           (if add
            then modify_found dstUserId (dataFrom_insert srcUserId)
                   (modify_found srcUserId (dataTo_set dstUserId (ft_addr dst)) m)
            else modify_found dstUserId (dataFrom_erase srcUserId)
                   (modify_found srcUserId (dataTo_erase dstUserId) m))\<rparr>
     | _ \<Rightarrow> s)"

text \<open>
  The reply to a request for an unknown user leaves the address fields of the message unset;
  they are 0 here and nothing reads them when \<open>success\<close> is false.
\<close>

definition OnReqP2PAddr :: "u32 \<Rightarrow> int \<Rightarrow> media_server \<Rightarrow> CRspP2PAddrMsg" where
  "OnReqP2PAddr dstUserId clientId s =
     (case map_of (m_mapForwardTable s) dstUserId of
        None \<Rightarrow> \<lparr>rsp_dstUserId = dstUserId, rsp_dstIp = 0, rsp_dstPort = 0, rsp_dstLocalUdpPort = 0,
          rsp_clientId = clientId, rsp_success = False\<rparr>
      | Some t \<Rightarrow> \<lparr>rsp_dstUserId = dstUserId, rsp_dstIp = sin_addr (ft_addr t),
          rsp_dstPort = sin_port (ft_addr t), rsp_dstLocalUdpPort = ft_localUdpPort t,
          rsp_clientId = clientId, rsp_success = True\<rparr>)"

section \<open>Timers\<close>

text \<open>\<open>m[d]\<close> inside the iteration over \<open>m\<close>: a missing key is inserted, which may rehash.\<close>

definition modify_iterating ::
  "u32 \<Rightarrow> (ForwardTable \<Rightarrow> ForwardTable) \<Rightarrow> forward_map \<Rightarrow> forward_map outcome" where
  "modify_iterating d f m =
     (if map_of m d = None then Inl Iterator_Invalidated else Inr (modify_at d f m))"

fun modify_all_iterating ::
  "u32 list \<Rightarrow> (ForwardTable \<Rightarrow> ForwardTable) \<Rightarrow> forward_map \<Rightarrow> forward_map outcome" where
  "modify_all_iterating [] f m = Inr m"
| "modify_all_iterating (d # ds) f m =
     bind_outcome (modify_iterating d f m) (modify_all_iterating ds f)"

fun sweep :: "u64 \<Rightarrow> u32 list \<Rightarrow> forward_map \<Rightarrow> (forward_map \<times> media_out list) outcome" where
  "sweep now [] m = Inr (m, [])"
| "sweep now (k # ks) m = (case map_of m k of
       None \<Rightarrow> sweep now ks m
     | Some t \<Rightarrow>
         if now > ft_expireTime t then
           bind_outcome (modify_all_iterating (filter (\<lambda>d. d \<noteq> k) (dataFrom t)) (dataTo_erase k) m) (\<lambda>m1.
           bind_outcome (modify_all_iterating (filter (\<lambda>d. d \<noteq> k) (map fst (dataTo t))) (dataFrom_erase k) m1) (\<lambda>m2.
             map_outcome (\<lambda>(m', out). (m', User_Timeout k # out)) (sweep now ks (AList.delete k m2))))
         else sweep now ks m)"

definition offlineDetection :: "u64 \<Rightarrow> media_server \<Rightarrow> (media_server \<times> media_out list) outcome" where
  "offlineDetection now s =
     map_outcome (\<lambda>(m, out). (s\<lparr>m_mapForwardTable := m\<rparr>, out))
       (sweep now (map fst (m_mapForwardTable s)) (m_mapForwardTable s))"

definition statusDetection :: "media_server \<Rightarrow> media_server \<times> media_out list" where
  "statusDetection s = (s\<lparr>m_nSendByteCount := 0, m_nRecvByteCount := 0\<rparr>,
     [Report_Status (m_nSendByteCount s + m_nRecvByteCount s)])"

section \<open>Events\<close>

datatype media_event =
    Datagram u64 bytes "sockaddr_in option"
  | Work_Done u64 VerifyCtx bool
  | Offline_Timer u64
  | Status_Timer
  | Logout_Msg u32
  | LeaveRoom_Msg u32
  | UpdateForwardTable_Msg u32 u32 bool
  | P2PAddr_Msg u32 int

fun media_handle :: "media_server \<Rightarrow> media_event \<Rightarrow> (media_server \<times> media_out list) outcome" where
  "media_handle s (Datagram now d addr) = (case udp_receive d addr s of
       (s', None) \<Rightarrow> Inr (s', [])
     | (s', Some (packet, buf, src)) \<Rightarrow> Inr (ParsePacket now packet buf src s'))"
| "media_handle s (Work_Done now ctx success) = Inr (AfterVerification now ctx success s)"
| "media_handle s (Offline_Timer now) = offlineDetection now s"
| "media_handle s Status_Timer = Inr (statusDetection s)"
| "media_handle s (Logout_Msg u) = Inr (OnLogout u s, [])"
| "media_handle s (LeaveRoom_Msg u) = Inr (OnLeaveRoom u s, [])"
| "media_handle s (UpdateForwardTable_Msg a b add) = Inr (OnUpdateForwardTable a b add s, [])"
| "media_handle s (P2PAddr_Msg u c) = Inr (s, [P2P_Reply (OnReqP2PAddr u c s)])"

definition media_new :: "string \<Rightarrow> string \<Rightarrow> media_server" where
  "media_new url urlOnLogin = udp_handle.extend udp_handle_new
     (media_server.fields [] url urlOnLogin)"

section \<open>Lookups after each access\<close>

lemma map_of_modify_at:
  "map_of (modify_at k f m) = (map_of m)(k \<mapsto> f (case map_of m k of Some t \<Rightarrow> t | None \<Rightarrow> zero_table))"
  by (simp add: modify_at_def)

lemma map_of_modify_found:
  "map_of (modify_found k f m) x = (if x = k then map_option f (map_of m k) else map_of m x)"
  by (auto simp: modify_found_def split: option.split)

lemma distinct_modify_at [simp]: "distinct (map fst (modify_at k f m)) = distinct (map fst m)"
  by (simp add: modify_at_def)

lemma distinct_modify_found [simp]: "distinct (map fst (modify_found k f m)) = distinct (map fst m)"
  by (simp add: modify_found_def split: option.split)

lemma distinct_fold:
  "(\<And>d m. distinct (map fst (g d m)) = distinct (map fst m))
    \<Longrightarrow> distinct (map fst (fold g ds m)) = distinct (map fst m)"
  by (induction ds arbitrary: m) simp_all

lemma fold_skip:
  "fold (\<lambda>d m. if d = u then m else g d m) ds m = fold g (filter (\<lambda>d. d \<noteq> u) ds) m"
  by (induction ds arbitrary: m) simp_all

text \<open>The changes made through references into the table are idempotent erasures.\<close>

lemma erase_idem [simp]:
  "dataTo_erase u (dataTo_erase u t) = dataTo_erase u t"
  "dataFrom_erase u (dataFrom_erase u t) = dataFrom_erase u t"
  by (simp_all add: dataTo_erase_def dataFrom_erase_def delete_idem)

lemma map_of_fold_found:
  assumes "\<And>t. f (f t) = f t"
  shows "map_of (fold (\<lambda>d. modify_found d f) ds m) k
    = (if k \<in> set ds then map_option f (map_of m k) else map_of m k)"
  by (induction ds arbitrary: m)
    (auto simp: map_of_modify_found option.map_comp o_def assms)

lemma map_of_fold_at:
  assumes "\<And>t. f (f t) = f t"
  shows "map_of (fold (\<lambda>d. modify_at d f) ds m) k
    = (if k \<in> set ds then Some (f (case map_of m k of Some t \<Rightarrow> t | None \<Rightarrow> zero_table)) else map_of m k)"
  by (induction ds arbitrary: m) (auto simp: map_of_modify_at assms)

lemma modify_all_iterating_found:
  "modify_all_iterating ds f m =
    (if \<forall>d\<in>set ds. map_of m d \<noteq> None then Inr (fold (\<lambda>d. modify_found d f) ds m)
     else Inl Iterator_Invalidated)"
proof (induction ds arbitrary: m)
  case (Cons d ds)
  show ?case
  proof (cases "map_of m d")
    case (Some t)
    then have "modify_at d f m = modify_found d f m"
      by (simp add: modify_at_def modify_found_def)
    then show ?thesis using Some Cons.IH [of "modify_found d f m"]
      by (auto simp: modify_iterating_def map_of_modify_found)
  qed (simp add: modify_iterating_def)
qed simp

section \<open>The relay as a set of links\<close>

text \<open>
  What a client can observe of the table: the address of each user and the links media
  takes. The invariant ties the addresses stored with a link to the addresses of the users.
\<close>

definition address :: "media_server \<Rightarrow> u32 \<Rightarrow> sockaddr_in option" where
  "address s u = map_option ft_addr (map_of (m_mapForwardTable s) u)"

definition links_of :: "(u32 \<rightharpoonup> ForwardTable) \<Rightarrow> (u32 \<times> u32) set" where
  "links_of L = {(a, b). \<exists>t. L a = Some t \<and> map_of (dataTo t) b \<noteq> None}"

abbreviation links :: "media_server \<Rightarrow> (u32 \<times> u32) set" where
  "links s \<equiv> links_of (map_of (m_mapForwardTable s))"

definition link_ok :: "(u32 \<rightharpoonup> ForwardTable) \<Rightarrow> bool" where
  "link_ok L \<longleftrightarrow> (\<forall>a t. L a = Some t \<longrightarrow> distinct (map fst (dataTo t))
     \<and> (\<forall>b ad. map_of (dataTo t) b = Some ad \<longrightarrow>
          (\<exists>t'. L b = Some t' \<and> ft_addr t' = ad \<and> a \<in> set (dataFrom t'))))"

text \<open>No user lists a source that does not send to it.\<close>

definition sources_ok :: "(u32 \<rightharpoonup> ForwardTable) \<Rightarrow> bool" where
  "sources_ok L \<longleftrightarrow> (\<forall>b t a. L b = Some t \<and> a \<in> set (dataFrom t) \<longrightarrow> (a, b) \<in> links_of L)"

definition media_inv :: "media_server \<Rightarrow> bool" where
  "media_inv s \<longleftrightarrow> distinct (map fst (m_mapForwardTable s)) \<and> link_ok (map_of (m_mapForwardTable s))
     \<and> length (uh_buf s) = UDP_BUFFER_SIZE"

definition tidy_inv :: "media_server \<Rightarrow> bool" where
  "tidy_inv s \<longleftrightarrow> media_inv s \<and> sources_ok (map_of (m_mapForwardTable s))"

lemma link_okD:
  assumes "link_ok L" "L a = Some t"
  shows "distinct (map fst (dataTo t))"
    "map_of (dataTo t) b = Some ad \<Longrightarrow> \<exists>t'. L b = Some t' \<and> ft_addr t' = ad \<and> a \<in> set (dataFrom t')"
  using assms unfolding link_ok_def by blast+

lemma link_ok_target: "link_ok L \<Longrightarrow> (a, b) \<in> links_of L \<Longrightarrow> L b \<noteq> None"
  by (fastforce simp: links_of_def dest: link_okD(2))

lemma link_ok_absent:
  assumes "link_ok L" "L u = None"
  shows "{(a, b) \<in> links_of L. a \<noteq> u \<and> b \<noteq> u} = links_of L"
proof -
  have "a \<noteq> u \<and> b \<noteq> u" if "(a, b) \<in> links_of L" for a b
    using link_ok_target [OF assms(1) that] that assms(2) by (auto simp: links_of_def)
  then show ?thesis by auto
qed

text \<open>
  Cutting a user off: every source the user lists stops sending to it, its own entry goes or
  sends nothing, other entries lose at most the user, and entries that appear send nothing.
\<close>

lemma link_cut:
  assumes ok: "link_ok L"
    and own: "\<And>t. L' u = Some t \<Longrightarrow> dataTo t = []"
    and other: "\<And>k t. k \<noteq> u \<Longrightarrow> L k = Some t \<Longrightarrow> \<exists>t'. L' k = Some t' \<and> ft_addr t' = ft_addr t
      \<and> (dataTo t' = dataTo t \<and> map_of (dataTo t) u = None \<or> dataTo t' = AList.delete u (dataTo t))
      \<and> set (dataFrom t) - {u} \<subseteq> set (dataFrom t')"
    and fresh: "\<And>k t. k \<noteq> u \<Longrightarrow> L k = None \<Longrightarrow> L' k = Some t \<Longrightarrow> dataTo t = []"
  shows "link_ok L'" "links_of L' = {(a, b) \<in> links_of L. a \<noteq> u \<and> b \<noteq> u}"
proof -
  have cut: "map_of (dataTo t') = (map_of (dataTo t))(u := None)" "distinct (map fst (dataTo t'))"
    if "k \<noteq> u" "L k = Some t" "L' k = Some t'" for k t t'
    using other [OF that(1,2)] that(3) link_okD(1) [OF ok that(2)]
    by (auto simp: fun_upd_idem distinct_delete)
  show links: "links_of L' = {(a, b) \<in> links_of L. a \<noteq> u \<and> b \<noteq> u}"
  proof (intro set_eqI)
    fix x :: "u32 \<times> u32"
    obtain a b where x: "x = (a, b)" by (cases x)
    show "x \<in> links_of L' \<longleftrightarrow> x \<in> {(a, b) \<in> links_of L. a \<noteq> u \<and> b \<noteq> u}"
    proof (cases "a = u \<or> L a = None")
      case True
      then show ?thesis using own fresh x by (fastforce simp: links_of_def)
    next
      case False
      then obtain t where t: "L a = Some t" "a \<noteq> u" by blast
      then obtain t' where t': "L' a = Some t'" using other by blast
      show ?thesis using cut(1) [OF t(2,1) t'] t t' x by (auto simp: links_of_def)
    qed
  qed
  show "link_ok L'"
    unfolding link_ok_def
  proof (intro allI impI conjI)
    fix a t' assume L': "L' a = Some t'"
    show "distinct (map fst (dataTo t'))"
      using L' own fresh cut(2) by (cases "a = u"; cases "L a") auto
    fix b ad assume b: "map_of (dataTo t') b = Some ad"
    have "(a, b) \<in> links_of L'" using L' b by (auto simp: links_of_def)
    then have ab: "a \<noteq> u" "b \<noteq> u" "(a, b) \<in> links_of L" using links by auto
    then obtain t where t: "L a = Some t" by (auto simp: links_of_def)
    have "map_of (dataTo t) b = Some ad" using cut(1) [OF ab(1) t L'] b ab(2) by simp
    then obtain tb where tb: "L b = Some tb" "ft_addr tb = ad" "a \<in> set (dataFrom tb)"
      using link_okD(2) [OF ok t] by blast
    from other [OF ab(2) tb(1)] tb(2,3) ab(1)
    show "\<exists>t'. L' b = Some t' \<and> ft_addr t' = ad \<and> a \<in> set (dataFrom t')" by fastforce
  qed
qed


lemma sources_cut:
  assumes ok: "sources_ok L" and links: "links_of L' = {(a, b) \<in> links_of L. a \<noteq> u \<and> b \<noteq> u}"
    and own: "L' u = None"
    and other: "\<And>k t'. k \<noteq> u \<Longrightarrow> L' k = Some t' \<Longrightarrow>
      \<exists>t. L k = Some t \<and> set (dataFrom t') \<subseteq> set (dataFrom t) \<and> u \<notin> set (dataFrom t')"
  shows "sources_ok L'"
  unfolding sources_ok_def
proof (intro allI impI)
  fix b t' a assume h: "L' b = Some t' \<and> a \<in> set (dataFrom t')"
  with own have b: "b \<noteq> u" by auto
  from other [OF b] h obtain t where "L b = Some t" "a \<in> set (dataFrom t)" "a \<noteq> u" by blast
  with ok have "(a, b) \<in> links_of L" by (auto simp: sources_ok_def)
  then show "(a, b) \<in> links_of L'" using links b \<open>a \<noteq> u\<close> by simp
qed

text \<open>The table after \<open>OnLogout\<close>, which is also what a timeout leaves.\<close>

definition logout_table :: "u32 \<Rightarrow> forward_map \<Rightarrow> forward_map" where
  "logout_table u m = (case map_of m u of None \<Rightarrow> m
     | Some t \<Rightarrow> AList.delete u
         (fold (\<lambda>d. modify_found d (dataFrom_erase u)) (filter (\<lambda>d. d \<noteq> u) (map fst (dataTo t)))
           (fold (\<lambda>d. modify_found d (dataTo_erase u)) (filter (\<lambda>d. d \<noteq> u) (dataFrom t)) m)))"

lemma OnLogout_table:
  "OnLogout u s = s\<lparr>m_mapForwardTable := logout_table u (m_mapForwardTable s)\<rparr>"
  by (simp add: OnLogout_def logout_table_def fold_skip Let_def split: option.split)

lemma map_of_logout_table:
  assumes "map_of m u = Some t"
  shows "map_of (logout_table u m) k = (if k = u then None
     else map_option (\<lambda>x. (if map_of (dataTo t) k \<noteq> None then dataFrom_erase u else id)
       ((if k \<in> set (dataFrom t) then dataTo_erase u else id) x)) (map_of m k))"
proof -
  have "k \<in> fst ` set (dataTo t) \<longleftrightarrow> map_of (dataTo t) k \<noteq> None"
    by (metis map_of_eq_None_iff)
  then show ?thesis using assms
    by (auto simp: logout_table_def map_of_fold_found option.map_comp o_def option.map_id option.map_ident)
qed

lemma distinct_logout_table:
  "distinct (map fst m) \<Longrightarrow> distinct (map fst (logout_table u m))"
  by (simp add: logout_table_def distinct_fold distinct_delete split: option.split)

lemma logout_table_cut:
  assumes "link_ok (map_of m)"
  shows "link_ok (map_of (logout_table u m))"
    "links_of (map_of (logout_table u m)) = {(a, b) \<in> links_of (map_of m). a \<noteq> u \<and> b \<noteq> u}"
    "k \<noteq> u \<Longrightarrow> map_option ft_addr (map_of (logout_table u m) k) = map_option ft_addr (map_of m k)"
    "k \<noteq> u \<Longrightarrow> map_option ft_expireTime (map_of (logout_table u m) k) = map_option ft_expireTime (map_of m k)"
    "map_of (logout_table u m) u = None"
    "sources_ok (map_of m) \<Longrightarrow> sources_ok (map_of (logout_table u m))"
proof -
  let ?L = "map_of m" and ?L' = "map_of (logout_table u m)"
  have "link_ok ?L' \<and> links_of ?L' = {(a, b) \<in> links_of ?L. a \<noteq> u \<and> b \<noteq> u}
      \<and> (sources_ok ?L \<longrightarrow> sources_ok ?L')"
  proof (cases "?L u")
    case None
    then show ?thesis using assms link_ok_absent [OF assms None] by (simp add: logout_table_def)
  next
    case (Some t)
    note L' = map_of_logout_table [OF Some]
    have src: "u \<notin> dom (map_of (dataTo x))" if "?L k = Some x" "k \<notin> set (dataFrom t)" for k x
      using link_okD(2) [OF assms that(1)] that(2) Some by fastforce
    have cut: "link_ok ?L'" "links_of ?L' = {(a, b) \<in> links_of ?L. a \<noteq> u \<and> b \<noteq> u}"
      by (rule link_cut [OF assms, of _ u];
        use src in \<open>auto simp: L' dataTo_erase_def dataFrom_erase_def domIff\<close>)+
    moreover have "sources_ok ?L'" if so: "sources_ok ?L"
    proof (rule sources_cut [OF so cut(2)])
      fix k t' assume k: "k \<noteq> u" "?L' k = Some t'"
      then obtain x where x: "?L k = Some x" by (auto simp: L')
      have "u \<in> set (dataFrom x) \<Longrightarrow> map_of (dataTo t) k \<noteq> None"
        using so x Some by (fastforce simp: sources_ok_def links_of_def)
      then show "\<exists>t. ?L k = Some t \<and> set (dataFrom t') \<subseteq> set (dataFrom t) \<and> u \<notin> set (dataFrom t')"
        using k x by (auto simp: L' dataTo_erase_def dataFrom_erase_def split: if_splits)
    qed (simp add: L')
    ultimately show ?thesis by blast
  qed
  then show "link_ok ?L'" "links_of ?L' = {(a, b) \<in> links_of ?L. a \<noteq> u \<and> b \<noteq> u}"
    "sources_ok ?L \<Longrightarrow> sources_ok ?L'" by blast+
  show "k \<noteq> u \<Longrightarrow> map_option ft_addr (?L' k) = map_option ft_addr (?L k)"
    "k \<noteq> u \<Longrightarrow> map_option ft_expireTime (?L' k) = map_option ft_expireTime (?L k)" "?L' u = None"
    by (cases "?L u"; simp add: logout_table_def; fail | cases "?L u";
        simp add: map_of_logout_table option.map_comp o_def dataTo_erase_def dataFrom_erase_def
          cong: option.map_cong)+
qed

lemma OnLogout_ok:
  assumes "media_inv s"
  shows "media_inv (OnLogout u s)" "links (OnLogout u s) = {(a, b) \<in> links s. a \<noteq> u \<and> b \<noteq> u}"
    "address (OnLogout u s) = (address s)(u := None)" "tidy_inv s \<Longrightarrow> tidy_inv (OnLogout u s)"
  using assms logout_table_cut
  by (auto simp: media_inv_def tidy_inv_def OnLogout_table address_def distinct_logout_table fun_eq_iff)

lemma OnLeaveRoom_ok:
  assumes "media_inv s"
  shows "media_inv (OnLeaveRoom u s)" "links (OnLeaveRoom u s) = {(a, b) \<in> links s. a \<noteq> u \<and> b \<noteq> u}"
    "address (OnLeaveRoom u s) = address s"
proof -
  let ?m = "m_mapForwardTable s"
  have ok: "link_ok (map_of ?m)" and d: "distinct (map fst ?m)" using assms by (simp_all add: media_inv_def)
  have "media_inv (OnLeaveRoom u s) \<and> links (OnLeaveRoom u s) = {(a, b) \<in> links s. a \<noteq> u \<and> b \<noteq> u}
      \<and> address (OnLeaveRoom u s) = address s"
  proof (cases "map_of ?m u")
    case None
    then show ?thesis using assms link_ok_absent [OF ok None] by (simp add: OnLeaveRoom_def Let_def)
  next
    case (Some t)
    let ?m' = "m_mapForwardTable (OnLeaveRoom u s)"
    have b: "uh_buf (OnLeaveRoom u s) = uh_buf s"
      using Some by (simp add: OnLeaveRoom_def Let_def)
    have L': "map_of ?m' k = (if k = u
        then map_option (\<lambda>x. ((if k \<in> set (dataFrom t) then dataTo_erase u else id) x)\<lparr>dataFrom := [], dataTo := []\<rparr>) (map_of ?m k)
        else map_option (if k \<in> set (dataFrom t) then dataTo_erase u else id) (map_of ?m k))" for k
      using Some by (auto simp: OnLeaveRoom_def Let_def map_of_modify_found map_of_fold_found
          option.map_comp o_def option.map_id option.map_ident)
    have src: "u \<notin> dom (map_of (dataTo x))" if "map_of ?m k = Some x" "k \<notin> set (dataFrom t)" for k x
      using link_okD(2) [OF ok that(1)] that(2) Some by fastforce
    have cut: "link_ok (map_of ?m')" "links_of (map_of ?m') = {(a, b) \<in> links s. a \<noteq> u \<and> b \<noteq> u}"
      by (rule link_cut [OF ok, of _ u]; use src in \<open>auto simp: L' dataTo_erase_def domIff\<close>)+
    have "distinct (map fst ?m')"
      using d Some by (simp add: OnLeaveRoom_def Let_def distinct_fold)
    then have "media_inv (OnLeaveRoom u s)" using cut assms b by (simp add: media_inv_def)
    moreover have "address (OnLeaveRoom u s) k = address s k" for k
      unfolding address_def by (simp add: L' option.map_comp o_def dataTo_erase_def cong: option.map_cong)
    ultimately show ?thesis using cut(2) by (simp add: fun_eq_iff)
  qed
  then show "media_inv (OnLeaveRoom u s)" "links (OnLeaveRoom u s) = {(a, b) \<in> links s. a \<noteq> u \<and> b \<noteq> u}"
    "address (OnLeaveRoom u s) = address s" by blast+
qed


section \<open>The other handlers\<close>

lemma OnAckClient_fields [simp]:
  "m_mapForwardTable (fst (OnAckClient a p src s)) = m_mapForwardTable s"
  "uh_buf (fst (OnAckClient a p src s)) = uh_buf s"
  by (simp_all add: OnAckClient_def Let_def udp_send_def)

lemma table_unchanged:
  "m_mapForwardTable s' = m_mapForwardTable s \<Longrightarrow> links s' = links s"
  "m_mapForwardTable s' = m_mapForwardTable s \<Longrightarrow> address s' = address s"
  "m_mapForwardTable s' = m_mapForwardTable s \<Longrightarrow> uh_buf s' = uh_buf s \<Longrightarrow> media_inv s' = media_inv s"
  "m_mapForwardTable s' = m_mapForwardTable s \<Longrightarrow> uh_buf s' = uh_buf s \<Longrightarrow> tidy_inv s' = tidy_inv s"
  by (simp_all add: address_def fun_eq_iff media_inv_def tidy_inv_def)

text \<open>A change of fields that are not observed, and a user that is added without links.\<close>

lemma links_refresh:
  assumes "L k = Some t" "dataTo t' = dataTo t" "dataFrom t' = dataFrom t" "ft_addr t' = ft_addr t"
  shows "links_of (L(k \<mapsto> t')) = links_of L" "link_ok L \<Longrightarrow> link_ok (L(k \<mapsto> t'))"
    "sources_ok L \<Longrightarrow> sources_ok (L(k \<mapsto> t'))"
proof -
  show l: "links_of (L(k \<mapsto> t')) = links_of L"
    using assms(1,2) by (auto simp: links_of_def split: if_splits)
  show "link_ok (L(k \<mapsto> t'))" if ok: "link_ok L"
    unfolding link_ok_def
  proof (intro allI impI conjI)
    fix a x assume "(L(k \<mapsto> t')) a = Some x"
    then obtain y where y: "L a = Some y" "dataTo x = dataTo y"
      using assms by (cases "a = k") auto
    show "distinct (map fst (dataTo x))" using link_okD(1) [OF ok y(1)] y(2) by simp
    fix b ad assume "map_of (dataTo x) b = Some ad"
    then obtain z where "L b = Some z" "ft_addr z = ad" "a \<in> set (dataFrom z)"
      using link_okD(2) [OF ok y(1)] y(2) by metis
    then show "\<exists>z. (L(k \<mapsto> t')) b = Some z \<and> ft_addr z = ad \<and> a \<in> set (dataFrom z)"
      using assms by (cases "b = k") auto
  qed
  show "sources_ok (L(k \<mapsto> t'))" if "sources_ok L"
    using that assms unfolding sources_ok_def l by (auto simp: fun_upd_def)
qed

lemma links_join:
  assumes "L k = None" "dataTo t = []" "dataFrom t = []"
  shows "links_of (L(k \<mapsto> t)) = links_of L" "link_ok L \<Longrightarrow> link_ok (L(k \<mapsto> t))"
    "sources_ok L \<Longrightarrow> sources_ok (L(k \<mapsto> t))"
proof -
  show l: "links_of (L(k \<mapsto> t)) = links_of L"
    using assms(1,2) by (auto simp: links_of_def split: if_splits)
  show "link_ok (L(k \<mapsto> t))" if ok: "link_ok L"
    unfolding link_ok_def
  proof (intro allI impI conjI)
    fix a x assume a: "(L(k \<mapsto> t)) a = Some x"
    show "distinct (map fst (dataTo x))" using a assms link_okD(1) [OF ok] by (cases "a = k") auto
    fix b ad assume b: "map_of (dataTo x) b = Some ad"
    then have y: "L a = Some x" using a assms by (cases "a = k") auto
    from link_okD(2) [OF ok y b] obtain z where "L b = Some z" "ft_addr z = ad" "a \<in> set (dataFrom z)"
      by blast
    moreover from this(1) assms(1) have "b \<noteq> k" by auto
    ultimately show "\<exists>z. (L(k \<mapsto> t)) b = Some z \<and> ft_addr z = ad \<and> a \<in> set (dataFrom z)" by simp
  qed
  show "sources_ok (L(k \<mapsto> t))" if "sources_ok L"
    using that assms unfolding sources_ok_def l by (auto simp: fun_upd_def)
qed

lemma OnUpdateActiveTime_ok:
  assumes "map_of (m_mapForwardTable s) u \<noteq> None"
  shows "links (OnUpdateActiveTime now u s) = links s" "address (OnUpdateActiveTime now u s) = address s"
    "media_inv s \<Longrightarrow> media_inv (OnUpdateActiveTime now u s)"
    "tidy_inv s \<Longrightarrow> tidy_inv (OnUpdateActiveTime now u s)"
proof -
  obtain t where t: "map_of (m_mapForwardTable s) u = Some t" using assms by auto
  note r = links_refresh [where L = "map_of (m_mapForwardTable s)" and k = u and t = t
      and t' = "t\<lparr>ft_expireTime := now + 3 * m_nTimeout\<rparr>", OF t, simplified]
  have L: "map_of (m_mapForwardTable (OnUpdateActiveTime now u s))
      = (map_of (m_mapForwardTable s))(u \<mapsto> t\<lparr>ft_expireTime := now + 3 * m_nTimeout\<rparr>)"
    using t by (simp add: OnUpdateActiveTime_def map_of_modify_at)
  have d: "distinct (map fst (m_mapForwardTable (OnUpdateActiveTime now u s)))
      = distinct (map fst (m_mapForwardTable s))" "uh_buf (OnUpdateActiveTime now u s) = uh_buf s"
    by (simp_all add: OnUpdateActiveTime_def)
  show "links (OnUpdateActiveTime now u s) = links s" "address (OnUpdateActiveTime now u s) = address s"
    "media_inv s \<Longrightarrow> media_inv (OnUpdateActiveTime now u s)"
    "tidy_inv s \<Longrightarrow> tidy_inv (OnUpdateActiveTime now u s)"
    using t r by (auto simp: L d address_def media_inv_def tidy_inv_def fun_eq_iff)
qed

lemma OnUpdateLoginInfo_ok:
  defines "s' now msg src s \<equiv> fst (OnUpdateLoginInfo now msg src s)"
  shows "links (s' now msg src s) = links s"
    "address (s' now msg src s) = (case address s (up_userId msg) of
        None \<Rightarrow> (address s)(up_userId msg \<mapsto> src) | Some _ \<Rightarrow> address s)"
    "media_inv s \<Longrightarrow> media_inv (s' now msg src s)" "tidy_inv s \<Longrightarrow> tidy_inv (s' now msg src s)"
proof -
  let ?t = "\<lparr>ft_addr = src, ft_sessionId = up_sessionId msg,
    ft_expireTime = now + 3 * m_nTimeout, ft_localUdpPort = up_localPort msg, dataTo = [], dataFrom = []\<rparr>"
  have m: "m_mapForwardTable (s' now msg src s) = (case map_of (m_mapForwardTable s) (up_userId msg) of
      None \<Rightarrow> m_mapForwardTable s @ [(up_userId msg, ?t)] | Some _ \<Rightarrow> m_mapForwardTable s)"
    and b: "uh_buf (s' now msg src s) = uh_buf s"
    by (simp_all add: s'_def OnUpdateLoginInfo_def OnAckClient_def udp_send_def Let_def split: option.split)
  have "links (s' now msg src s) = links s \<and>
      address (s' now msg src s) = (case address s (up_userId msg) of
        None \<Rightarrow> (address s)(up_userId msg \<mapsto> src) | Some _ \<Rightarrow> address s) \<and>
      (media_inv s \<longrightarrow> media_inv (s' now msg src s)) \<and> (tidy_inv s \<longrightarrow> tidy_inv (s' now msg src s))"
  proof (cases "map_of (m_mapForwardTable s) (up_userId msg)")
    case None
    have L: "map_of (m_mapForwardTable (s' now msg src s)) = (map_of (m_mapForwardTable s))(up_userId msg \<mapsto> ?t)"
      using None by (auto simp: m map_of_append map_add_def fun_eq_iff split: option.split)
    note j = links_join [where L = "map_of (m_mapForwardTable s)" and k = "up_userId msg" and t = ?t,
        OF None, simplified]
    have "distinct (map fst (m_mapForwardTable s)) \<Longrightarrow> distinct (map fst (m_mapForwardTable (s' now msg src s)))"
      using None map_of_eq_None_iff [of "m_mapForwardTable s" "up_userId msg"] by (simp add: m)
    then show ?thesis
      using None j by (auto simp: L b address_def media_inv_def tidy_inv_def fun_eq_iff)
  next
    case (Some t)
    then have "m_mapForwardTable (s' now msg src s) = m_mapForwardTable s" by (simp add: m)
    then show ?thesis
      using Some table_unchanged [OF _ , of "s' now msg src s" s] b by (simp add: address_def)
  qed
  then show "links (s' now msg src s) = links s"
    "address (s' now msg src s) = (case address s (up_userId msg) of
        None \<Rightarrow> (address s)(up_userId msg \<mapsto> src) | Some _ \<Rightarrow> address s)"
    "media_inv s \<Longrightarrow> media_inv (s' now msg src s)" "tidy_inv s \<Longrightarrow> tidy_inv (s' now msg src s)"
    by blast+
qed


lemma OnRecvLogoutMsg_ok:
  fixes msg :: UdpPacket and buf :: bytes and src :: sockaddr_in
  assumes "media_inv s"
  defines "s' \<equiv> fst (OnRecvLogoutMsg msg buf src s)" and "u \<equiv> up_userId msg"
  shows "media_inv s'" "links s' = {(a, b) \<in> links s. a \<noteq> u \<and> b \<noteq> u}"
    "address s' u = None" "k \<noteq> u \<Longrightarrow> address s k \<noteq> None \<Longrightarrow> address s' k = address s k"
proof -
  let ?m = "m_mapForwardTable s" and ?m' = "m_mapForwardTable s'"
  have ok: "link_ok (map_of ?m)" and d: "distinct (map fst ?m)" using assms(1) by (simp_all add: media_inv_def)
  have "media_inv s' \<and> links s' = {(a, b) \<in> links s. a \<noteq> u \<and> b \<noteq> u} \<and> address s' u = None
     \<and> (\<forall>k. k \<noteq> u \<longrightarrow> address s k \<noteq> None \<longrightarrow> address s' k = address s k)"
  proof (cases "map_of ?m u")
    case None
    then have "?m' = ?m" "uh_buf s' = uh_buf s"
      by (simp_all add: s'_def u_def OnRecvLogoutMsg_def Let_def case_prod_beta)
    then show ?thesis using assms(1) None link_ok_absent [OF ok None]
      by (simp add: media_inv_def address_def)
  next
    case (Some t)
    have m': "?m' = AList.delete u (fold (\<lambda>d. modify_at d (dataTo_erase u)) (dataFrom t) ?m)"
      "uh_buf s' = uh_buf s"
      using Some by (simp_all add: s'_def u_def OnRecvLogoutMsg_def Let_def case_prod_beta)
    have L': "map_of ?m' k = (if k = u then None else if k \<in> set (dataFrom t)
        then Some (dataTo_erase u (case map_of ?m k of Some x \<Rightarrow> x | None \<Rightarrow> zero_table)) else map_of ?m k)" for k
      by (simp add: m' map_of_fold_at)
    have srct: "u \<notin> dom (map_of (dataTo x))" if "map_of ?m k = Some x" "k \<notin> set (dataFrom t)" for k x
      using link_okD(2) [OF ok that(1)] that(2) Some by fastforce
    have cut: "link_ok (map_of ?m')" "links_of (map_of ?m') = {(a, b) \<in> links s. a \<noteq> u \<and> b \<noteq> u}"
      by (rule link_cut [OF ok, of _ u];
        use srct in \<open>auto simp: L' dataTo_erase_def zero_table_def domIff split: if_splits\<close>)+
    have "distinct (map fst ?m')" using d by (simp add: m' distinct_fold distinct_delete)
    then show ?thesis using cut assms(1) m'(2)
      by (auto simp: media_inv_def address_def L' dataTo_erase_def split: option.split)
  qed
  then show "media_inv s'" "links s' = {(a, b) \<in> links s. a \<noteq> u \<and> b \<noteq> u}"
    "address s' u = None" "k \<noteq> u \<Longrightarrow> address s k \<noteq> None \<Longrightarrow> address s' k = address s k"
    by blast+
qed

lemma OnUpdateForwardTable_ok:
  fixes a b :: u32 and add :: bool
  assumes "media_inv s"
  defines "s' \<equiv> OnUpdateForwardTable a b add s"
  shows "media_inv s'" "tidy_inv s \<Longrightarrow> tidy_inv s'" "address s' = address s"
    "links s' = (if address s a \<noteq> None \<and> address s b \<noteq> None
      then if add then insert (a, b) (links s) else links s - {(a, b)} else links s)"
proof -
  let ?m = "m_mapForwardTable s" and ?m' = "m_mapForwardTable s'"
  have ok: "link_ok (map_of ?m)" and d: "distinct (map fst ?m)" using assms(1) by (simp_all add: media_inv_def)
  have "media_inv s' \<and> (tidy_inv s \<longrightarrow> tidy_inv s') \<and> address s' = address s \<and>
    links s' = (if address s a \<noteq> None \<and> address s b \<noteq> None
      then if add then insert (a, b) (links s) else links s - {(a, b)} else links s)"
  proof (cases "map_of ?m a = None \<or> map_of ?m b = None")
    case True
    then have "s' = s" by (auto simp: s'_def OnUpdateForwardTable_def Let_def split: option.split)
    then show ?thesis using assms(1) True by (auto simp: address_def)
  next
    case False
    then obtain ta tb where t: "map_of ?m a = Some ta" "map_of ?m b = Some tb" by auto
    have m': "?m' = (if add
            then modify_found b (dataFrom_insert a) (modify_found a (dataTo_set b (ft_addr tb)) ?m)
            else modify_found b (dataFrom_erase a) (modify_found a (dataTo_erase b) ?m))"
      and ub: "uh_buf s' = uh_buf s"
      using t by (simp_all add: s'_def OnUpdateForwardTable_def Let_def)
    have L': "map_of ?m' k = map_option (\<lambda>x. (if k = b then (if add then dataFrom_insert a else dataFrom_erase a) else id)
        ((if k = a then (if add then dataTo_set b (ft_addr tb) else dataTo_erase b) else id) x)) (map_of ?m k)" for k
      by (auto simp: m' map_of_modify_found option.map_comp o_def option.map_id option.map_ident)
    have dd: "distinct (map fst ?m')" using d by (simp add: m')
    note defs = dataTo_set_def dataTo_erase_def dataFrom_insert_def dataFrom_erase_def
    have ad: "address s' = address s"
      by (auto simp: fun_eq_iff address_def L' option.map_comp o_def defs cong: option.map_cong)
    have lk: "links s' = (if add then insert (a, b) (links s) else links s - {(a, b)})"
      using t by (auto simp: links_of_def L' defs split: if_splits)
    have "link_ok (map_of ?m')"
      unfolding link_ok_def
    proof (intro allI impI conjI)
      fix x y assume xy: "map_of ?m' x = Some y"
      then obtain z where z: "map_of ?m x = Some z" by (auto simp: L')
      show "distinct (map fst (dataTo y))"
        using xy z link_okD(1) [OF ok z] by (auto simp: L' defs distinct_delete)
      fix c ac assume c: "map_of (dataTo y) c = Some ac"
      show "\<exists>t'. map_of ?m' c = Some t' \<and> ft_addr t' = ac \<and> x \<in> set (dataFrom t')"
      proof (cases "x = a \<and> c = b")
        case True
        then show ?thesis using c xy z t by (auto simp: L' defs split: if_splits)
      next
        case neq: False
        have "map_of (dataTo z) c = Some ac"
          using c xy z neq by (auto simp: L' defs split: if_splits)
        then obtain t' where "map_of ?m c = Some t'" "ft_addr t' = ac" "x \<in> set (dataFrom t')"
          using link_okD(2) [OF ok z] by blast
        then show ?thesis using neq by (auto simp: L' defs)
      qed
    qed
    then have inv: "media_inv s'" using dd ub assms(1) by (simp add: media_inv_def)
    have "sources_ok (map_of ?m')" if so: "sources_ok (map_of ?m)"
      unfolding sources_ok_def
    proof (intro allI impI)
      fix c y x assume h: "map_of ?m' c = Some y \<and> x \<in> set (dataFrom y)"
      then obtain z where z: "map_of ?m c = Some z" by (auto simp: L')
      have "x \<in> set (dataFrom z) \<and> (add \<or> x \<noteq> a \<or> c \<noteq> b) \<or> add \<and> x = a \<and> c = b"
        using h z by (auto simp: L' defs split: if_splits)
      then show "(x, c) \<in> links s'"
        using so z unfolding lk sources_ok_def by auto
    qed
    then show ?thesis using inv ad lk t by (auto simp: tidy_inv_def address_def)
  qed
  then show "media_inv s'" "tidy_inv s \<Longrightarrow> tidy_inv s'" "address s' = address s"
    "links s' = (if address s a \<noteq> None \<and> address s b \<noteq> None
      then if add then insert (a, b) (links s) else links s - {(a, b)} else links s)" by blast+
qed


section \<open>The sweep\<close>

definition expired :: "u64 \<Rightarrow> forward_map \<Rightarrow> u32 \<Rightarrow> bool" where
  "expired now m k \<longleftrightarrow> (\<exists>t. map_of m k = Some t \<and> now > ft_expireTime t)"

definition peers_present :: "u32 \<Rightarrow> ForwardTable \<Rightarrow> forward_map \<Rightarrow> bool" where
  "peers_present k t m \<longleftrightarrow> (\<forall>d\<in>set (dataFrom t) \<union> fst ` set (dataTo t). d \<noteq> k \<longrightarrow> map_of m d \<noteq> None)"

lemma sweep_Cons:
  "sweep now (k # ks) m = (if expired now m k then
      (if peers_present k (the (map_of m k)) m
       then map_outcome (\<lambda>(m', out). (m', User_Timeout k # out)) (sweep now ks (logout_table k m))
       else Inl Iterator_Invalidated)
     else sweep now ks m)"
proof (cases "map_of m k")
  case (Some t)
  define ds1 ds2 where ds: "ds1 = filter (\<lambda>d. d \<noteq> k) (dataFrom t)" "ds2 = filter (\<lambda>d. d \<noteq> k) (map fst (dataTo t))"
  define m1 where "m1 = fold (\<lambda>d. modify_found d (dataTo_erase k)) ds1 m"
  define A B where AB: "A \<longleftrightarrow> (\<forall>d\<in>set ds1. map_of m d \<noteq> None)" "B \<longleftrightarrow> (\<forall>d\<in>set ds2. map_of m d \<noteq> None)"
  have 1: "modify_all_iterating ds1 (dataTo_erase k) m = (if A then Inr m1 else Inl Iterator_Invalidated)"
    unfolding modify_all_iterating_found AB m1_def ..
  have "(\<forall>d\<in>set ds2. map_of m1 d \<noteq> None) \<longleftrightarrow> B"
    unfolding AB by (intro ball_cong refl) (auto simp: m1_def map_of_fold_found)
  then have 2: "modify_all_iterating ds2 (dataFrom_erase k) m1
      = (if B then Inr (fold (\<lambda>d. modify_found d (dataFrom_erase k)) ds2 m1) else Inl Iterator_Invalidated)"
    unfolding modify_all_iterating_found by simp
  have p: "peers_present k t m \<longleftrightarrow> A \<and> B"
    unfolding peers_present_def AB ds by auto
  have l: "logout_table k m = AList.delete k (fold (\<lambda>d. modify_found d (dataFrom_erase k)) ds2 m1)"
    using Some by (simp add: logout_table_def m1_def ds)
  show ?thesis
    using Some by (simp add: expired_def ds [symmetric] 1 2 p l)
qed (simp add: expired_def)

declare sweep.simps(2) [simp del]

lemma expired_logout:
  assumes "link_ok (map_of m)" "k \<noteq> u"
  shows "expired now (logout_table u m) k = expired now m k"
  using logout_table_cut(4) [OF assms, of] by (auto simp: expired_def map_option_case split: option.splits)

lemma sweep_result:
  assumes "link_ok (map_of m)" "distinct (map fst m)" "distinct ks" "sweep now ks m = Inr (m', out)"
  shows "link_ok (map_of m') \<and> distinct (map fst m')
    \<and> links_of (map_of m') = {(a, b) \<in> links_of (map_of m). \<not> (a \<in> set ks \<and> expired now m a) \<and> \<not> (b \<in> set ks \<and> expired now m b)}
    \<and> (\<forall>k. map_option ft_addr (map_of m' k) = (if k \<in> set ks \<and> expired now m k then None else map_option ft_addr (map_of m k)))
    \<and> (sources_ok (map_of m) \<longrightarrow> sources_ok (map_of m'))
    \<and> out = map User_Timeout (filter (expired now m) ks)"
  using assms
proof (induction ks arbitrary: m out)
  case (Cons k ks)
  note ok = Cons.prems(1)
  show ?case
  proof (cases "expired now m k")
    case False
    then have s: "sweep now ks m = Inr (m', out)" using Cons.prems(4) by (simp add: sweep_Cons)
    have e: "(x \<in> set (k # ks) \<and> expired now m x) = (x \<in> set ks \<and> expired now m x)" for x
      using False by auto
    show ?thesis using Cons.IH [OF ok Cons.prems(2) _ s] Cons.prems(3) False
      unfolding e by simp
  next
    case True
    from Cons.prems(4) True obtain out' where s: "sweep now ks (logout_table k m) = Inr (m', out')"
      "out = User_Timeout k # out'"
      by (auto simp: sweep_Cons split: if_splits)
    note cut = logout_table_cut [OF ok]
    have k: "k \<notin> set ks" "distinct ks" using Cons.prems(3) by simp_all
    have e: "(x \<in> set ks \<and> expired now (logout_table k m) x) = (x \<in> set ks \<and> expired now m x)" for x
      using k(1) expired_logout [OF ok, of x k now] by auto
    have f: "filter (expired now (logout_table k m)) ks = filter (expired now m) ks"
      using e by (intro filter_cong) auto
    note IH = Cons.IH [OF cut(1) distinct_logout_table [OF Cons.prems(2)] k(2) s(1), unfolded e f]
    have "map_option ft_addr (map_of m' x) = (if x \<in> set (k # ks) \<and> expired now m x then None
        else map_option ft_addr (map_of m x))" for x
      using IH True cut(3) [of x k] cut(5) by (cases "x = k") auto
    moreover have "links_of (map_of m') = {(a, b) \<in> links_of (map_of m).
        \<not> (a \<in> set (k # ks) \<and> expired now m a) \<and> \<not> (b \<in> set (k # ks) \<and> expired now m b)}"
      using IH True cut(2) [of k] by auto
    ultimately show ?thesis using IH True s(2) cut(6) [of k] by auto
  qed
qed simp

lemma sweep_total:
  assumes "link_ok (map_of m)" "sources_ok (map_of m)"
  shows "\<exists>r. sweep now ks m = Inr r"
  using assms
proof (induction ks arbitrary: m)
  case (Cons k ks)
  show ?case
  proof (cases "expired now m k")
    case True
    then obtain t where t: "map_of m k = Some t" by (auto simp: expired_def)
    have "map_of m d \<noteq> None" if d: "d \<in> fst ` set (dataTo t)" for d
    proof -
      have "map_of (dataTo t) d \<noteq> None" using d by (simp add: map_of_eq_None_iff)
      then obtain ad where "map_of (dataTo t) d = Some ad" by auto
      then show ?thesis using link_okD(2) [OF Cons.prems(1) t] by auto
    qed
    moreover have "map_of m d \<noteq> None" if "d \<in> set (dataFrom t)" for d
      using Cons.prems(2) t that by (fastforce simp: sources_ok_def links_of_def)
    ultimately have "peers_present k (the (map_of m k)) m"
      using t by (auto simp: peers_present_def)
    moreover obtain r where "sweep now ks (logout_table k m) = Inr r"
      using Cons.IH [of "logout_table k m"] logout_table_cut(1,6) Cons.prems by blast
    ultimately show ?thesis using True by (cases r) (simp add: sweep_Cons)
  qed (use Cons in \<open>simp add: sweep_Cons\<close>)
qed simp

lemma offlineDetection_result:
  assumes "media_inv s" "offlineDetection now s = Inr (s', out)"
  defines "m \<equiv> m_mapForwardTable s"
  shows "media_inv s'" "tidy_inv s \<Longrightarrow> tidy_inv s'"
    "address s' k = (if expired now m k then None else address s k)"
    "links s' = {(a, b) \<in> links s. \<not> expired now m a \<and> \<not> expired now m b}"
    "out = map User_Timeout (filter (expired now m) (map fst m))"
proof -
  obtain m' where s': "s' = s\<lparr>m_mapForwardTable := m'\<rparr>" and sw: "sweep now (map fst m) m = Inr (m', out)"
    using assms(2) by (auto simp: offlineDetection_def m_def)
  have inv: "link_ok (map_of m)" "distinct (map fst m)" using assms(1) by (simp_all add: media_inv_def m_def)
  have e: "(x \<in> set (map fst m) \<and> expired now m x) = expired now m x" for x
    by (auto simp: expired_def dest: map_of_SomeD intro: rev_image_eqI)
  note r = sweep_result [OF inv inv(2) sw, unfolded e]
  show "media_inv s'" "tidy_inv s \<Longrightarrow> tidy_inv s'" "out = map User_Timeout (filter (expired now m) (map fst m))"
    using r assms(1) by (simp_all add: media_inv_def tidy_inv_def s' m_def)
  show "links s' = {(a, b) \<in> links s. \<not> expired now m a \<and> \<not> expired now m b}"
    using r by (simp add: s' m_def)
  show "address s' k = (if expired now m k then None else address s k)"
    using r by (simp add: s' m_def address_def)
qed

section \<open>The event handler\<close>

lemma table_same:
  assumes "m_mapForwardTable s' = m_mapForwardTable s" "uh_buf s' = uh_buf s"
  shows "media_inv s' = media_inv s" "tidy_inv s' = tidy_inv s" "links s' = links s" "address s' = address s"
  by (rule table_unchanged; rule assms)+

lemma Recv_forward_fields [simp]:
  "m_mapForwardTable (fst (OnRecvSingleForwardMsg p b src s)) = m_mapForwardTable s"
  "uh_buf (fst (OnRecvSingleForwardMsg p b src s)) = uh_buf s"
  "fst (OnRecvMultiForwardMsg p b src s) = s"
  by (auto simp: OnRecvSingleForwardMsg_def OnRecvMultiForwardMsg_def udp_send_def split: option.split)

text \<open>What a packet does to the addresses and the links, by its type.\<close>

lemma OnRecvLoginMsg_ok:
  defines "s' now msg src s \<equiv> fst (OnRecvLoginMsg now msg src s)"
  shows "links (s' now msg src s) = links s" "address (s' now msg src s) = address s"
    "media_inv s \<Longrightarrow> media_inv (s' now msg src s)" "tidy_inv s \<Longrightarrow> tidy_inv (s' now msg src s)"
proof -
  let ?s1 = "fst (OnAckClient ACK_LOGIN msg src s)"
  have same: "links ?s1 = links s" "address ?s1 = address s" "media_inv ?s1 = media_inv s" "tidy_inv ?s1 = tidy_inv s"
    by (rule table_same; simp)+
  define c where "c \<longleftrightarrow> (case map_of (m_mapForwardTable s) (up_userId msg) of None \<Rightarrow> True
    | Some t \<Rightarrow> ft_addr t \<noteq> src \<and> up_sessionId msg \<noteq> ft_sessionId t)"
  have s': "s' now msg src s = (if c then s else OnUpdateActiveTime now (up_userId msg) ?s1)"
    by (simp add: s'_def OnRecvLoginMsg_def Let_def case_prod_beta c_def)
  have "map_of (m_mapForwardTable ?s1) (up_userId msg) \<noteq> None" if "\<not> c"
    using that by (auto simp: c_def split: option.splits)
  note act = OnUpdateActiveTime_ok [OF this]
  show "links (s' now msg src s) = links s" "address (s' now msg src s) = address s"
    "media_inv s \<Longrightarrow> media_inv (s' now msg src s)" "tidy_inv s \<Longrightarrow> tidy_inv (s' now msg src s)"
    using act same unfolding s' by simp_all
qed

lemma ParsePacket_inv:
  assumes "media_inv s"
  shows "media_inv (fst (ParsePacket now p buf src s))"
  using assms OnRecvLogoutMsg_ok(1) [OF assms] OnRecvLoginMsg_ok(3) [of s]
    table_same(1) [of "fst (OnRecvSingleForwardMsg p buf src s)" s]
  by (simp add: ParsePacket_def Let_def)

lemma ParsePacket_tidy:
  assumes "tidy_inv s" "unat (up_type p) \<noteq> LOGOUT_MSG"
  shows "tidy_inv (fst (ParsePacket now p buf src s))"
  using assms OnRecvLoginMsg_ok(4) [of s]
    table_same(2) [of "fst (OnRecvSingleForwardMsg p buf src s)" s]
  by (simp add: ParsePacket_def Let_def)

lemma udp_receive_fields:
  fixes s :: media_server
  shows "m_mapForwardTable (fst (udp_receive d a s)) = m_mapForwardTable s"
    "length (uh_buf (fst (udp_receive d a s))) = length (uh_buf s)"
    "\<And>p b src. snd (udp_receive d a s) = Some (p, b, src) \<Longrightarrow>
      p = udp_of_bytes (udp_recv_into d (uh_buf s)) \<and> 6 \<le> length d \<and> a = Some src"
  by (auto simp: udp_receive_def OnUdpRead_def Let_def udp_recv_into_def split: option.splits if_splits)

lemma udp_receive_inv:
  fixes s :: media_server
  shows "media_inv (fst (udp_receive d a s)) = media_inv s" "tidy_inv (fst (udp_receive d a s)) = tidy_inv s"
    "links (fst (udp_receive d a s)) = links s" "address (fst (udp_receive d a s)) = address s"
  using udp_receive_fields by (auto simp: media_inv_def tidy_inv_def address_def fun_eq_iff)

lemma media_handle_Datagram:
  "media_handle s (Datagram now d a) = Inr (case snd (udp_receive d a s) of
     None \<Rightarrow> (fst (udp_receive d a s), [])
   | Some (p, b, src) \<Rightarrow> ParsePacket now p b src (fst (udp_receive d a s)))"
  by (auto split: prod.splits option.splits)

lemma AfterVerification_inv:
  "media_inv s \<Longrightarrow> media_inv (fst (AfterVerification now ctx ok s))"
  "tidy_inv s \<Longrightarrow> tidy_inv (fst (AfterVerification now ctx ok s))"
  by (simp_all add: AfterVerification_def OnUpdateLoginInfo_ok)

lemma media_handle_inv:
  assumes "media_inv s" "media_handle s e = Inr (s', out)"
  shows "media_inv s'"
proof (cases e)
  case (Datagram now d a)
  have i: "media_inv (fst (udp_receive d a s))" using assms(1) by (simp add: udp_receive_inv)
  have "s' = fst (case snd (udp_receive d a s) of None \<Rightarrow> (fst (udp_receive d a s), [])
    | Some (p, b, src) \<Rightarrow> ParsePacket now p b src (fst (udp_receive d a s)))"
    using assms(2) unfolding Datagram media_handle_Datagram by simp
  then show ?thesis using i ParsePacket_inv [OF i] by (auto split: option.splits)
next
  case (Work_Done now ctx ok)
  then show ?thesis using assms AfterVerification_inv(1) [OF assms(1), of now ctx ok] by simp
next
  case (Offline_Timer now)
  then show ?thesis using assms offlineDetection_result(1) by auto
next
  case Status_Timer
  then show ?thesis using assms by (auto simp: statusDetection_def media_inv_def)
qed (use assms OnLogout_ok(1) OnLeaveRoom_ok(1) OnUpdateForwardTable_ok(1) in auto)


end
