(* ===== verification/Relay_Spec.thy ===== *)
theory Relay_Spec
  imports Relay_Prelude
begin

text \<open>
  What the media server promises, without tables, timers and packets: users with addresses,
  and links over which media is relayed from one user to another. \<open>relay_step\<close> lists what one
  event may do to them. The invariants of the reachable relays are proved here once, by rule
  induction. The locale at the end is the contract of a component that runs as a relay: the media
  server, the relay server around it and its whole life from start to stop are interpretations of it.
\<close>

record ('u, 'a) relay =
  users :: "'u \<rightharpoonup> 'a"
  relays :: "('u \<times> 'u) set"

definition empty_relay :: "('u, 'a) relay" where
  "empty_relay = \<lparr>users = (\<lambda>_. None), relays = {}\<rparr>"

text \<open>
  \<open>Forget\<close> is the end of a session asked for by a packet: it may leave users behind that never
  logged in, all at the address \<open>z\<close>.
\<close>

inductive relay_step :: "'a \<Rightarrow> ('u, 'a) relay \<Rightarrow> ('u, 'a) relay \<Rightarrow> bool" for z :: 'a where
  Idle: "relay_step z r r"
| Join: "users r u = None \<Longrightarrow> relay_step z r (r\<lparr>users := (users r)(u \<mapsto> a)\<rparr>)"
| Link: "users r u \<noteq> None \<Longrightarrow> users r v \<noteq> None \<Longrightarrow>
    relay_step z r (r\<lparr>relays := insert (u, v) (relays r)\<rparr>)"
| Unlink: "relay_step z r (r\<lparr>relays := relays r - {(u, v)}\<rparr>)"
| Isolate: "relay_step z r (r\<lparr>relays := {(a, b) \<in> relays r. a \<noteq> u \<and> b \<noteq> u}\<rparr>)"
| Expire: "relay_step z r \<lparr>users = (\<lambda>k. if k \<in> K then None else users r k),
    relays = {(a, b) \<in> relays r. a \<notin> K \<and> b \<notin> K}\<rparr>"
| Forget: "(\<And>k. k \<noteq> u \<Longrightarrow> f k \<noteq> users r k \<Longrightarrow> users r k = None \<and> f k = Some z) \<Longrightarrow> f u = None \<Longrightarrow>
    relay_step z r \<lparr>users = f, relays = {(a, b) \<in> relays r. a \<noteq> u \<and> b \<noteq> u}\<rparr>"

inductive relay_steps :: "'a \<Rightarrow> ('u, 'a) relay \<Rightarrow> ('u, 'a) relay \<Rightarrow> bool" for z :: 'a where
  steps_refl: "relay_steps z r r"
| steps_step: "relay_step z r r' \<Longrightarrow> relay_steps z r' r'' \<Longrightarrow> relay_steps z r r''"

inductive_cases relay_stepE: "relay_step z r r'"

definition relay_wf :: "('u, 'a) relay \<Rightarrow> bool" where
  "relay_wf r \<longleftrightarrow> (\<forall>(a, b)\<in>relays r. users r a \<noteq> None \<and> users r b \<noteq> None)"

lemma relay_step_wf: "relay_step z r r' \<Longrightarrow> relay_wf r \<Longrightarrow> relay_wf r'"
proof (induction rule: relay_step.induct)
  case (Forget u f r)
  have "f k \<noteq> None" if "k \<noteq> u" "users r k \<noteq> None" for k
    using Forget(1) [OF that(1)] that(2) by metis
  then show ?case using Forget(3) by (fastforce simp: relay_wf_def)
qed (auto simp: relay_wf_def)

lemma relay_steps_wf: "relay_steps z r r' \<Longrightarrow> relay_wf r \<Longrightarrow> relay_wf r'"
  by (induction rule: relay_steps.induct) (blast dest: relay_step_wf)+

text \<open>A user's address never changes while it is logged in.\<close>

lemma relay_step_address:
  "relay_step z r r' \<Longrightarrow> users r u = Some a \<Longrightarrow> users r' u = Some a \<or> users r' u = None"
proof (induction rule: relay_step.induct)
  case (Forget v f r)
  have "f u = users r u" if "u \<noteq> v" using Forget(1) [OF that] Forget(3) by fastforce
  then show ?case using Forget(2,3) by (cases "u = v") simp_all
qed auto

lemma relay_steps_trans: "relay_steps z r r' \<Longrightarrow> relay_steps z r' r'' \<Longrightarrow> relay_steps z r r''"
  by (induction rule: relay_steps.induct) (auto intro: relay_steps.intros)

text \<open>
  A component with a view of its state as a relay: whatever event it handles, the relay it shows makes some
  steps.
\<close>

locale relay_refinement = event_handler handle inv "\<lambda>_. True"
  for handle :: "'s \<Rightarrow> 'e \<Rightarrow> ('s \<times> 'o list) outcome"
  and inv :: "'s \<Rightarrow> bool" +
  fixes view :: "'s \<Rightarrow> ('u, 'a) relay"
    and z :: 'a
  assumes step_refines: "inv s \<Longrightarrow> handle s e = Inr (s', out) \<Longrightarrow> relay_steps z (view s) (view s')"
begin

lemma run_refines:
  "inv s \<Longrightarrow> run_events handle s es = Inr (s', out) \<Longrightarrow> relay_steps z (view s) (view s')"
proof (induction es arbitrary: s out)
  case (Cons e es)
  then obtain t o1 o2 where h: "handle s e = Inr (t, o1)" "run_events handle t es = Inr (s', o2)"
    by (auto simp: bind_outcome_Inr_iff)
  have "inv t" by (rule handle_inv [OF Cons.prems(1) _ h(1)]) simp
  then show ?case using step_refines [OF Cons.prems(1) h(1)] Cons.IH [OF _ h(2)] by (blast intro: relay_steps_trans)
qed (simp add: steps_refl)

lemma run_from_empty:
  assumes "inv s" "view s = empty_relay" "run_events handle s es = Inr (s', out)"
  shows "relay_steps z empty_relay (view s')" "relay_wf (view s')" "inv s'"
proof -
  show s: "relay_steps z empty_relay (view s')" using run_refines [OF assms(1,3)] assms(2) by simp
  show "relay_wf (view s')" by (rule relay_steps_wf [OF s]) (simp add: relay_wf_def empty_relay_def)
  show "inv s'" using run_inv [OF assms(1) _ assms(3)] by simp
qed

end

end
