(* ===== verification/Media_Relay.thy ===== *)
theory Media_Relay
  imports Media_Server Relay_Spec
begin

text \<open>
  The media server as a refinement of the abstract relay (\<open>Relay_Spec\<close>): one step of the relay for
  every event, the contracts of the server as interpretations of the event-handler locales, and
  the properties of the server as a whole.
\<close>

section \<open>The media server refines the relay\<close>

definition relay_abs :: "media_server \<Rightarrow> (u32, sockaddr_in) relay" where
  "relay_abs s = \<lparr>users = address s, relays = links s\<rparr>"

lemma relay_abs_update [simp]:
  "users (relay_abs s) = address s" "relays (relay_abs s) = links s"
  by (simp_all add: relay_abs_def)

lemma same_relay: "links s' = links s \<Longrightarrow> address s' = address s \<Longrightarrow> relay_abs s' = relay_abs s"
  by (simp add: relay_abs_def)

lemma OnRecvLogoutMsg_phantom:
  "address s k = None \<Longrightarrow> address (fst (OnRecvLogoutMsg p buf src s)) k \<noteq> None
    \<Longrightarrow> address (fst (OnRecvLogoutMsg p buf src s)) k = Some zero_addr
      \<and> (\<exists>t. map_of (m_mapForwardTable s) (up_userId p) = Some t \<and> k \<in> set (dataFrom t))"
  by (auto simp: OnRecvLogoutMsg_def Let_def case_prod_beta address_def map_of_fold_at [OF erase_idem(1)]
      dataTo_erase_def zero_table_def split: option.splits if_splits)

lemma ParsePacket_step:
  assumes "media_inv s"
  shows "relay_step zero_addr (relay_abs s) (relay_abs (fst (ParsePacket now p buf src s)))"
proof -
  let ?idle = "\<lambda>s'. relay_step zero_addr (relay_abs s) (relay_abs s')"
  have idle: "?idle s'" if "links s' = links s" "address s' = address s" for s'
    using same_relay [OF that] by (simp add: Idle)
  have 1: "?idle (fst (OnRecvLoginMsg now p src s))"
    by (rule idle; rule OnRecvLoginMsg_ok)
  have 2: "?idle (fst (OnRecvSingleForwardMsg p buf src s))" "?idle (fst (OnRecvMultiForwardMsg p buf src s))"
    by (rule idle; simp add: address_def fun_eq_iff)+
  have 3: "?idle (fst (OnRecvLogoutMsg p buf src s))"
  proof -
    let ?s' = "fst (OnRecvLogoutMsg p buf src s)" and ?u = "up_userId p"
    note ok = OnRecvLogoutMsg_ok [OF assms, where msg = p and buf = buf and src = src]
    note OnRecvLogoutMsg_phantom [where p = p and s = s and buf = buf and src = src]
    then have "relay_step zero_addr (relay_abs s)
        \<lparr>users = address ?s', relays = {(a, b) \<in> relays (relay_abs s). a \<noteq> ?u \<and> b \<noteq> ?u}\<rparr>"
      using ok(3,4) by (intro Forget) (metis relay_abs_update(1), blast)
    then show ?thesis by (simp add: relay_abs_def ok(2))
  qed
  show ?thesis using 1 2 3 idle [of s] by (simp add: ParsePacket_def Let_def)
qed

lemma AfterVerification_step:
  "relay_step zero_addr (relay_abs s) (relay_abs (fst (AfterVerification now ctx ok s)))"
proof (cases "unat (up_type (vc_msg ctx)) = LOGIN_MSG \<and> \<not> ok")
  case True
  let ?s' = "fst (OnUpdateLoginInfo now (vc_msg ctx) (vc_srcAddr ctx) s)" and ?u = "up_userId (vc_msg ctx)"
  note l = OnUpdateLoginInfo_ok(1,2) [of now "vc_msg ctx" "vc_srcAddr ctx" s]
  have s': "fst (AfterVerification now ctx ok s) = ?s'" using True by (simp add: AfterVerification_def)
  show ?thesis
  proof (cases "address s ?u")
    case None
    have "relay_step zero_addr (relay_abs s)
        ((relay_abs s)\<lparr>users := (users (relay_abs s))(?u \<mapsto> vc_srcAddr ctx)\<rparr>)"
      by (rule Join) (simp add: None)
    moreover have "(relay_abs s)\<lparr>users := (users (relay_abs s))(?u \<mapsto> vc_srcAddr ctx)\<rparr> = relay_abs ?s'"
      using l None by (simp add: relay_abs_def)
    ultimately show ?thesis using s' by simp
  next
    case (Some a)
    then have "relay_abs ?s' = relay_abs s" using l by (simp add: relay_abs_def)
    then show ?thesis using s' by (simp add: Idle)
  qed
qed (auto simp: AfterVerification_def intro: Idle)

lemma OnUpdateForwardTable_step:
  assumes "media_inv s"
  shows "relay_step zero_addr (relay_abs s) (relay_abs (OnUpdateForwardTable a b add s))"
proof -
  let ?r = "relay_abs s"
  note ok = OnUpdateForwardTable_ok(3,4) [OF assms, of a b add]
  consider "address s a = None \<or> address s b = None" | "address s a \<noteq> None" "address s b \<noteq> None" add
    | "address s a \<noteq> None" "address s b \<noteq> None" "\<not> add" by blast
  then show ?thesis
  proof cases
    case 1
    then have "relay_abs (OnUpdateForwardTable a b add s) = ?r" using ok by (auto simp: relay_abs_def)
    then show ?thesis by (simp add: Idle)
  next
    case 2
    then have "relay_step zero_addr ?r (?r\<lparr>relays := insert (a, b) (relays ?r)\<rparr>)" by (intro Link) simp_all
    then show ?thesis using ok 2 by (simp add: relay_abs_def)
  next
    case 3
    have "relay_step zero_addr ?r (?r\<lparr>relays := relays ?r - {(a, b)}\<rparr>)" by (rule Unlink)
    then show ?thesis using ok 3 by (simp add: relay_abs_def)
  qed
qed

lemma media_step:
  assumes "media_inv s" "media_handle s e = Inr (s', out)"
  shows "relay_step zero_addr (relay_abs s) (relay_abs s')"
proof (cases e)
  case (Datagram now d a)
  let ?s1 = "fst (udp_receive d a s)"
  have i: "media_inv ?s1" "relay_abs ?s1 = relay_abs s"
    using assms(1) by (simp_all add: udp_receive_inv relay_abs_def)
  show ?thesis
  proof (cases "snd (udp_receive d a s)")
    case None
    then have "s' = ?s1" using assms(2) unfolding Datagram media_handle_Datagram by simp
    then show ?thesis using i(2) by (simp add: Idle)
  next
    case (Some r)
    obtain p b src where "r = (p, b, src)" by (cases r)
    then have "s' = fst (ParsePacket now p b src ?s1)"
      using assms(2) Some unfolding Datagram media_handle_Datagram by simp
    then show ?thesis using ParsePacket_step [OF i(1)] i(2) by simp
  qed
next
  case (Work_Done now ctx ok)
  then show ?thesis using assms(2) AfterVerification_step [of s now ctx ok] by simp
next
  case (Offline_Timer now)
  let ?K = "{k. expired now (m_mapForwardTable s) k}"
  have o: "offlineDetection now s = Inr (s', out)" using assms(2) Offline_Timer by simp
  have "relay_step zero_addr (relay_abs s) \<lparr>users = (\<lambda>k. if k \<in> ?K then None else users (relay_abs s) k),
    relays = {(a, b) \<in> relays (relay_abs s). a \<notin> ?K \<and> b \<notin> ?K}\<rparr>" by (rule Expire)
  moreover have "(\<lambda>k. if k \<in> ?K then None else users (relay_abs s) k) = address s'"
    using offlineDetection_result(3) [OF assms(1) o] by (simp add: fun_eq_iff)
  ultimately show ?thesis using offlineDetection_result(4) [OF assms(1) o] by (simp add: relay_abs_def)
next
  case Status_Timer
  then have "relay_abs s' = relay_abs s"
    using assms(2) by (auto simp: statusDetection_def relay_abs_def address_def fun_eq_iff)
  then show ?thesis by (simp add: Idle)
next
  case (Logout_Msg u)
  have "relay_step zero_addr (relay_abs s) \<lparr>users = (address s)(u := None),
      relays = {(a, b) \<in> relays (relay_abs s). a \<noteq> u \<and> b \<noteq> u}\<rparr>" by (rule Forget) (auto split: if_splits)
  moreover have "s' = OnLogout u s" using assms(2) Logout_Msg by simp
  ultimately show ?thesis using OnLogout_ok(2,3) [OF assms(1), of u] by (simp add: relay_abs_def)
next
  case (LeaveRoom_Msg u)
  have "relay_step zero_addr (relay_abs s)
      ((relay_abs s)\<lparr>relays := {(a, b) \<in> relays (relay_abs s). a \<noteq> u \<and> b \<noteq> u}\<rparr>)" by (rule Isolate)
  moreover have "s' = OnLeaveRoom u s" using assms(2) LeaveRoom_Msg by simp
  ultimately show ?thesis using OnLeaveRoom_ok(2,3) [OF assms(1), of u] by (simp add: relay_abs_def)
next
  case (UpdateForwardTable_Msg a b add)
  then show ?thesis using assms(2) OnUpdateForwardTable_step [OF assms(1), of a b add] by simp
next
  case (P2PAddr_Msg u c)
  then show ?thesis using assms(2) by (simp add: Idle)
qed

section \<open>The contracts of the server\<close>

definition calm :: "media_event \<Rightarrow> bool" where
  "calm e = (case e of
      Datagram _ d _ \<Rightarrow> length d < 6 \<or> unat (d ! 5) mod 128 \<noteq> LOGOUT_MSG
    | LeaveRoom_Msg _ \<Rightarrow> False
    | _ \<Rightarrow> True)"

lemma udp_type_received:
  assumes "length (uh_buf s) = UDP_BUFFER_SIZE" "6 \<le> length d"
  shows "unat (up_type (udp_of_bytes (udp_recv_into d (uh_buf s)))) = unat (d ! 5) mod 128"
proof -
  have "udp_recv_into d (uh_buf s) ! 5 = d ! 5"
    using assms by (simp add: udp_recv_into_def UDP_BUFFER_SIZE_def nth_append)
  then show ?thesis by (simp add: udp_of_bytes_def unat_of_nat)
qed

lemma media_handle_tidy:
  assumes "tidy_inv s" "calm e" "media_handle s e = Inr (s', out)"
  shows "tidy_inv s'"
proof -
  have inv: "media_inv s" using assms(1) by (simp add: tidy_inv_def)
  show ?thesis
  proof (cases e)
    case (Datagram now d a)
    let ?s1 = "fst (udp_receive d a s)"
    have i: "tidy_inv ?s1" using assms(1) by (simp add: udp_receive_inv)
    show ?thesis
    proof (cases "snd (udp_receive d a s)")
      case None
      then have "s' = ?s1" using assms(3) unfolding Datagram media_handle_Datagram by simp
      then show ?thesis using i by simp
    next
      case (Some r)
      obtain p b src where r: "r = (p, b, src)" by (cases r)
      then have "s' = fst (ParsePacket now p b src ?s1)"
        using assms(3) Some unfolding Datagram media_handle_Datagram by simp
      moreover have "unat (up_type p) \<noteq> LOGOUT_MSG"
        using udp_receive_fields(3) [OF Some [unfolded r]] assms(2) udp_type_received [of s d] inv Datagram
        by (auto simp: calm_def media_inv_def)
      ultimately show ?thesis using ParsePacket_tidy [OF i] by simp
    qed
  next
    case (Work_Done now ctx ok)
    then show ?thesis using assms AfterVerification_inv(2) [OF assms(1), of now ctx ok] by simp
  next
    case (Offline_Timer now)
    then show ?thesis using assms offlineDetection_result(2) [OF inv] by auto
  next
    case Status_Timer
    then show ?thesis using assms by (auto simp: statusDetection_def tidy_inv_def media_inv_def)
  qed (use assms OnLogout_ok(4) [OF inv] OnUpdateForwardTable_ok(2) [OF inv] in \<open>auto simp: calm_def\<close>)
qed

lemma media_handle_safe: "tidy_inv s \<Longrightarrow> \<exists>r. media_handle s e = Inr r"
proof (cases e)
  case (Offline_Timer now)
  assume "tidy_inv s"
  then obtain r where "sweep now (map fst (m_mapForwardTable s)) (m_mapForwardTable s) = Inr r"
    using sweep_total [of "m_mapForwardTable s" now "map fst (m_mapForwardTable s)"]
    by (auto simp: tidy_inv_def media_inv_def)
  then show ?thesis by (cases r) (simp add: Offline_Timer offlineDetection_def)
qed (simp_all del: media_handle.simps(1) add: media_handle_Datagram)

interpretation media: event_handler media_handle media_inv "\<lambda>_. True"
  by unfold_locales (rule media_handle_inv)

interpretation calm_media: safe_event_handler media_handle tidy_inv calm
  by unfold_locales (blast intro: media_handle_tidy media_handle_safe)+

lemma media_new_ok: "tidy_inv (media_new url url2)" "media_inv (media_new url url2)"
  by (simp_all add: media_new_def udp_handle_new_def tidy_inv_def media_inv_def link_ok_def sources_ok_def
      udp_handle.extend_def media_server.fields_def)

lemma relay_abs_new [simp]: "relay_abs (media_new url url2) = empty_relay"
  by (simp add: relay_abs_def empty_relay_def media_new_def address_def links_of_def fun_eq_iff
      udp_handle.extend_def media_server.fields_def)

lemma relay_steps_single: "relay_step z r r' \<Longrightarrow> relay_steps z r r'"
  by (rule steps_step [OF _ steps_refl])

interpretation media_ref: relay_refinement media_handle media_inv relay_abs zero_addr
  by unfold_locales (rule relay_steps_single [OF media_step])

lemma forward_targets:
  assumes "media_inv s"
  shows "\<exists>ds. distinct ds \<and> set ds = {b. (u, b) \<in> links s} \<and> (\<forall>b\<in>set ds. address s b \<noteq> None) \<and>
    (case map_of (m_mapForwardTable s) u of None \<Rightarrow> [] | Some t \<Rightarrow> map (\<lambda>(_, a). Net (Sendmsg buf a)) (dataTo t))
      = map (\<lambda>b. Net (Sendmsg buf (the (address s b)))) ds"
proof (cases "map_of (m_mapForwardTable s) u")
  case None
  then show ?thesis by (intro exI [of _ "[]"]) (simp add: links_of_def)
next
  case (Some t)
  have ok: "link_ok (map_of (m_mapForwardTable s))" using assms by (simp add: media_inv_def)
  have d: "distinct (map fst (dataTo t))" using link_okD(1) [OF ok Some] .
  have a: "address s b = Some ad" if "(b, ad) \<in> set (dataTo t)" for b ad
    using link_okD(2) [OF ok Some, of b ad] d that by (auto simp: address_def)
  have "set (map fst (dataTo t)) = {b. (u, b) \<in> links s}"
    using Some dom_map_of_conv_image_fst [of "dataTo t"] by (simp add: links_of_def dom_def)
  then show ?thesis using d a Some
    by (intro exI [of _ "map fst (dataTo t)"]) (fastforce intro: map_cong)
qed

lemma media_handle_forward:
  assumes "media_inv s" "6 \<le> length d" "length d \<le> UDP_BUFFER_SIZE" "unat (d ! 5) mod 128 < MULTI_FORWARD_MSG"
  defines "p \<equiv> udp_of_bytes (udp_recv_into d (uh_buf s))"
  shows "media_handle s (Datagram now d (Some src)) = Inr (fst (udp_receive d (Some src) s),
    case map_of (m_mapForwardTable s) (up_userId p) of None \<Rightarrow> []
      | Some t \<Rightarrow> map (\<lambda>(_, a). Net (Sendmsg d a)) (dataTo t))"
proof -
  have l: "length (uh_buf s) = UDP_BUFFER_SIZE" using assms(1) by (simp add: media_inv_def)
  have t: "unat (up_type p) < MULTI_FORWARD_MSG"
    using assms(2,4) l by (simp add: p_def udp_type_received)
  have "snd (udp_receive d (Some src) s) = Some (p, d, src)"
    using udp_receive_some [OF l assms(2,3)] assms(3) l by (simp add: p_def udp_recv_into_def)
  then show ?thesis using t
    by (simp del: media_handle.simps(1) add: media_handle_Datagram ParsePacket_def OnRecvMultiForwardMsg_def
        udp_receive_fields(1) split: option.split)
qed

lemma new_address:
  assumes "media_inv s" "media_handle s e = Inr (s', out)" "address s u = None" "address s' u = Some a"
  shows "(\<exists>now ctx. e = Work_Done now ctx False \<and> unat (up_type (vc_msg ctx)) = LOGIN_MSG
      \<and> up_userId (vc_msg ctx) = u \<and> vc_srcAddr ctx = a)
    \<or> (\<exists>now d src p b x t. e = Datagram now d src \<and> snd (udp_receive d src s) = Some (p, b, x)
      \<and> unat (up_type p) = LOGOUT_MSG \<and> map_of (m_mapForwardTable s) (up_userId p) = Some t \<and> u \<in> set (dataFrom t)
      \<and> a = zero_addr)"
proof (cases e)
  case (Datagram now d ad)
  let ?s1 = "fst (udp_receive d ad s)"
  have i: "media_inv ?s1" "address ?s1 u = None" "m_mapForwardTable ?s1 = m_mapForwardTable s"
    using assms(1,3) by (simp_all add: udp_receive_inv udp_receive_fields)
  obtain p b x where p: "snd (udp_receive d ad s) = Some (p, b, x)" "address (fst (ParsePacket now p b x ?s1)) u = Some a"
    using assms(2,4) i(2) unfolding Datagram media_handle_Datagram by (auto split: option.splits)
  have "unat (up_type p) = LOGOUT_MSG \<and> address (fst (OnRecvLogoutMsg p b x ?s1)) u = Some a"
  proof -
    have "address (fst (OnRecvSingleForwardMsg p b x ?s1)) u = address ?s1 u" by (simp add: address_def)
    then show ?thesis using p(2) i(2) by (simp add: ParsePacket_def Let_def OnRecvLoginMsg_ok(2) split: if_splits)
  qed
  then show ?thesis using Datagram p(1) OnRecvLogoutMsg_phantom [of ?s1 u p b x] OnRecvLogoutMsg_ok(3) [OF i(1), of p b x] i(2,3)
    by (cases "u = up_userId p") auto
next
  case (Work_Done now ctx ok)
  then show ?thesis using assms(2-4) OnUpdateLoginInfo_ok(2) [of now "vc_msg ctx" "vc_srcAddr ctx" s]
    by (auto simp: AfterVerification_def split: if_splits option.splits)
next
  case (Offline_Timer now)
  then show ?thesis using assms offlineDetection_result(3) [OF assms(1)] by (auto split: if_splits)
next
  case Status_Timer
  then show ?thesis using assms(2-4) by (auto simp: statusDetection_def address_def)
qed (use assms OnLogout_ok(3) [OF assms(1)] OnLeaveRoom_ok(3) [OF assms(1)] OnUpdateForwardTable_ok(3) [OF assms(1)]
      in \<open>auto split: if_splits\<close>)

text \<open>A user whose sources all have a link to it; a user like that is taken off line without a fault.\<close>

definition sourced :: "(u32 \<rightharpoonup> ForwardTable) \<Rightarrow> u32 \<Rightarrow> bool" where
  "sourced L k \<longleftrightarrow> (\<forall>t a. L k = Some t \<and> a \<in> set (dataFrom t) \<longrightarrow> (a, k) \<in> links_of L)"

lemma logout_sourced:
  assumes "link_ok (map_of m)" "k \<noteq> u" "sourced (map_of m) k"
  shows "sourced (map_of (logout_table u m)) k"
proof (cases "map_of m u")
  case None
  then show ?thesis using assms(3) by (simp add: logout_table_def)
next
  case (Some t)
  note L' = map_of_logout_table [OF Some]
  show ?thesis unfolding sourced_def
  proof (intro allI impI)
    fix t' a assume t': "map_of (logout_table u m) k = Some t' \<and> a \<in> set (dataFrom t')"
    then obtain x where x: "map_of m k = Some x" using assms(2) by (auto simp: L')
    have "u \<in> set (dataFrom x) \<Longrightarrow> map_of (dataTo t) k \<noteq> None"
      using assms(3) x Some by (fastforce simp: sourced_def links_of_def)
    then have "a \<in> set (dataFrom x)" "a \<noteq> u"
      using t' x assms(2) by (auto simp: L' dataTo_erase_def dataFrom_erase_def split: if_splits)
    then have "(a, k) \<in> links_of (map_of m)" using assms(3) x by (auto simp: sourced_def)
    then show "(a, k) \<in> links_of (map_of (logout_table u m))"
      using \<open>a \<noteq> u\<close> assms(2) by (simp add: logout_table_cut(2) [OF assms(1)])
  qed
qed

lemma sweep_sourced:
  assumes "link_ok (map_of m)" "distinct ks" "\<forall>k\<in>set ks. expired now m k \<longrightarrow> sourced (map_of m) k"
  shows "\<exists>r. sweep now ks m = Inr r"
  using assms
proof (induction ks arbitrary: m)
  case (Cons k ks)
  show ?case
  proof (cases "expired now m k")
    case True
    then obtain t where t: "map_of m k = Some t" by (auto simp: expired_def)
    have lt: "map_of m d \<noteq> None" if "d \<in> fst ` set (dataTo t)" for d
    proof -
      have "map_of (dataTo t) d \<noteq> None" using that by (simp add: map_of_eq_None_iff)
      then show ?thesis using link_okD(2) [OF Cons.prems(1) t] by fastforce
    qed
    have lf: "map_of m d \<noteq> None" if "d \<in> set (dataFrom t)" for d
    proof -
      have "(d, k) \<in> links_of (map_of m)" using Cons.prems(3) True t that by (simp add: sourced_def)
      then show ?thesis by (auto simp: links_of_def)
    qed
    have "peers_present k (the (map_of m k)) m" using t lt lf by (auto simp: peers_present_def)
    moreover have "\<forall>j\<in>set ks. expired now (logout_table k m) j \<longrightarrow> sourced (map_of (logout_table k m)) j"
      using Cons.prems expired_logout [OF Cons.prems(1)] logout_sourced [OF Cons.prems(1)]
      by (metis distinct.simps(2) list.set_intros(2))
    then obtain r where "sweep now ks (logout_table k m) = Inr r"
      using Cons.IH [of "logout_table k m"] logout_table_cut(1) Cons.prems by fastforce
    ultimately show ?thesis using True by (cases r) (simp add: sweep_Cons)
  qed (use Cons in \<open>simp add: sweep_Cons\<close>)
qed simp

lemma sweep_Inl: "sweep now ks m = Inl f \<Longrightarrow> f = Iterator_Invalidated"
proof (induction ks arbitrary: m)
  case (Cons k ks)
  then show ?case by (cases "sweep now ks (logout_table k m)") (auto simp: sweep_Cons split: if_splits)
qed simp

lemma offlineDetection_fault:
  assumes "media_inv s" "offlineDetection now s = Inl f"
  shows "f = Iterator_Invalidated \<and> (\<exists>k t a. map_of (m_mapForwardTable s) k = Some t \<and> now > ft_expireTime t
    \<and> a \<in> set (dataFrom t) \<and> (a, k) \<notin> links s)"
proof -
  let ?m = "m_mapForwardTable s"
  have sw: "sweep now (map fst ?m) ?m = Inl f" using assms(2)
    by (cases "sweep now (map fst ?m) ?m") (auto simp: offlineDetection_def)
  have "link_ok (map_of ?m)" "distinct (map fst ?m)" using assms(1) by (simp_all add: media_inv_def)
  from sweep_sourced [OF this, of now] sw have "\<exists>k\<in>set (map fst ?m). expired now ?m k \<and> \<not> sourced (map_of ?m) k" by auto
  then show ?thesis using sweep_Inl [OF sw] by (fastforce simp: expired_def sourced_def)
qed

section \<open>Properties\<close>

text \<open>
  Property C7. A media datagram is relayed, unchanged, exactly once to every user its sender
  is linked to, at the address that user logged in from, and to nobody else.
\<close>

theorem forward_exact:
  assumes "media_inv s" "6 \<le> length d" "length d \<le> UDP_BUFFER_SIZE" "unat (d ! 5) mod 128 < MULTI_FORWARD_MSG"
  defines "u \<equiv> up_userId (udp_of_bytes (udp_recv_into d (uh_buf s)))"
  shows "\<exists>s' ds. media_handle s (Datagram now d (Some src))
      = Inr (s', map (\<lambda>b. Net (Sendmsg d (the (address s b)))) ds)
    \<and> distinct ds \<and> set ds = {b. (u, b) \<in> links s} \<and> (\<forall>b\<in>set ds. address s b \<noteq> None)
    \<and> relay_abs s' = relay_abs s"
proof -
  obtain ds where ds: "distinct ds" "set ds = {b. (u, b) \<in> links s}" "\<forall>b\<in>set ds. address s b \<noteq> None"
    "(case map_of (m_mapForwardTable s) u of None \<Rightarrow> [] | Some t \<Rightarrow> map (\<lambda>(_, a). Net (Sendmsg d a)) (dataTo t))
      = map (\<lambda>b. Net (Sendmsg d (the (address s b)))) ds"
    using forward_targets [OF assms(1)] by blast
  have "relay_abs (fst (udp_receive d (Some src) s)) = relay_abs s" by (simp add: relay_abs_def udp_receive_inv)
  then show ?thesis
    using media_handle_forward [OF assms(1-4), of now src] ds
    by (intro exI [of _ "fst (udp_receive d (Some src) s)"] exI [of _ ds]) (simp add: u_def)
qed

definition demo_addr :: "u32 \<Rightarrow> sockaddr_in" where
  "demo_addr n = \<lparr>sin_family = 2, sin_port = 9, sin_addr = n, sin_zero = replicate 8 0\<rparr>"

definition demo_login :: "u32 \<Rightarrow> media_event" where
  "demo_login u = Work_Done 0 \<lparr>vc_msg = \<lparr>up_userId = u, up_index = 0, up_type = 0x51, up_del = False,
      up_dstUserId = 0, up_localPort = 5000\<rparr>, vc_srcAddr = demo_addr u\<rparr> False"

definition demo_packet :: "u32 \<Rightarrow> 7 word \<Rightarrow> bytes" where
  "demo_packet u ty = udp_bytes \<lparr>up_userId = u, up_index = 0, up_type = ty, up_del = False,
      up_dstUserId = 0, up_localPort = 5000\<rparr>"

lemmas demo_defs = demo_login_def AfterVerification_def OnUpdateLoginInfo_def OnAckClient_def
  udp_send_def Let_def LOGIN_MSG_def ACK_LOGIN_def media_new_def udp_handle.extend_def
  media_server.fields_def udp_handle_new_def OnUpdateForwardTable_def modify_found_def dataTo_set_def
  dataFrom_insert_def demo_addr_def

definition demo_linked :: media_server where
  "demo_linked = (media_new [] [])\<lparr>m_nSendByteCount := 24, m_mapForwardTable := [
      (1, \<lparr>ft_addr = demo_addr 1, ft_sessionId = 0, ft_expireTime = 90000, ft_localUdpPort = 5000,
           dataTo = [(2, demo_addr 2)], dataFrom = []\<rparr>),
      (2, \<lparr>ft_addr = demo_addr 2, ft_sessionId = 0, ft_expireTime = 90000, ft_localUdpPort = 5000,
           dataTo = [], dataFrom = [1]\<rparr>)]\<rparr>"

definition demo_events :: "media_event list" where
  "demo_events = [demo_login 1, demo_login 2, UpdateForwardTable_Msg 1 2 True]"

lemma demo_run: "\<exists>out. run_events media_handle (media_new [] []) demo_events = Inr (demo_linked, out)"
  by (simp add: demo_events_def demo_linked_def demo_defs m_nTimeout_def UDP_PACKET_SIZE_def)

lemma demo_calm: "\<forall>e\<in>set demo_events. calm e"
  by (simp add: demo_events_def calm_def demo_login_def)

lemma demo_inv: "media_inv demo_linked" "tidy_inv demo_linked"
  using demo_run media.run_inv [OF media_new_ok(2)] calm_media.run_inv [OF media_new_ok(1) demo_calm] by blast+

lemma demo_abs:
  "links demo_linked = {(1, 2)}" "address demo_linked = [1 \<mapsto> demo_addr 1, 2 \<mapsto> demo_addr 2]"
  by (auto simp: demo_linked_def links_of_def address_def fun_eq_iff split: if_splits)

theorem forward_exact_witness:
  "\<exists>s' ds. media_handle demo_linked (Datagram 0 (demo_packet 1 0 @ [7]) (Some (demo_addr 1)))
      = Inr (s', map (\<lambda>b. Net (Sendmsg (demo_packet 1 0 @ [7]) (the (address demo_linked b)))) ds) \<and> set ds = {2}"
proof -
  have l: "udp_recv_into (demo_packet 1 0 @ [7]) (uh_buf demo_linked) = demo_packet 1 0 @ [7] @ replicate (UDP_BUFFER_SIZE - 13) 0"
    by (simp add: udp_recv_into_def demo_packet_def demo_linked_def media_new_def udp_handle.extend_def
        udp_handle_new_def UDP_BUFFER_SIZE_def UDP_PACKET_SIZE_def media_server.fields_def)
  have u: "up_userId (udp_of_bytes (udp_recv_into (demo_packet 1 0 @ [7]) (uh_buf demo_linked))) = 1"
    unfolding l by (simp add: demo_packet_def udp_of_bytes_append)
  have "length (demo_packet 1 0 @ [7]) = 13" "unat ((demo_packet 1 0 @ [7]) ! 5) mod 128 < MULTI_FORWARD_MSG"
    by (simp_all add: demo_packet_def UDP_PACKET_SIZE_def udp_bytes_def nth_append MULTI_FORWARD_MSG_def)
  then show ?thesis
    using forward_exact [OF demo_inv(1), of "demo_packet 1 0 @ [7]" 0 "demo_addr 1"]
    by (auto simp: u demo_abs UDP_BUFFER_SIZE_def)
qed

text \<open>
  Whatever the packets, timers and messages, the server runs as the abstract
  relay: every event is one of its steps, and at all times media flows only between users
  that have an address.
\<close>

theorem media_refines_relay:
  assumes "run_events media_handle (media_new url url2) es = Inr (s', out)"
  shows "relay_steps zero_addr empty_relay (relay_abs s') \<and> relay_wf (relay_abs s') \<and> media_inv s'"
  using media_ref.run_from_empty [OF media_new_ok(2) relay_abs_new assms] by blast

theorem media_refines_relay_witness:
  "relay_steps zero_addr empty_relay (relay_abs demo_linked) \<and> relays (relay_abs demo_linked) = {(1, 2)}"
  using media_refines_relay demo_run by (fastforce simp: demo_abs)

text \<open>
  Property C12. As long as nobody ends a session by a UDP packet and nobody leaves a room, no
  sequence of events makes the server misbehave, the timer's iteration included.
\<close>

theorem calm_run_safe:
  assumes "\<forall>e\<in>set es. calm e"
  shows "\<exists>s' out. run_events media_handle (media_new url url2) es = Inr (s', out) \<and> tidy_inv s'"
  using calm_media.run_safe [OF media_new_ok(1) assms] .

theorem calm_run_safe_witness:
  "\<exists>s' out. run_events media_handle (media_new [] []) demo_events = Inr (s', out) \<and> tidy_inv s'"
  using calm_run_safe demo_calm by blast

lemma demo_logout:
  "\<exists>s' out. media_handle demo_linked (Datagram 0 (demo_packet 1 0x52) (Some (demo_addr 1))) = Inr (s', out)
    \<and> m_mapForwardTable s' = [(2, \<lparr>ft_addr = demo_addr 2, ft_sessionId = 0, ft_expireTime = 90000,
        ft_localUdpPort = 5000, dataTo = [], dataFrom = [1]\<rparr>)]"
proof -
  have r: "snd (udp_receive (demo_packet 1 0x52) (Some (demo_addr 1)) demo_linked)
      = Some (\<lparr>up_userId = 1, up_index = 0, up_type = 0x52, up_del = False, up_dstUserId = 0, up_localPort = 5000\<rparr>,
          demo_packet 1 0x52, demo_addr 1)"
    using demo_inv(1) udp_receive_some [of demo_linked "demo_packet 1 0x52" "demo_addr 1"]
    by (simp add: media_inv_def demo_packet_def UDP_PACKET_SIZE_def UDP_BUFFER_SIZE_def udp_of_bytes_append)
  show ?thesis
    unfolding media_handle_Datagram r
    by (auto simp: ParsePacket_def LOGIN_MSG_def MULTI_FORWARD_MSG_def SINGLE_FORWARD_MSG_def LOGOUT_MSG_def
        OnRecvLogoutMsg_def Let_def case_prod_beta udp_receive_fields demo_linked_def)
qed

text \<open>
  A session ended by a UDP packet leaves its peers a source that is gone; when such
  a peer expires, the timer inserts into the table it is iterating over.
\<close>

theorem timer_fault:
  "run_events media_handle (media_new [] [])
     (demo_events @ [Datagram 0 (demo_packet 1 0x52) (Some (demo_addr 1)), Offline_Timer 90001])
   = Inl Iterator_Invalidated"
proof -
  obtain out where 1: "run_events media_handle (media_new [] []) demo_events = Inr (demo_linked, out)"
    using demo_run by blast
  obtain s' out' where 2: "media_handle demo_linked (Datagram 0 (demo_packet 1 0x52) (Some (demo_addr 1))) = Inr (s', out')"
    "m_mapForwardTable s' = [(2, \<lparr>ft_addr = demo_addr 2, ft_sessionId = 0, ft_expireTime = 90000,
        ft_localUdpPort = 5000, dataTo = [], dataFrom = [1]\<rparr>)]"
    using demo_logout by blast
  have 3: "offlineDetection 90001 s' = Inl Iterator_Invalidated"
    by (simp add: offlineDetection_def 2(2) sweep_Cons expired_def peers_present_def)
  show ?thesis
    by (simp add: run_events_append 1 2(1) 3 del: media_handle.simps(1))
qed

text \<open>
  Property C9. There are two ways for a user without an address to get one. A login packet of the user whose
  verification, run on the thread pool, came back with success gives it the address the packet was sent from. And
  a UDP logout of a user that still lists this one as a source gives it, by the \<open>operator[]\<close> of the map, the address
  of all zeros; where every source has a link, that does not happen.
\<close>

theorem login_gate:
  assumes "media_inv s" "media_handle s e = Inr (s', out)" "address s u = None" "address s' u = Some a"
  shows "(\<exists>now ctx. e = Work_Done now ctx False \<and> unat (up_type (vc_msg ctx)) = LOGIN_MSG
      \<and> up_userId (vc_msg ctx) = u \<and> vc_srcAddr ctx = a)
    \<or> (\<exists>now d src p b x t. e = Datagram now d src \<and> snd (udp_receive d src s) = Some (p, b, x)
      \<and> unat (up_type p) = LOGOUT_MSG \<and> map_of (m_mapForwardTable s) (up_userId p) = Some t \<and> u \<in> set (dataFrom t)
      \<and> a = zero_addr \<and> \<not> tidy_inv s)"
proof -
  have "\<not> tidy_inv s" if "map_of (m_mapForwardTable s) k = Some t" "u \<in> set (dataFrom t)" for k t
    using that assms(3) by (fastforce simp: tidy_inv_def sources_ok_def links_of_def address_def)
  then show ?thesis using new_address [OF assms] by blast
qed

theorem login_gate_witness:
  "\<exists>now ctx. demo_login 1 = Work_Done now ctx False \<and> vc_srcAddr ctx = demo_addr 1"
proof -
  have "\<exists>s' out. media_handle (media_new [] []) (demo_login 1) = Inr (s', out) \<and> address s' 1 = Some (demo_addr 1)"
    "address (media_new [] []) 1 = None" "demo_addr 1 \<noteq> zero_addr"
    by (simp_all add: demo_defs address_def zero_addr_def)
  then show ?thesis using login_gate [OF media_new_ok(2)] by blast
qed

text \<open>
  Property C10. The offline timer removes exactly the expired users and the links from and to
  them, and reports exactly them to the signaling server, unless the map it goes through is changed under it: that
  can only happen when an expired user still lists a source that has no link to it, as a UDP logout or
  a user that has left its room may leave behind, and never in a state where every source has its link.
\<close>

theorem offline_exact:
  assumes "media_inv s"
  shows "(\<exists>s' K. media_handle s (Offline_Timer now) = Inr (s', map User_Timeout K) \<and> distinct K
      \<and> set K = {k. \<exists>t. map_of (m_mapForwardTable s) k = Some t \<and> now > ft_expireTime t}
      \<and> address s' = (\<lambda>k. if k \<in> set K then None else address s k)
      \<and> links s' = {(a, b) \<in> links s. a \<notin> set K \<and> b \<notin> set K})
    \<or> (media_handle s (Offline_Timer now) = Inl Iterator_Invalidated \<and> \<not> tidy_inv s
      \<and> (\<exists>k t a. map_of (m_mapForwardTable s) k = Some t \<and> now > ft_expireTime t
        \<and> a \<in> set (dataFrom t) \<and> (a, k) \<notin> links s))"
proof (cases "offlineDetection now s")
  case (Inl f)
  note c = offlineDetection_fault [OF assms Inl]
  then have "\<not> tidy_inv s" by (auto simp: tidy_inv_def sources_ok_def)
  then show ?thesis using Inl c by simp
next
  case (Inr so)
  let ?m = "m_mapForwardTable s"
  obtain s' out where h: "offlineDetection now s = Inr (s', out)" using Inr by (cases so) simp
  note r = offlineDetection_result(3-5) [OF assms h]
  have K: "set (filter (expired now ?m) (map fst ?m)) = {k. expired now ?m k}"
    by (auto simp: expired_def dest: map_of_SomeD intro: rev_image_eqI)
  have "distinct (filter (expired now ?m) (map fst ?m))" using assms by (simp add: media_inv_def)
  moreover have "address s' = (\<lambda>k. if k \<in> {k. expired now ?m k} then None else address s k)"
    using r(1) by (simp add: fun_eq_iff)
  ultimately show ?thesis using h r(2,3) K
    by (intro disjI1 exI [of _ s'] exI [of _ "filter (expired now ?m) (map fst ?m)"], unfold K) (simp add: expired_def)
qed

theorem offline_exact_witness:
  "\<exists>s' K. media_handle demo_linked (Offline_Timer 90001) = Inr (s', map User_Timeout K) \<and> set K = {1, 2}
    \<and> links s' = {}"
proof -
  have "{k. \<exists>t. map_of (m_mapForwardTable demo_linked) k = Some t \<and> 90001 > ft_expireTime t} = {1, 2}"
    by (auto simp: demo_linked_def split: if_splits)
  then show ?thesis using offline_exact [OF demo_inv(1), of 90001] demo_inv(2) by (fastforce simp: demo_abs)
qed

text \<open>
  Property C11. A logout message removes the user and exactly the links from and to it; leaving
  a room removes the same links and keeps the address.
\<close>

theorem logout_exact:
  assumes "media_inv s"
  shows "address (OnLogout u s) = (address s)(u := None) \<and> address (OnLeaveRoom u s) = address s
    \<and> links (OnLogout u s) = {(a, b) \<in> links s. a \<noteq> u \<and> b \<noteq> u}
    \<and> links (OnLeaveRoom u s) = {(a, b) \<in> links s. a \<noteq> u \<and> b \<noteq> u}"
  using OnLogout_ok(2,3) [OF assms] OnLeaveRoom_ok(2,3) [OF assms] by simp

theorem logout_exact_witness:
  "links (OnLogout 2 demo_linked) = {} \<and> address (OnLogout 2 demo_linked) = [1 \<mapsto> demo_addr 1]"
  using logout_exact [OF demo_inv(1), of 2] by (auto simp: demo_abs)

end
