(* ===== verification/Tcp_Server.thy ===== *)
theory Tcp_Server
  imports Packet_Sync
begin

text \<open>
  The TCP server under the signaling server and the master (\<open>simple_uv/tcpserver.cpp\<close>,
  \<open>tcpserver.h\<close>, \<open>BaseMsgDefine.cpp\<close>, \<open>TcpHandle.h\<close>): connections, the recycling of their
  contexts and of write requests, the map of clients under its mutex, sending, broadcasting
  and closing. What libuv answers (status and return codes) is an argument of each event; the
  rules of its handles (no second \<open>uv_tcp_init\<close> on an open handle, no second \<open>uv_close\<close>) are
  checked.
\<close>

section \<open>State\<close>

text \<open>
  The heap of \<open>TcpClientCtx\<close> objects is a map from addresses. An \<open>AcceptClient\<close> object is
  owned by the map of clients and referred to by its client id.
\<close>

datatype handle_data = Data_None | Data_Ctx | Data_Accept int

datatype close_cb = RecycleTcpHandle_CB | AfterClientClose_CB | AfterServerClose_CB

datatype handle_state = Handle_None | Handle_Open | Handle_Reading | Handle_Closing close_cb

record TcpClientCtx =
  tc_packet :: packet_sync
  tc_clientid :: int
  parent_acceptclient :: "int option"
  tcphandle_data :: handle_data
  tcphandle :: handle_state

record AcceptClient =
  m_pClientHandle :: nat
  ac_bIsClosed :: bool

text \<open>
  \<open>m_listWriteParam\<close> holds the capacities of the free write requests, \<open>mutex_held\<close> is
  \<open>m_mutexClients\<close>, \<open>s_id\<close> the static counter of \<open>GetAvailaClientID\<close>.
\<close>

record tcp_server =
  ctxs :: "(nat \<times> TcpClientCtx) list"
  next_ctx :: nat
  m_listAvaiTcpHandle :: "nat list"
  m_listWriteParam :: "nat list"
  m_mapClientsList :: "(int \<times> AcceptClient) list"
  s_id :: int
  m_bIsClosed :: bool
  m_bIsUserAskForClosed :: bool
  mutex_held :: bool

definition MAXLISTSIZE :: nat where "MAXLISTSIZE = 20"
definition SERVER_PACKET_HEAD :: u8 where "SERVER_PACKET_HEAD = 1"
definition SERVER_PACKET_TAIL :: u8 where "SERVER_PACKET_TAIL = 2"

text \<open>What the server does to its surroundings; \<open>Parse\<close> is the virtual \<open>ParsePacket\<close>.\<close>

datatype tcp_out =
    New_Connect int
  | Close_CB int
  | Parse nat NetPacket bytes
  | Uv_Write nat bytes
  | Uv_Close nat
  | Uv_Async_Send

section \<open>Contexts\<close>

definition client_ctx :: "nat \<Rightarrow> 'a tcp_server_scheme \<Rightarrow> TcpClientCtx outcome" where
  "client_ctx a s = (case map_of (ctxs s) a of None \<Rightarrow> Inl Use_After_Free | Some c \<Rightarrow> Inr c)"

definition modify_ctx ::
  "nat \<Rightarrow> (TcpClientCtx \<Rightarrow> TcpClientCtx) \<Rightarrow> 'a tcp_server_scheme \<Rightarrow> 'a tcp_server_scheme" where
  "modify_ctx a f s = (case map_of (ctxs s) a of None \<Rightarrow> s
     | Some c \<Rightarrow> s\<lparr>ctxs := AList.update a (f c) (ctxs s)\<rparr>)"

text \<open>\<open>malloc\<close> leaves what \<open>AllocTcpClientCtx\<close> does not set undefined; nothing reads it first.\<close>

definition AllocTcpClientCtx ::
  "NetPacket \<Rightarrow> 'a tcp_server_scheme \<Rightarrow> 'a tcp_server_scheme \<times> nat" where
  "AllocTcpClientCtx junk s = (
     let c = \<lparr>tc_packet = packet_sync_new junk, tc_clientid = 0, parent_acceptclient = None,
           tcphandle_data = Data_None, tcphandle = Handle_None\<rparr>
     in (s\<lparr>ctxs := ctxs s @ [(next_ctx s, c)], next_ctx := next_ctx s + 1\<rparr>, next_ctx s))"

definition FreeTcpClientCtx :: "nat \<Rightarrow> 'a tcp_server_scheme \<Rightarrow> 'a tcp_server_scheme outcome" where
  "FreeTcpClientCtx a s = (if map_of (ctxs s) a = None then Inl Use_After_Free
     else Inr (s\<lparr>ctxs := AList.delete a (ctxs s)\<rparr>))"

definition recycle_ctx :: "nat \<Rightarrow> 'a tcp_server_scheme \<Rightarrow> 'a tcp_server_scheme outcome" where
  "recycle_ctx a s = (if length (m_listAvaiTcpHandle s) > MAXLISTSIZE then FreeTcpClientCtx a s
     else Inr (s\<lparr>m_listAvaiTcpHandle := m_listAvaiTcpHandle s @ [a]\<rparr>))"

definition uv_tcp_init :: "nat \<Rightarrow> 'a tcp_server_scheme \<Rightarrow> 'a tcp_server_scheme outcome" where
  "uv_tcp_init a s = bind_outcome (client_ctx a s) (\<lambda>c.
     if tcphandle c = Handle_None then Inr (modify_ctx a (\<lambda>c. c\<lparr>tcphandle := Handle_Open\<rparr>) s)
     else Inl Handle_Misuse)"

definition uv_close ::
  "nat \<Rightarrow> close_cb \<Rightarrow> 'a tcp_server_scheme \<Rightarrow> 'a tcp_server_scheme outcome" where
  "uv_close a cb s = bind_outcome (client_ctx a s) (\<lambda>c. case tcphandle c of
       Handle_Closing _ \<Rightarrow> Inl Assertion_Failed
     | Handle_None \<Rightarrow> Inl Handle_Misuse
     | _ \<Rightarrow> Inr (modify_ctx a (\<lambda>c. c\<lparr>tcphandle := Handle_Closing cb\<rparr>) s))"

section \<open>The mutex\<close>

definition lock_clients :: "'a tcp_server_scheme \<Rightarrow> 'a tcp_server_scheme outcome" where
  "lock_clients s = (if mutex_held s then Inl Deadlock else Inr (s\<lparr>mutex_held := True\<rparr>))"

definition unlock_clients :: "'a tcp_server_scheme \<Rightarrow> 'a tcp_server_scheme" where
  "unlock_clients s = s\<lparr>mutex_held := False\<rparr>"

section \<open>Connections\<close>

text \<open>\<open>std::map::insert\<close>: in key order, and an entry that is there already stays.\<close>

definition map_insert :: "int \<Rightarrow> 'b \<Rightarrow> (int \<times> 'b) list \<Rightarrow> (int \<times> 'b) list" where
  "map_insert k v m = (if map_of m k = None
     then filter (\<lambda>e. fst e < k) m @ (k, v) # filter (\<lambda>e. k < fst e) m else m)"

text \<open>The constructor of \<open>AcceptClient\<close> with its \<open>init\<close>.\<close>

definition new_AcceptClient ::
  "nat \<Rightarrow> int \<Rightarrow> 'a tcp_server_scheme \<Rightarrow> 'a tcp_server_scheme \<times> AcceptClient" where
  "new_AcceptClient a cid s =
     (modify_ctx a (\<lambda>c. c\<lparr>parent_acceptclient := Some cid\<rparr>) s,
      \<lparr>m_pClientHandle = a, ac_bIsClosed = False\<rparr>)"

definition take_ctx :: "NetPacket \<Rightarrow> 'a tcp_server_scheme \<Rightarrow> 'a tcp_server_scheme \<times> nat" where
  "take_ctx junk s = (case m_listAvaiTcpHandle s of
       [] \<Rightarrow> AllocTcpClientCtx junk s
     | a # as \<Rightarrow> (modify_ctx a (\<lambda>c. c\<lparr>parent_acceptclient := None\<rparr>) (s\<lparr>m_listAvaiTcpHandle := as\<rparr>), a))"

definition push_ctx :: "nat \<Rightarrow> 'a tcp_server_scheme \<Rightarrow> 'a tcp_server_scheme" where
  "push_ctx a s = s\<lparr>m_listAvaiTcpHandle := m_listAvaiTcpHandle s @ [a]\<rparr>"

text \<open>
  The return codes are those of \<open>uv_tcp_init\<close>, \<open>uv_accept\<close> and \<open>uv_read_start\<close>.
\<close>

definition AcceptConnection ::
  "int \<Rightarrow> int \<Rightarrow> int \<Rightarrow> int \<Rightarrow> NetPacket \<Rightarrow> 'a tcp_server_scheme \<Rightarrow> ('a tcp_server_scheme \<times> tcp_out list) outcome" where
  "AcceptConnection status init_ret accept_ret read_ret junk s0 = (
     if status \<noteq> 0 then Inr (s0, [])
     else let (s, a) = take_ctx junk s0 in
     if init_ret \<noteq> 0 then Inr (push_ctx a s, [])
     else bind_outcome (uv_tcp_init a s) (\<lambda>s.
       if 2 ^ 31 \<le> s_id s + 1 then Inl Signed_Overflow else
       let cid = s_id s + 1;
           s = modify_ctx a (\<lambda>c. c\<lparr>tcphandle_data := Data_Ctx, tc_clientid := cid\<rparr>) (s\<lparr>s_id := cid\<rparr>) in
       if accept_ret \<noteq> 0 then Inr (push_ctx a s, [])
       else
       let s = modify_ctx a (\<lambda>c. c\<lparr>tc_packet :=
                 Start SERVER_PACKET_HEAD SERVER_PACKET_TAIL (SetPacketCB (tc_packet c))\<rparr>) s in
       if read_ret \<noteq> 0
       then map_outcome (\<lambda>s. (s, [Uv_Close a])) (uv_close a RecycleTcpHandle_CB s)
       else
       let (s, cdata) = new_AcceptClient a cid
             (modify_ctx a (\<lambda>c. c\<lparr>tcphandle := Handle_Reading\<rparr>) s) in
       bind_outcome (lock_clients s) (\<lambda>s.
         Inr (unlock_clients (s\<lparr>m_mapClientsList := map_insert cid cdata (m_mapClientsList s)\<rparr>),
              [New_Connect cid]))))"

definition AcceptClient_Close ::
  "int \<Rightarrow> 'a tcp_server_scheme \<Rightarrow> ('a tcp_server_scheme \<times> tcp_out list) outcome" where
  "AcceptClient_Close cid s = (case map_of (m_mapClientsList s) cid of
       None \<Rightarrow> Inl Use_After_Free
     | Some ac \<Rightarrow>
         if ac_bIsClosed ac then Inr (s, [])
         else let a = m_pClientHandle ac;
                  s = modify_ctx a (\<lambda>c. c\<lparr>tcphandle_data := Data_Accept cid\<rparr>) s
              in map_outcome (\<lambda>s. (s, [Uv_Close a])) (uv_close a AfterClientClose_CB s))"

text \<open>\<open>delete\<close> runs the destructor, which finds the client closed.\<close>

definition SubClientClosed ::
  "int \<Rightarrow> 'a tcp_server_scheme \<Rightarrow> ('a tcp_server_scheme \<times> tcp_out list) outcome" where
  "SubClientClosed cid s0 = bind_outcome (lock_clients s0) (\<lambda>s.
     case map_of (m_mapClientsList s) cid of
       None \<Rightarrow> Inr (unlock_clients s, [])
     | Some ac \<Rightarrow> map_outcome (\<lambda>s.
         (unlock_clients (s\<lparr>m_mapClientsList := AList.delete cid (m_mapClientsList s)\<rparr>), [Close_CB cid]))
         (recycle_ctx (m_pClientHandle ac) s))"

definition AfterClientClose ::
  "nat \<Rightarrow> int \<Rightarrow> 'a tcp_server_scheme \<Rightarrow> ('a tcp_server_scheme \<times> tcp_out list) outcome" where
  "AfterClientClose a cid s = (case map_of (m_mapClientsList s) cid of
       None \<Rightarrow> Inl Use_After_Free
     | Some ac \<Rightarrow>
         if m_pClientHandle ac = a
         then SubClientClosed cid (s\<lparr>m_mapClientsList :=
                AList.update cid (ac\<lparr>ac_bIsClosed := True\<rparr>) (m_mapClientsList s)\<rparr>)
         else Inr (s, []))"

text \<open>The loop has closed a handle and runs the callback of \<open>uv_close\<close>.\<close>

definition after_close ::
  "nat \<Rightarrow> 'a tcp_server_scheme \<Rightarrow> ('a tcp_server_scheme \<times> tcp_out list) outcome" where
  "after_close a s = bind_outcome (client_ctx a s) (\<lambda>c.
     let s' = modify_ctx a (\<lambda>c. c\<lparr>tcphandle := Handle_None\<rparr>) s in
     case (tcphandle c, tcphandle_data c) of
       (Handle_Closing RecycleTcpHandle_CB, Data_Ctx) \<Rightarrow> map_outcome (\<lambda>s. (s, [])) (recycle_ctx a s')
     | (Handle_Closing AfterClientClose_CB, Data_Accept cid) \<Rightarrow> AfterClientClose a cid s'
     | (Handle_Closing AfterServerClose_CB, _) \<Rightarrow> Inr (s', [])
     | _ \<Rightarrow> Inl Handle_Misuse)"

text \<open>A read callback of an open handle: an error or the end of the stream, or data.\<close>

definition AfterRecv ::
  "bool \<Rightarrow> nat \<Rightarrow> int \<Rightarrow> bytes \<Rightarrow> 'a tcp_server_scheme \<Rightarrow> ('a tcp_server_scheme \<times> tcp_out list) outcome" where
  "AfterRecv le a nread buf s = bind_outcome (client_ctx a s) (\<lambda>c.
     if nread < 0 then (case parent_acceptclient c of
         None \<Rightarrow> Inl Null_Dereference
       | Some cid \<Rightarrow> AcceptClient_Close cid s)
     else if nread = 0 then Inr (s, [])
     else (case recvdata le (tc_packet c) (take (nat nread) buf) of
         None \<Rightarrow> Inl No_Return
       | Some r \<Rightarrow> map_outcome (\<lambda>(ps, ds).
           (modify_ctx a (\<lambda>c. c\<lparr>tc_packet := ps\<rparr>) s, map (\<lambda>(p, d). Parse a p d) ds)) r))"

section \<open>Sending\<close>

definition PacketData :: "bool \<Rightarrow> NetPacket \<Rightarrow> bytes \<Rightarrow> nat \<Rightarrow> bytes outcome" where
  "PacketData le tmppack msg nMsgType = map_outcome snd (PacketData2 le
     (tmppack\<lparr>np_type := of_nat nMsgType, np_header := SERVER_PACKET_HEAD, np_tail := SERVER_PACKET_TAIL,
        np_datalen := of_nat (length msg)\<rparr>) (Some msg))"

text \<open>
  \<open>ret\<close> is what \<open>uv_write\<close> returns. The capacity of the request that goes out comes back with
  \<open>AfterSend\<close>.
\<close>

definition sendinl ::
  "(nat \<Rightarrow> int) \<Rightarrow> bytes \<Rightarrow> nat \<Rightarrow> 'a tcp_server_scheme \<Rightarrow> 'a tcp_server_scheme \<times> tcp_out list \<times> bool" where
  "sendinl ret senddata a s = (
     if senddata = [] then (s, [], True)
     else let (cap, s) = (case m_listWriteParam s of
              [] \<Rightarrow> (BUFFER_SIZE, s)
            | c # cs \<Rightarrow> (c, s\<lparr>m_listWriteParam := cs\<rparr>));
          cap = (if cap < length senddata then length senddata else cap)
     in if ret a \<noteq> 0 then (s\<lparr>m_listWriteParam := m_listWriteParam s @ [cap]\<rparr>, [], False)
        else (s, [Uv_Write a senddata], True))"

definition AfterSend :: "nat \<Rightarrow> 'a tcp_server_scheme \<Rightarrow> 'a tcp_server_scheme" where
  "AfterSend cap s = (if length (m_listWriteParam s) > MAXLISTSIZE then s
     else s\<lparr>m_listWriteParam := m_listWriteParam s @ [cap]\<rparr>)"

text \<open>\<open>excludeid\<close> loses the first occurrence of every id that is met.\<close>

fun broadcast_loop ::
  "(nat \<Rightarrow> int) \<Rightarrow> bytes \<Rightarrow> (int \<times> AcceptClient) list \<Rightarrow> int list \<Rightarrow> 'a tcp_server_scheme
   \<Rightarrow> 'a tcp_server_scheme \<times> tcp_out list" where
  "broadcast_loop ret d [] excludeid s = (s, [])"
| "broadcast_loop ret d ((cid, ac) # cs) excludeid s =
     (if cid \<in> set excludeid then broadcast_loop ret d cs (remove1 cid excludeid) s
      else let (s, out, _) = sendinl ret d (m_pClientHandle ac) s;
               (s, out') = broadcast_loop ret d cs excludeid s
           in (s, out @ out'))"

definition broadcast ::
  "(nat \<Rightarrow> int) \<Rightarrow> bytes \<Rightarrow> int list \<Rightarrow> 'a tcp_server_scheme \<Rightarrow> ('a tcp_server_scheme \<times> tcp_out list) outcome" where
  "broadcast ret senddata excludeid s = (
     if senddata = [] then Inr (s, [])
     else bind_outcome (lock_clients s) (\<lambda>s.
       let (s, out) = broadcast_loop ret senddata (m_mapClientsList s) excludeid s
       in Inr (unlock_clients s, out)))"

section \<open>Closing\<close>

definition tcp_Close :: "'a tcp_server_scheme \<Rightarrow> 'a tcp_server_scheme \<times> tcp_out list" where
  "tcp_Close s = (if m_bIsClosed s then (s, [])
     else (s\<lparr>m_bIsUserAskForClosed := True\<rparr>, [Uv_Async_Send]))"

fun close_clients ::
  "int list \<Rightarrow> 'a tcp_server_scheme \<Rightarrow> ('a tcp_server_scheme \<times> tcp_out list) outcome" where
  "close_clients [] s = Inr (s, [])"
| "close_clients (cid # ids) s = bind_outcome (AcceptClient_Close cid s) (\<lambda>(s, out).
     map_outcome (\<lambda>(s, out'). (s, out @ out')) (close_clients ids s))"

text \<open>\<open>CloseWalkCB\<close> on the handles of the contexts.\<close>

definition CloseWalkCB :: "TcpClientCtx \<Rightarrow> TcpClientCtx" where
  "CloseWalkCB c = (if tcphandle c \<in> {Handle_Open, Handle_Reading}
     then c\<lparr>tcphandle := Handle_Closing AfterServerClose_CB\<rparr> else c)"

text \<open>The mutex is not unlocked.\<close>

definition closeinl :: "'a tcp_server_scheme \<Rightarrow> ('a tcp_server_scheme \<times> tcp_out list) outcome" where
  "closeinl s = (if m_bIsClosed s then Inr (s, [])
     else bind_outcome (lock_clients s) (\<lambda>s.
       map_outcome (\<lambda>(s, out). (s\<lparr>ctxs := map (\<lambda>(a, c). (a, CloseWalkCB c)) (ctxs s)\<rparr>, out))
         (close_clients (map fst (m_mapClientsList s)) s)))"

definition AsyncCloseCB :: "'a tcp_server_scheme \<Rightarrow> ('a tcp_server_scheme \<times> tcp_out list) outcome" where
  "AsyncCloseCB s = (if m_bIsUserAskForClosed s then closeinl s else Inr (s, []))"

text \<open>The end of \<open>StartThread\<close>, when the loop has nothing left to run.\<close>

definition loop_end :: "'a tcp_server_scheme \<Rightarrow> 'a tcp_server_scheme \<times> tcp_out list" where
  "loop_end s = (s\<lparr>m_bIsClosed := True, m_bIsUserAskForClosed := False\<rparr>, [Close_CB (-1)])"

section \<open>Events\<close>

text \<open>
  What the loop delivers. It calls no read callback of a handle that is not being read and
  no close callback of one that is not closing, and it ends when no handle is left.
\<close>

datatype tcp_event =
    Ev_Accept int int int int NetPacket
  | Ev_Recv bool nat int bytes
  | Ev_After_Close nat
  | Ev_After_Send nat
  | Ev_Send "nat \<Rightarrow> int" bytes nat
  | Ev_Broadcast "nat \<Rightarrow> int" bytes "int list"
  | Ev_Close
  | Ev_Async_Close
  | Ev_Loop_End

definition tcp_enabled :: "tcp_event \<Rightarrow> 'a tcp_server_scheme \<Rightarrow> bool" where
  "tcp_enabled e s = (case e of
       Ev_Recv _ a _ _ \<Rightarrow> map_option tcphandle (map_of (ctxs s) a) = Some Handle_Reading
     | Ev_After_Close a \<Rightarrow> (\<exists>cb\<in>{RecycleTcpHandle_CB, AfterClientClose_CB, AfterServerClose_CB}.
         map_option tcphandle (map_of (ctxs s) a) = Some (Handle_Closing cb))
     | Ev_Loop_End \<Rightarrow> (\<forall>(a, c)\<in>set (ctxs s). tcphandle c = Handle_None)
     | _ \<Rightarrow> True)"

definition tcp_handle ::
  "'a tcp_server_scheme \<Rightarrow> tcp_event \<Rightarrow> ('a tcp_server_scheme \<times> tcp_out list) outcome" where
  "tcp_handle s e = (if \<not> tcp_enabled e s then Inr (s, []) else case e of
       Ev_Accept status i a r junk \<Rightarrow> AcceptConnection status i a r junk s
     | Ev_Recv le a nread buf \<Rightarrow> AfterRecv le a nread buf s
     | Ev_After_Close a \<Rightarrow> after_close a s
     | Ev_After_Send cap \<Rightarrow> Inr (AfterSend cap s, [])
     | Ev_Send ret d a \<Rightarrow> (case sendinl ret d a s of (s, out, _) \<Rightarrow> Inr (s, out))
     | Ev_Broadcast ret d ex \<Rightarrow> broadcast ret d ex s
     | Ev_Close \<Rightarrow> Inr (tcp_Close s)
     | Ev_Async_Close \<Rightarrow> AsyncCloseCB s
     | Ev_Loop_End \<Rightarrow> Inr (loop_end s))"

definition tcp_server_started :: tcp_server where
  "tcp_server_started = \<lparr>ctxs = [], next_ctx = 0, m_listAvaiTcpHandle = [], m_listWriteParam = [],
     m_mapClientsList = [], s_id = 0, m_bIsClosed = False, m_bIsUserAskForClosed = False, mutex_held = False\<rparr>"

end
