(* ===== verification/Tcp_Server_Proofs.thy ===== *)
theory Tcp_Server_Proofs
  imports Tcp_Server
begin

text \<open>
  What holds of the TCP server: the ownership of contexts and the bounds of the lists of
  recycled objects over any sequence of events, the clients a broadcast reaches, and two
  consequences of how contexts are recycled and how the server is closed.
\<close>

section \<open>Accesses\<close>

lemma modify_ctx_simps [simp]:
  "map_of (ctxs (modify_ctx a f s)) b = (if b = a then map_option f (map_of (ctxs s) a) else map_of (ctxs s) b)"
  "distinct (map fst (ctxs (modify_ctx a f s))) = distinct (map fst (ctxs s))"
  "next_ctx (modify_ctx a f s) = next_ctx s"
  "m_listAvaiTcpHandle (modify_ctx a f s) = m_listAvaiTcpHandle s"
  "m_listWriteParam (modify_ctx a f s) = m_listWriteParam s"
  "m_mapClientsList (modify_ctx a f s) = m_mapClientsList s"
  "s_id (modify_ctx a f s) = s_id s"
  "mutex_held (modify_ctx a f s) = mutex_held s"
  "m_bIsClosed (modify_ctx a f s) = m_bIsClosed s"
  "m_bIsUserAskForClosed (modify_ctx a f s) = m_bIsUserAskForClosed s"
  by (simp_all add: modify_ctx_def split: option.split)

lemma client_ctx_Inr: "client_ctx a s = Inr c \<longleftrightarrow> map_of (ctxs s) a = Some c"
  by (simp add: client_ctx_def split: option.split)

section \<open>The invariant\<close>

definition clients_of :: "'a tcp_server_scheme \<Rightarrow> nat list" where
  "clients_of s = map (\<lambda>(_, ac). m_pClientHandle ac) (m_mapClientsList s)"

definition heap_inv :: "'a tcp_server_scheme \<Rightarrow> bool" where
  "heap_inv s \<longleftrightarrow> distinct (map fst (ctxs s)) \<and> (\<forall>a c. map_of (ctxs s) a = Some c \<longrightarrow> a < next_ctx s)"

text \<open>The context of a client belongs to it alone and is not free.\<close>

definition clients_inv :: "'a tcp_server_scheme \<Rightarrow> bool" where
  "clients_inv s \<longleftrightarrow> sorted_wrt (<) (map fst (m_mapClientsList s))
     \<and> distinct (clients_of s @ m_listAvaiTcpHandle s)
     \<and> (\<forall>(k, ac)\<in>set (m_mapClientsList s). k \<le> s_id s \<and> \<not> ac_bIsClosed ac
          \<and> (\<exists>c. map_of (ctxs s) (m_pClientHandle ac) = Some c
               \<and> parent_acceptclient c = Some k \<and> tc_clientid c = k
               \<and> (tcphandle c = Handle_Reading
                  \<or> tcphandle c = Handle_Closing AfterClientClose_CB \<and> tcphandle_data c = Data_Accept k)))"

definition free_inv :: "'a tcp_server_scheme \<Rightarrow> bool" where
  "free_inv s \<longleftrightarrow> (\<forall>a\<in>set (m_listAvaiTcpHandle s). \<exists>c. map_of (ctxs s) a = Some c
       \<and> tcphandle c \<in> {Handle_None, Handle_Open, Handle_Closing AfterServerClose_CB})
     \<and> length (m_listAvaiTcpHandle s) \<le> MAXLISTSIZE + 1"

definition write_inv :: "'a tcp_server_scheme \<Rightarrow> bool" where
  "write_inv s \<longleftrightarrow> length (m_listWriteParam s) \<le> MAXLISTSIZE + 1"

definition tcp_inv :: "'a tcp_server_scheme \<Rightarrow> bool" where
  "tcp_inv s \<longleftrightarrow> heap_inv s \<and> clients_inv s \<and> free_inv s \<and> write_inv s"

lemmas tcp_inv_defs = tcp_inv_def heap_inv_def clients_inv_def free_inv_def write_inv_def clients_of_def

lemma clients_sorted_distinct:
  "sorted_wrt (<) (map fst m) \<Longrightarrow> distinct (map fst (m :: (int \<times> 'b) list))"
  by (induction m) (auto dest: image_eqI)

lemma clients_invD:
  assumes "clients_inv s" "map_of (m_mapClientsList s) k = Some ac"
  shows "\<not> ac_bIsClosed ac" "m_pClientHandle ac \<notin> set (m_listAvaiTcpHandle s)"
    "\<exists>c. map_of (ctxs s) (m_pClientHandle ac) = Some c \<and> parent_acceptclient c = Some k \<and> tc_clientid c = k
      \<and> (tcphandle c = Handle_Reading
        \<or> tcphandle c = Handle_Closing AfterClientClose_CB \<and> tcphandle_data c = Data_Accept k)"
  using map_of_SomeD [OF assms(2)] assms(1) by (fastforce simp: clients_inv_def clients_of_def)+

lemma owned_ctx:
  assumes "clients_inv s" "map_of (ctxs s) a = Some c" "a \<in> set (clients_of s)"
  obtains k ac where "(k, ac) \<in> set (m_mapClientsList s)" "m_pClientHandle ac = a" "parent_acceptclient c = Some k"
    "tc_clientid c = k"
    "tcphandle c = Handle_Reading \<or> tcphandle c = Handle_Closing AfterClientClose_CB \<and> tcphandle_data c = Data_Accept k"
proof -
  obtain k ac where k: "(k, ac) \<in> set (m_mapClientsList s)" "m_pClientHandle ac = a"
    using assms(3) by (auto simp: clients_of_def)
  have "\<exists>c. map_of (ctxs s) (m_pClientHandle ac) = Some c \<and> parent_acceptclient c = Some k \<and> tc_clientid c = k
      \<and> (tcphandle c = Handle_Reading
        \<or> tcphandle c = Handle_Closing AfterClientClose_CB \<and> tcphandle_data c = Data_Accept k)"
    using bspec [OF assms(1) [unfolded clients_inv_def, THEN conjunct2, THEN conjunct2] k(1)] by simp
  then show thesis using that k assms(2) by auto
qed

text \<open>A change of one context that its owner, if it has one, does not notice.\<close>

definition same_owner :: "TcpClientCtx \<Rightarrow> TcpClientCtx \<Rightarrow> bool" where
  "same_owner c c' \<longleftrightarrow> parent_acceptclient c' = parent_acceptclient c \<and> tc_clientid c' = tc_clientid c
     \<and> tcphandle c' = tcphandle c \<and> tcphandle_data c' = tcphandle_data c"

lemma modify_ctx_inv:
  assumes "tcp_inv s" "\<And>c. map_of (ctxs s) a = Some c \<Longrightarrow> a \<in> set (clients_of s) \<Longrightarrow> same_owner c (f c)"
    "\<And>c. map_of (ctxs s) a = Some c \<Longrightarrow> a \<in> set (m_listAvaiTcpHandle s) \<Longrightarrow>
       tcphandle (f c) \<in> {Handle_None, Handle_Open, Handle_Closing AfterServerClose_CB}"
  shows "tcp_inv (modify_ctx a f s)"
proof -
  have "clients_inv (modify_ctx a f s)"
    using assms(1,2) by (fastforce simp: tcp_inv_def clients_inv_def clients_of_def same_owner_def)
  moreover have "free_inv (modify_ctx a f s)"
    using assms(1,3) unfolding tcp_inv_def free_inv_def by fastforce
  moreover have "heap_inv (modify_ctx a f s)" "write_inv (modify_ctx a f s)"
    using assms(1) by (auto simp: tcp_inv_def heap_inv_def write_inv_def)
  ultimately show ?thesis by (simp add: tcp_inv_def)
qed

lemma mutex_inv [simp]: "tcp_inv (s\<lparr>mutex_held := b\<rparr>) = tcp_inv s"
  by (simp add: tcp_inv_defs)

lemma flags_inv [simp]:
  "tcp_inv (s\<lparr>m_bIsUserAskForClosed := b\<rparr>) = tcp_inv s"
  "tcp_inv (s\<lparr>m_bIsClosed := b\<rparr>) = tcp_inv s"
  by (simp_all add: tcp_inv_defs)

text \<open>Handing a context to the list of free ones.\<close>

lemma recycle_inv:
  assumes "tcp_inv s" "map_of (ctxs s) a = Some c" "tcphandle c = Handle_None"
    "a \<notin> set (clients_of s @ m_listAvaiTcpHandle s)" "recycle_ctx a s = Inr s'"
  shows "tcp_inv s'"
proof (cases "length (m_listAvaiTcpHandle s) > MAXLISTSIZE")
  case True
  then have s': "s' = s\<lparr>ctxs := AList.delete a (ctxs s)\<rparr>"
    using assms(2,5) by (simp add: recycle_ctx_def FreeTcpClientCtx_def)
  have "m_pClientHandle ac \<noteq> a" if "(k, ac) \<in> set (m_mapClientsList s)" for k ac
    using assms(4) that by (force simp: clients_of_def)
  then have "clients_inv s'" using assms(1) unfolding s' tcp_inv_def clients_inv_def clients_of_def
    by (fastforce simp: delete_conv')
  moreover have "free_inv s'" using assms(1,4) unfolding s' tcp_inv_def free_inv_def
    by (auto simp: delete_conv')
  moreover have "heap_inv s'" "write_inv s'"
    using assms(1) by (auto simp: s' tcp_inv_def heap_inv_def write_inv_def distinct_delete delete_conv')
  ultimately show ?thesis by (simp add: tcp_inv_def)
next
  case False
  then have "s' = s\<lparr>m_listAvaiTcpHandle := m_listAvaiTcpHandle s @ [a]\<rparr>"
    using assms(5) by (simp add: recycle_ctx_def)
  then show ?thesis using assms(1-4) False
    by (auto simp: tcp_inv_defs)
qed

lemma recycle_fields:
  "recycle_ctx a s = Inr s' \<Longrightarrow> m_mapClientsList s' = m_mapClientsList s \<and> mutex_held s' = mutex_held s"
  by (auto simp: recycle_ctx_def FreeTcpClientCtx_def split: if_splits)

lemma remove_client_inv:
  assumes "tcp_inv s"
  shows "tcp_inv (s\<lparr>m_mapClientsList := AList.delete k (m_mapClientsList s)\<rparr>)"
proof -
  have f: "AList.delete k (m_mapClientsList s) = filter (\<lambda>e. fst e \<noteq> k) (m_mapClientsList s)"
    unfolding AList.delete_eq by (rule filter_cong) auto
  have "distinct (map (\<lambda>(_, ac). m_pClientHandle ac) (filter (\<lambda>e. fst e \<noteq> k) (m_mapClientsList s)))"
    using assms by (intro distinct_map_filter) (simp add: tcp_inv_def clients_inv_def clients_of_def)
  moreover have "sorted_wrt (<) (map fst (filter (\<lambda>e. fst e \<noteq> k) (m_mapClientsList s)))"
    using assms by (simp add: tcp_inv_def clients_inv_def sorted_wrt_map sorted_wrt_filter)
  ultimately show ?thesis using assms unfolding f by (fastforce simp: tcp_inv_defs)
qed

section \<open>Every event keeps the invariant\<close>

lemma uv_close_Inr:
  "uv_close a cb s = Inr s' \<longleftrightarrow> (\<exists>c. map_of (ctxs s) a = Some c \<and> tcphandle c \<in> {Handle_Open, Handle_Reading}
    \<and> s' = modify_ctx a (\<lambda>c. c\<lparr>tcphandle := Handle_Closing cb\<rparr>) s)"
proof (cases "map_of (ctxs s) a")
  case (Some c)
  then show ?thesis by (cases "tcphandle c") (auto simp: uv_close_def client_ctx_def)
qed (simp add: uv_close_def client_ctx_def)

lemma uv_tcp_init_Inr:
  "uv_tcp_init a s = Inr s' \<longleftrightarrow> (\<exists>c. map_of (ctxs s) a = Some c \<and> tcphandle c = Handle_None
    \<and> s' = modify_ctx a (\<lambda>c. c\<lparr>tcphandle := Handle_Open\<rparr>) s)"
  by (auto simp: uv_tcp_init_def bind_outcome_Inr_iff client_ctx_Inr)

lemma AcceptClient_Close_inv:
  assumes "tcp_inv s" "AcceptClient_Close k s = Inr (s', out)"
  shows "tcp_inv s'" "m_mapClientsList s' = m_mapClientsList s" "mutex_held s' = mutex_held s"
    "map_of (ctxs s') b \<noteq> None \<longleftrightarrow> map_of (ctxs s) b \<noteq> None"
proof -
  obtain ac where ac: "map_of (m_mapClientsList s) k = Some ac"
    using assms(2) by (auto simp: AcceptClient_Close_def split: option.splits)
  have inv: "clients_inv s" using assms(1) by (simp add: tcp_inv_def)
  note cl = clients_invD [OF inv ac]
  let ?a = "m_pClientHandle ac"
  obtain c where c: "map_of (ctxs s) ?a = Some c" "parent_acceptclient c = Some k" "tc_clientid c = k"
    using cl(3) by blast
  let ?f = "\<lambda>c. c\<lparr>tcphandle_data := Data_Accept k, tcphandle := Handle_Closing AfterClientClose_CB\<rparr>"
  let ?s1 = "modify_ctx ?a (\<lambda>c. c\<lparr>tcphandle_data := Data_Accept k\<rparr>) s"
  have s': "s' = modify_ctx ?a (\<lambda>c. c\<lparr>tcphandle := Handle_Closing AfterClientClose_CB\<rparr>) ?s1"
    using assms(2) ac cl(1) by (auto simp: AcceptClient_Close_def Let_def uv_close_Inr)
  have own: "k' = k" if "(k', ac') \<in> set (m_mapClientsList s)" "m_pClientHandle ac' = ?a" for k' ac'
    using inv c that by (fastforce simp: clients_inv_def)
  have L: "map_of (ctxs s') b = (if b = ?a then Some (?f c) else map_of (ctxs s) b)" for b
    using c(1) by (simp add: s')
  have cs: "m_mapClientsList s' = m_mapClientsList s" "m_listAvaiTcpHandle s' = m_listAvaiTcpHandle s"
    "s_id s' = s_id s" "m_listWriteParam s' = m_listWriteParam s" "next_ctx s' = next_ctx s"
    "distinct (map fst (ctxs s')) = distinct (map fst (ctxs s))"
    by (simp_all add: s')
  have "clients_inv s'"
    using inv own c unfolding clients_inv_def clients_of_def L cs by fastforce
  moreover have "free_inv s'" using assms(1) cl(2) unfolding tcp_inv_def free_inv_def L cs by auto
  moreover have "heap_inv s'" using assms(1) c(1) unfolding tcp_inv_def heap_inv_def L cs by auto
  ultimately show "tcp_inv s'" using assms(1) by (simp add: tcp_inv_def write_inv_def cs)
  show "m_mapClientsList s' = m_mapClientsList s" "mutex_held s' = mutex_held s"
    "map_of (ctxs s') b \<noteq> None \<longleftrightarrow> map_of (ctxs s) b \<noteq> None"
    using c(1) by (auto simp: s')
qed

lemma close_clients_inv:
  "tcp_inv s \<Longrightarrow> close_clients ks s = Inr (s', out) \<Longrightarrow> tcp_inv s'"
proof (induction ks arbitrary: s out)
  case (Cons k ks)
  then obtain t o1 o2 where "AcceptClient_Close k s = Inr (t, o1)" "close_clients ks t = Inr (s', o2)"
    by (auto simp: bind_outcome_Inr_iff)
  then show ?case using Cons AcceptClient_Close_inv(1) by blast
qed simp

lemma take_ctx_inv:
  assumes "tcp_inv s" "take_ctx junk s = (s', a)"
  shows "tcp_inv s'" "a \<notin> set (clients_of s' @ m_listAvaiTcpHandle s')"
    "\<exists>c. map_of (ctxs s') a = Some c \<and> tcphandle c \<in> {Handle_None, Handle_Open, Handle_Closing AfterServerClose_CB}"
    "length (m_listAvaiTcpHandle s') \<le> MAXLISTSIZE"
    "m_mapClientsList s' = m_mapClientsList s" "s_id s' = s_id s" "mutex_held s' = mutex_held s"
proof -
  have "tcp_inv s' \<and> a \<notin> set (clients_of s' @ m_listAvaiTcpHandle s')
    \<and> (\<exists>c. map_of (ctxs s') a = Some c \<and> tcphandle c \<in> {Handle_None, Handle_Open, Handle_Closing AfterServerClose_CB})
    \<and> length (m_listAvaiTcpHandle s') \<le> MAXLISTSIZE"
  proof (cases "m_listAvaiTcpHandle s")
    case Nil
    then have s': "ctxs s' = ctxs s @ [(a, \<lparr>tc_packet = packet_sync_new junk, tc_clientid = 0,
          parent_acceptclient = None, tcphandle_data = Data_None, tcphandle = Handle_None\<rparr>)]"
      "a = next_ctx s" "next_ctx s' = next_ctx s + 1" "m_listAvaiTcpHandle s' = []"
      "m_mapClientsList s' = m_mapClientsList s" "s_id s' = s_id s" "m_listWriteParam s' = m_listWriteParam s"
      using assms(2) by (auto simp: take_ctx_def AllocTcpClientCtx_def Let_def)
    have h: "heap_inv s" "clients_inv s" using assms(1) by (simp_all add: tcp_inv_def)
    have new: "map_of (ctxs s) a = None"
      using h(1) s'(2) unfolding heap_inv_def by (metis less_irrefl not_None_eq)
    then have L: "map_of (ctxs s') b = (if b = a then Some \<lparr>tc_packet = packet_sync_new junk, tc_clientid = 0,
          parent_acceptclient = None, tcphandle_data = Data_None, tcphandle = Handle_None\<rparr> else map_of (ctxs s) b)" for b
      by (auto simp: s'(1) map_of_append map_add_def split: option.split)
    have used: "a \<notin> set (clients_of s')"
      using h(2) new by (fastforce simp: clients_of_def s' clients_inv_def)
    have "a \<notin> fst ` set (ctxs s)" using new by (simp add: map_of_eq_None_iff)
    then have "distinct (map fst (ctxs s'))" using h(1) by (simp add: heap_inv_def s'(1))
    moreover have "b < next_ctx s'" if "map_of (ctxs s') b = Some x" for b x
      using h(1) that unfolding heap_inv_def L s'(2,3) by (cases "b = next_ctx s") (auto simp: less_Suc_eq)
    ultimately have "heap_inv s'" by (simp add: heap_inv_def)
    moreover have "clients_inv s'"
      using h(2) used unfolding clients_inv_def clients_of_def L s' by (fastforce simp: Nil)
    moreover have "free_inv s'" "write_inv s'"
      using assms(1) by (simp_all add: tcp_inv_def free_inv_def write_inv_def s')
    ultimately have "tcp_inv s'" by (simp add: tcp_inv_def)
    then show ?thesis using used s'(4) L [of a] by simp
  next
    case (Cons b bs)
    then have ab: "b = a" and s': "s' = modify_ctx a (\<lambda>c. c\<lparr>parent_acceptclient := None\<rparr>) (s\<lparr>m_listAvaiTcpHandle := bs\<rparr>)"
      using assms(2) by (auto simp: take_ctx_def)
    have t: "tcp_inv (s\<lparr>m_listAvaiTcpHandle := bs\<rparr>)" "a \<notin> set (clients_of s)" "a \<notin> set bs"
      using assms(1) Cons ab by (auto simp: tcp_inv_defs)
    have "tcp_inv s'" unfolding s'
      by (rule modify_ctx_inv [OF t(1)]) (use t(2,3) in \<open>auto simp: clients_of_def\<close>)
    moreover have "\<exists>c. map_of (ctxs s) a = Some c \<and> tcphandle c \<in> {Handle_None, Handle_Open, Handle_Closing AfterServerClose_CB}"
      "length bs \<le> MAXLISTSIZE"
      using assms(1) Cons ab by (fastforce simp: tcp_inv_def free_inv_def)+
    ultimately show ?thesis using t(2,3) unfolding s' by (auto simp: clients_of_def)
  qed
  then show "tcp_inv s'" "a \<notin> set (clients_of s' @ m_listAvaiTcpHandle s')"
    "\<exists>c. map_of (ctxs s') a = Some c \<and> tcphandle c \<in> {Handle_None, Handle_Open, Handle_Closing AfterServerClose_CB}"
    "length (m_listAvaiTcpHandle s') \<le> MAXLISTSIZE" by blast+
  show "m_mapClientsList s' = m_mapClientsList s" "s_id s' = s_id s" "mutex_held s' = mutex_held s"
    using assms(2) by (auto simp: take_ctx_def AllocTcpClientCtx_def Let_def split: list.splits)
qed

lemma push_ctx_inv:
  assumes "tcp_inv s" "a \<notin> set (clients_of s @ m_listAvaiTcpHandle s)" "length (m_listAvaiTcpHandle s) \<le> MAXLISTSIZE"
    "\<exists>c. map_of (ctxs s) a = Some c \<and> tcphandle c \<in> {Handle_None, Handle_Open, Handle_Closing AfterServerClose_CB}"
  shows "tcp_inv (push_ctx a s)"
  using assms by (auto simp: push_ctx_def tcp_inv_defs)

lemma sorted_insert:
  "sorted_wrt (<) (map fst m) \<Longrightarrow> sorted_wrt (<) (map fst (map_insert k v (m :: (int \<times> 'b) list)))"
  by (auto simp: map_insert_def sorted_wrt_append sorted_wrt_map sorted_wrt_filter)

text \<open>Client ids grow, so a new client goes to the end of the map.\<close>

lemma map_insert_last:
  assumes "\<forall>(k, ac)\<in>set m. k < n"
  shows "map_insert n v m = m @ [(n, v)]"
proof -
  have "map_of m n = None" using assms by (auto simp: map_of_eq_None_iff)
  moreover have "filter (\<lambda>e. fst e < n) m = m" "filter (\<lambda>e. n < fst e) m = []"
    using assms by (auto simp: filter_id_conv filter_empty_conv)
  ultimately show ?thesis by (simp add: map_insert_def)
qed

lemma next_id_inv: "tcp_inv s \<Longrightarrow> tcp_inv (s\<lparr>s_id := s_id s + 1\<rparr>)"
  by (fastforce simp: tcp_inv_defs)

text \<open>The new client, once its context is being read.\<close>

lemma new_client_inv:
  assumes "tcp_inv s" "a \<notin> set (clients_of s @ m_listAvaiTcpHandle s)" "map_of (ctxs s) a = Some c"
    "tcphandle c = Handle_Reading" "parent_acceptclient c = Some n" "tc_clientid c = n" "n = s_id s"
    "\<forall>(k, ac)\<in>set (m_mapClientsList s). k < n"
  shows "tcp_inv (s\<lparr>m_mapClientsList := map_insert n \<lparr>m_pClientHandle = a, ac_bIsClosed = False\<rparr> (m_mapClientsList s)\<rparr>)"
  unfolding map_insert_last [OF assms(8)] using assms
  by (auto simp: tcp_inv_defs sorted_wrt_append)

lemma AcceptConnection_inv:
  assumes "tcp_inv s0" "AcceptConnection status i ar r junk s0 = Inr (s', out)"
  shows "tcp_inv s'"
proof (cases "status = 0")
  case True
  obtain s a where s: "take_ctx junk s0 = (s, a)" by (cases "take_ctx junk s0")
  note t = take_ctx_inv [OF assms(1) s]
  show ?thesis
  proof (cases "i = 0")
    case False
    then have "s' = push_ctx a s" using assms(2) True s by (simp add: AcceptConnection_def)
    then show ?thesis using push_ctx_inv t by blast
  next
    case i: True
    let ?n = "s_id s + 1"
    let ?s1 = "modify_ctx a (\<lambda>c. c\<lparr>tcphandle := Handle_Open\<rparr>) s"
    let ?s2 = "modify_ctx a (\<lambda>c. c\<lparr>tcphandle_data := Data_Ctx, tc_clientid := ?n\<rparr>) (?s1\<lparr>s_id := ?n\<rparr>)"
    let ?s3 = "modify_ctx a (\<lambda>c. c\<lparr>tc_packet := Start SERVER_PACKET_HEAD SERVER_PACKET_TAIL (SetPacketCB (tc_packet c))\<rparr>) ?s2"
    have id: "\<not> 2 ^ 31 \<le> ?n"
      using assms(2) True i t(3) by (auto simp: AcceptConnection_def s bind_outcome_Inr_iff uv_tcp_init_Inr)
    have e: "(if ar \<noteq> 0 then Inr (push_ctx a ?s2, [])
       else if r \<noteq> 0 then map_outcome (\<lambda>s. (s, [Uv_Close a])) (uv_close a RecycleTcpHandle_CB ?s3)
       else let (s, cdata) = new_AcceptClient a ?n (modify_ctx a (\<lambda>c. c\<lparr>tcphandle := Handle_Reading\<rparr>) ?s3) in
         bind_outcome (lock_clients s) (\<lambda>s.
         Inr (unlock_clients (s\<lparr>m_mapClientsList := map_insert ?n cdata (m_mapClientsList s)\<rparr>), [New_Connect ?n])))
       = Inr (s', out)"
      and c: "\<exists>c. map_of (ctxs s) a = Some c"
      using assms(2) True i t(3) id by (auto simp: AcceptConnection_def s bind_outcome_Inr_iff uv_tcp_init_Inr Let_def)
    have free: "a \<notin> set (clients_of s @ m_listAvaiTcpHandle s)" by (rule t(2))
    have m: "tcp_inv (modify_ctx a f z)" if "tcp_inv z" "clients_of z = clients_of s"
      "m_listAvaiTcpHandle z = m_listAvaiTcpHandle s" for f and z :: "'a tcp_server_scheme"
      by (rule modify_ctx_inv [OF that(1)]) (use free that in auto)
    have i1: "tcp_inv ?s1" by (rule m [OF t(1)]) simp_all
    have i2: "tcp_inv ?s2" by (rule m) (use next_id_inv [OF i1] in \<open>simp_all add: clients_of_def\<close>)
    have i3: "tcp_inv ?s3" by (rule m [OF i2]) (simp_all add: clients_of_def)
    consider "ar \<noteq> 0" | "ar = 0" "r \<noteq> 0" | "ar = 0" "r = 0" by blast
    then show ?thesis
    proof cases
      case 1
      then have s': "s' = push_ctx a ?s2" using e by simp
      show ?thesis unfolding s' by (rule push_ctx_inv [OF i2]) (use free t(4) c in \<open>auto simp: clients_of_def\<close>)
    next
      case 2
      then have "s' = modify_ctx a (\<lambda>c. c\<lparr>tcphandle := Handle_Closing RecycleTcpHandle_CB\<rparr>) ?s3"
        using e by (auto simp: uv_close_Inr)
      then show ?thesis using m [OF i3] by (simp add: clients_of_def)
    next
      case 3
      let ?s4 = "modify_ctx a (\<lambda>c. c\<lparr>parent_acceptclient := Some ?n\<rparr>) (modify_ctx a (\<lambda>c. c\<lparr>tcphandle := Handle_Reading\<rparr>) ?s3)"
      have s': "s' = (?s4\<lparr>m_mapClientsList := map_insert ?n \<lparr>m_pClientHandle = a, ac_bIsClosed = False\<rparr>
          (m_mapClientsList ?s4)\<rparr>)\<lparr>mutex_held := False\<rparr>"
        using 3 e by (auto simp: new_AcceptClient_def lock_clients_def unlock_clients_def split: if_splits)
      have i4: "tcp_inv ?s4" by (rule m, rule m [OF i3]) (simp_all add: clients_of_def)
      have ids: "\<forall>(k, ac)\<in>set (m_mapClientsList ?s4). k < ?n"
        using t(1) by (fastforce simp: tcp_inv_def clients_inv_def)
      obtain c0 where c0: "map_of (ctxs s) a = Some c0" using c by blast
      show ?thesis unfolding s' mutex_inv
        by (rule new_client_inv [OF i4 _ _ _ _ _ _ ids]) (use free c0 in \<open>auto simp: clients_of_def\<close>)
    qed
  qed
qed (use assms in \<open>simp add: AcceptConnection_def\<close>)

lemma after_close_cases:
  assumes "after_close a s = Inr (s', out)"
  obtains (recycled) c where "map_of (ctxs s) a = Some c" "tcphandle c = Handle_Closing RecycleTcpHandle_CB"
      "recycle_ctx a (modify_ctx a (\<lambda>c. c\<lparr>tcphandle := Handle_None\<rparr>) s) = Inr s'" "out = []"
    | (client) c k where "map_of (ctxs s) a = Some c" "tcphandle c = Handle_Closing AfterClientClose_CB"
      "tcphandle_data c = Data_Accept k"
      "AfterClientClose a k (modify_ctx a (\<lambda>c. c\<lparr>tcphandle := Handle_None\<rparr>) s) = Inr (s', out)"
    | (server) c where "map_of (ctxs s) a = Some c" "tcphandle c = Handle_Closing AfterServerClose_CB"
      "s' = modify_ctx a (\<lambda>c. c\<lparr>tcphandle := Handle_None\<rparr>) s" "out = []"
proof -
  obtain c where c: "map_of (ctxs s) a = Some c"
    using assms by (auto simp: after_close_def bind_outcome_Inr_iff client_ctx_Inr)
  have "(case (tcphandle c, tcphandle_data c) of
       (Handle_Closing RecycleTcpHandle_CB, Data_Ctx) \<Rightarrow>
         map_outcome (\<lambda>s. (s, [])) (recycle_ctx a (modify_ctx a (\<lambda>c. c\<lparr>tcphandle := Handle_None\<rparr>) s))
     | (Handle_Closing AfterClientClose_CB, Data_Accept cid) \<Rightarrow>
         AfterClientClose a cid (modify_ctx a (\<lambda>c. c\<lparr>tcphandle := Handle_None\<rparr>) s)
     | (Handle_Closing AfterServerClose_CB, _) \<Rightarrow> Inr (modify_ctx a (\<lambda>c. c\<lparr>tcphandle := Handle_None\<rparr>) s, [])
     | _ \<Rightarrow> Inl Handle_Misuse) = Inr (s', out)"
    using assms c by (simp add: after_close_def client_ctx_def Let_def)
  then show thesis using c that
    by (auto split: handle_state.splits close_cb.splits handle_data.splits)
qed

lemma after_close_inv:
  assumes "tcp_inv s" "after_close a s = Inr (s', out)"
  shows "tcp_inv s'"
proof -
  obtain c where c: "map_of (ctxs s) a = Some c"
    using assms(2) by (auto simp: after_close_def bind_outcome_Inr_iff client_ctx_Inr)
  let ?t = "modify_ctx a (\<lambda>c. c\<lparr>tcphandle := Handle_None\<rparr>) s"
  have ch: "clients_inv s" "free_inv s" using assms(1) by (simp_all add: tcp_inv_def)
  have own: "tcphandle c = Handle_Reading
      \<or> tcphandle c = Handle_Closing AfterClientClose_CB" if "a \<in> set (clients_of s)"
    using owned_ctx [OF ch(1) c that] by metis
  have fre: "tcphandle c \<in> {Handle_None, Handle_Open, Handle_Closing AfterServerClose_CB}"
    if "a \<in> set (m_listAvaiTcpHandle s)" using ch(2) c that by (fastforce simp: free_inv_def)
  consider "tcphandle c = Handle_Closing RecycleTcpHandle_CB" "recycle_ctx a ?t = Inr s'"
    | k where "tcphandle c = Handle_Closing AfterClientClose_CB" "tcphandle_data c = Data_Accept k"
        "AfterClientClose a k ?t = Inr (s', out)"
    | "tcphandle c = Handle_Closing AfterServerClose_CB" "s' = ?t"
    by (rule after_close_cases [OF assms(2)]) (use c in auto)
  then show ?thesis
  proof cases
    case 1
    have "tcp_inv ?t" by (rule modify_ctx_inv [OF assms(1)]) (use 1(1) own fre c in auto)
    then show ?thesis using 1 own fre c recycle_inv [of ?t a "c\<lparr>tcphandle := Handle_None\<rparr>" s']
      by (auto simp: clients_of_def)
  next
    case (2 k)
    have nf: "a \<notin> set (m_listAvaiTcpHandle s)" using fre 2(1) by auto
    show ?thesis
    proof (cases "a \<in> set (clients_of s)")
      case False
      have t: "tcp_inv ?t" by (rule modify_ctx_inv [OF assms(1)]) (use False nf in auto)
      have "m_pClientHandle ac \<noteq> a" if "map_of (m_mapClientsList ?t) k = Some ac" for ac
        using False map_of_SomeD [OF that] by (force simp: clients_of_def)
      then have "s' = ?t" using 2(3) by (auto simp: AfterClientClose_def split: option.splits if_splits)
      then show ?thesis using t by simp
    next
      case True
      then obtain k' ac where k': "(k', ac) \<in> set (m_mapClientsList s)" "m_pClientHandle ac = a" "k' = k"
        using owned_ctx [OF ch(1) c] 2(1,2) by (metis close_cb.exhaust handle_data.inject handle_state.distinct(11))
      have dk: "distinct (map fst (m_mapClientsList s))"
        using ch(1) clients_sorted_distinct by (auto simp: clients_inv_def)
      have ac: "map_of (m_mapClientsList s) k = Some ac" using k' dk by simp
      let ?d = "s\<lparr>m_mapClientsList := AList.delete k (m_mapClientsList s)\<rparr>"
      have d: "tcp_inv ?d" by (rule remove_client_inv [OF assms(1)])
      have gone: "a \<notin> set (clients_of ?d)"
      proof
        assume "a \<in> set (clients_of ?d)"
        then obtain k2 ac2 where k2: "(k2, ac2) \<in> set (m_mapClientsList s)" "m_pClientHandle ac2 = a" "k2 \<noteq> k"
          by (auto simp: clients_of_def AList.delete_eq)
        have "distinct (map (\<lambda>(_, ac). m_pClientHandle ac) (m_mapClientsList s))"
          using ch(1) by (simp add: clients_inv_def clients_of_def)
        then have "(k2, ac2) = (k, ac)"
          using k2(1,2) k' inj_onD [of "\<lambda>(_, ac). m_pClientHandle ac" "set (m_mapClientsList s)" "(k2, ac2)" "(k, ac)"]
          by (simp add: distinct_map)
        then show False using k2(3) by simp
      qed
      let ?e = "modify_ctx a (\<lambda>c. c\<lparr>tcphandle := Handle_None\<rparr>) ?d"
      have e: "tcp_inv ?e" by (rule modify_ctx_inv [OF d]) (use gone nf in \<open>auto simp: clients_of_def\<close>)
      obtain u where "recycle_ctx a (?t\<lparr>m_mapClientsList := AList.update k (ac\<lparr>ac_bIsClosed := True\<rparr>) (m_mapClientsList ?t),
            mutex_held := True\<rparr>) = Inr u"
        and s': "s' = unlock_clients (u\<lparr>m_mapClientsList := AList.delete k (m_mapClientsList u)\<rparr>)"
        using 2(3) ac k'(2) by (auto simp: AfterClientClose_def SubClientClosed_def lock_clients_def split: if_splits)
      then obtain v where v: "recycle_ctx a ?e = Inr v" "s' = v\<lparr>mutex_held := False\<rparr>"
        using recycle_fields [of a]
        by (auto simp: recycle_ctx_def FreeTcpClientCtx_def unlock_clients_def modify_ctx_def c delete_update_same split: if_splits)
      have "tcp_inv v"
        by (rule recycle_inv [OF e _ _ _ v(1)]) (use c gone nf in \<open>auto simp: clients_of_def\<close>)
      then show ?thesis using v(2) by simp
    qed
  next
    case 3
    then show ?thesis using modify_ctx_inv [OF assms(1), of a "\<lambda>c. c\<lparr>tcphandle := Handle_None\<rparr>"] own c by fastforce
  qed
qed

lemma close_clients_fields:
  "tcp_inv s \<Longrightarrow> close_clients ks s = Inr (s', out) \<Longrightarrow> m_mapClientsList s' = m_mapClientsList s
    \<and> mutex_held s' = mutex_held s"
proof (induction ks arbitrary: s out)
  case (Cons k ks)
  then obtain t o1 o2 where h: "AcceptClient_Close k s = Inr (t, o1)" "close_clients ks t = Inr (s', o2)"
    by (auto simp: bind_outcome_Inr_iff)
  note i = AcceptClient_Close_inv(1-3) [OF Cons.prems(1) h(1)]
  show ?case using Cons.IH [OF i(1) h(2)] i(2,3) by simp
qed simp

text \<open>After \<open>close_clients\<close> no client is being read.\<close>

lemma close_clients_all:
  "tcp_inv s \<Longrightarrow> close_clients ks s = Inr (s', out) \<Longrightarrow> k \<in> set ks \<Longrightarrow> map_of (m_mapClientsList s) k = Some ac
    \<Longrightarrow> \<exists>c. map_of (ctxs s') (m_pClientHandle ac) = Some c \<and> tcphandle c = Handle_Closing AfterClientClose_CB"
proof (induction ks arbitrary: s out)
  case (Cons j ks)
  then obtain t o1 o2 where h: "AcceptClient_Close j s = Inr (t, o1)" "close_clients ks t = Inr (s', o2)"
    by (auto simp: bind_outcome_Inr_iff)
  note i = AcceptClient_Close_inv(1-3) [OF Cons.prems(1) h(1)]
  show ?case
  proof (cases "k \<in> set ks")
    case True
    then show ?thesis using Cons.IH [OF i(1) h(2)] Cons.prems(4) i(2) by simp
  next
    case False
    then have j: "j = k" using Cons.prems(3) by simp
    have ncl: "\<not> ac_bIsClosed ac"
      using clients_invD(1) [of s k ac] Cons.prems(1,4) by (simp add: tcp_inv_def)
    then have "\<exists>c. map_of (ctxs t) (m_pClientHandle ac) = Some c \<and> tcphandle c = Handle_Closing AfterClientClose_CB"
      using h(1) Cons.prems(4) j by (auto simp: AcceptClient_Close_def Let_def uv_close_Inr)
    moreover have "tcp_inv s' \<and> (\<forall>b c. map_of (ctxs t) b = Some c \<and> tcphandle c = Handle_Closing AfterClientClose_CB
        \<longrightarrow> (\<exists>c. map_of (ctxs s') b = Some c \<and> tcphandle c = Handle_Closing AfterClientClose_CB))"
      using i(1) h(2)
    proof (induction ks arbitrary: t o2)
      case (Cons l ls)
      then obtain u p1 p2 where g: "AcceptClient_Close l t = Inr (u, p1)" "close_clients ls u = Inr (s', p2)"
        by (auto simp: bind_outcome_Inr_iff)
      have "\<exists>c'. map_of (ctxs u) b = Some c' \<and> tcphandle c' = Handle_Closing AfterClientClose_CB"
        if "map_of (ctxs t) b = Some c" "tcphandle c = Handle_Closing AfterClientClose_CB" for b c
        using g(1) that by (auto simp: AcceptClient_Close_def Let_def uv_close_Inr split: option.splits if_splits)
      then show ?case using Cons.IH [OF AcceptClient_Close_inv(1) [OF Cons.prems(1) g(1)] g(2)] by blast
    qed simp
    ultimately show ?thesis by blast
  qed
qed simp

lemma closeinl_inv:
  assumes "tcp_inv s" "closeinl s = Inr (s', out)"
  shows "tcp_inv s'"
proof (cases "m_bIsClosed s")
  case False
  let ?l = "s\<lparr>mutex_held := True\<rparr>"
  obtain t where h: "close_clients (map fst (m_mapClientsList s)) ?l = Inr (t, out)"
    and s': "s' = t\<lparr>ctxs := map (\<lambda>(a, c). (a, CloseWalkCB c)) (ctxs t)\<rparr>"
    using assms(2) False by (auto simp: closeinl_def bind_outcome_Inr_iff lock_clients_def split: if_splits)
  have l: "tcp_inv ?l" using assms(1) by simp
  have t: "tcp_inv t" by (rule close_clients_inv [OF l h])
  have m: "m_mapClientsList t = m_mapClientsList s" using close_clients_fields [OF l h] by simp
  have L: "map_of (ctxs s') a = map_option CloseWalkCB (map_of (ctxs t) a)" for a
    by (simp add: s' map_of_map)
  have k: "map fst (ctxs s') = map fst (ctxs t)" by (simp add: s' case_prod_beta comp_def)
  have kept: "CloseWalkCB c = c" if "(k, ac) \<in> set (m_mapClientsList t)" "map_of (ctxs t) (m_pClientHandle ac) = Some c" for k ac c
  proof -
    have "distinct (map fst (m_mapClientsList s))"
      using assms(1) clients_sorted_distinct by (auto simp: tcp_inv_def clients_inv_def)
    then have "map_of (m_mapClientsList ?l) k = Some ac" using that(1) m by simp
    moreover have "k \<in> set (map fst (m_mapClientsList s))" using that(1) m by force
    ultimately have "tcphandle c = Handle_Closing AfterClientClose_CB"
      using close_clients_all [OF l h] that(2) by fastforce
    then show ?thesis by (simp add: CloseWalkCB_def)
  qed
  have own: "parent_acceptclient (CloseWalkCB c) = parent_acceptclient c" "tc_clientid (CloseWalkCB c) = tc_clientid c" for c
    by (simp_all add: CloseWalkCB_def)
  have "clients_inv s'"
    unfolding clients_inv_def
  proof (intro conjI ballI)
    show "sorted_wrt (<) (map fst (m_mapClientsList s'))" "distinct (clients_of s' @ m_listAvaiTcpHandle s')"
      using t by (simp_all add: s' tcp_inv_def clients_inv_def clients_of_def)
    fix x assume x: "x \<in> set (m_mapClientsList s')"
    obtain k ac where kac: "x = (k, ac)" by (cases x)
    have ci: "clients_inv t" using t by (simp add: tcp_inv_def)
    have xt: "(k, ac) \<in> set (m_mapClientsList t)" using x kac by (simp add: s')
    have "case (k, ac) of (k, ac) \<Rightarrow> k \<le> s_id t \<and> \<not> ac_bIsClosed ac
          \<and> (\<exists>c. map_of (ctxs t) (m_pClientHandle ac) = Some c
               \<and> parent_acceptclient c = Some k \<and> tc_clientid c = k
               \<and> (tcphandle c = Handle_Reading
                  \<or> tcphandle c = Handle_Closing AfterClientClose_CB \<and> tcphandle_data c = Data_Accept k))"
      using ci xt unfolding clients_inv_def by blast
    then show "case x of (k, ac) \<Rightarrow> k \<le> s_id s' \<and> \<not> ac_bIsClosed ac
          \<and> (\<exists>c. map_of (ctxs s') (m_pClientHandle ac) = Some c
               \<and> parent_acceptclient c = Some k \<and> tc_clientid c = k
               \<and> (tcphandle c = Handle_Reading
                  \<or> tcphandle c = Handle_Closing AfterClientClose_CB \<and> tcphandle_data c = Data_Accept k))"
      using kept [OF xt] by (auto simp: kac L) (simp_all add: s')
  qed
  moreover have "free_inv s'"
    using t unfolding tcp_inv_def free_inv_def L by (fastforce simp: s' CloseWalkCB_def)
  moreover have "heap_inv s'"
    using t unfolding tcp_inv_def heap_inv_def L k by (auto simp: s')
  moreover have "write_inv s'" using t by (simp add: s' tcp_inv_def write_inv_def)
  ultimately show ?thesis by (simp add: tcp_inv_def)
qed (use assms in \<open>simp add: closeinl_def\<close>)

lemma AfterRecv_inv:
  assumes "tcp_inv s" "AfterRecv le a nread buf s = Inr (s', out)"
  shows "tcp_inv s'"
proof -
  obtain c where c: "map_of (ctxs s) a = Some c"
    using assms(2) by (auto simp: AfterRecv_def bind_outcome_Inr_iff client_ctx_Inr)
  consider "nread < 0" | "nread = 0" | "nread > 0" by linarith
  then show ?thesis
  proof cases
    case 1
    then show ?thesis using assms c AcceptClient_Close_inv(1)
      by (auto simp: AfterRecv_def client_ctx_def split: option.splits)
  next
    case 2
    then show ?thesis using assms c by (auto simp: AfterRecv_def client_ctx_def)
  next
    case 3
    then obtain ps where "s' = modify_ctx a (\<lambda>c. c\<lparr>tc_packet := ps\<rparr>) s"
      using assms(2) c by (auto simp: AfterRecv_def client_ctx_def split: option.splits)
    moreover have "tcp_inv (modify_ctx a (\<lambda>c. c\<lparr>tc_packet := ps\<rparr>) s)"
      by (rule modify_ctx_inv [OF assms(1)])
        (use assms(1) in \<open>fastforce simp: same_owner_def tcp_inv_def free_inv_def\<close>)+
    ultimately show ?thesis by simp
  qed
qed

lemma sendinl_inv:
  assumes "tcp_inv s"
  shows "tcp_inv (fst (sendinl ret d a s))" "m_mapClientsList (fst (sendinl ret d a s)) = m_mapClientsList s"
    "mutex_held (fst (sendinl ret d a s)) = mutex_held s"
  using assms by (auto simp: sendinl_def Let_def tcp_inv_defs split: list.split)

lemma broadcast_loop_inv: "tcp_inv s \<Longrightarrow> tcp_inv (fst (broadcast_loop ret d cs ex s))"
  by (induction cs arbitrary: ex s) (auto simp: case_prod_beta sendinl_inv)

lemma AfterSend_inv: "tcp_inv s \<Longrightarrow> tcp_inv (AfterSend cap s)"
  by (simp add: AfterSend_def tcp_inv_defs del: map_of_eq_Some_iff)

lemma tcp_handle_inv: "tcp_inv s \<Longrightarrow> tcp_handle s e = Inr (s', out) \<Longrightarrow> tcp_inv s'"
proof (cases e)
  case (Ev_Accept st i ar r junk)
  assume "tcp_inv s" "tcp_handle s e = Inr (s', out)"
  then show ?thesis using AcceptConnection_inv Ev_Accept by (auto simp: tcp_handle_def split: if_splits)
next
  case (Ev_Recv le a n b)
  assume "tcp_inv s" "tcp_handle s e = Inr (s', out)"
  then show ?thesis using AfterRecv_inv Ev_Recv by (auto simp: tcp_handle_def split: if_splits)
next
  case (Ev_After_Close a)
  assume "tcp_inv s" "tcp_handle s e = Inr (s', out)"
  then show ?thesis using after_close_inv Ev_After_Close by (auto simp: tcp_handle_def split: if_splits)
next
  case (Ev_Send ret d a)
  assume "tcp_inv s" "tcp_handle s e = Inr (s', out)"
  then show ?thesis using sendinl_inv(1) [of s ret d a] Ev_Send
    by (auto simp: tcp_handle_def split: if_splits prod.splits)
next
  case (Ev_Broadcast ret d ex)
  assume "tcp_inv s" "tcp_handle s e = Inr (s', out)"
  then show ?thesis using broadcast_loop_inv [of "s\<lparr>mutex_held := True\<rparr>" ret d _ ex] Ev_Broadcast
    by (auto simp: tcp_handle_def broadcast_def bind_outcome_Inr_iff lock_clients_def unlock_clients_def
        case_prod_beta split: if_splits)
next
  case Ev_Async_Close
  assume "tcp_inv s" "tcp_handle s e = Inr (s', out)"
  then show ?thesis using closeinl_inv Ev_Async_Close
    by (auto simp: tcp_handle_def AsyncCloseCB_def split: if_splits)
qed (auto simp: tcp_handle_def AfterSend_inv tcp_Close_def loop_end_def split: if_splits)

interpretation tcp: event_handler tcp_handle tcp_inv "\<lambda>_. True"
  by unfold_locales (rule tcp_handle_inv)

lemma tcp_started_inv: "tcp_inv tcp_server_started"
  by (simp add: tcp_server_started_def tcp_inv_defs)

section \<open>Properties\<close>

text \<open>
  Property C13. In every run of the server no context belongs to two clients or to a client
  and the list of free contexts, clients are kept in the order of their ids, and the two
  lists of recycled objects hold at most 21 elements.
\<close>

theorem tcp_run_inv:
  assumes "run_events tcp_handle tcp_server_started es = Inr (s, out)"
  shows "distinct (map (\<lambda>(k, ac). m_pClientHandle ac) (m_mapClientsList s) @ m_listAvaiTcpHandle s)
    \<and> sorted_wrt (<) (map fst (m_mapClientsList s))
    \<and> length (m_listAvaiTcpHandle s) \<le> 21 \<and> length (m_listWriteParam s) \<le> 21"
  using tcp.run_inv [OF tcp_started_inv _ assms] by (simp add: tcp_inv_defs MAXLISTSIZE_def)

definition junk_packet :: NetPacket where
  "junk_packet = \<lparr>np_version = 0, np_header = 0, np_tail = 0, np_check = replicate 16 0,
     np_type = 0, np_datalen = 0, np_reserve = 0\<rparr>"

text \<open>Two clients connect; the first is on context 0, the second on context 1.\<close>

definition two_clients :: "tcp_event list" where
  "two_clients = [Ev_Accept 0 0 0 0 junk_packet, Ev_Accept 0 0 0 0 junk_packet]"

lemmas tcp_eval = tcp_handle_def tcp_enabled_def AcceptConnection_def take_ctx_def AllocTcpClientCtx_def Let_def
  uv_tcp_init_def client_ctx_def modify_ctx_def new_AcceptClient_def lock_clients_def unlock_clients_def map_insert_def
  tcp_server_started_def

definition fresh_client :: "int \<Rightarrow> TcpClientCtx" where
  "fresh_client n = \<lparr>tc_packet = Start SERVER_PACKET_HEAD SERVER_PACKET_TAIL (SetPacketCB (packet_sync_new junk_packet)),
     tc_clientid = n, parent_acceptclient = Some n, tcphandle_data = Data_Ctx, tcphandle = Handle_Reading\<rparr>"

lemma two_clients_run:
  "run_events tcp_handle tcp_server_started two_clients = Inr (
     \<lparr>ctxs = [(0, fresh_client 1), (1, fresh_client 2)], next_ctx = 2, m_listAvaiTcpHandle = [], m_listWriteParam = [],
       m_mapClientsList = [(1, \<lparr>m_pClientHandle = 0, ac_bIsClosed = False\<rparr>), (2, \<lparr>m_pClientHandle = 1, ac_bIsClosed = False\<rparr>)],
       s_id = 2, m_bIsClosed = False, m_bIsUserAskForClosed = False, mutex_held = False\<rparr>,
     [New_Connect 1, New_Connect 2])"
  by (simp add: two_clients_def tcp_eval fresh_client_def)

theorem tcp_run_inv_witness:
  "\<exists>s out. run_events tcp_handle tcp_server_started two_clients = Inr (s, out)
    \<and> distinct (map (\<lambda>(k, ac). m_pClientHandle ac) (m_mapClientsList s) @ m_listAvaiTcpHandle s)"
  using tcp_run_inv [OF two_clients_run] two_clients_run by blast

lemma broadcast_loop_out:
  assumes "d \<noteq> []" "\<And>a. ret a = 0" "distinct (map fst cs)"
  shows "snd (broadcast_loop ret d cs ex s)
    = map (\<lambda>(k, ac). Uv_Write (m_pClientHandle ac) d) (filter (\<lambda>(k, ac). k \<notin> set ex) cs)"
  using assms(3)
proof (induction cs arbitrary: ex s)
  case (Cons x cs)
  obtain k ac where x: "x = (k, ac)" by (cases x)
  show ?case
  proof (cases "k \<in> set ex")
    case True
    have "filter (\<lambda>(j, ac). j \<notin> set (remove1 k ex)) cs = filter (\<lambda>(j, ac). j \<notin> set ex) cs"
    proof (rule filter_cong [OF refl])
      fix y assume "y \<in> set cs"
      then have "fst y \<noteq> k" using Cons.prems x by auto
      then show "(case y of (j, ac) \<Rightarrow> j \<notin> set (remove1 k ex)) = (case y of (j, ac) \<Rightarrow> j \<notin> set ex)"
        by (cases y) (simp add: in_set_remove1)
    qed
    then show ?thesis using True Cons by (simp add: x)
  next
    case False
    obtain t where "sendinl ret d (m_pClientHandle ac) s = (t, [Uv_Write (m_pClientHandle ac) d], True)"
      using assms(1,2) by (cases "m_listWriteParam s") (auto simp: sendinl_def Let_def)
    then show ?thesis using False Cons by (simp add: x case_prod_beta)
  qed
qed simp

text \<open>
  Property C28. A broadcast reaches every client that is not excluded exactly once and no
  other, whatever the order and the repetitions of the excluded ids.
\<close>

theorem broadcast_exact:
  assumes "tcp_inv s" "\<not> mutex_held s" "d \<noteq> []" "\<And>a. ret a = 0"
  shows "\<exists>s' out. broadcast ret d ex s = Inr (s', map (\<lambda>a. Uv_Write a d) out) \<and> distinct out
    \<and> set out = (\<lambda>(k, ac). m_pClientHandle ac) ` {(k, ac) \<in> set (m_mapClientsList s). k \<notin> set ex}"
proof -
  let ?t = "s\<lparr>mutex_held := True\<rparr>"
  let ?cs = "filter (\<lambda>(k, ac). k \<notin> set ex) (m_mapClientsList s)"
  have c: "sorted_wrt (<) (map fst (m_mapClientsList s))" "distinct (map (\<lambda>(k, ac). m_pClientHandle ac) (m_mapClientsList s))"
    using assms(1) by (auto simp: tcp_inv_def clients_inv_def clients_of_def)
  obtain u out where b: "broadcast_loop ret d (m_mapClientsList s) ex ?t = (u, out)" by (cases "broadcast_loop ret d (m_mapClientsList s) ex ?t")
  have out: "out = map (\<lambda>a. Uv_Write a d) (map (\<lambda>(k, ac). m_pClientHandle ac) ?cs)"
    using broadcast_loop_out [of d ret "m_mapClientsList s" ex ?t] assms(3,4) clients_sorted_distinct [OF c(1)] b
    by (simp add: comp_def case_prod_beta)
  have "broadcast ret d ex s = Inr (unlock_clients u, out)"
    using assms(2,3) b by (simp add: broadcast_def lock_clients_def)
  moreover have "distinct (map (\<lambda>(k, ac). m_pClientHandle ac) ?cs)" using c(2) by (rule distinct_map_filter)
  ultimately show ?thesis unfolding out
    by (intro exI [of _ "unlock_clients u"] exI [of _ "map (\<lambda>(k, ac). m_pClientHandle ac) ?cs"]) force
qed

theorem broadcast_exact_witness:
  "\<exists>s s' out. run_events tcp_handle tcp_server_started two_clients = Inr (s, [New_Connect 1, New_Connect 2])
    \<and> broadcast (\<lambda>_. 0) [7] [1, 5] s = Inr (s', map (\<lambda>a. Uv_Write a [7]) out) \<and> set out = {1}"
proof -
  obtain s where s: "run_events tcp_handle tcp_server_started two_clients = Inr (s, [New_Connect 1, New_Connect 2])"
    "\<not> mutex_held s" "m_mapClientsList s = [(1, \<lparr>m_pClientHandle = 0, ac_bIsClosed = False\<rparr>), (2, \<lparr>m_pClientHandle = 1, ac_bIsClosed = False\<rparr>)]"
    using two_clients_run by simp
  have "tcp_inv s" using tcp.run_inv [OF tcp_started_inv _ s(1)] by simp
  from broadcast_exact [OF this s(2), of "[7]" "\<lambda>_. 0" "[1, 5]"] obtain s' out where
    "broadcast (\<lambda>_. 0) [7] [1, 5] s = Inr (s', map (\<lambda>a. Uv_Write a [7]) out)"
    "set out = (\<lambda>(k, ac). m_pClientHandle ac) ` {(k, ac) \<in> set (m_mapClientsList s). k \<notin> set [1, 5]}"
    by blast
  moreover have "{(k, ac) \<in> set (m_mapClientsList s). k \<notin> set [1, 5]} = {(2, \<lparr>m_pClientHandle = 1, ac_bIsClosed = False\<rparr>)}"
    unfolding s(3) by auto
  then have "(\<lambda>(k, ac). m_pClientHandle ac) ` {(k, ac) \<in> set (m_mapClientsList s). k \<notin> set [1, 5]} = {1}"
    by (simp only: image_insert image_empty) simp
  ultimately show ?thesis using s(1) by blast
qed

text \<open>
  Property C38. A context that is taken from the free list keeps what its last connection left
  unfinished: the bytes a new client sends are parsed as the continuation of the old stream.
\<close>

theorem recycled_stream:
  assumes "m_listAvaiTcpHandle s = a # as" "map_of (ctxs s) a = Some c" "tcphandle c = Handle_None"
    "\<not> mutex_held s" "sync_ready le SERVER_PACKET_HEAD SERVER_PACKET_TAIL (tc_packet c)" "d \<noteq> []"
    "tcp_handle s (Ev_Accept 0 0 0 0 junk) = Inr (s1, [New_Connect n])"
    "tcp_handle s1 (Ev_Recv le a (int (length d)) d) = Inr (s2, out)"
  shows "map_outcome (map (\<lambda>(p, b). Parse a p b))
      (frames le SERVER_PACKET_HEAD SERVER_PACKET_TAIL (pending (tc_packet c) @ d)) = Inr out"
proof -
  let ?ps = "Start SERVER_PACKET_HEAD SERVER_PACKET_TAIL (SetPacketCB (tc_packet c))"
  have same: "?ps = tc_packet c"
    using assms(5) by (simp add: Start_def SetPacketCB_def sync_ready_def sync_inv_def sync_buf_inv_def)
  have "map_option (\<lambda>c. (tc_packet c, tcphandle c)) (map_of (ctxs s1) a) = Some (?ps, Handle_Reading)"
    using assms(1-4,7) by (auto simp: tcp_handle_def tcp_enabled_def AcceptConnection_def take_ctx_def Let_def
        uv_tcp_init_def client_ctx_def new_AcceptClient_def lock_clients_def unlock_clients_def split: if_splits)
  then obtain c1 where c1: "map_of (ctxs s1) a = Some c1" "tc_packet c1 = tc_packet c" "tcphandle c1 = Handle_Reading"
    using same by auto
  obtain ps' ds where r: "recvdata le (tc_packet c) d = Some (Inr (ps', ds))" "out = map (\<lambda>(p, b). Parse a p b) ds"
    using assms(6,8) c1 by (auto simp: tcp_handle_def tcp_enabled_def AfterRecv_def client_ctx_def split: option.splits)
  obtain r' where r': "recvdata le (tc_packet c) d = Some r'"
    "sync_result le SERVER_PACKET_HEAD SERVER_PACKET_TAIL (tc_packet c) d r'"
    using recvdata_law [OF assms(5)] by blast
  then have law: "\<And>z. frames le SERVER_PACKET_HEAD SERVER_PACKET_TAIL (pending (tc_packet c) @ d @ z)
      = map_outcome ((@) ds) (frames le SERVER_PACKET_HEAD SERVER_PACKET_TAIL (pending ps' @ z))"
    "frames le SERVER_PACKET_HEAD SERVER_PACKET_TAIL (pending ps') = Inr []"
    using r(1) by (auto simp: chunk_result_def)
  from law(1) [of "[]"] law(2)
  have "frames le SERVER_PACKET_HEAD SERVER_PACKET_TAIL (pending (tc_packet c) @ d) = Inr ds" by simp
  then show ?thesis using r(2) by simp
qed

text \<open>The old client sent the first byte of a packet, the new one sends the rest of one.\<close>

definition left_over :: tcp_server where
  "left_over = tcp_server_started\<lparr>ctxs := [(0, \<lparr>tc_packet = (sync_started 1 2 junk_packet)\<lparr>readdata := [1]\<rparr>,
      tc_clientid = 1, parent_acceptclient = Some 1, tcphandle_data = Data_Accept 1, tcphandle = Handle_None\<rparr>)],
    next_ctx := 1, m_listAvaiTcpHandle := [0], s_id := 1\<rparr>"

definition left_packet :: NetPacket where
  "left_packet = junk_packet\<lparr>np_header := 1, np_tail := 2, np_datalen := 2\<rparr>"

theorem recycled_stream_witness:
  "\<exists>s1 s2. tcp_handle left_over (Ev_Accept 0 0 0 0 junk_packet) = Inr (s1, [New_Connect 2])
    \<and> tcp_handle s1 (Ev_Recv True 0 37 (drop 1 (wire True (left_packet, [8, 9])))) = Inr (s2,
        [Parse 0 (left_packet\<lparr>np_check := MD5 [8, 9]\<rparr>) [8, 9]])"
proof -
  let ?ps = "(sync_started 1 2 junk_packet)\<lparr>readdata := [1]\<rparr>"
  let ?d = "drop 1 (wire True (left_packet, [8, 9]))"
  have ready: "sync_ready True 1 2 ?ps" "pending ?ps = [1]" and ps: "Start 1 2 (SetPacketCB ?ps) = ?ps"
    by (simp_all add: sync_started_def SetPacketCB_def Start_def packet_sync_new_def sync_ready_def
        sync_inv_def sync_buf_inv_def sync_wait_def pending_def BUFFER_SIZE_def frames_short)
  have sd: "sendable 1 2 (left_packet, [8, 9])"
    by (simp add: sendable_def left_packet_def junk_packet_def)
  have "wire True (left_packet, [8, 9]) = 1 # NetPacketToChar True (fst (with_check (left_packet, [8, 9]))) @ [8, 9, 2]"
    using wire_eq [OF sd, of True] by simp
  moreover have "length (NetPacketToChar True (fst (with_check (left_packet, [8, 9])))) = 34"
    by (simp add: NET_PACKAGE_HEADLEN_def with_check_def wf_NetPacket_def payload_md5_def left_packet_def)
  ultimately have w: "wire True (left_packet, [8, 9]) = 1 # ?d" "length ?d = 37" by simp_all
  have fr: "frames True 1 2 ([1] @ ?d @ z) = map_outcome (Cons (left_packet\<lparr>np_check := MD5 [8, 9]\<rparr>, [8, 9])) (frames True 1 2 z)" for z
  proof -
    have "[1] @ ?d @ z = wire True (left_packet, [8, 9]) @ z" using w(1) by (metis append_Cons append_Nil)
    moreover have "with_check (left_packet, [8, 9]) = (left_packet\<lparr>np_check := MD5 [8, 9]\<rparr>, [8, 9])"
      by (simp add: with_check_def payload_md5_def left_packet_def)
    ultimately show ?thesis using frames_wire [OF sd, of True z] by (simp only:) simp
  qed
  obtain r where r: "recvdata True ?ps ?d = Some r" "sync_result True 1 2 ?ps ?d r"
    using recvdata_law [OF ready(1)] by blast
  obtain ps' ds where r': "r = Inr (ps', ds)"
  proof (cases r)
    case (Inl f)
    then have "frames True 1 2 ([1] @ ?d @ [0]) = Inl f" using r(2) ready(2) by (simp add: chunk_result_def)
    then show ?thesis using fr [of "[0]"] by (simp add: frames_short)
  qed (use that in auto)
  let ?s1 = "left_over\<lparr>ctxs := [(0, \<lparr>tc_packet = ?ps, tc_clientid = 2, parent_acceptclient = Some 2,
      tcphandle_data = Data_Ctx, tcphandle = Handle_Reading\<rparr>)], m_listAvaiTcpHandle := [], s_id := 2,
      m_mapClientsList := [(2, \<lparr>m_pClientHandle = 0, ac_bIsClosed = False\<rparr>)]\<rparr>"
  have 1: "tcp_handle left_over (Ev_Accept 0 0 0 0 junk_packet) = Inr (?s1, [New_Connect 2])"
    using ps by (simp add: left_over_def tcp_eval SERVER_PACKET_HEAD_def SERVER_PACKET_TAIL_def)
  have 2: "tcp_handle ?s1 (Ev_Recv True 0 (int (length ?d)) ?d)
      = Inr (modify_ctx 0 (\<lambda>c. c\<lparr>tc_packet := ps'\<rparr>) ?s1, map (\<lambda>(p, b). Parse 0 p b) ds)"
    using r(1) r' w(2) by (simp add: tcp_handle_def tcp_enabled_def AfterRecv_def client_ctx_def)
  let ?c = "\<lparr>tc_packet = ?ps, tc_clientid = 1, parent_acceptclient = Some 1,
      tcphandle_data = Data_Accept 1, tcphandle = Handle_None\<rparr>"
  have "map_outcome (map (\<lambda>(p, b). Parse 0 p b)) (frames True SERVER_PACKET_HEAD SERVER_PACKET_TAIL
      (pending (tc_packet ?c) @ ?d)) = Inr (map (\<lambda>(p, b). Parse 0 p b) ds)"
    by (rule recycled_stream [of left_over 0 "[]" ?c True ?d, OF _ _ _ _ _ _ 1 2])
      (use ready w(2) in \<open>simp_all add: left_over_def tcp_server_started_def SERVER_PACKET_HEAD_def SERVER_PACKET_TAIL_def\<close>)
  then have "map_outcome (map (\<lambda>(p, b). Parse 0 p b)) (frames True 1 2 ([1] @ ?d)) = Inr (map (\<lambda>(p, b). Parse 0 p b) ds)"
    using ready(2) by (simp add: SERVER_PACKET_HEAD_def SERVER_PACKET_TAIL_def)
  then have "map (\<lambda>(p, b). Parse 0 p b) ds = [Parse 0 (left_packet\<lparr>np_check := MD5 [8, 9]\<rparr>) [8, 9]]"
    using fr [of "[]"] by simp
  then show ?thesis using 1 2 w(2) by (metis of_nat_numeral)
qed

text \<open>
  Closing the server while a client is connected never comes to an end: \<open>closeinl\<close>
  keeps the mutex that the close callback of the client needs.
\<close>

theorem close_deadlock:
  "run_events tcp_handle tcp_server_started [Ev_Accept 0 0 0 0 junk_packet, Ev_Close, Ev_Async_Close, Ev_After_Close 0]
   = Inl Deadlock"
  by (simp add: tcp_eval tcp_Close_def AsyncCloseCB_def closeinl_def AcceptClient_Close_def uv_close_def
      CloseWalkCB_def after_close_def AfterClientClose_def SubClientClosed_def)

end
