(* ===== verification/Thread_Msg.thy ===== *)
theory Thread_Msg
  imports Relay_Prelude
begin

text \<open>
  The message queue of a thread (\<open>simple_uv/ThreadMsgBase.cpp\<close>, \<open>ThreadMsgBase.h\<close>, \<open>NodeMsg\<close> of
  \<open>UVMsgFraming.h\<close>): nodes on a heap, linked by pointers into a circle, which \<open>DispatchThreadMsg\<close> takes over and
  frees while others push. The contract of a mailbox is a locale, which the queue interprets.
\<close>

section \<open>The queue\<close>

text \<open>
  A node of the list; \<open>next\<close> is a pointer. The queue owns the nodes of its heap: a circular list that
  \<open>m_pMsgTail\<close> points into, and the rest of the list that \<open>DispatchThreadMsg\<close> is walking through, with its
  variables \<open>first\<close> and \<open>next\<close>.
\<close>

record 'd NodeMsg =
  m_nMsgType :: u32
  m_nSrcAddr :: u32
  m_pData :: 'd
  node_next :: "nat option"

record 'd thread_queue =
  q_nodes :: "(nat \<times> 'd NodeMsg) list"
  m_pMsgTail :: "nat option"
  q_walk :: "(nat \<times> nat) option"

type_synonym 'd message = "u32 \<times> u32 \<times> 'd"

definition queue_new :: "'d thread_queue" where
  "queue_new = \<lparr>q_nodes = [], m_pMsgTail = None, q_walk = None\<rparr>"

definition q_node :: "nat \<Rightarrow> 'd thread_queue \<Rightarrow> 'd NodeMsg outcome" where
  "q_node a q = (case map_of (q_nodes q) a of None \<Rightarrow> Inl Use_After_Free | Some n \<Rightarrow> Inr n)"

definition q_set_next :: "nat \<Rightarrow> nat option \<Rightarrow> 'd thread_queue \<Rightarrow> 'd thread_queue" where
  "q_set_next a p q = (case map_of (q_nodes q) a of None \<Rightarrow> q
     | Some n \<Rightarrow> q\<lparr>q_nodes := AList.update a (n\<lparr>node_next := p\<rparr>) (q_nodes q)\<rparr>)"

text \<open>\<open>new\<close> gives an address that is not in use; it may be one that was.\<close>

definition new_addr :: "(nat \<times> 'b) list \<Rightarrow> nat" where
  "new_addr h = foldr max (map (Suc \<circ> fst) h) 0"

definition PushBackNode :: "nat \<Rightarrow> 'd thread_queue \<Rightarrow> 'd thread_queue outcome" where
  "PushBackNode msg q = (case m_pMsgTail q of
       None \<Rightarrow> Inr ((q_set_next msg (Some msg) q)\<lparr>m_pMsgTail := Some msg\<rparr>)
     | Some tail \<Rightarrow> map_outcome (\<lambda>n.
         (q_set_next tail (Some msg) (q_set_next msg (node_next n) q))\<lparr>m_pMsgTail := Some msg\<rparr>) (q_node tail q))"

definition PushBackMsg :: "'d thread_queue \<Rightarrow> 'd message \<Rightarrow> 'd thread_queue outcome" where
  "PushBackMsg q m = (case m of (ty, src, d) \<Rightarrow>
     let a = new_addr (q_nodes q)
     in PushBackNode a (q\<lparr>q_nodes := (a, \<lparr>m_nMsgType = ty, m_nSrcAddr = src, m_pData = d, node_next = None\<rparr>) # q_nodes q\<rparr>))"

text \<open>
  One message of \<open>DispatchThreadMsg\<close>: the next one of the list it walks through, else the first one of a
  list it takes over. What the message makes \<open>OnDispatchMsg\<close> push comes after the step.
\<close>

definition dispatch_step :: "nat \<Rightarrow> nat \<Rightarrow> 'd thread_queue \<Rightarrow> ('d thread_queue \<times> 'd message option) outcome" where
  "dispatch_step first req q = map_outcome (\<lambda>n.
     (q\<lparr>q_nodes := AList.delete req (q_nodes q),
        q_walk := (case node_next n of None \<Rightarrow> None | Some p \<Rightarrow> if p \<noteq> first then Some (first, p) else None)\<rparr>,
      Some (m_nMsgType n, m_nSrcAddr n, m_pData n))) (q_node req q)"

definition DispatchThreadMsg :: "'d thread_queue \<Rightarrow> ('d thread_queue \<times> 'd message option) outcome" where
  "DispatchThreadMsg q = (case q_walk q of
       Some (first, req) \<Rightarrow> dispatch_step first req q
     | None \<Rightarrow> (case m_pMsgTail q of
           None \<Rightarrow> Inr (q, None)
         | Some tail \<Rightarrow> bind_outcome (q_node tail q) (\<lambda>n. case node_next n of
               None \<Rightarrow> Inl Null_Dereference
             | Some first \<Rightarrow> dispatch_step first first (q\<lparr>m_pMsgTail := None\<rparr>))))"

section \<open>The contract of a mailbox\<close>

text \<open>
  What a thread relies on: a message that is posted is appended to the contents, and fetching takes the
  oldest one. A run of posts and fetches then hands over what was posted, in order.
\<close>

datatype 'm mail_event = Post 'm | Fetch

datatype 'm mail_out = Posted 'm | Fetched 'm

locale mailbox =
  fixes post :: "'q \<Rightarrow> 'm \<Rightarrow> 'q outcome"
    and fetch :: "'q \<Rightarrow> ('q \<times> 'm option) outcome"
    and contents :: "'q \<Rightarrow> 'm list"
    and inv :: "'q \<Rightarrow> bool"
  assumes post_law: "inv q \<Longrightarrow> \<exists>q'. post q m = Inr q' \<and> inv q' \<and> contents q' = contents q @ [m]"
    and fetch_law: "inv q \<Longrightarrow> \<exists>q'. fetch q = Inr (q', case contents q of [] \<Rightarrow> None | m # _ \<Rightarrow> Some m)
      \<and> inv q' \<and> contents q' = tl (contents q)"
begin

lemma post_all:
  "inv q \<Longrightarrow> \<exists>q'. foldl (\<lambda>r m. bind_outcome r (\<lambda>q. post q m)) (Inr q) ms = Inr q' \<and> inv q' \<and> contents q' = contents q @ ms"
proof (induction ms arbitrary: q)
  case (Cons m ms)
  obtain q1 where q1: "post q m = Inr q1" "inv q1" "contents q1 = contents q @ [m]" using post_law [OF Cons.prems] by blast
  show ?case using Cons.IH [OF q1(2)] q1 by simp
qed simp

end

definition mail_handle ::
  "('q \<Rightarrow> 'm \<Rightarrow> 'q outcome) \<Rightarrow> ('q \<Rightarrow> ('q \<times> 'm option) outcome) \<Rightarrow> 'q \<Rightarrow> 'm mail_event \<Rightarrow> ('q \<times> 'm mail_out list) outcome" where
  "mail_handle post fetch q e = (case e of
       Post m \<Rightarrow> map_outcome (\<lambda>q. (q, [Posted m])) (post q m)
     | Fetch \<Rightarrow> map_outcome (\<lambda>(q, r). (q, case r of None \<Rightarrow> [] | Some m \<Rightarrow> [Fetched m])) (fetch q))"

definition posted :: "'m mail_out list \<Rightarrow> 'm list" where
  "posted out = concat (map (\<lambda>x. case x of Posted m \<Rightarrow> [m] | Fetched _ \<Rightarrow> []) out)"

definition fetched :: "'m mail_out list \<Rightarrow> 'm list" where
  "fetched out = concat (map (\<lambda>x. case x of Posted _ \<Rightarrow> [] | Fetched m \<Rightarrow> [m]) out)"

lemma mail_simps [simp]:
  "posted [] = []" "fetched [] = []"
  "posted (out @ out') = posted out @ posted out'" "fetched (out @ out') = fetched out @ fetched out'"
  "posted (x # out) = (case x of Posted m \<Rightarrow> [m] | Fetched _ \<Rightarrow> []) @ posted out"
  "fetched (x # out) = (case x of Posted _ \<Rightarrow> [] | Fetched m \<Rightarrow> [m]) @ fetched out"
  by (simp_all add: posted_def fetched_def)

context mailbox begin

lemma run_mail:
  "inv q \<Longrightarrow> \<exists>q' out. run_events (mail_handle post fetch) q es = Inr (q', out) \<and> inv q'
    \<and> contents q @ posted out = fetched out @ contents q'"
proof (induction es arbitrary: q)
  case (Cons e es)
  have "\<exists>q1 o1. mail_handle post fetch q e = Inr (q1, o1) \<and> inv q1 \<and> contents q @ posted o1 = fetched o1 @ contents q1"
  proof (cases e)
    case (Post m)
    then show ?thesis using post_law [OF Cons.prems, of m] by (auto simp: mail_handle_def)
  next
    case Fetch
    then show ?thesis using fetch_law [OF Cons.prems] by (cases "contents q") (auto simp: mail_handle_def)
  qed
  then obtain q1 o1 where 1: "mail_handle post fetch q e = Inr (q1, o1)" "inv q1" "contents q @ posted o1 = fetched o1 @ contents q1"
    by blast
  obtain q2 o2 where 2: "run_events (mail_handle post fetch) q1 es = Inr (q2, o2)" "inv q2" "contents q1 @ posted o2 = fetched o2 @ contents q2"
    using Cons.IH [OF 1(2)] by blast
  have "contents q @ posted (o1 @ o2) = fetched (o1 @ o2) @ contents q2"
    using 1(3) 2(3) by (metis append.assoc mail_simps(3,4))
  then show ?case using 1(1) 2(1,2) by auto
qed simp

end

section \<open>The queue is a mailbox\<close>

text \<open>The nodes \<open>as\<close> are linked in this order and the last one points to \<open>e\<close>.\<close>

fun segment :: "(nat \<times> 'd NodeMsg) list \<Rightarrow> nat list \<Rightarrow> nat \<Rightarrow> bool" where
  "segment h [] e \<longleftrightarrow> True"
| "segment h [a] e \<longleftrightarrow> (\<exists>n. map_of h a = Some n \<and> node_next n = Some e)"
| "segment h (a # b # as) e \<longleftrightarrow> (\<exists>n. map_of h a = Some n \<and> node_next n = Some b) \<and> segment h (b # as) e"

definition node_message :: "'d NodeMsg \<Rightarrow> 'd message" where
  "node_message n = (m_nMsgType n, m_nSrcAddr n, m_pData n)"

definition queue_rep :: "'d thread_queue \<Rightarrow> nat list \<Rightarrow> nat list \<Rightarrow> bool" where
  "queue_rep q ws cs \<longleftrightarrow> distinct (map fst (q_nodes q)) \<and> distinct (ws @ cs) \<and> set (ws @ cs) = fst ` set (q_nodes q)
     \<and> (case q_walk q of None \<Rightarrow> ws = [] | Some (f, r) \<Rightarrow> ws \<noteq> [] \<and> r = hd ws \<and> f \<notin> set (tl ws) \<and> segment (q_nodes q) ws f)
     \<and> (case m_pMsgTail q of None \<Rightarrow> cs = [] | Some t \<Rightarrow> cs \<noteq> [] \<and> t = last cs \<and> segment (q_nodes q) cs (hd cs))"

text \<open>The addresses of the nodes in the order of the messages, by walking along the pointers.\<close>

fun follow :: "(nat \<times> 'd NodeMsg) list \<Rightarrow> nat \<Rightarrow> nat \<Rightarrow> nat \<Rightarrow> nat list" where
  "follow h 0 e a = []"
| "follow h (Suc n) e a = a # (case map_of h a of None \<Rightarrow> []
     | Some x \<Rightarrow> (case node_next x of None \<Rightarrow> [] | Some p \<Rightarrow> if p = e then [] else follow h n e p))"

definition queue_addrs :: "'d thread_queue \<Rightarrow> nat list" where
  "queue_addrs q = (case q_walk q of None \<Rightarrow> [] | Some (f, r) \<Rightarrow> follow (q_nodes q) (length (q_nodes q)) f r)
     @ (case m_pMsgTail q of None \<Rightarrow> [] | Some t \<Rightarrow> (case map_of (q_nodes q) t of None \<Rightarrow> []
         | Some n \<Rightarrow> (case node_next n of None \<Rightarrow> [] | Some f \<Rightarrow> follow (q_nodes q) (length (q_nodes q)) f f)))"

definition queue_contents :: "'d thread_queue \<Rightarrow> 'd message list" where
  "queue_contents q = map (\<lambda>a. case map_of (q_nodes q) a of Some n \<Rightarrow> node_message n) (queue_addrs q)"

lemma segment_cong: "\<forall>a\<in>set as. map_of h a = map_of h' a \<Longrightarrow> segment h as e \<longleftrightarrow> segment h' as e"
  by (induction h as e rule: segment.induct) auto

lemma segment_append: "segment h (as @ b # bs) e \<longleftrightarrow> segment h as b \<and> segment h (b # bs) e"
  by (induction h as b rule: segment.induct) (auto simp: neq_Nil_conv split: if_splits)

lemma follow_segment:
  "segment h as e \<Longrightarrow> as \<noteq> [] \<Longrightarrow> e \<notin> set (tl as) \<Longrightarrow> length as \<le> n \<Longrightarrow> follow h n e (hd as) = as"
proof (induction h as e arbitrary: n rule: segment.induct)
  case (2 h a e)
  then show ?case by (cases n) auto
next
  case (3 h a b as e)
  then obtain m where "n = Suc m" by (cases n) auto
  then show ?case using 3 by auto
qed simp

lemma queue_rep_addrs:
  assumes "queue_rep q ws cs"
  shows "queue_addrs q = ws @ cs"
proof -
  have l: "length (ws @ cs) = length (q_nodes q)"
    using assms distinct_card [of "ws @ cs"] distinct_card [of "map fst (q_nodes q)"] by (simp add: queue_rep_def)
  have w: "(case q_walk q of None \<Rightarrow> [] | Some (f, r) \<Rightarrow> follow (q_nodes q) (length (q_nodes q)) f r) = ws"
    using assms l follow_segment [of "q_nodes q" ws _ "length (q_nodes q)"]
    by (auto simp: queue_rep_def split: option.splits)
  have "(case m_pMsgTail q of None \<Rightarrow> [] | Some t \<Rightarrow> (case map_of (q_nodes q) t of None \<Rightarrow> []
         | Some n \<Rightarrow> (case node_next n of None \<Rightarrow> [] | Some f \<Rightarrow> follow (q_nodes q) (length (q_nodes q)) f f))) = cs"
  proof (cases "m_pMsgTail q")
    case None
    then show ?thesis using assms by (simp add: queue_rep_def)
  next
    case (Some t)
    then have c: "cs \<noteq> []" "t = last cs" "segment (q_nodes q) cs (hd cs)" using assms by (auto simp: queue_rep_def)
    then obtain n where n: "map_of (q_nodes q) t = Some n" "node_next n = Some (hd cs)"
      using segment_append [of "q_nodes q" "butlast cs" "last cs" "[]" "hd cs"] by auto
    have "hd cs \<notin> set (tl cs)" using assms c(1) by (cases cs) (auto simp: queue_rep_def)
    then show ?thesis using Some n follow_segment [OF c(3,1)] l by simp
  qed
  then show ?thesis using w by (simp add: queue_addrs_def)
qed

definition queue_inv :: "'d thread_queue \<Rightarrow> bool" where
  "queue_inv q \<longleftrightarrow> (\<exists>ws cs. queue_rep q ws cs)"

lemma new_addr_fresh: "new_addr h \<notin> fst ` set h"
proof -
  have "\<forall>x\<in>set h. fst x < new_addr h" by (induction h) (auto simp: new_addr_def)
  then show ?thesis by auto
qed

lemma map_of_unique: "distinct (map fst h) \<Longrightarrow> fst ` set h = set as \<Longrightarrow> a \<in> set as \<Longrightarrow> \<exists>n. map_of h a = Some n"
  by (metis domD dom_map_of_conv_image_fst)

lemma contents_cong:
  "(\<And>a. a \<in> set as \<Longrightarrow> map_option node_message (map_of h a) = map_option node_message (map_of h' a)) \<Longrightarrow> set as \<subseteq> dom (map_of h) \<Longrightarrow>
    map (\<lambda>a. case map_of h a of Some n \<Rightarrow> node_message n) as = map (\<lambda>a. case map_of h' a of Some n \<Rightarrow> node_message n) as"
  by (intro map_cong refl) (fastforce split: option.splits)

lemma PushBackMsg_law:
  assumes "queue_rep q ws cs"
  shows "\<exists>q'. PushBackMsg q m = Inr q' \<and> queue_rep q' ws (cs @ [new_addr (q_nodes q)])
    \<and> (\<forall>a\<in>set (ws @ cs). map_option node_message (map_of (q_nodes q') a) = map_option node_message (map_of (q_nodes q) a))
    \<and> map_option node_message (map_of (q_nodes q') (new_addr (q_nodes q))) = Some m"
proof -
  obtain ty src d where m: "m = (ty, src, d)" by (cases m)
  define a where "a = new_addr (q_nodes q)"
  define n where "n = \<lparr>m_nMsgType = ty, m_nSrcAddr = src, m_pData = d, node_next = None\<rparr>"
  have a: "a \<notin> fst ` set (q_nodes q)" unfolding a_def by (rule new_addr_fresh)
  have r: "distinct (map fst (q_nodes q))" "distinct (ws @ cs)" "set (ws @ cs) = fst ` set (q_nodes q)"
    using assms by (simp_all add: queue_rep_def)
  have ws: "case q_walk q of None \<Rightarrow> ws = [] | Some (f, r) \<Rightarrow> ws \<noteq> [] \<and> r = hd ws \<and> f \<notin> set (tl ws) \<and> segment (q_nodes q) ws f"
    using assms by (simp add: queue_rep_def)
  show ?thesis
  proof (cases "m_pMsgTail q")
    case None
    define h where "h = AList.update a (n\<lparr>node_next := Some a\<rparr>) ((a, n) # q_nodes q)"
    have p: "PushBackMsg q m = Inr (q\<lparr>q_nodes := h, m_pMsgTail := Some a\<rparr>)"
      using None by (simp add: PushBackMsg_def m Let_def a_def [symmetric] n_def PushBackNode_def q_set_next_def h_def)
    have h: "map_of h = (map_of (q_nodes q))(a \<mapsto> n\<lparr>node_next := Some a\<rparr>)" "h = (a, n\<lparr>node_next := Some a\<rparr>) # q_nodes q"
      by (simp_all add: h_def)
    have eq: "\<forall>b\<in>set ws. map_of h b = map_of (q_nodes q) b" using a r(3) by (auto simp: h(1))
    have "queue_rep (q\<lparr>q_nodes := h, m_pMsgTail := Some a\<rparr>) ws (cs @ [a])"
      using assms None a r ws segment_cong [OF eq] by (auto simp: queue_rep_def h(2) split: option.splits)
    then show ?thesis using p a r(3) by (auto simp: a_def [symmetric] h(1) node_message_def n_def m)
  next
    case (Some t)
    then have c: "cs \<noteq> []" "t = last cs" "segment (q_nodes q) cs (hd cs)" using assms by (auto simp: queue_rep_def)
    then obtain bs where cs: "cs = bs @ [t]" by (metis append_butlast_last_id)
    obtain x where x: "map_of (q_nodes q) t = Some x" "node_next x = Some (hd cs)" "segment (q_nodes q) bs t"
      using c(3) unfolding cs segment_append by auto
    have ta: "t \<noteq> a" using a r(3) cs by auto
    define h where "h = AList.update t (x\<lparr>node_next := Some a\<rparr>) (AList.update a (n\<lparr>node_next := node_next x\<rparr>) ((a, n) # q_nodes q))"
    have p: "PushBackMsg q m = Inr (q\<lparr>q_nodes := h, m_pMsgTail := Some a\<rparr>)"
      using Some x(1) ta by (simp add: PushBackMsg_def m Let_def a_def [symmetric] n_def PushBackNode_def q_set_next_def q_node_def h_def)
    have h: "map_of h = (map_of (q_nodes q))(a \<mapsto> n\<lparr>node_next := node_next x\<rparr>, t \<mapsto> x\<lparr>node_next := Some a\<rparr>)"
      "map fst h = a # map fst (q_nodes q)"
      using ta x(1) r(3) cs by (auto simp: h_def update_keys)
    have h3: "fst ` set h = insert a (fst ` set (q_nodes q))" using arg_cong [OF h(2), of set] by simp
    have eq: "\<forall>b\<in>set ws. map_of h b = map_of (q_nodes q) b" "\<forall>b\<in>set bs. map_of h b = map_of (q_nodes q) b"
      using a r(2,3) by (auto simp: h(1) cs)
    have seg: "segment h (bs @ [t, a]) (hd (cs @ [a]))"
      using x(2,3) ta c(1) segment_cong [OF eq(2), of t] by (simp add: segment_append h(1))
    have "queue_rep (q\<lparr>q_nodes := h, m_pMsgTail := Some a\<rparr>) ws (cs @ [a])"
      using a r ws seg segment_cong [OF eq(1)] c(1) unfolding queue_rep_def
      by (auto simp: h(2) h3 cs split: option.splits)
    then show ?thesis using p a r(3) x(1) ta by (auto simp: a_def [symmetric] h(1) node_message_def n_def m)
  qed
qed

lemma segment_live: "segment h as e \<Longrightarrow> set as \<subseteq> dom (map_of h)"
  by (induction h as e rule: segment.induct) auto

lemma segment_delete: "a \<notin> set as \<Longrightarrow> segment (AList.delete a h) as e \<longleftrightarrow> segment h as e"
  by (intro segment_cong) auto

lemma dispatch_step_law:
  assumes "queue_rep (q\<lparr>q_walk := Some (f, w)\<rparr>) (w # ws) cs"
  shows "\<exists>n q'. map_of (q_nodes q) w = Some n \<and> dispatch_step f w q = Inr (q', Some (node_message n)) \<and> queue_rep q' ws cs
    \<and> q_nodes q' = AList.delete w (q_nodes q)"
proof -
  have s: "segment (q_nodes q) (w # ws) f" "distinct (w # ws @ cs)" "f \<notin> set ws"
    "distinct (map fst (q_nodes q))" "insert w (set (ws @ cs)) = fst ` set (q_nodes q)"
    using assms by (simp_all add: queue_rep_def)
  have old: "case m_pMsgTail q of None \<Rightarrow> cs = [] | Some t \<Rightarrow> cs \<noteq> [] \<and> t = last cs \<and> segment (q_nodes q) cs (hd cs)"
    using assms by (cases "m_pMsgTail q") (simp_all add: queue_rep_def)
  have del: "fst ` set (AList.delete w (q_nodes q)) = fst ` set (q_nodes q) - {w}"
  proof -
    have "set (map fst (AList.delete w (q_nodes q))) = set (map fst (q_nodes q)) - {w}" unfolding delete_keys by simp
    then show ?thesis by simp
  qed
  have keys: "set (ws @ cs) = fst ` set (AList.delete w (q_nodes q))" "distinct (map fst (AList.delete w (q_nodes q)))"
    using s(2,4) by (auto simp: del s(5) [symmetric] delete_keys distinct_removeAll)
  have tail: "case m_pMsgTail q of None \<Rightarrow> cs = []
      | Some t \<Rightarrow> cs \<noteq> [] \<and> t = last cs \<and> segment (AList.delete w (q_nodes q)) cs (hd cs)"
    using s(2) old segment_delete [of w cs "q_nodes q"] by (auto split: option.splits)
  show ?thesis
  proof (cases ws)
    case Nil
    then obtain n where "map_of (q_nodes q) w = Some n" "node_next n = Some f" using s(1) by auto
    then show ?thesis using s(2) keys tail Nil by (cases "m_pMsgTail q") (simp_all add: dispatch_step_def q_node_def node_message_def queue_rep_def)
  next
    case (Cons b bs)
    then obtain n where n: "map_of (q_nodes q) w = Some n" "node_next n = Some b" "segment (q_nodes q) ws f" using s(1) by auto
    have "segment (AList.delete w (q_nodes q)) ws f" using n(3) s(2) segment_delete [of w ws "q_nodes q" f] by simp
    then show ?thesis using n s(2,3) keys tail Cons
      by (cases "m_pMsgTail q") (simp_all add: dispatch_step_def q_node_def node_message_def queue_rep_def)
  qed
qed

lemma DispatchThreadMsg_law:
  assumes "queue_rep q ws cs"
  shows "\<exists>q'. DispatchThreadMsg q = Inr (q', case ws @ cs of [] \<Rightarrow> None
        | a # _ \<Rightarrow> map_option node_message (map_of (q_nodes q) a))
    \<and> (\<exists>ws' cs'. queue_rep q' ws' cs' \<and> ws' @ cs' = tl (ws @ cs))
    \<and> (\<forall>a\<in>set (tl (ws @ cs)). map_of (q_nodes q') a = map_of (q_nodes q) a)"
proof (cases ws)
  case Nil
  show ?thesis
  proof (cases cs)
    case Nil
    then show ?thesis using assms \<open>ws = []\<close> by (auto simp: DispatchThreadMsg_def queue_rep_def split: option.splits)
  next
    case (Cons c cs')
    then obtain t where t: "m_pMsgTail q = Some t" "t = last cs" "segment (q_nodes q) cs c" "q_walk q = None"
      using assms Nil by (auto simp: queue_rep_def split: option.splits)
    then obtain n where n: "map_of (q_nodes q) t = Some n" "node_next n = Some c"
      using segment_append [of "q_nodes q" "butlast cs" "last cs" "[]" c] Cons by auto
    have "queue_rep (q\<lparr>m_pMsgTail := None, q_walk := Some (c, c)\<rparr>) (c # cs') []"
      using assms Nil Cons t(3) by (auto simp: queue_rep_def)
    then have "queue_rep ((q\<lparr>m_pMsgTail := None\<rparr>)\<lparr>q_walk := Some (c, c)\<rparr>) (c # cs') []" by simp
    from dispatch_step_law [OF this] obtain x q' where q': "map_of (q_nodes q) c = Some x"
      "dispatch_step c c (q\<lparr>m_pMsgTail := None\<rparr>) = Inr (q', Some (node_message x))" "queue_rep q' cs' []"
      "q_nodes q' = AList.delete c (q_nodes q)" by auto
    have "\<forall>a\<in>set cs'. map_of (q_nodes q') a = map_of (q_nodes q) a" using assms Nil Cons q'(4) by (auto simp: queue_rep_def)
    moreover have "DispatchThreadMsg q = Inr (q', Some (node_message x))"
      using t(1,4) n q'(2) by (simp add: DispatchThreadMsg_def q_node_def)
    moreover have "\<exists>ws' cs''. queue_rep q' ws' cs'' \<and> ws' @ cs'' = cs'" using q'(3) by (metis append_Nil2)
    ultimately show ?thesis using q'(1) Nil Cons by simp
  qed
next
  case (Cons w ws')
  then obtain f where f: "q_walk q = Some (f, w)" using assms by (auto simp: queue_rep_def split: option.splits)
  have "q\<lparr>q_walk := Some (f, w)\<rparr> = q" using f by simp
  then obtain x q' where q': "map_of (q_nodes q) w = Some x" "dispatch_step f w q = Inr (q', Some (node_message x))"
    "queue_rep q' ws' cs" "q_nodes q' = AList.delete w (q_nodes q)"
    using dispatch_step_law [where q = q and f = f and w = w and ws = ws' and cs = cs] assms Cons by auto
  have "\<forall>a\<in>set (ws' @ cs). map_of (q_nodes q') a = map_of (q_nodes q) a" using assms Cons q'(4) by (auto simp: queue_rep_def)
  then show ?thesis using q' f Cons by (auto simp: DispatchThreadMsg_def)
qed

lemma queue_contents_rep:
  assumes "queue_rep q ws cs"
  shows "queue_contents q = map (\<lambda>a. case map_of (q_nodes q) a of Some n \<Rightarrow> node_message n) (ws @ cs)"
  by (simp add: queue_contents_def queue_rep_addrs [OF assms])

lemma queue_rep_live:
  assumes "queue_rep q ws cs" "a \<in> set (ws @ cs)"
  shows "\<exists>n. map_of (q_nodes q) a = Some n"
  using map_of_unique [of "q_nodes q" "ws @ cs" a] assms unfolding queue_rep_def by blast

lemma queue_post:
  assumes "queue_inv q"
  shows "\<exists>q'. PushBackMsg q m = Inr q' \<and> queue_inv q' \<and> queue_contents q' = queue_contents q @ [m]"
proof -
  obtain ws cs where r: "queue_rep q ws cs" using assms unfolding queue_inv_def by blast
  let ?a = "new_addr (q_nodes q)"
  obtain q' where q': "PushBackMsg q m = Inr q'" "queue_rep q' ws (cs @ [?a])"
    "\<forall>a\<in>set (ws @ cs). map_option node_message (map_of (q_nodes q') a) = map_option node_message (map_of (q_nodes q) a)"
    "map_option node_message (map_of (q_nodes q') ?a) = Some m" using PushBackMsg_law [OF r, of m] by blast
  have "(case map_of (q_nodes q') a of Some n \<Rightarrow> node_message n) = (case map_of (q_nodes q) a of Some n \<Rightarrow> node_message n)"
    if "a \<in> set (ws @ cs)" for a
    using queue_rep_live [OF r that] bspec [OF q'(3) that] by (auto split: option.splits)
  then have "queue_contents q' = queue_contents q @ [m]"
    using q'(4) by (auto simp: queue_contents_rep [OF r] queue_contents_rep [OF q'(2)] split: option.splits)
  then show ?thesis using q'(1,2) unfolding queue_inv_def by blast
qed

lemma queue_fetch:
  assumes "queue_inv q"
  shows "\<exists>q'. DispatchThreadMsg q = Inr (q', case queue_contents q of [] \<Rightarrow> None | m # _ \<Rightarrow> Some m)
    \<and> queue_inv q' \<and> queue_contents q' = tl (queue_contents q)"
proof -
  obtain ws cs where r: "queue_rep q ws cs" using assms unfolding queue_inv_def by blast
  obtain q' ws' cs' where q': "DispatchThreadMsg q = Inr (q', case ws @ cs of [] \<Rightarrow> None
      | a # _ \<Rightarrow> map_option node_message (map_of (q_nodes q) a))" "queue_rep q' ws' cs'" "ws' @ cs' = tl (ws @ cs)"
    "\<forall>a\<in>set (tl (ws @ cs)). map_of (q_nodes q') a = map_of (q_nodes q) a"
    using DispatchThreadMsg_law [OF r] by blast
  have "queue_contents q' = map (\<lambda>a. case map_of (q_nodes q) a of Some n \<Rightarrow> node_message n) (tl (ws @ cs))"
    unfolding queue_contents_rep [OF q'(2)] q'(3) using q'(4) by (intro map_cong) auto
  then have c: "queue_contents q' = tl (queue_contents q)" by (simp add: queue_contents_rep [OF r] map_tl)
  have "(case ws @ cs of [] \<Rightarrow> None | a # _ \<Rightarrow> map_option node_message (map_of (q_nodes q) a))
      = (case queue_contents q of [] \<Rightarrow> None | m # _ \<Rightarrow> Some m)"
    using queue_rep_live [OF r] by (cases "ws @ cs") (force simp: queue_contents_rep [OF r])+
  then show ?thesis using q'(1,2) c unfolding queue_inv_def by auto
qed

interpretation thread_mail: mailbox PushBackMsg DispatchThreadMsg queue_contents queue_inv
  using queue_post queue_fetch by unfold_locales blast+

lemma queue_new_inv: "queue_inv queue_new" "queue_contents queue_new = []"
proof -
  have r: "queue_rep (queue_new :: 'd thread_queue) [] []" by (simp add: queue_rep_def queue_new_def)
  then show "queue_inv (queue_new :: 'd thread_queue)" unfolding queue_inv_def by blast
  show "queue_contents (queue_new :: 'd thread_queue) = []" by (simp add: queue_contents_rep [OF r])
qed

lemma queue_nodes_contents: "queue_inv q \<Longrightarrow> length (q_nodes q) = length (queue_contents q)"
proof -
  assume "queue_inv q"
  then obtain ws cs where r: "queue_rep q ws cs" unfolding queue_inv_def by blast
  then have "length (ws @ cs) = length (q_nodes q)"
    using distinct_card [of "ws @ cs"] distinct_card [of "map fst (q_nodes q)"] by (simp add: queue_rep_def)
  then show ?thesis by (simp add: queue_contents_rep [OF r])
qed

text \<open>
  Property C25. The message queue of a thread, a circular list of pointers that is taken over and freed
  while others push, is a queue: over any sequence of pushes and dispatch steps nothing is used after it
  is freed, the messages dispatched are the first of those pushed, in order, and the nodes that are still
  allocated are exactly those of the messages that wait.
\<close>

theorem thread_queue_fifo:
  "\<exists>q out rest. run_events (mail_handle PushBackMsg DispatchThreadMsg) queue_new es = Inr (q, out)
    \<and> posted out = fetched out @ rest \<and> length (q_nodes q) = length rest"
proof -
  obtain q out where "run_events (mail_handle PushBackMsg DispatchThreadMsg) queue_new es = Inr (q, out)" "queue_inv q"
    "queue_contents queue_new @ posted out = fetched out @ queue_contents q"
    using thread_mail.run_mail [OF queue_new_inv(1)] by blast
  then show ?thesis using queue_nodes_contents [of q]
    by (intro exI [of _ q] exI [of _ out] exI [of _ "queue_contents q"]) (simp add: queue_new_inv(2))
qed

end
