(* ===== verification/Thread_Registry.thy ===== *)
theory Thread_Registry
  imports Thread_Msg
begin

text \<open>
  Threads and their manager (\<open>simple_uv/UVThread.cpp\<close>, \<open>UVThread.h\<close>, \<open>UVThreadMng.cpp\<close>, \<open>UVThreadMng.h\<close>): the
  map of registered threads, the messages by which each thread keeps a map of its own, and sending by
  thread type, and the end of a thread that is deleted. Each push holds the lock of its queue, so the pushes of several threads are steps in some
  order; \<open>RegistThread\<close> is also split into the parts between which others may run.
\<close>

section \<open>Threads and their registry\<close>

text \<open>
  The data of a message: \<open>CRegistMsg\<close> (a thread type and a pointer to the thread), the \<open>unsigned int\<close> of
  \<open>UN_REGIST_THREAD_MSG\<close>, or an object of a user.
\<close>

datatype 'd thread_data = Regist_Data u32 nat | Type_Data u32 | User_Data 'd

definition REGIST_THREAD_MSG :: u32 where "REGIST_THREAD_MSG = 10000"
definition UN_REGIST_THREAD_MSG :: u32 where "UN_REGIST_THREAD_MSG = 10001"

record 'd uv_thread =
  th_queue :: "'d thread_data thread_queue"
  m_nThreadType :: u32
  th_mapThread :: "(u32 \<times> nat) list"

text \<open>The heap of threads, and the map of \<open>CUVThreadMng\<close>.\<close>

record 'd thread_mng =
  threads :: "(nat \<times> 'd uv_thread) list"
  mng_mapThread :: "(u32 \<times> nat) list"

text \<open>\<open>std::map\<close> with unsigned keys: the entry that \<open>operator[]\<close> sets is in key order.\<close>

definition ordered_put :: "u32 \<Rightarrow> nat \<Rightarrow> (u32 \<times> nat) list \<Rightarrow> (u32 \<times> nat) list" where
  "ordered_put k a m = filter (\<lambda>e. fst e < k) m @ (k, a) # filter (\<lambda>e. k < fst e) m"

definition post_to :: "nat \<Rightarrow> 'd thread_data message \<Rightarrow> 'd thread_mng \<Rightarrow> 'd thread_mng outcome" where
  "post_to a m st = (case map_of (threads st) a of
       None \<Rightarrow> Inl Use_After_Free
     | Some t \<Rightarrow> map_outcome (\<lambda>q. st\<lparr>threads := AList.update a (t\<lparr>th_queue := q\<rparr>) (threads st)\<rparr>) (PushBackMsg (th_queue t) m))"

fun post_each :: "(nat \<times> 'd thread_data message) list \<Rightarrow> 'd thread_mng \<Rightarrow> 'd thread_mng outcome" where
  "post_each [] st = Inr st"
| "post_each ((a, m) # ms) st = bind_outcome (post_to a m st) (post_each ms)"

definition regist_msg :: "u32 \<Rightarrow> nat \<Rightarrow> 'd thread_data message" where
  "regist_msg k a = (REGIST_THREAD_MSG, 0, Regist_Data k a)"

text \<open>
  \<open>RegistThread\<close>: tell the new thread of those in the map (without a lock), enter it into the map (under the
  lock), and tell all threads of the map of it (without a lock).
\<close>

definition tell_known :: "nat \<Rightarrow> 'd thread_mng \<Rightarrow> 'd thread_mng outcome" where
  "tell_known a st = post_each (map (\<lambda>(k, b). (a, regist_msg k b)) (mng_mapThread st)) st"

definition enter_thread :: "u32 \<Rightarrow> nat \<Rightarrow> 'd thread_mng \<Rightarrow> 'd thread_mng" where
  "enter_thread k a st = st\<lparr>mng_mapThread := ordered_put k a (mng_mapThread st)\<rparr>"

definition announce :: "u32 \<Rightarrow> nat \<Rightarrow> 'd thread_mng \<Rightarrow> 'd thread_mng outcome" where
  "announce k a st = post_each (map (\<lambda>(_, b). (b, regist_msg k a)) (mng_mapThread st)) st"

definition RegistThread :: "u32 \<Rightarrow> nat \<Rightarrow> 'd thread_mng \<Rightarrow> 'd thread_mng outcome" where
  "RegistThread k a st = bind_outcome (tell_known a st) (\<lambda>st. announce k a (enter_thread k a st))"

definition UnRegistThread :: "u32 \<Rightarrow> 'd thread_mng \<Rightarrow> 'd thread_mng outcome" where
  "UnRegistThread k st = (
     let m = filter (\<lambda>e. fst e \<noteq> k) (mng_mapThread st)
     in post_each (map (\<lambda>(_, b). (b, (UN_REGIST_THREAD_MSG, 0, Type_Data k))) m) (st\<lparr>mng_mapThread := m\<rparr>))"

text \<open>\<open>CUVThread::OnExit\<close>, which no code calls.\<close>

definition thread_OnExit :: "nat \<Rightarrow> 'd thread_mng \<Rightarrow> 'd thread_mng outcome" where
  "thread_OnExit a st = (case map_of (threads st) a of
       None \<Rightarrow> Inl Use_After_Free
     | Some t \<Rightarrow> map_outcome (\<lambda>st. case map_of (threads st) a of
           None \<Rightarrow> st
         | Some t \<Rightarrow> st\<lparr>threads := AList.update a (t\<lparr>th_mapThread := []\<rparr>) (threads st)\<rparr>) (UnRegistThread (m_nThreadType t) st))"

text \<open>\<open>CUVThread::OnDispatchMsg\<close>; a message of another type goes to the base class, which does nothing.\<close>

definition OnDispatchMsg :: "'d thread_data message \<Rightarrow> (u32 \<times> nat) list \<Rightarrow> (u32 \<times> nat) list outcome" where
  "OnDispatchMsg m th = (case m of (ty, src, d) \<Rightarrow>
     if ty = REGIST_THREAD_MSG
     then (case d of Regist_Data k a \<Rightarrow> Inr (if map_of th k = None then ordered_put k a th else th) | _ \<Rightarrow> Inl Wrong_Type)
     else if ty = UN_REGIST_THREAD_MSG
     then (case d of Type_Data k \<Rightarrow> Inr (filter (\<lambda>e. fst e \<noteq> k) th) | _ \<Rightarrow> Inl Wrong_Type)
     else Inr th)"

datatype 'd thread_out = Dispatched nat "'d thread_data message" | Send_Returns int

definition thread_dispatch :: "nat \<Rightarrow> 'd thread_mng \<Rightarrow> ('d thread_mng \<times> 'd thread_out list) outcome" where
  "thread_dispatch a st = (case map_of (threads st) a of
       None \<Rightarrow> Inl Use_After_Free
     | Some t \<Rightarrow> bind_outcome (DispatchThreadMsg (th_queue t)) (\<lambda>(q, r). case r of
           None \<Rightarrow> Inr (st, [])
         | Some m \<Rightarrow> map_outcome (\<lambda>th. (st\<lparr>threads := AList.update a (t\<lparr>th_queue := q, th_mapThread := th\<rparr>) (threads st)\<rparr>,
             [Dispatched a m])) (OnDispatchMsg m (th_mapThread t))))"

text \<open>\<open>SendUvMessage\<close> of the manager, and of a thread, which looks into its own map.\<close>

definition mng_SendUvMessage ::
  "u32 \<Rightarrow> 'd \<Rightarrow> u32 \<Rightarrow> u32 \<Rightarrow> 'd thread_mng \<Rightarrow> ('d thread_mng \<times> 'd thread_out list) outcome" where
  "mng_SendUvMessage ty d dst src st = (case map_of (mng_mapThread st) dst of
       None \<Rightarrow> Inr (st, [Send_Returns (-1)])
     | Some a \<Rightarrow> map_outcome (\<lambda>st. (st, [Send_Returns 0])) (post_to a (ty, src, User_Data d) st))"

definition thread_SendUvMessage ::
  "nat \<Rightarrow> u32 \<Rightarrow> 'd \<Rightarrow> u32 \<Rightarrow> 'd thread_mng \<Rightarrow> ('d thread_mng \<times> 'd thread_out list) outcome" where
  "thread_SendUvMessage self ty d dst st = (case map_of (threads st) self of
       None \<Rightarrow> Inl Use_After_Free
     | Some t \<Rightarrow> (case map_of (th_mapThread t) dst of
           None \<Rightarrow> Inr (st, [Send_Returns (-1)])
         | Some a \<Rightarrow> map_outcome (\<lambda>st. (st, [Send_Returns 0])) (post_to a (ty, m_nThreadType t, User_Data d) st)))"

definition new_thread :: "u32 \<Rightarrow> 'd thread_mng \<Rightarrow> 'd thread_mng" where
  "new_thread k st = st\<lparr>threads := (new_addr (threads st), \<lparr>th_queue = queue_new, m_nThreadType = k, th_mapThread = []\<rparr>) # threads st\<rparr>"

text \<open>The destructor tells nobody; what another still holds is a pointer to a freed object.\<close>

definition delete_thread :: "nat \<Rightarrow> 'd thread_mng \<Rightarrow> 'd thread_mng outcome" where
  "delete_thread a st = (case map_of (threads st) a of
       None \<Rightarrow> Inl Use_After_Free
     | Some _ \<Rightarrow> Inr (st\<lparr>threads := AList.delete a (threads st)\<rparr>))"

text \<open>
  A thread that starts runs \<open>OnInit\<close>, which registers it: at once (\<open>T_Start\<close>), or in the three parts of
  \<open>RegistThread\<close>, with other threads in between. A thread function that ends changes nothing here; its
  object may be deleted (\<open>T_Delete\<close>).
\<close>

datatype 'd thread_event =
    T_Start u32
  | T_Create u32
  | T_Known nat
  | T_Enter u32 nat
  | T_Announce u32 nat
  | T_UnRegist u32
  | T_Exit nat
  | T_Delete nat
  | T_Dispatch nat
  | T_Send u32 'd u32 u32
  | T_Thread_Send nat u32 'd u32

definition thread_handle :: "'d thread_mng \<Rightarrow> 'd thread_event \<Rightarrow> ('d thread_mng \<times> 'd thread_out list) outcome" where
  "thread_handle st e = (case e of
       T_Start k \<Rightarrow> map_outcome (\<lambda>st. (st, [])) (RegistThread k (new_addr (threads st)) (new_thread k st))
     | T_Create k \<Rightarrow> Inr (new_thread k st, [])
     | T_Known a \<Rightarrow> map_outcome (\<lambda>st. (st, [])) (tell_known a st)
     | T_Enter k a \<Rightarrow> Inr (enter_thread k a st, [])
     | T_Announce k a \<Rightarrow> map_outcome (\<lambda>st. (st, [])) (announce k a st)
     | T_UnRegist k \<Rightarrow> map_outcome (\<lambda>st. (st, [])) (UnRegistThread k st)
     | T_Exit a \<Rightarrow> map_outcome (\<lambda>st. (st, [])) (thread_OnExit a st)
     | T_Delete a \<Rightarrow> map_outcome (\<lambda>st. (st, [])) (delete_thread a st)
     | T_Dispatch a \<Rightarrow> thread_dispatch a st
     | T_Send ty d dst src \<Rightarrow> mng_SendUvMessage ty d dst src st
     | T_Thread_Send a ty d dst \<Rightarrow> thread_SendUvMessage a ty d dst st)"

definition mng_new :: "'d thread_mng" where
  "mng_new = \<lparr>threads = [], mng_mapThread = []\<rparr>"

text \<open>
  Two threads that register at the same time: both read the map while it is empty, and the second one to
  enter it never learns of the first, although every message has been dispatched.
\<close>

lemma registration_race:
  "\<exists>st out t. run_events thread_handle (mng_new :: nat thread_mng) [T_Create 1, T_Create 2, T_Known 0, T_Known 1, T_Enter 1 0, T_Announce 1 0,
      T_Enter 2 1, T_Announce 2 1, T_Dispatch 0, T_Dispatch 0, T_Dispatch 1] = Inr (st, out)
    \<and> map_of (mng_mapThread st) 1 = Some 0 \<and> map_of (threads st) 1 = Some t \<and> q_nodes (th_queue t) = [] \<and> th_mapThread t = [(2, 1)]"
proof -
  let ?t0 = "\<lparr>th_queue = queue_new, m_nThreadType = 1, th_mapThread = [(1, 0), (2, 1)]\<rparr>"
  let ?t1 = "\<lparr>th_queue = queue_new, m_nThreadType = 2, th_mapThread = [(2, 1)]\<rparr>"
  have "run_events thread_handle (mng_new :: nat thread_mng) [T_Create 1, T_Create 2, T_Known 0, T_Known 1, T_Enter 1 0, T_Announce 1 0,
      T_Enter 2 1, T_Announce 2 1, T_Dispatch 0, T_Dispatch 0, T_Dispatch 1]
    = Inr (\<lparr>threads = [(1, ?t1), (0, ?t0)], mng_mapThread = [(1, 0), (2, 1)]\<rparr>,
        [Dispatched 0 (regist_msg 1 0), Dispatched 0 (regist_msg 2 1), Dispatched 1 (regist_msg 2 1)])"
    by code_simp
  then show ?thesis by (simp add: queue_new_def del: run_events.simps)
qed

text \<open>
  A thread that is deleted stays in the map of the manager, and one that was unregistered before stays in the
  maps of the threads that have not yet dispatched the message about it: the next message to either goes to a
  freed object.
\<close>

lemma deleted_thread:
  "run_events thread_handle (mng_new :: nat thread_mng) [T_Start 1, T_Delete 0, T_Send 7 99 1 0] = Inl Use_After_Free"
  "run_events thread_handle (mng_new :: nat thread_mng)
     [T_Start 1, T_Start 2, T_Dispatch 0, T_Dispatch 0, T_UnRegist 2, T_Delete 1, T_Thread_Send 0 7 99 2] = Inl Use_After_Free"
  by code_simp+

section \<open>The TCP handle as a receiver\<close>

text \<open>\<open>m_pHandle\<close> (its queue) and whether \<open>m_pHandleAsync\<close> is set.\<close>

record 'd handle_mng =
  m_pHandle :: "'d thread_queue option"
  m_pHandleAsync :: bool

definition RegistHandle :: "'d thread_queue \<Rightarrow> 'd handle_mng \<Rightarrow> 'd handle_mng" where
  "RegistHandle q h = h\<lparr>m_pHandleAsync := True, m_pHandle := Some q\<rparr>"

text \<open>\<open>m_pHandle\<close> stays.\<close>

definition UnRegistHandle :: "'d handle_mng \<Rightarrow> 'd handle_mng" where
  "UnRegistHandle h = h\<lparr>m_pHandleAsync := False\<rparr>"

text \<open>The result says that the loop of the handle has been woken.\<close>

definition SendUvMessage2Handle :: "u32 \<Rightarrow> 'd \<Rightarrow> u32 \<Rightarrow> 'd handle_mng \<Rightarrow> 'd handle_mng outcome" where
  "SendUvMessage2Handle ty d src h = (case m_pHandle h of
       None \<Rightarrow> Inl Null_Dereference
     | Some q \<Rightarrow> bind_outcome (PushBackMsg q (ty, src, d)) (\<lambda>q.
         if m_pHandleAsync h then Inr (h\<lparr>m_pHandle := Some q\<rparr>) else Inl Null_Dereference))"

lemma send_to_handle:
  assumes "m_pHandle h = Some q" "queue_inv q"
  shows "m_pHandleAsync h \<Longrightarrow> \<exists>q'. SendUvMessage2Handle ty d src h = Inr (h\<lparr>m_pHandle := Some q'\<rparr>) \<and> queue_inv q'
      \<and> queue_contents q' = queue_contents q @ [(ty, src, d)]"
    "SendUvMessage2Handle ty d src (UnRegistHandle h) = Inl Null_Dereference"
  using assms queue_post [OF assms(2), of "(ty, src, d)"] by (auto simp: SendUvMessage2Handle_def UnRegistHandle_def)

section \<open>What the threads know of each other\<close>

text \<open>What a thread will know when it has dispatched what waits in its queue.\<close>

definition sees :: "'d thread_data message \<Rightarrow> (u32 \<rightharpoonup> nat) \<Rightarrow> (u32 \<rightharpoonup> nat)" where
  "sees m v = (case m of (ty, src, d) \<Rightarrow>
     if ty = REGIST_THREAD_MSG then (case d of Regist_Data k a \<Rightarrow> if v k = None then v(k \<mapsto> a) else v | _ \<Rightarrow> v)
     else if ty = UN_REGIST_THREAD_MSG then (case d of Type_Data k \<Rightarrow> v(k := None) | _ \<Rightarrow> v) else v)"

definition thread_view :: "'d uv_thread \<Rightarrow> (u32 \<rightharpoonup> nat)" where
  "thread_view t = fold sees (queue_contents (th_queue t)) (map_of (th_mapThread t))"

lemma map_of_filter_fst: "map_of (filter (\<lambda>e. P (fst e)) m) x = (if P x then map_of m x else None)"
  by (induction m) auto

lemma map_of_ordered_put [simp]: "map_of (ordered_put k a m) = (map_of m)(k \<mapsto> a)"
  using map_of_filter_fst [of "\<lambda>x. x < k" m] map_of_filter_fst [of "\<lambda>x. k < x" m]
  by (intro ext) (auto simp: ordered_put_def map_add_def simp del: map_of_eq_Some_iff map_of_eq_None_iff split: option.split)

lemma distinct_ordered_put: "distinct (map fst m) \<Longrightarrow> distinct (map fst (ordered_put k a m))"
  by (auto simp: ordered_put_def distinct_map_filter)

lemma set_ordered_put: "set (ordered_put k a m) = insert (k, a) {e \<in> set m. fst e \<noteq> k}"
  by (auto simp: ordered_put_def)

lemma OnDispatchMsg_sees: "OnDispatchMsg m th = Inr th' \<Longrightarrow> map_of th' = sees m (map_of th)"
  by (intro ext) (auto simp: OnDispatchMsg_def sees_def map_of_filter_fst [of "\<lambda>x. x \<noteq> k" for k] simp del: map_of_eq_Some_iff map_of_eq_None_iff
      split: prod.splits if_splits thread_data.splits)

definition queues_ok :: "'d thread_mng \<Rightarrow> bool" where
  "queues_ok st \<longleftrightarrow> (\<forall>a t. map_of (threads st) a = Some t \<longrightarrow> queue_inv (th_queue t))"

definition msgs_for :: "nat \<Rightarrow> (nat \<times> 'm) list \<Rightarrow> 'm list" where
  "msgs_for a ms = map snd (filter (\<lambda>e. fst e = a) ms)"

text \<open>The state after messages have been posted: the map and the threads' own maps as before.\<close>

definition posted_state :: "(nat \<times> 'd thread_data message) list \<Rightarrow> 'd thread_mng \<Rightarrow> 'd thread_mng \<Rightarrow> bool" where
  "posted_state ms st st' \<longleftrightarrow> queues_ok st' \<and> mng_mapThread st' = mng_mapThread st
     \<and> dom (map_of (threads st')) = dom (map_of (threads st))
     \<and> (\<forall>a t. map_of (threads st) a = Some t \<longrightarrow> (\<exists>t'. map_of (threads st') a = Some t'
          \<and> th_mapThread t' = th_mapThread t \<and> m_nThreadType t' = m_nThreadType t
          \<and> queue_contents (th_queue t') = queue_contents (th_queue t) @ msgs_for a ms))"

lemma post_to_law:
  assumes "queues_ok st" "map_of (threads st) a \<noteq> None"
  shows "\<exists>st'. post_to a m st = Inr st' \<and> posted_state [(a, m)] st st'"
proof -
  obtain t where t: "map_of (threads st) a = Some t" using assms(2) by blast
  then have "queue_inv (th_queue t)" using assms(1) unfolding queues_ok_def by blast
  then obtain q where q: "PushBackMsg (th_queue t) m = Inr q" "queue_inv q" "queue_contents q = queue_contents (th_queue t) @ [m]"
    using queue_post by blast
  define st' where "st' = st\<lparr>threads := AList.update a (t\<lparr>th_queue := q\<rparr>) (threads st)\<rparr>"
  have "post_to a m st = Inr st'" using t q(1) by (simp add: post_to_def st'_def del: map_of_eq_Some_iff)
  moreover have "posted_state [(a, m)] st st'" unfolding posted_state_def
  proof (intro conjI allI impI)
    show "queues_ok st'" using assms(1) q(2) unfolding queues_ok_def st'_def by (simp add: update_conv' del: map_of_eq_Some_iff)
    show "mng_mapThread st' = mng_mapThread st" by (simp add: st'_def)
    show "dom (map_of (threads st')) = dom (map_of (threads st))" using t by (auto simp: st'_def update_conv' simp del: map_of_eq_Some_iff)
    show "\<exists>t'. map_of (threads st') b = Some t' \<and> th_mapThread t' = th_mapThread u \<and> m_nThreadType t' = m_nThreadType u
        \<and> queue_contents (th_queue t') = queue_contents (th_queue u) @ msgs_for b [(a, m)]" if "map_of (threads st) b = Some u" for b u
      using that t q(3) by (cases "b = a") (simp_all add: st'_def msgs_for_def update_conv' del: map_of_eq_Some_iff)
  qed
  ultimately show ?thesis by blast
qed

lemma posted_state_trans:
  assumes 1: "posted_state [e] st st1" and 2: "posted_state ms st1 st2"
  shows "posted_state (e # ms) st st2"
  unfolding posted_state_def
proof (intro conjI allI impI)
  show "queues_ok st2" using 2 unfolding posted_state_def by blast
  show "mng_mapThread st2 = mng_mapThread st" using 1 2 unfolding posted_state_def by metis
  show "dom (map_of (threads st2)) = dom (map_of (threads st))" using 1 2 unfolding posted_state_def by metis
  fix a t assume "map_of (threads st) a = Some t"
  then obtain t1 where t1: "map_of (threads st1) a = Some t1" "th_mapThread t1 = th_mapThread t" "m_nThreadType t1 = m_nThreadType t"
    "queue_contents (th_queue t1) = queue_contents (th_queue t) @ msgs_for a [e]"
    using 1 unfolding posted_state_def by blast
  then obtain t2 where "map_of (threads st2) a = Some t2" "th_mapThread t2 = th_mapThread t1" "m_nThreadType t2 = m_nThreadType t1"
    "queue_contents (th_queue t2) = queue_contents (th_queue t1) @ msgs_for a ms"
    using 2 unfolding posted_state_def by blast
  moreover have "msgs_for a (e # ms) = msgs_for a [e] @ msgs_for a ms" by (simp add: msgs_for_def)
  ultimately show "\<exists>t'. map_of (threads st2) a = Some t' \<and> th_mapThread t' = th_mapThread t \<and> m_nThreadType t' = m_nThreadType t
      \<and> queue_contents (th_queue t') = queue_contents (th_queue t) @ msgs_for a (e # ms)"
    using t1 by (metis append.assoc)
qed

lemma posted_state_Nil: "queues_ok st \<Longrightarrow> posted_state [] st st"
  unfolding posted_state_def by (auto simp: msgs_for_def)

lemma post_each_law:
  "queues_ok st \<Longrightarrow> fst ` set ms \<subseteq> dom (map_of (threads st)) \<Longrightarrow> \<exists>st'. post_each ms st = Inr st' \<and> posted_state ms st st'"
proof (induction ms arbitrary: st)
  case Nil
  then show ?case using posted_state_Nil by simp
next
  case (Cons e ms)
  obtain a m where e: "e = (a, m)" by (cases e)
  have "map_of (threads st) a \<noteq> None" using Cons.prems(2) by (simp add: e domIff)
  then obtain st1 where 1: "post_to a m st = Inr st1" "posted_state [(a, m)] st st1"
    using post_to_law [OF Cons.prems(1)] by blast
  have "queues_ok st1" "dom (map_of (threads st1)) = dom (map_of (threads st))" using 1(2) unfolding posted_state_def by blast+
  moreover from this(2) have "fst ` set ms \<subseteq> dom (map_of (threads st1))" using Cons.prems(2) by auto
  ultimately obtain st2 where "post_each ms st1 = Inr st2" "posted_state ms st1 st2" using Cons.IH by blast
  then show ?case using 1(1) posted_state_trans [OF 1(2)] by (simp add: e)
qed

text \<open>The threads of the map \<open>m\<close> are objects that have not been deleted, and each will know \<open>v\<close>.\<close>

definition registry_at :: "(u32 \<times> nat) list \<Rightarrow> (u32 \<rightharpoonup> nat) \<Rightarrow> 'd thread_mng \<Rightarrow> bool" where
  "registry_at m v st \<longleftrightarrow> queues_ok st \<and> distinct (map fst m)
     \<and> (\<forall>e\<in>set m. \<exists>t. map_of (threads st) (snd e) = Some t \<and> m_nThreadType t = fst e \<and> thread_view t = v)"

definition registry_inv :: "'d thread_mng \<Rightarrow> bool" where
  "registry_inv st \<longleftrightarrow> registry_at (mng_mapThread st) (map_of (mng_mapThread st)) st"

lemma registry_at_map [simp]: "registry_at m v (st\<lparr>mng_mapThread := x\<rparr>) = registry_at m v st"
  by (simp add: registry_at_def queues_ok_def)

lemma filter_entry:
  "distinct m \<Longrightarrow> inj_on snd (set m) \<Longrightarrow> e \<in> set m \<Longrightarrow> filter (\<lambda>x. snd x = snd e) m = [e]"
proof (induction m)
  case (Cons x m)
  show ?case
  proof (cases "x = e")
    case True
    then have "\<forall>y\<in>set m. snd y \<noteq> snd e" using Cons.prems(1,2) by (metis distinct.simps(2) inj_onD list.set_intros)
    then have "filter (\<lambda>y. snd y = snd e) m = []" by (simp add: filter_empty_conv)
    then show ?thesis using True by simp
  next
    case False
    then have "snd x \<noteq> snd e" using Cons.prems(2,3) by (meson inj_onD list.set_intros(1))
    then show ?thesis using Cons False by (simp add: inj_on_insert)
  qed
qed simp

lemma msgs_for_broadcast: "msgs_for a (map (\<lambda>(_, b). (b, x)) m) = map (\<lambda>_. x) (filter (\<lambda>e. snd e = a) m)"
  by (induction m) (auto simp: msgs_for_def)

lemma msgs_for_entry:
  assumes "distinct (map fst m)" "inj_on snd (set m)" "e \<in> set m"
  shows "msgs_for (snd e) (map (\<lambda>(_, b). (b, x)) m) = [x]"
  using filter_entry [OF _ assms(2,3)] assms(1) by (simp add: msgs_for_broadcast distinct_map)

lemma view_post: "queue_contents (th_queue t') = queue_contents (th_queue t) @ ms \<Longrightarrow> th_mapThread t' = th_mapThread t \<Longrightarrow>
    thread_view t' = fold sees ms (thread_view t)"
  by (simp add: thread_view_def)

lemma registeredE:
  assumes "registry_at m v st" "e \<in> set m"
  obtains t where "map_of (threads st) (snd e) = Some t" "m_nThreadType t = fst e" "thread_view t = v" "queue_inv (th_queue t)"
  using assms unfolding registry_at_def queues_ok_def by blast

lemma registered_inj:
  assumes "registry_at m v st"
  shows "inj_on snd (set m)"
proof (rule inj_onI)
  fix x y assume m: "x \<in> set m" "y \<in> set m" and eq: "snd x = snd y"
  obtain t where "map_of (threads st) (snd x) = Some t" "m_nThreadType t = fst x" using registeredE [OF assms m(1)] by blast
  moreover obtain u where "map_of (threads st) (snd y) = Some u" "m_nThreadType u = fst y" using registeredE [OF assms m(2)] by blast
  ultimately show "x = y" using eq by (simp add: prod_eq_iff del: map_of_eq_Some_iff)
qed

text \<open>Messages change what a registered thread will know by those that are for it.\<close>

lemma posted_registry:
  assumes "registry_at m v st" "posted_state ms st st'" "\<And>e. e \<in> set m \<Longrightarrow> fold sees (msgs_for (snd e) ms) v = w"
  shows "registry_at m w st'"
  unfolding registry_at_def
proof (intro conjI ballI)
  show "queues_ok st'" using assms(2) unfolding posted_state_def by blast
  show "distinct (map fst m)" using assms(1) unfolding registry_at_def by blast
  fix e assume e: "e \<in> set m"
  obtain t where t: "map_of (threads st) (snd e) = Some t" "m_nThreadType t = fst e" "thread_view t = v"
    using registeredE [OF assms(1) e] by blast
  obtain t' where t': "map_of (threads st') (snd e) = Some t'" "th_mapThread t' = th_mapThread t" "m_nThreadType t' = m_nThreadType t"
    "queue_contents (th_queue t') = queue_contents (th_queue t) @ msgs_for (snd e) ms"
    using assms(2) t(1) unfolding posted_state_def by blast
  have "thread_view t' = w" using view_post [OF t'(4,2)] t(3) assms(3) [OF e] by simp
  then show "\<exists>t. map_of (threads st') (snd e) = Some t \<and> m_nThreadType t = fst e \<and> thread_view t = w" using t' t(2) by auto
qed

text \<open>The effect of an announcement to all registered threads.\<close>

lemma broadcast_law:
  assumes "registry_at m v st"
  shows "\<exists>st'. post_each (map (\<lambda>(_, b). (b, x)) m) st = Inr st' \<and> mng_mapThread st' = mng_mapThread st
    \<and> registry_at m (sees x v) st'
    \<and> (\<forall>a t. map_of (threads st) a = Some t \<longrightarrow> (\<exists>t'. map_of (threads st') a = Some t' \<and> m_nThreadType t' = m_nThreadType t))"
proof -
  have d: "queues_ok st" "distinct (map fst m)" using assms unfolding registry_at_def by blast+
  have "fst ` set (map (\<lambda>(_, b). (b, x)) m) \<subseteq> dom (map_of (threads st))"
  proof
    fix b assume "b \<in> fst ` set (map (\<lambda>(_, b). (b, x)) m)"
    then obtain e where e: "e \<in> set m" "b = snd e" by auto
    show "b \<in> dom (map_of (threads st))" using registeredE [OF assms e(1)] e(2) by blast
  qed
  then obtain st' where st': "post_each (map (\<lambda>(_, b). (b, x)) m) st = Inr st'" "posted_state (map (\<lambda>(_, b). (b, x)) m) st st'"
    using post_each_law [OF d(1)] by blast
  have "fold sees (msgs_for (snd e) (map (\<lambda>(_, b). (b, x)) m)) v = sees x v" if "e \<in> set m" for e
    using msgs_for_entry [OF d(2) registered_inj [OF assms] that, of x] by simp
  from posted_registry [OF assms st'(2) this] show ?thesis using st' unfolding posted_state_def by blast
qed

lemma UnRegistThread_inv:
  fixes st :: "'a thread_mng"
  assumes "registry_inv st"
  shows "\<exists>st'. UnRegistThread k st = Inr st' \<and> registry_inv st'
    \<and> mng_mapThread st' = filter (\<lambda>e. fst e \<noteq> k) (mng_mapThread st)
    \<and> (\<forall>a t. map_of (threads st) a = Some t \<longrightarrow> (\<exists>t'. map_of (threads st') a = Some t' \<and> m_nThreadType t' = m_nThreadType t))"
proof -
  define un :: "'a thread_data message" where "un = (UN_REGIST_THREAD_MSG, 0, Type_Data k)"
  define m where "m = filter (\<lambda>e. fst e \<noteq> k) (mng_mapThread st)"
  define st1 where "st1 = st\<lparr>mng_mapThread := m\<rparr>"
  have 1: "threads st1 = threads st" "mng_mapThread st1 = m" by (simp_all add: st1_def)
  have "registry_at m (map_of (mng_mapThread st)) st1" unfolding st1_def
    using assms by (auto simp: registry_inv_def registry_at_def queues_ok_def m_def distinct_map_filter)
  from broadcast_law [OF this, of un]
  obtain s where s: "post_each (map (\<lambda>(_, b). (b, un)) m) st1 = Inr s" "mng_mapThread s = m"
    "registry_at m (sees un (map_of (mng_mapThread st))) s"
    "\<forall>a t. map_of (threads st) a = Some t \<longrightarrow> (\<exists>t'. map_of (threads s) a = Some t' \<and> m_nThreadType t' = m_nThreadType t)"
    unfolding 1 by blast
  have "sees un (map_of (mng_mapThread st)) = map_of m"
    using map_of_filter_fst [of "\<lambda>x. x \<noteq> k" "mng_mapThread st"]
    by (intro ext) (simp add: sees_def un_def m_def REGIST_THREAD_MSG_def UN_REGIST_THREAD_MSG_def del: map_of_eq_Some_iff)
  then show ?thesis using s by (simp add: registry_inv_def UnRegistThread_def un_def [symmetric] m_def [symmetric] st1_def [symmetric] Let_def)
qed

lemma thread_OnExit_inv:
  assumes "registry_inv st" "thread_OnExit a st = Inr st'"
  shows "registry_inv st' \<and> (\<exists>t. map_of (threads st) a = Some t
    \<and> mng_mapThread st' = filter (\<lambda>e. fst e \<noteq> m_nThreadType t) (mng_mapThread st))"
proof -
  obtain t where t: "map_of (threads st) a = Some t" using assms(2) by (auto simp: thread_OnExit_def split: option.splits)
  define m where "m = filter (\<lambda>e. fst e \<noteq> m_nThreadType t) (mng_mapThread st)"
  obtain s where s: "UnRegistThread (m_nThreadType t) st = Inr s" "registry_inv s" "mng_mapThread s = m"
    "\<exists>u. map_of (threads s) a = Some u \<and> m_nThreadType u = m_nThreadType t"
    using UnRegistThread_inv [OF assms(1), of "m_nThreadType t"] t unfolding m_def by blast
  then obtain u where u: "map_of (threads s) a = Some u" "m_nThreadType u = m_nThreadType t" by blast
  have r: "registry_at m (map_of m) s" using s(2,3) by (simp add: registry_inv_def)
  have other: "\<forall>e\<in>set m. snd e \<noteq> a"
  proof (intro ballI notI)
    fix e assume e: "e \<in> set m" "snd e = a"
    obtain x where "map_of (threads s) (snd e) = Some x" "m_nThreadType x = fst e" using registeredE [OF r e(1)] by metis
    then show False using u e by (simp add: m_def del: map_of_eq_Some_iff)
  qed
  have "queue_inv (th_queue u)" using r u(1) by (auto simp: registry_at_def queues_ok_def)
  then have "registry_at m (map_of m) (s\<lparr>threads := AList.update a (u\<lparr>th_mapThread := []\<rparr>) (threads s)\<rparr>)"
    using r other by (auto simp: registry_at_def queues_ok_def update_conv' simp del: map_of_eq_Some_iff)
  moreover have "st' = s\<lparr>threads := AList.update a (u\<lparr>th_mapThread := []\<rparr>) (threads s)\<rparr>"
    using assms(2) t u(1) s(1) by (simp add: thread_OnExit_def del: map_of_eq_Some_iff)
  ultimately show ?thesis using s(3) t by (simp add: registry_inv_def m_def)
qed

lemma delete_thread_inv:
  assumes "registry_inv st" "delete_thread a st = Inr st'" "a \<notin> snd ` set (mng_mapThread st)"
  shows "registry_inv st' \<and> mng_mapThread st' = mng_mapThread st"
proof -
  have "st' = st\<lparr>threads := AList.delete a (threads st)\<rparr>" using assms(2) by (auto simp: delete_thread_def split: option.splits)
  then show ?thesis using assms(1,3)
    by (fastforce simp: registry_inv_def registry_at_def queues_ok_def delete_conv' simp del: map_of_eq_Some_iff split: if_splits)
qed

text \<open>A thread that is told of the threads of a map will know the map.\<close>

lemma fold_regist:
  "distinct (map fst m) \<Longrightarrow> fst ` set m \<inter> dom v = {} \<Longrightarrow> 
    fold sees (map (\<lambda>(k, b). regist_msg k b :: 'a thread_data message) m) v = v ++ map_of m"
proof (induction m arbitrary: v)
  case (Cons e m)
  have e: "v (fst e) = None" using Cons.prems(2) by auto
  have "fold sees (map (\<lambda>(k, b). regist_msg k b :: 'a thread_data message) m) (v(fst e \<mapsto> snd e)) = v(fst e \<mapsto> snd e) ++ map_of m"
    using Cons.prems by (intro Cons.IH) (simp_all add: Int_insert_left Int_insert_right del: fun_upd_apply split: if_splits)
  moreover have "v(fst e \<mapsto> snd e) ++ map_of m = v ++ map_of (e # m)"
    using Cons.prems(1) map_add_upd_left [of "fst e" "map_of m" v "snd e"]
    by (cases e) (simp add: dom_map_of_conv_image_fst del: fun_upd_apply)
  moreover have "sees (regist_msg (fst e) (snd e) :: 'a thread_data message) v = v(fst e \<mapsto> snd e)"
    using e by (simp add: regist_msg_def sees_def)
  ultimately show ?case by (cases e) (simp del: fun_upd_apply)
qed simp

lemma msgs_for_all: "msgs_for a (map (\<lambda>(k, b). (a, f k b)) m) = map (\<lambda>(k, b). f k b) m"
  by (induction m) (auto simp: msgs_for_def)

lemma msgs_for_other: "a \<noteq> b \<Longrightarrow> msgs_for b (map (\<lambda>(k, x). (a, f k x)) m) = []"
  by (induction m) (auto simp: msgs_for_def)

lemma RegistThread_inv:
  fixes st :: "'a thread_mng"
  assumes "registry_inv st" "map_of (mng_mapThread st) k = None"
  shows "\<exists>st'. RegistThread k (new_addr (threads st)) (new_thread k st) = Inr st' \<and> registry_inv st'
    \<and> mng_mapThread st' = ordered_put k (new_addr (threads st)) (mng_mapThread st)"
proof -
  define a where "a = new_addr (threads st)"
  define M where "M = mng_mapThread st"
  define st1 where "st1 = new_thread k st"
  have r: "registry_at M (map_of M) st" using assms(1) by (simp add: registry_inv_def M_def)
  have other: "snd e \<noteq> a" if "e \<in> set M" for e
    using registeredE [OF r that] new_addr_fresh [of "threads st"] unfolding a_def by (metis domI dom_map_of_conv_image_fst)
  have a1: "map_of (threads st1) a = Some (\<lparr>th_queue = queue_new, m_nThreadType = k, th_mapThread = []\<rparr> :: 'a uv_thread)"
    by (simp add: st1_def new_thread_def a_def)
  have r1: "registry_at M (map_of M) st1"
    using r other queue_new_inv by (auto simp: registry_at_def queues_ok_def st1_def new_thread_def a_def [symmetric] simp del: map_of_eq_Some_iff)
  let ?ms = "map (\<lambda>(k, b). (a, regist_msg k b :: 'a thread_data message)) M"
  have "fst ` set ?ms \<subseteq> dom (map_of (threads st1))" using a1 by (auto simp: domI)
  moreover have "queues_ok st1" using r1 by (simp add: registry_at_def)
  ultimately obtain st2 where st2: "post_each ?ms st1 = Inr st2" "posted_state ?ms st1 st2" using post_each_law by blast
  have "fold sees (msgs_for (snd e) ?ms) (map_of M) = map_of M" if "e \<in> set M" for e
    using other [OF that] msgs_for_other [of a "snd e" "\<lambda>k b. regist_msg k b :: 'a thread_data message" M] by auto
  from posted_registry [OF r1 st2(2) this] have r2: "registry_at M (map_of M) st2" .
  obtain t where t: "map_of (threads st2) a = Some t" "m_nThreadType t = k" "th_mapThread t = []"
    "queue_contents (th_queue t) = map (\<lambda>(k, b). regist_msg k b) M"
    using st2(2) a1 unfolding posted_state_def by (fastforce simp: msgs_for_all queue_new_inv)
  have vt: "thread_view t = map_of M"
    using fold_regist [of M Map.empty] r t(3,4) by (simp add: thread_view_def registry_at_def)
  define M' where "M' = ordered_put k a M"
  have r3: "registry_at M' (map_of M) (enter_thread k a st2)"
    using r2 t vt distinct_ordered_put [of M k a] st2(2)
    by (auto simp: registry_at_def M'_def set_ordered_put enter_thread_def queues_ok_def simp del: map_of_eq_Some_iff)
  have M': "mng_mapThread (enter_thread k a st2) = M'"
    using st2(2) unfolding posted_state_def by (simp add: enter_thread_def M'_def st1_def new_thread_def M_def)
  obtain st4 where st4: "announce k a (enter_thread k a st2) = Inr st4" "mng_mapThread st4 = M'"
    "registry_at M' (sees (regist_msg k a :: 'a thread_data message) (map_of M)) st4"
    using broadcast_law [OF r3, of "regist_msg k a"] unfolding announce_def M' by blast
  have "sees (regist_msg k a :: 'a thread_data message) (map_of M) = map_of M'"
    using assms(2) by (simp add: sees_def regist_msg_def M'_def M_def)
  then have "registry_inv st4 \<and> mng_mapThread st4 = ordered_put k a M" using st4(2,3) by (simp add: registry_inv_def M'_def)
  moreover have "tell_known a st1 = Inr st2" using st2(1) by (simp add: tell_known_def st1_def new_thread_def M_def)
  ultimately show ?thesis using st4(1) by (simp add: RegistThread_def a_def [symmetric] st1_def [symmetric] M_def [symmetric])
qed

lemma post_user_inv:
  fixes st :: "'a thread_mng"
  assumes "registry_inv st" "ty \<noteq> REGIST_THREAD_MSG" "ty \<noteq> UN_REGIST_THREAD_MSG" "post_to a (ty, src, d) st = Inr st'"
  shows "registry_inv st' \<and> mng_mapThread st' = mng_mapThread st"
proof -
  have r: "registry_at (mng_mapThread st) (map_of (mng_mapThread st)) st" using assms(1) by (simp add: registry_inv_def)
  have "map_of (threads st) a \<noteq> None" using assms(4) by (auto simp: post_to_def split: option.splits)
  then have p: "posted_state [(a, (ty, src, d))] st st'"
    using post_to_law [of st a "(ty, src, d)"] r assms(4) by (auto simp: registry_at_def)
  have "fold sees (msgs_for (snd e) [(a, (ty, src, d))]) v = v" for e :: "u32 \<times> nat" and v
    using assms(2,3) by (simp add: msgs_for_def sees_def)
  from posted_registry [OF r p this] show ?thesis using p unfolding posted_state_def by (simp add: registry_inv_def)
qed

lemma thread_dispatch_inv:
  fixes st :: "'a thread_mng"
  assumes "registry_inv st" "thread_dispatch a st = Inr (st', out)"
  shows "registry_inv st' \<and> mng_mapThread st' = mng_mapThread st"
proof -
  let ?M = "mng_mapThread st"
  have r: "registry_at ?M (map_of ?M) st" using assms(1) by (simp add: registry_inv_def)
  obtain t where t: "map_of (threads st) a = Some t" using assms(2) by (auto simp: thread_dispatch_def split: option.splits)
  then have "queue_inv (th_queue t)" using r by (auto simp: registry_at_def queues_ok_def)
  then obtain q where q: "DispatchThreadMsg (th_queue t) = Inr (q, case queue_contents (th_queue t) of [] \<Rightarrow> None | m # _ \<Rightarrow> Some m)"
    "queue_inv q" "queue_contents q = tl (queue_contents (th_queue t))" using queue_fetch by blast
  show ?thesis
  proof (cases "queue_contents (th_queue t)")
    case Nil
    then show ?thesis using assms t q(1) by (simp add: thread_dispatch_def del: map_of_eq_Some_iff)
  next
    case (Cons m ms)
    then obtain th where th: "OnDispatchMsg m (th_mapThread t) = Inr th"
      "st' = st\<lparr>threads := AList.update a (t\<lparr>th_queue := q, th_mapThread := th\<rparr>) (threads st)\<rparr>"
      using assms(2) t q(1) by (auto simp: thread_dispatch_def simp del: map_of_eq_Some_iff)
    have v: "thread_view (t\<lparr>th_queue := q, th_mapThread := th\<rparr>) = thread_view t"
      using Cons q(3) OnDispatchMsg_sees [OF th(1)] by (simp add: thread_view_def)
    show ?thesis using r t q(2) v
      by (auto simp: registry_inv_def registry_at_def queues_ok_def th(2) update_conv' simp del: map_of_eq_Some_iff)
  qed
qed

definition atomic_event :: "'d thread_event \<Rightarrow> bool" where
  "atomic_event e = (case e of
       T_Send ty _ _ _ \<Rightarrow> ty \<noteq> REGIST_THREAD_MSG \<and> ty \<noteq> UN_REGIST_THREAD_MSG
     | T_Thread_Send _ ty _ _ \<Rightarrow> ty \<noteq> REGIST_THREAD_MSG \<and> ty \<noteq> UN_REGIST_THREAD_MSG
     | T_Start _ \<Rightarrow> True | T_UnRegist _ \<Rightarrow> True | T_Exit _ \<Rightarrow> True | T_Delete _ \<Rightarrow> True | T_Dispatch _ \<Rightarrow> True | _ \<Rightarrow> False)"

text \<open>
  Who is registered, told by the events alone: a thread from its start until it is unregistered or runs
  \<open>OnExit\<close>. A run is orderly when no thread starts with a type that is taken and no registered thread
  is deleted.
\<close>

definition registered_after :: "'d thread_mng \<Rightarrow> 'd thread_event \<Rightarrow> (u32 \<times> nat) list \<Rightarrow> (u32 \<times> nat) list" where
  "registered_after st e g = (case e of
       T_Start k \<Rightarrow> (k, new_addr (threads st)) # g
     | T_UnRegist k \<Rightarrow> filter (\<lambda>x. fst x \<noteq> k) g
     | T_Exit a \<Rightarrow> (case map_of (threads st) a of None \<Rightarrow> g | Some t \<Rightarrow> filter (\<lambda>x. fst x \<noteq> m_nThreadType t) g)
     | _ \<Rightarrow> g)"

fun registered :: "'d thread_mng \<Rightarrow> 'd thread_event list \<Rightarrow> (u32 \<times> nat) list \<Rightarrow> (u32 \<times> nat) list" where
  "registered st [] g = g"
| "registered st (e # es) g = (case thread_handle st e of Inl _ \<Rightarrow> g | Inr (t, _) \<Rightarrow> registered t es (registered_after st e g))"

definition orderly_event :: "'d thread_event \<Rightarrow> (u32 \<times> nat) list \<Rightarrow> bool" where
  "orderly_event e g = (case e of T_Start k \<Rightarrow> k \<notin> fst ` set g | T_Delete a \<Rightarrow> a \<notin> snd ` set g | _ \<Rightarrow> True)"

fun orderly :: "'d thread_mng \<Rightarrow> 'd thread_event list \<Rightarrow> (u32 \<times> nat) list \<Rightarrow> bool" where
  "orderly st [] g = True"
| "orderly st (e # es) g = (orderly_event e g
     \<and> (case thread_handle st e of Inl _ \<Rightarrow> True | Inr (t, _) \<Rightarrow> orderly t es (registered_after st e g)))"

lemma thread_handle_inv:
  assumes "registry_inv st" "map_of (mng_mapThread st) = map_of g" "atomic_event e" "thread_handle st e = Inr (st', out)"
    "orderly_event e g"
  shows "registry_inv st' \<and> map_of (mng_mapThread st') = map_of (registered_after st e g)"
proof -
  have cut: "map_of (filter (\<lambda>e. fst e \<noteq> k) (mng_mapThread st)) = map_of (filter (\<lambda>e. fst e \<noteq> k) g)" for k
    unfolding fun_eq_iff map_of_filter_fst [of "\<lambda>x. x \<noteq> k"] assms(2) by blast
  show ?thesis
  proof (cases e)
    case (T_Start k)
    then have "map_of (mng_mapThread st) k = None" using assms(2,5) by (simp add: orderly_event_def map_of_eq_None_iff)
    then show ?thesis using T_Start assms(2,4) RegistThread_inv [OF assms(1), of k]
      by (auto simp: thread_handle_def registered_after_def)
  next
    case (T_UnRegist k)
    then show ?thesis using assms(4) UnRegistThread_inv [OF assms(1), of k] cut
      by (auto simp: thread_handle_def registered_after_def)
  next
    case (T_Exit a)
    then obtain st1 where "thread_OnExit a st = Inr st1" "st' = st1" using assms(4) by (auto simp: thread_handle_def)
    then show ?thesis using T_Exit thread_OnExit_inv [OF assms(1)] cut
      by (fastforce simp: registered_after_def simp del: map_of_eq_Some_iff)
  next
    case (T_Delete a)
    have "a \<notin> snd ` set (mng_mapThread st)"
    proof
      assume "a \<in> snd ` set (mng_mapThread st)"
      then obtain k where "(k, a) \<in> set (mng_mapThread st)" by auto
      moreover have "distinct (map fst (mng_mapThread st))" using assms(1) by (simp add: registry_inv_def registry_at_def)
      ultimately have "map_of g k = Some a" using assms(2) by (metis map_of_is_SomeI)
      then show False using assms(5) T_Delete by (auto simp: orderly_event_def dest!: map_of_SomeD intro: rev_image_eqI)
    qed
    then show ?thesis using T_Delete assms(2,4) delete_thread_inv [OF assms(1)]
      by (auto simp: thread_handle_def registered_after_def)
  next
    case (T_Dispatch a)
    then show ?thesis using assms(2,4) thread_dispatch_inv [OF assms(1)] by (auto simp: thread_handle_def registered_after_def)
  next
    case (T_Send ty d dst src)
    then show ?thesis using assms(1-4) post_user_inv [OF assms(1), of ty]
      by (auto simp: thread_handle_def mng_SendUvMessage_def atomic_event_def registered_after_def split: option.splits)
  next
    case (T_Thread_Send a ty d dst)
    then show ?thesis using assms(1-4) post_user_inv [OF assms(1), of ty]
      by (auto simp: thread_handle_def thread_SendUvMessage_def atomic_event_def registered_after_def split: option.splits)
  qed (use assms(3) in \<open>simp_all add: atomic_event_def\<close>)
qed

lemma thread_run_inv:
  "registry_inv st \<Longrightarrow> map_of (mng_mapThread st) = map_of g \<Longrightarrow> \<forall>e\<in>set es. atomic_event e \<Longrightarrow> orderly st es g
    \<Longrightarrow> run_events thread_handle st es = Inr (st', out)
    \<Longrightarrow> registry_inv st' \<and> map_of (mng_mapThread st') = map_of (registered st es g)"
proof (induction es arbitrary: st out g)
  case (Cons e es)
  then obtain t o1 o2 where h: "thread_handle st e = Inr (t, o1)" "run_events thread_handle t es = Inr (st', o2)"
    by (auto simp: bind_outcome_Inr_iff)
  have "registry_inv t \<and> map_of (mng_mapThread t) = map_of (registered_after st e g)"
    using thread_handle_inv [OF Cons.prems(1,2) _ h(1)] Cons.prems(3,4) by simp
  then show ?case using Cons.IH [OF _ _ _ _ h(2)] Cons.prems(3,4) h(1) by simp
qed simp

lemma mng_new_inv: "registry_inv mng_new"
  by (simp add: registry_inv_def registry_at_def queues_ok_def mng_new_def)

text \<open>
  Property C26. The threads agree on who is there, in any run in which threads register one at a time and with types
  that are not taken, no thread is deleted while it is registered, and users do not send the two reserved message
  types. The map of the manager has exactly the threads that have started and not been unregistered since; each
  is an object that has not been deleted and is of the type it is entered for; and when its queue has run empty
  its own map is that of the manager.
\<close>

theorem threads_agree:
  fixes es :: "'d thread_event list"
  assumes "\<forall>e\<in>set es. atomic_event e" "orderly mng_new es []" "run_events thread_handle mng_new es = Inr (st, out)"
  shows "map_of (mng_mapThread st) = map_of (registered mng_new es [])
    \<and> (\<forall>k a. map_of (mng_mapThread st) k = Some a \<longrightarrow> (\<exists>t. map_of (threads st) a = Some t \<and> m_nThreadType t = k
      \<and> (q_nodes (th_queue t) = [] \<longrightarrow> map_of (th_mapThread t) = map_of (mng_mapThread st))))"
proof (intro conjI allI impI)
  have "map_of (mng_mapThread (mng_new :: 'd thread_mng)) = map_of []" by (simp add: mng_new_def)
  note inv = thread_run_inv [OF mng_new_inv this assms]
  then show "map_of (mng_mapThread st) = map_of (registered mng_new es [])" by blast
  have r: "registry_at (mng_mapThread st) (map_of (mng_mapThread st)) st" using conjunct1 [OF inv] unfolding registry_inv_def .
  fix k a assume "map_of (mng_mapThread st) k = Some a"
  then have "(k, a) \<in> set (mng_mapThread st)" by (rule map_of_SomeD)
  from registeredE [OF r this] obtain t where t: "map_of (threads st) a = Some t" "m_nThreadType t = k"
    "thread_view t = map_of (mng_mapThread st)" "queue_inv (th_queue t)" by auto
  have "q_nodes (th_queue t) = [] \<Longrightarrow> map_of (th_mapThread t) = map_of (mng_mapThread st)"
    using queue_nodes_contents [OF t(4)] t(3) by (simp add: thread_view_def)
  then show "\<exists>t. map_of (threads st) a = Some t \<and> m_nThreadType t = k
      \<and> (q_nodes (th_queue t) = [] \<longrightarrow> map_of (th_mapThread t) = map_of (mng_mapThread st))" using t(1,2) by blast
qed

text \<open>Two threads start, one is unregistered and deleted, a third starts at its address.\<close>

lemma threads_agree_witness:
  "\<exists>st out t. run_events thread_handle (mng_new :: nat thread_mng)
      [T_Start 1, T_Start 2, T_Dispatch 0, T_Dispatch 0, T_Send 7 99 1 0, T_UnRegist 2, T_Delete 1, T_Start 3,
       T_Dispatch 0, T_Dispatch 0, T_Dispatch 0]
      = Inr (st, out) \<and> map_of (mng_mapThread st) = [1 \<mapsto> 0, 3 \<mapsto> 1]
      \<and> map_of (threads st) 0 = Some t \<and> map_of (th_mapThread t) = map_of (mng_mapThread st)"
proof -
  let ?es = "[T_Start 1, T_Start 2, T_Dispatch 0, T_Dispatch 0, T_Send 7 99 1 0, T_UnRegist 2, T_Delete 1, T_Start 3,
       T_Dispatch 0, T_Dispatch 0, T_Dispatch 0] :: nat thread_event list"
  have ok: "\<forall>e\<in>set ?es. atomic_event e" by code_simp
  have fr: "orderly mng_new ?es []" by code_simp
  have g: "registered mng_new ?es [] = [(3, 1), (1, 0)]" by code_simp
  have "(case run_events thread_handle mng_new ?es of Inl _ \<Rightarrow> False | Inr (st, _) \<Rightarrow>
      (case map_of (threads st) 0 of None \<Rightarrow> False | Some t \<Rightarrow> q_nodes (th_queue t) = []))"
    by code_simp
  then obtain st out t where r: "run_events thread_handle mng_new ?es = Inr (st, out)"
    "map_of (threads st) 0 = Some t" "q_nodes (th_queue t) = []"
    by (auto simp del: run_events.simps map_of_eq_Some_iff split: sum.splits prod.splits option.splits)
  note ta = threads_agree [OF ok fr r(1)]
  have m: "map_of (mng_mapThread st) = [1 \<mapsto> 0, 3 \<mapsto> 1]" using ta g by (auto simp: fun_eq_iff)
  have "map_of (th_mapThread t) = map_of (mng_mapThread st)"
  proof -
    have "map_of (mng_mapThread st) 1 = Some 0" by (simp add: m)
    from conjunct2 [OF ta, rule_format, OF this] show ?thesis using r(2,3) by (auto simp del: map_of_eq_Some_iff)
  qed
  then show ?thesis using r(1,2) m by blast
qed

end
