(* ===== verification/Signaling_Server.thy ===== *)
theory Signaling_Server
  imports Tcp_Server Media_Server
begin

text \<open>
  The signaling server (\<open>relay_server_sdk/signaling_server.cpp\<close>, \<open>signaling_server.h\<close>,
  \<open>client_tcpserver_msg.h\<close>) on top of the TCP server: the messages of the clients as they lie in
  a packet, their dispatch, the map from clients to users, and what the handlers pass on to the
  media server.
\<close>

section \<open>Messages\<close>

definition SLAVE_LOGIN_MSG :: nat where "SLAVE_LOGIN_MSG = 11001"
definition SLAVE_STATUS_REPORT_MSG :: nat where "SLAVE_STATUS_REPORT_MSG = 11002"
definition GET_SLAVE_ADDR_MSG :: nat where "GET_SLAVE_ADDR_MSG = 11003"
definition REQ_UPDATE_FORWARDTABLE :: nat where "REQ_UPDATE_FORWARDTABLE = 11004"
definition REQ_P2PADDR :: nat where "REQ_P2PADDR = 11005"
definition RSP_P2PADDR :: nat where "RSP_P2PADDR = 11006"
definition REQ_LOGOUT :: nat where "REQ_LOGOUT = 11007"
definition REQ_BIND_USERID :: nat where "REQ_BIND_USERID = 11009"
definition REQ_LEAVE_ROOM_MSG :: nat where "REQ_LEAVE_ROOM_MSG = 11010"

record CReqUpdateForwardTableMsg =
  uft_srcUserId :: u32
  uft_dstUserId :: u32
  uft_add :: bool

record CReqP2PAddrMsg =
  p2p_srcUserId :: u32
  p2p_dstUserId :: u32
  p2p_clientId :: u32

text \<open>
  \<open>UV_BIND\<close> looks at the payload through the message class, whatever its length. Behind the
  payload stand one zero byte and then what earlier packets left in the buffer.
\<close>

definition msg_view :: "nat \<Rightarrow> bytes \<Rightarrow> bytes outcome" where
  "msg_view n buf = (if n \<le> length buf + 1 then Inr (take n (buf @ [0])) else Inl Indeterminate_Value)"

definition u32_at :: "nat \<Rightarrow> bytes \<Rightarrow> u32" where
  "u32_at i b = of_nat (from_le (take 4 (drop i b)))"

definition u16_at :: "nat \<Rightarrow> bytes \<Rightarrow> u16" where
  "u16_at i b = of_nat (from_le (take 2 (drop i b)))"

definition view_CReqUpdateForwardTableMsg :: "bytes \<Rightarrow> CReqUpdateForwardTableMsg outcome" where
  "view_CReqUpdateForwardTableMsg buf = map_outcome (\<lambda>b. \<lparr>uft_srcUserId = u32_at 0 b,
     uft_dstUserId = u32_at 4 b, uft_add = (b ! 8 \<noteq> 0)\<rparr>) (msg_view 9 buf)"

definition view_CReqP2PAddrMsg :: "bytes \<Rightarrow> CReqP2PAddrMsg outcome" where
  "view_CReqP2PAddrMsg buf = map_outcome (\<lambda>b. \<lparr>p2p_srcUserId = u32_at 0 b,
     p2p_dstUserId = u32_at 4 b, p2p_clientId = u32_at 8 b\<rparr>) (msg_view 12 buf)"

text \<open>\<open>CReqBindUserId\<close> and \<open>CReqLeaveRoomMsg\<close> hold a user id; the one in a \<open>CReqLogoutMsg\<close> is not read.\<close>

definition view_userId :: "bytes \<Rightarrow> u32 outcome" where
  "view_userId buf = map_outcome (u32_at 0) (msg_view 4 buf)"

definition bytes_CReqUpdateForwardTableMsg :: "CReqUpdateForwardTableMsg \<Rightarrow> bytes" where
  "bytes_CReqUpdateForwardTableMsg m = le_bytes 4 (unat (uft_srcUserId m)) @ le_bytes 4 (unat (uft_dstUserId m))
     @ [if uft_add m then 1 else 0]"

definition bytes_CReqP2PAddrMsg :: "CReqP2PAddrMsg \<Rightarrow> bytes" where
  "bytes_CReqP2PAddrMsg m = le_bytes 4 (unat (p2p_srcUserId m)) @ le_bytes 4 (unat (p2p_dstUserId m))
     @ le_bytes 4 (unat (p2p_clientId m))"

definition bytes_userId :: "u32 \<Rightarrow> bytes" where
  "bytes_userId u = le_bytes 4 (unat u)"

definition bytes_CRspP2PAddrMsg :: "CRspP2PAddrMsg \<Rightarrow> bytes" where
  "bytes_CRspP2PAddrMsg m = le_bytes 4 (unat (rsp_dstUserId m)) @ le_bytes 4 (unat (rsp_dstIp m))
     @ le_bytes 2 (unat (rsp_dstPort m)) @ le_bytes 2 (unat (rsp_dstLocalUdpPort m))
     @ le_bytes 4 (nat (rsp_clientId m mod 2 ^ 32)) @ [if rsp_success m then 1 else 0]"

section \<open>State\<close>

record TcpClientCtxEx =
  tcpClientCtx :: nat
  ex_userId :: u32

record signaling_server = tcp_server +
  m_mapClientId :: "(int \<times> TcpClientCtxEx) list"
  m_mapUserId :: "(u32 \<times> int) list"
  m_pUdpServer :: bool

definition signaling_server_new :: "tcp_server \<Rightarrow> signaling_server" where
  "signaling_server_new s = tcp_server.extend s (signaling_server.fields [] [] False)"

definition setUdpServer :: "signaling_server \<Rightarrow> signaling_server" where
  "setUdpServer s = s\<lparr>m_pUdpServer := True\<rparr>"

text \<open>\<open>To_Media\<close> is a call of the media server.\<close>

datatype sig_out = To_Media media_event | Tcp_Out tcp_out

type_synonym sig_result = "(signaling_server \<times> sig_out list) outcome"

definition call_media :: "media_event \<Rightarrow> signaling_server \<Rightarrow> sig_result" where
  "call_media e s = (if m_pUdpServer s then Inr (s, [To_Media e]) else Inl Null_Dereference)"

section \<open>Handlers\<close>

definition sig_CloseCB :: "int \<Rightarrow> signaling_server \<Rightarrow> sig_result" where
  "sig_CloseCB clientId s = (case map_of (m_mapClientId s) clientId of
       None \<Rightarrow> Inr (s, [])
     | Some it \<Rightarrow> map_outcome (\<lambda>(s, out). (s\<lparr>m_mapClientId := AList.delete clientId (m_mapClientId s)\<rparr>, out))
         (call_media (Logout_Msg (ex_userId it)) s))"

text \<open>\<open>insert\<close>: a client that has bound a user id keeps it.\<close>

definition OnBindUserId :: "u32 \<Rightarrow> nat \<Rightarrow> int \<Rightarrow> signaling_server \<Rightarrow> sig_result" where
  "OnBindUserId userId a clientid s =
     Inr (s\<lparr>m_mapClientId := (case map_of (m_mapClientId s) clientid of
         None \<Rightarrow> (clientid, \<lparr>tcpClientCtx = a, ex_userId = userId\<rparr>) # m_mapClientId s
       | Some _ \<Rightarrow> m_mapClientId s)\<rparr>, [])"

definition OnP2PAddr :: "CReqP2PAddrMsg \<Rightarrow> int \<Rightarrow> signaling_server \<Rightarrow> sig_result" where
  "OnP2PAddr msg clientid s = call_media (P2PAddr_Msg (p2p_dstUserId msg) clientid) s"

definition OnLeaveRoomMsg :: "u32 \<Rightarrow> signaling_server \<Rightarrow> sig_result" where
  "OnLeaveRoomMsg userId s = call_media (LeaveRoom_Msg userId) s"

definition OnUpdateForwardTableMsg :: "CReqUpdateForwardTableMsg \<Rightarrow> signaling_server \<Rightarrow> sig_result" where
  "OnUpdateForwardTableMsg msg s =
     call_media (UpdateForwardTable_Msg (uft_srcUserId msg) (uft_dstUserId msg) (uft_add msg)) s"

text \<open>The reply of the media server to a request for an address.\<close>

definition OnRspP2PAddr ::
  "bool \<Rightarrow> NetPacket \<Rightarrow> (nat \<Rightarrow> int) \<Rightarrow> CRspP2PAddrMsg \<Rightarrow> signaling_server \<Rightarrow> sig_result" where
  "OnRspP2PAddr le junk ret msg s = (case map_of (m_mapClientId s) (rsp_clientId msg) of
       None \<Rightarrow> Inr (s, [])
     | Some it \<Rightarrow>
         if map_of (ctxs s) (tcpClientCtx it) = None then Inl Use_After_Free
         else map_outcome (\<lambda>d. let (s', out, _) = sendinl ret d (tcpClientCtx it) s in (s', map Tcp_Out out))
           (PacketData le junk (bytes_CRspP2PAddrMsg msg) RSP_P2PADDR))"

definition OnUserTimeout :: "u32 \<Rightarrow> signaling_server \<Rightarrow> sig_result" where
  "OnUserTimeout userId s = (case map_of (m_mapUserId s) userId of
       None \<Rightarrow> Inr (s, [])
     | Some clientId \<Rightarrow>
         let s = s\<lparr>m_mapUserId := AList.delete userId (m_mapUserId s),
               m_mapClientId := AList.delete clientId (m_mapClientId s)\<rparr>
         in if map_of (m_mapClientsList s) clientId = None then Inl Null_Dereference
            else map_outcome (\<lambda>(s, out). (s, map Tcp_Out out)) (AcceptClient_Close clientId s))"

text \<open>The dispatch that \<open>BEGIN_UV_BIND\<close> and its companions expand to.\<close>

definition sig_ParsePacket :: "NetPacket \<Rightarrow> bytes \<Rightarrow> nat \<Rightarrow> signaling_server \<Rightarrow> sig_result" where
  "sig_ParsePacket packet buf a s = bind_outcome (client_ctx a s) (\<lambda>c.
     let ty = unat (np_type packet); clientid = tc_clientid c in
     if ty = REQ_UPDATE_FORWARDTABLE
     then bind_outcome (view_CReqUpdateForwardTableMsg buf) (\<lambda>m. OnUpdateForwardTableMsg m s)
     else if ty = REQ_LOGOUT then sig_CloseCB clientid s
     else if ty = REQ_BIND_USERID then bind_outcome (view_userId buf) (\<lambda>u. OnBindUserId u a clientid s)
     else if ty = REQ_P2PADDR then bind_outcome (view_CReqP2PAddrMsg buf) (\<lambda>m. OnP2PAddr m clientid s)
     else if ty = REQ_LEAVE_ROOM_MSG then bind_outcome (view_userId buf) (\<lambda>u. OnLeaveRoomMsg u s)
     else Inr (s, []))"

section \<open>Messages on the wire\<close>

lemma u32_at_le_bytes [simp]: "u32_at 0 (le_bytes 4 (unat u) @ r) = u"
  by (simp add: u32_at_def)

lemma view_bytes [simp]:
  "view_CReqUpdateForwardTableMsg (bytes_CReqUpdateForwardTableMsg m) = Inr m"
  "view_CReqP2PAddrMsg (bytes_CReqP2PAddrMsg q) = Inr q"
  "view_userId (bytes_userId u) = Inr u"
  by (simp_all add: view_CReqUpdateForwardTableMsg_def bytes_CReqUpdateForwardTableMsg_def
      view_CReqP2PAddrMsg_def bytes_CReqP2PAddrMsg_def view_userId_def bytes_userId_def msg_view_def
      u32_at_def nth_append)

end
