(* ===== verification/Relay_System.thy ===== *)
theory Relay_System
  imports Signaling_Server Tcp_Server_Proofs Media_Relay
begin

text \<open>
  The whole relay server (\<open>relay_server_sdk/relay_server.cpp\<close>, \<open>relay_server.h\<close>): the signaling server on
  its TCP server and the media server on one loop, with the calls between them. The invariant of
  the whole, its preservation by every event, and the properties that span the two servers.
\<close>

section \<open>State and events\<close>

text \<open>
  What \<open>CRelayServer\<close> builds: the two servers on one loop. The callbacks between them are
  direct calls.
\<close>

record relay_server =
  m_pTcpServer :: signaling_server
  m_pUdpServer_obj :: media_server

datatype relay_event =
    Tcp tcp_event
  | Udp u64 bytes "sockaddr_in option"
  | Verified u64 VerifyCtx bool
  | Offline u64
  | Status

datatype relay_out = Out_Tcp tcp_out | Out_Media media_out

text \<open>
  What the loop is not told by the code: byte order, the uninitialised fields of an outgoing
  header, and the answer of \<open>uv_write\<close>.
\<close>

record env =
  env_le :: bool
  env_junk :: NetPacket
  env_ret :: "nat \<Rightarrow> int"

type_synonym relay_result = "(relay_server \<times> relay_out list) outcome"

section \<open>Calls between the servers\<close>

text \<open>A call of the signaling server by the media server, whose calls back go nowhere further.\<close>

definition media_call :: "env \<Rightarrow> media_out \<Rightarrow> relay_server \<Rightarrow> relay_result" where
  "media_call en call s = (case call of
       User_Timeout u \<Rightarrow> map_outcome (\<lambda>(t, out). (s\<lparr>m_pTcpServer := t\<rparr>,
           concat (map (\<lambda>x. case x of Tcp_Out y \<Rightarrow> [Out_Tcp y] | To_Media _ \<Rightarrow> []) out)))
         (OnUserTimeout u (m_pTcpServer s))
     | P2P_Reply m \<Rightarrow> map_outcome (\<lambda>(t, out). (s\<lparr>m_pTcpServer := t\<rparr>,
           concat (map (\<lambda>x. case x of Tcp_Out y \<Rightarrow> [Out_Tcp y] | To_Media _ \<Rightarrow> []) out)))
         (OnRspP2PAddr (env_le en) (env_junk en) (env_ret en) m (m_pTcpServer s))
     | _ \<Rightarrow> Inr (s, [Out_Media call]))"

fun media_calls :: "env \<Rightarrow> media_out list \<Rightarrow> relay_server \<Rightarrow> relay_result" where
  "media_calls en [] s = Inr (s, [])"
| "media_calls en (c # cs) s = bind_outcome (media_call en c s) (\<lambda>(s, out).
     map_outcome (\<lambda>(s, out'). (s, out @ out')) (media_calls en cs s))"

definition to_media :: "env \<Rightarrow> media_event \<Rightarrow> relay_server \<Rightarrow> relay_result" where
  "to_media en e s = bind_outcome (media_handle (m_pUdpServer_obj s) e) (\<lambda>(m, out).
     media_calls en out (s\<lparr>m_pUdpServer_obj := m\<rparr>))"

fun sig_calls :: "env \<Rightarrow> sig_out list \<Rightarrow> relay_server \<Rightarrow> relay_result" where
  "sig_calls en [] s = Inr (s, [])"
| "sig_calls en (c # cs) s = bind_outcome
     (case c of To_Media e \<Rightarrow> to_media en e s | Tcp_Out y \<Rightarrow> Inr (s, [Out_Tcp y])) (\<lambda>(s, out).
     map_outcome (\<lambda>(s, out'). (s, out @ out')) (sig_calls en cs s))"

text \<open>The virtual functions of the TCP server, as the signaling server overrides them.\<close>

definition tcp_call :: "env \<Rightarrow> tcp_out \<Rightarrow> relay_server \<Rightarrow> relay_result" where
  "tcp_call en call s = (case call of
       Parse a packet buf \<Rightarrow> bind_outcome (sig_ParsePacket packet buf a (m_pTcpServer s)) (\<lambda>(t, out).
         sig_calls en out (s\<lparr>m_pTcpServer := t\<rparr>))
     | Close_CB cid \<Rightarrow> bind_outcome (sig_CloseCB cid (m_pTcpServer s)) (\<lambda>(t, out).
         sig_calls en out (s\<lparr>m_pTcpServer := t\<rparr>))
     | _ \<Rightarrow> Inr (s, [Out_Tcp call]))"

fun tcp_calls :: "env \<Rightarrow> tcp_out list \<Rightarrow> relay_server \<Rightarrow> relay_result" where
  "tcp_calls en [] s = Inr (s, [])"
| "tcp_calls en (c # cs) s = bind_outcome (tcp_call en c s) (\<lambda>(s, out).
     map_outcome (\<lambda>(s, out'). (s, out @ out')) (tcp_calls en cs s))"

definition relay_handle :: "env \<Rightarrow> relay_server \<Rightarrow> relay_event \<Rightarrow> relay_result" where
  "relay_handle en s e = (case e of
       Tcp te \<Rightarrow> bind_outcome (tcp_handle (m_pTcpServer s) te) (\<lambda>(t, out).
         tcp_calls en out (s\<lparr>m_pTcpServer := t\<rparr>))
     | Udp now d a \<Rightarrow> to_media en (Datagram now d a) s
     | Verified now ctx ok \<Rightarrow> to_media en (Work_Done now ctx ok) s
     | Offline now \<Rightarrow> to_media en (Offline_Timer now) s
     | Status \<Rightarrow> to_media en Status_Timer s)"

text \<open>After \<open>Start\<close>: both servers run and know each other.\<close>

definition relay_started :: "string \<Rightarrow> string \<Rightarrow> relay_server" where
  "relay_started url urlOnLogin = \<lparr>m_pTcpServer = setUdpServer (signaling_server_new tcp_server_started),
     m_pUdpServer_obj = media_new url urlOnLogin\<rparr>"

section \<open>Invariant\<close>

text \<open>
  Every client the signaling server remembers, but those in \<open>K\<close>, is connected on the context it
  remembers; a context that is being read belongs to a client; no user has an entry in
  \<open>m_mapUserId\<close>, which the code never fills.
\<close>

definition reading_inv :: "'a tcp_server_scheme \<Rightarrow> bool" where
  "reading_inv s \<longleftrightarrow> (\<forall>a c. map_of (ctxs s) a = Some c \<longrightarrow> tcphandle c = Handle_Reading
     \<longrightarrow> a \<in> set (clients_of s))"

definition sig_but :: "int set \<Rightarrow> signaling_server \<Rightarrow> bool" where
  "sig_but K s \<longleftrightarrow> tcp_inv s \<and> reading_inv s \<and> m_mapUserId s = [] \<and> m_pUdpServer s
     \<and> (\<forall>k ex. map_of (m_mapClientId s) k = Some ex \<longrightarrow> k \<notin> K \<longrightarrow>
          (\<exists>ac. map_of (m_mapClientsList s) k = Some ac \<and> m_pClientHandle ac = tcpClientCtx ex))"

definition relay_inv :: "relay_server \<Rightarrow> bool" where
  "relay_inv s \<longleftrightarrow> sig_but {} (m_pTcpServer s) \<and> media_inv (m_pUdpServer_obj s)"


section \<open>The TCP server seen from the signaling server\<close>

text \<open>What an event may do to the clients, and what is handed to the virtual functions.\<close>

definition step_clients :: "'a tcp_server_scheme \<Rightarrow> 'a tcp_server_scheme \<Rightarrow> tcp_out list \<Rightarrow> bool" where
  "step_clients s s' out \<longleftrightarrow> tcp_server.more s' = tcp_server.more s \<and> (reading_inv s \<longrightarrow> reading_inv s')
     \<and> (\<forall>k ac. map_of (m_mapClientsList s) k = Some ac \<longrightarrow>
          map_of (m_mapClientsList s') k = Some ac \<or> out = [Close_CB k])
     \<and> ((\<exists>k. out = [Close_CB k]) \<or>
        (\<forall>x\<in>set out. case x of Parse a p d \<Rightarrow> reading_inv s \<longrightarrow> a \<in> set (clients_of s') | Close_CB _ \<Rightarrow> False | _ \<Rightarrow> True))"

lemma more_modify_ctx [simp]: "tcp_server.more (modify_ctx a f s) = tcp_server.more s"
  by (simp add: modify_ctx_def split: option.split)

lemma clients_of_modify_ctx [simp]: "clients_of (modify_ctx a f s) = clients_of s"
  by (simp add: clients_of_def)

lemma modify_reading:
  "reading_inv s \<Longrightarrow> (\<And>c. map_of (ctxs s) a = Some c \<Longrightarrow> tcphandle (f c) = Handle_Reading \<Longrightarrow> tcphandle c = Handle_Reading)
    \<Longrightarrow> reading_inv (modify_ctx a f s)"
  by (fastforce simp: reading_inv_def split: if_splits)

lemma reading_fields [simp]:
  "reading_inv (s\<lparr>mutex_held := b\<rparr>) = reading_inv s"
  "reading_inv (s\<lparr>m_listWriteParam := w\<rparr>) = reading_inv s"
  "reading_inv (s\<lparr>m_listAvaiTcpHandle := l\<rparr>) = reading_inv s"
  "reading_inv (s\<lparr>s_id := i\<rparr>) = reading_inv s"
  "reading_inv (s\<lparr>m_bIsClosed := b\<rparr>) = reading_inv s"
  "reading_inv (s\<lparr>m_bIsUserAskForClosed := b\<rparr>) = reading_inv s"
  "clients_of (s\<lparr>mutex_held := b\<rparr>) = clients_of s"
  "clients_of (s\<lparr>m_listWriteParam := w\<rparr>) = clients_of s"
  by (simp_all add: reading_inv_def clients_of_def)

lemma recycle_step:
  "recycle_ctx a s = Inr s' \<Longrightarrow> tcp_server.more s' = tcp_server.more s \<and> (reading_inv s \<longrightarrow> reading_inv s')"
  by (auto simp: recycle_ctx_def FreeTcpClientCtx_def reading_inv_def clients_of_def delete_conv' split: if_splits)

lemma Close_step:
  assumes "AcceptClient_Close k s = Inr (s', out)"
  shows "tcp_server.more s' = tcp_server.more s" "reading_inv s \<Longrightarrow> reading_inv s'"
    "m_mapClientsList s' = m_mapClientsList s" "\<forall>x\<in>set out. \<exists>a. x = Uv_Close a"
proof -
  have "tcp_server.more s' = tcp_server.more s \<and> (reading_inv s \<longrightarrow> reading_inv s')
    \<and> m_mapClientsList s' = m_mapClientsList s \<and> (\<forall>x\<in>set out. \<exists>a. x = Uv_Close a)"
    using assms by (auto simp: AcceptClient_Close_def Let_def uv_close_Inr intro!: modify_reading split: option.splits if_splits)
  then show "tcp_server.more s' = tcp_server.more s" "reading_inv s \<Longrightarrow> reading_inv s'"
    "m_mapClientsList s' = m_mapClientsList s" "\<forall>x\<in>set out. \<exists>a. x = Uv_Close a" by blast+
qed

lemma close_clients_step:
  "close_clients ks s = Inr (s', out) \<Longrightarrow> tcp_server.more s' = tcp_server.more s
    \<and> (reading_inv s \<longrightarrow> reading_inv s') \<and> m_mapClientsList s' = m_mapClientsList s \<and> (\<forall>x\<in>set out. \<exists>a. x = Uv_Close a)"
proof (induction ks arbitrary: s out)
  case (Cons k ks)
  then obtain t o1 o2 where h: "AcceptClient_Close k s = Inr (t, o1)" "close_clients ks t = Inr (s', o2)" "out = o1 @ o2"
    by (auto simp: bind_outcome_Inr_iff)
  show ?case using Close_step [OF h(1)] Cons.IH [OF h(2)] h(3) by auto
qed simp

lemma send_step:
  "tcp_server.more (fst (sendinl ret d a s)) = tcp_server.more s"
  "m_mapClientsList (fst (sendinl ret d a s)) = m_mapClientsList s" "ctxs (fst (sendinl ret d a s)) = ctxs s"
  "\<forall>x\<in>set (fst (snd (sendinl ret d a s))). \<exists>b e. x = Uv_Write b e"
  by (auto simp: sendinl_def Let_def split: list.splits)

lemma broadcast_loop_step:
  "tcp_server.more (fst (broadcast_loop ret d cs ex s)) = tcp_server.more s
   \<and> m_mapClientsList (fst (broadcast_loop ret d cs ex s)) = m_mapClientsList s
   \<and> ctxs (fst (broadcast_loop ret d cs ex s)) = ctxs s
   \<and> (\<forall>x\<in>set (snd (broadcast_loop ret d cs ex s)). \<exists>b e. x = Uv_Write b e)"
proof (induction cs arbitrary: ex s)
  case (Cons x cs)
  obtain k ac where x: "x = (k, ac)" by (cases x)
  show ?case
    using Cons.IH [of "remove1 k ex" s] Cons.IH [of ex "fst (sendinl ret d (m_pClientHandle ac) s)"]
      send_step [of ret d "m_pClientHandle ac" s]
    by (auto simp: x case_prod_beta)
qed simp

lemma take_ctx_step:
  assumes "take_ctx junk s = (s', a)"
  shows "tcp_server.more s' = tcp_server.more s" "reading_inv s \<Longrightarrow> reading_inv s'" "m_mapClientsList s' = m_mapClientsList s"
proof -
  have "tcp_server.more s' = tcp_server.more s \<and> (reading_inv s \<longrightarrow> reading_inv s') \<and> m_mapClientsList s' = m_mapClientsList s"
  proof (cases "m_listAvaiTcpHandle s")
    case Nil
    then show ?thesis using assms
      by (auto simp: take_ctx_def AllocTcpClientCtx_def Let_def reading_inv_def clients_of_def map_of_append map_add_def
          split: option.splits if_splits simp del: map_of_eq_Some_iff)
  next
    case (Cons b bs)
    then have "s' = modify_ctx a (\<lambda>c. c\<lparr>parent_acceptclient := None\<rparr>) (s\<lparr>m_listAvaiTcpHandle := bs\<rparr>)"
      using assms by (auto simp: take_ctx_def)
    then show ?thesis by (auto intro: modify_reading)
  qed
  then show "tcp_server.more s' = tcp_server.more s" "reading_inv s \<Longrightarrow> reading_inv s'" "m_mapClientsList s' = m_mapClientsList s"
    by blast+
qed

lemma step_same:
  assumes "tcp_server.more s' = tcp_server.more s" "reading_inv s \<Longrightarrow> reading_inv s'"
    "m_mapClientsList s' = m_mapClientsList s"
    "\<forall>x\<in>set out. case x of Parse a p d \<Rightarrow> reading_inv s \<longrightarrow> a \<in> set (clients_of s') | Close_CB _ \<Rightarrow> False | _ \<Rightarrow> True"
  shows "step_clients s s' out"
  using assms by (simp add: step_clients_def)

lemma AcceptConnection_step:
  assumes "tcp_inv s0" "AcceptConnection st i ar r junk s0 = Inr (s', out)"
  shows "step_clients s0 s' out"
proof (cases "st = 0")
  case True
  obtain s a where s: "take_ctx junk s0 = (s, a)" by (cases "take_ctx junk s0")
  note t = take_ctx_inv [OF assms(1) s] take_ctx_step [OF s]
  obtain c where c: "map_of (ctxs s) a = Some c" using t(3) by blast
  show ?thesis
  proof (cases "i = 0 \<and> ar = 0 \<and> r = 0")
    case False
    then show ?thesis
      using assms(2) True t(8-10) c by (auto simp: AcceptConnection_def s bind_outcome_Inr_iff uv_tcp_init_Inr Let_def
          uv_close_Inr push_ctx_def intro!: step_same modify_reading split: if_splits)
  next
    case ok: True
    let ?n = "s_id s + 1"
    let ?u = "modify_ctx a (\<lambda>c. c\<lparr>parent_acceptclient := Some ?n\<rparr>) (modify_ctx a (\<lambda>c. c\<lparr>tcphandle := Handle_Reading\<rparr>)
      (modify_ctx a (\<lambda>c. c\<lparr>tc_packet := Start SERVER_PACKET_HEAD SERVER_PACKET_TAIL (SetPacketCB (tc_packet c))\<rparr>)
      (modify_ctx a (\<lambda>c. c\<lparr>tcphandle_data := Data_Ctx, tc_clientid := ?n\<rparr>)
      ((modify_ctx a (\<lambda>c. c\<lparr>tcphandle := Handle_Open\<rparr>) s)\<lparr>s_id := ?n\<rparr>))))"
    have ids: "\<forall>(k, ac)\<in>set (m_mapClientsList s). k < ?n"
      using t(1) by (fastforce simp: tcp_inv_def clients_inv_def)
    have s': "s' = ?u\<lparr>m_mapClientsList := m_mapClientsList s @ [(?n, \<lparr>m_pClientHandle = a, ac_bIsClosed = False\<rparr>)], mutex_held := False\<rparr>"
      "out = [New_Connect ?n]"
      using assms(2) True ok c by (auto simp: AcceptConnection_def s bind_outcome_Inr_iff uv_tcp_init_Inr Let_def
          new_AcceptClient_def lock_clients_def unlock_clients_def map_insert_last [OF ids] split: if_splits)
    have "reading_inv s' " if "reading_inv s"
      using that c unfolding reading_inv_def clients_of_def s' by (auto split: if_splits)
    then show ?thesis using t(8-10) unfolding step_clients_def
      by (auto simp: s' map_of_append map_add_def split: option.split)
  qed
qed (use assms in \<open>simp add: AcceptConnection_def step_clients_def\<close>)

lemma after_close_step:
  assumes "tcp_inv s" "after_close a s = Inr (s', out)"
  shows "step_clients s s' out"
  using assms(2)
proof (cases rule: after_close_cases)
  case recycled
  then show ?thesis using recycle_step [OF recycled(3)] recycle_fields [OF recycled(3)]
    by (intro step_same) (auto intro: modify_reading)
next
  case server
  then show ?thesis by (intro step_same) (auto intro: modify_reading)
next
  case (client c k)
  let ?t = "modify_ctx a (\<lambda>c. c\<lparr>tcphandle := Handle_None\<rparr>) s"
  have t: "tcp_server.more ?t = tcp_server.more s" "reading_inv s \<Longrightarrow> reading_inv ?t" "m_mapClientsList ?t = m_mapClientsList s"
    by (auto intro: modify_reading)
  obtain ac where k: "map_of (m_mapClientsList s) k = Some ac"
    using client(4) by (auto simp: AfterClientClose_def split: option.splits)
  show ?thesis
  proof (cases "m_pClientHandle ac = a")
    case False
    then show ?thesis using k t client(4) by (auto simp: AfterClientClose_def intro!: step_same)
  next
    case True
    let ?v = "?t\<lparr>m_mapClientsList := AList.update k (ac\<lparr>ac_bIsClosed := True\<rparr>) (m_mapClientsList ?t), mutex_held := True\<rparr>"
    obtain u where u: "recycle_ctx a ?v = Inr u"
      "s' = unlock_clients (u\<lparr>m_mapClientsList := AList.delete k (m_mapClientsList u)\<rparr>)" "out = [Close_CB k]"
      using k True client(4) by (auto simp: AfterClientClose_def SubClientClosed_def lock_clients_def split: if_splits)
    have m: "m_mapClientsList s' = AList.delete k (m_mapClientsList s)" "tcp_server.more s' = tcp_server.more s"
      using recycle_fields [OF u(1)] recycle_step [OF u(1)] by (simp_all add: u(2) unlock_clients_def delete_update_same)
    have dk: "distinct (map fst (m_mapClientsList s))"
      using assms(1) clients_sorted_distinct by (auto simp: tcp_inv_def clients_inv_def)
    have "reading_inv s'" if r: "reading_inv s"
      unfolding reading_inv_def
    proof (intro allI impI)
      fix b c assume b: "map_of (ctxs s') b = Some c" "tcphandle c = Handle_Reading"
      then have "map_of (ctxs u) b = Some c" by (simp add: u(2) unlock_clients_def)
      then have "map_of (ctxs ?t) b = Some c"
        using u(1) by (auto simp: recycle_ctx_def FreeTcpClientCtx_def delete_conv' split: if_splits)
      then have ba: "b \<noteq> a" "map_of (ctxs s) b = Some c" using b(2) by (auto split: if_splits)
      then obtain k' ac' where k': "(k', ac') \<in> set (m_mapClientsList s)" "m_pClientHandle ac' = b"
        using r b(2) by (fastforce simp: reading_inv_def clients_of_def)
      have "k' \<noteq> k"
      proof
        assume "k' = k"
        then have "map_of (m_mapClientsList s) k = Some ac'" using map_of_is_SomeI [OF dk k'(1)] by simp
        then show False using k k'(2) True ba(1) by simp
      qed
      then have "(k', ac') \<in> set (m_mapClientsList s')" using k'(1) by (auto simp: m(1) AList.delete_eq)
      then show "b \<in> set (clients_of s')" using k'(2) by (force simp: clients_of_def)
    qed
    then show ?thesis unfolding step_clients_def using u(3) m by (auto simp: delete_conv')
  qed
qed

lemma AfterRecv_step:
  assumes "map_of (ctxs s) a = Some c" "tcphandle c = Handle_Reading" "AfterRecv le a n buf s = Inr (s', out)"
  shows "step_clients s s' out"
proof -
  consider k where "AcceptClient_Close k s = Inr (s', out)" | "s' = s" "out = []"
    | ps ds where "s' = modify_ctx a (\<lambda>c. c\<lparr>tc_packet := ps\<rparr>) s" "out = map (\<lambda>(p, d). Parse a p d) ds"
    using assms(1,3) by (fastforce simp: AfterRecv_def client_ctx_def split: if_splits option.splits)
  then show ?thesis
  proof cases
    case 1
    then show ?thesis using Close_step [OF 1] by (intro step_same) auto
  next
    case 2
    then show ?thesis by (simp add: step_clients_def)
  next
    case 3
    then show ?thesis using assms(1,2)
      by (intro step_same) (auto intro: modify_reading simp: reading_inv_def)
  qed
qed

lemma closeinl_step:
  assumes "closeinl s = Inr (s', out)"
  shows "tcp_server.more s' = tcp_server.more s" "reading_inv s \<Longrightarrow> reading_inv s'" "m_mapClientsList s' = m_mapClientsList s"
    "\<forall>x\<in>set out. \<exists>a. x = Uv_Close a"
proof -
  have "tcp_server.more s' = tcp_server.more s \<and> (reading_inv s \<longrightarrow> reading_inv s') \<and> m_mapClientsList s' = m_mapClientsList s
    \<and> (\<forall>x\<in>set out. \<exists>a. x = Uv_Close a)"
  proof (cases "m_bIsClosed s")
    case False
    then obtain t where t: "close_clients (map fst (m_mapClientsList s)) (s\<lparr>mutex_held := True\<rparr>) = Inr (t, out)"
      "s' = t\<lparr>ctxs := map (\<lambda>(a, c). (a, CloseWalkCB c)) (ctxs t)\<rparr>"
      using assms by (auto simp: closeinl_def bind_outcome_Inr_iff lock_clients_def split: if_splits)
    have "reading_inv s'" if "reading_inv t"
      using that by (fastforce simp: t(2) reading_inv_def clients_of_def map_of_map CloseWalkCB_def split: if_splits)
    then show ?thesis using close_clients_step [OF t(1)] by (auto simp: t(2))
  qed (use assms in \<open>simp add: closeinl_def\<close>)
  then show "tcp_server.more s' = tcp_server.more s" "reading_inv s \<Longrightarrow> reading_inv s'" "m_mapClientsList s' = m_mapClientsList s"
    "\<forall>x\<in>set out. \<exists>a. x = Uv_Close a" by blast+
qed

lemma tcp_handle_step:
  assumes "tcp_inv s" "tcp_handle s e = Inr (s', out)"
  shows "step_clients s s' out"
proof (cases "tcp_enabled e s")
  case True
  show ?thesis
  proof (cases e)
    case (Ev_Accept st i ar r junk)
    then show ?thesis using assms True AcceptConnection_step by (auto simp: tcp_handle_def)
  next
    case (Ev_Recv le a n b)
    then show ?thesis using assms True AfterRecv_step [of s a _ le n b s' out]
      by (auto simp: tcp_handle_def tcp_enabled_def)
  next
    case (Ev_After_Close a)
    then show ?thesis using assms True after_close_step by (auto simp: tcp_handle_def)
  next
    case (Ev_Send ret d a)
    then show ?thesis using assms True send_step [of ret d a s]
      by (intro step_same) (auto simp: tcp_handle_def reading_inv_def clients_of_def split: prod.splits)
  next
    case (Ev_Broadcast ret d ex)
    let ?r = "broadcast_loop ret d (m_mapClientsList s) ex (s\<lparr>mutex_held := True\<rparr>)"
    note b = broadcast_loop_step [of ret d "m_mapClientsList s" ex "s\<lparr>mutex_held := True\<rparr>"]
    show ?thesis
    proof (cases "d = []")
      case False
      then have e: "s' = unlock_clients (fst ?r)" "out = snd ?r"
        using assms(2) True Ev_Broadcast by (auto simp: tcp_handle_def broadcast_def bind_outcome_Inr_iff lock_clients_def
            case_prod_beta split: if_splits)
      show ?thesis using b
        by (intro step_same) (fastforce simp: e unlock_clients_def reading_inv_def clients_of_def)+
    qed (use assms(2) True Ev_Broadcast in \<open>auto simp: tcp_handle_def broadcast_def step_clients_def split: if_splits\<close>)
  next
    case Ev_Async_Close
    then show ?thesis using assms True closeinl_step [of s s' out]
      by (cases "m_bIsUserAskForClosed s") (auto simp: tcp_handle_def AsyncCloseCB_def step_clients_def intro!: step_same)
  qed (use assms True in \<open>auto simp: tcp_handle_def AfterSend_def tcp_Close_def loop_end_def step_clients_def split: if_splits\<close>)
qed (use assms in \<open>simp add: tcp_handle_def step_clients_def\<close>)

section \<open>The calls keep the invariant\<close>

definition same_clients :: "signaling_server \<Rightarrow> signaling_server \<Rightarrow> bool" where
  "same_clients s s' \<longleftrightarrow> m_mapClientsList s' = m_mapClientsList s \<and> ctxs s' = ctxs s \<and> mutex_held s' = mutex_held s"

lemma sig_but_mono: "sig_but K s \<Longrightarrow> K \<subseteq> L \<Longrightarrow> sig_but L s"
  unfolding sig_but_def by blast

lemma sendinl_sig:
  assumes "sig_but K s"
  shows "sig_but K (fst (sendinl ret d a s))" "same_clients s (fst (sendinl ret d a s))"
proof -
  note f = send_step [of ret d a s]
  have "m_mapClientId (fst (sendinl ret d a s)) = m_mapClientId s" "m_mapUserId (fst (sendinl ret d a s)) = m_mapUserId s"
    "m_pUdpServer (fst (sendinl ret d a s)) = m_pUdpServer s" "mutex_held (fst (sendinl ret d a s)) = mutex_held s"
    by (simp_all add: sendinl_def Let_def split: list.split)
  then show "sig_but K (fst (sendinl ret d a s))" "same_clients s (fst (sendinl ret d a s))"
    using assms f(2,3) sendinl_inv(1) [of s ret d a]
    by (simp_all add: sig_but_def same_clients_def reading_inv_def clients_of_def)
qed

lemma OnRspP2PAddr_sig:
  assumes "sig_but K s" "OnRspP2PAddr le junk ret m s = Inr (s', out)"
  shows "sig_but K s'" "same_clients s s'"
proof -
  have "s' = s \<or> (\<exists>d a. s' = fst (sendinl ret d a s))"
    using assms(2) by (auto simp: OnRspP2PAddr_def case_prod_beta split: option.splits if_splits)
  then show "sig_but K s'" "same_clients s s'" using assms(1) sendinl_sig by (auto simp: same_clients_def)
qed

lemma media_call_inv:
  assumes "relay_inv s" "media_call en c s = Inr (s', out)"
  shows "relay_inv s'" "same_clients (m_pTcpServer s) (m_pTcpServer s')"
proof -
  have "relay_inv s' \<and> same_clients (m_pTcpServer s) (m_pTcpServer s')"
  proof (cases c)
    case (User_Timeout u)
    then have "s' = s" using assms by (auto simp: media_call_def OnUserTimeout_def relay_inv_def sig_but_def)
    then show ?thesis using assms(1) by (simp add: same_clients_def)
  next
    case (P2P_Reply m)
    then show ?thesis using assms OnRspP2PAddr_sig
      by (fastforce simp: media_call_def relay_inv_def)
  qed (use assms in \<open>auto simp: media_call_def same_clients_def\<close>)
  then show "relay_inv s'" "same_clients (m_pTcpServer s) (m_pTcpServer s')" by blast+
qed

lemma media_calls_inv:
  "relay_inv s \<Longrightarrow> media_calls en cs s = Inr (s', out) \<Longrightarrow>
    relay_inv s' \<and> same_clients (m_pTcpServer s) (m_pTcpServer s')"
proof (induction cs arbitrary: s out)
  case (Cons c cs)
  then obtain t o1 o2 where h: "media_call en c s = Inr (t, o1)" "media_calls en cs t = Inr (s', o2)"
    by (auto simp: bind_outcome_Inr_iff)
  note t = media_call_inv [OF Cons.prems(1) h(1)]
  show ?case using Cons.IH [OF t(1) h(2)] t(2) by (simp add: same_clients_def)
qed (simp add: same_clients_def)

lemma to_media_inv:
  assumes "relay_inv s" "to_media en e s = Inr (s', out)"
  shows "relay_inv s'" "same_clients (m_pTcpServer s) (m_pTcpServer s')"
proof -
  obtain m o1 where h: "media_handle (m_pUdpServer_obj s) e = Inr (m, o1)"
    "media_calls en o1 (s\<lparr>m_pUdpServer_obj := m\<rparr>) = Inr (s', out)"
    using assms(2) by (auto simp: to_media_def bind_outcome_Inr_iff)
  have "relay_inv (s\<lparr>m_pUdpServer_obj := m\<rparr>)"
    using assms(1) media_handle_inv [OF _ h(1)] by (simp add: relay_inv_def)
  from media_calls_inv [OF this h(2)]
  show "relay_inv s'" "same_clients (m_pTcpServer s) (m_pTcpServer s')" by simp_all
qed

lemma sig_calls_inv:
  "relay_inv s \<Longrightarrow> sig_calls en cs s = Inr (s', out) \<Longrightarrow>
    relay_inv s' \<and> same_clients (m_pTcpServer s) (m_pTcpServer s')"
proof (induction cs arbitrary: s out)
  case (Cons c cs)
  then obtain t o1 o2 where h: "(case c of To_Media e \<Rightarrow> to_media en e s | Tcp_Out y \<Rightarrow> Inr (s, [Out_Tcp y])) = Inr (t, o1)"
    "sig_calls en cs t = Inr (s', o2)"
    by (auto simp: bind_outcome_Inr_iff)
  have t: "relay_inv t" "same_clients (m_pTcpServer s) (m_pTcpServer t)"
    using h(1) Cons.prems(1) to_media_inv by (auto simp: same_clients_def split: sig_out.splits)
  show ?case using Cons.IH [OF t(1) h(2)] t(2) by (simp add: same_clients_def)
qed (simp add: same_clients_def)

lemma call_media_Inr: "call_media e s = Inr (s', out) \<longleftrightarrow> m_pUdpServer s \<and> s' = s \<and> out = [To_Media e]"
  by (auto simp: call_media_def)

lemma tcp_inv_more [simp]:
  "tcp_inv (s\<lparr>m_mapClientId := x\<rparr>) = tcp_inv s" "reading_inv (s\<lparr>m_mapClientId := x\<rparr>) = reading_inv s"
  by (simp_all add: tcp_inv_defs reading_inv_def)

lemma sig_CloseCB_sig:
  assumes "sig_but {k} s" "sig_CloseCB k s = Inr (s', out)"
  shows "sig_but {} s'" "same_clients s s'"
proof -
  have "sig_but {} s' \<and> same_clients s s'"
  proof (cases "map_of (m_mapClientId s) k")
    case None
    then have "ka \<noteq> k" if "map_of (m_mapClientId s) ka = Some ex" for ka ex using that by auto
    then show ?thesis using None assms by (auto simp: sig_but_def sig_CloseCB_def same_clients_def)
  next
    case (Some it)
    then show ?thesis using assms
      by (auto simp: sig_but_def sig_CloseCB_def same_clients_def call_media_Inr delete_conv'
          split: if_splits simp del: map_of_eq_Some_iff)
  qed
  then show "sig_but {} s'" "same_clients s s'" by blast+
qed

lemma OnBindUserId_sig:
  assumes "sig_but {} s" "client_ctx a s = Inr c" "a \<in> set (clients_of s)" "OnBindUserId u a (tc_clientid c) s = Inr (s', out)"
  shows "sig_but {} s'" "same_clients s s'"
proof -
  have i: "clients_inv s" "distinct (map fst (m_mapClientsList s))"
    using assms(1) clients_sorted_distinct by (auto simp: sig_but_def tcp_inv_def clients_inv_def)
  obtain k ac where k: "(k, ac) \<in> set (m_mapClientsList s)" "m_pClientHandle ac = a" "tc_clientid c = k"
    using owned_ctx [OF i(1) _ assms(3)] assms(2) by (metis client_ctx_Inr)
  have "map_of (m_mapClientsList s) k = Some ac" using map_of_is_SomeI [OF i(2) k(1)] .
  then show "sig_but {} s'" "same_clients s s'" using assms(1,4) k(2,3)
    by (auto simp: sig_but_def OnBindUserId_def same_clients_def split: option.splits if_splits simp del: map_of_eq_Some_iff)
qed

lemma sig_ParsePacket_sig:
  assumes "sig_but {} s" "a \<in> set (clients_of s)" "sig_ParsePacket p d a s = Inr (s', out)"
  shows "sig_but {} s'" "same_clients s s'"
proof -
  obtain c where c: "client_ctx a s = Inr c" using assms(3) by (auto simp: sig_ParsePacket_def bind_outcome_Inr_iff)
  consider (bind) u where "OnBindUserId u a (tc_clientid c) s = Inr (s', out)"
    | (close) "sig_CloseCB (tc_clientid c) s = Inr (s', out)" | (same) "s' = s"
    using assms(3) by (auto simp: sig_ParsePacket_def c bind_outcome_Inr_iff OnUpdateForwardTableMsg_def OnP2PAddr_def
        OnLeaveRoomMsg_def call_media_Inr Let_def split: if_splits)
  then have "sig_but {} s' \<and> same_clients s s'"
  proof cases
    case bind
    then show ?thesis using OnBindUserId_sig [OF assms(1) c assms(2)] by blast
  next
    case close
    then show ?thesis using sig_CloseCB_sig [OF sig_but_mono [OF assms(1)]] by blast
  qed (use assms(1) in \<open>simp add: same_clients_def\<close>)
  then show "sig_but {} s'" "same_clients s s'" by blast+
qed

lemma tcp_call_inv:
  assumes "sig_but K (m_pTcpServer s)" "media_inv (m_pUdpServer_obj s)" "tcp_call en c s = Inr (s', out)"
    "\<And>a p d. c = Parse a p d \<Longrightarrow> a \<in> set (clients_of (m_pTcpServer s)) \<and> K = {}"
    "\<And>k. c = Close_CB k \<Longrightarrow> K \<subseteq> {k}" "(\<exists>k. c = Close_CB k) \<or> K = {}"
  shows "relay_inv s'" "same_clients (m_pTcpServer s) (m_pTcpServer s')"
proof -
  have calls: "relay_inv s' \<and> same_clients (m_pTcpServer s) (m_pTcpServer s')"
    if h: "sig_but {} t" "same_clients (m_pTcpServer s) t" "sig_calls en o1 (s\<lparr>m_pTcpServer := t\<rparr>) = Inr (s', out)" for t o1
    using sig_calls_inv [OF _ h(3)] h(1,2) assms(2) by (auto simp: relay_inv_def same_clients_def)
  have "relay_inv s' \<and> same_clients (m_pTcpServer s) (m_pTcpServer s')"
  proof (cases c)
    case (Parse a p d)
    then obtain t o1 where h: "sig_ParsePacket p d a (m_pTcpServer s) = Inr (t, o1)"
      "sig_calls en o1 (s\<lparr>m_pTcpServer := t\<rparr>) = Inr (s', out)"
      using assms(3) by (auto simp: tcp_call_def bind_outcome_Inr_iff)
    then show ?thesis using assms(1) assms(4) [OF Parse] calls sig_ParsePacket_sig by blast
  next
    case (Close_CB k)
    then obtain t o1 where h: "sig_CloseCB k (m_pTcpServer s) = Inr (t, o1)"
      "sig_calls en o1 (s\<lparr>m_pTcpServer := t\<rparr>) = Inr (s', out)"
      using assms(3) by (auto simp: tcp_call_def bind_outcome_Inr_iff)
    then show ?thesis using sig_but_mono [OF assms(1) assms(5) [OF Close_CB]] calls sig_CloseCB_sig by blast
  qed (use assms(1-3,6) in \<open>simp_all add: tcp_call_def same_clients_def relay_inv_def\<close>)
  then show "relay_inv s'" "same_clients (m_pTcpServer s) (m_pTcpServer s')" by blast+
qed

lemma tcp_calls_inv:
  "relay_inv s \<Longrightarrow> (\<And>a p d. Parse a p d \<in> set cs \<Longrightarrow> a \<in> set (clients_of (m_pTcpServer s))) \<Longrightarrow>
    tcp_calls en cs s = Inr (s', out) \<Longrightarrow> relay_inv s' \<and> same_clients (m_pTcpServer s) (m_pTcpServer s')"
proof (induction cs arbitrary: s out)
  case (Cons c cs)
  then obtain t o1 o2 where h: "tcp_call en c s = Inr (t, o1)" "tcp_calls en cs t = Inr (s', o2)"
    by (auto simp: bind_outcome_Inr_iff)
  have s: "sig_but {} (m_pTcpServer s)" "media_inv (m_pUdpServer_obj s)" using Cons.prems(1) by (auto simp: relay_inv_def)
  have c: "a \<in> set (clients_of (m_pTcpServer s)) \<and> {} = {}" if "c = Parse a p d" for a p d
    using Cons.prems(2) [of a p d] that by simp
  have t: "relay_inv t" "same_clients (m_pTcpServer s) (m_pTcpServer t)"
    by (rule tcp_call_inv [OF s h(1)]; use c in simp)+
  have "a \<in> set (clients_of (m_pTcpServer t))" if "Parse a p d \<in> set cs" for a p d
    using Cons.prems(2) [of a p d] that t(2) by (simp add: same_clients_def clients_of_def)
  then show ?case using Cons.IH [OF t(1) _ h(2)] t(2) by (simp add: same_clients_def)
qed (simp add: same_clients_def)

lemma relay_handle_tcp:
  assumes "relay_inv s" "relay_handle en s (Tcp te) = Inr (s', out)"
  obtains t o1 where "tcp_handle (m_pTcpServer s) te = Inr (t, o1)" "relay_inv s'" "same_clients t (m_pTcpServer s')"
proof -
  let ?T = "m_pTcpServer s"
  have i: "sig_but {} ?T" "tcp_inv ?T" "reading_inv ?T" "media_inv (m_pUdpServer_obj s)"
    using assms(1) by (auto simp: relay_inv_def sig_but_def)
  obtain t o1 where h: "tcp_handle ?T te = Inr (t, o1)" "tcp_calls en o1 (s\<lparr>m_pTcpServer := t\<rparr>) = Inr (s', out)"
    using assms(2) by (auto simp: relay_handle_def bind_outcome_Inr_iff)
  have st: "step_clients ?T t o1" by (rule tcp_handle_step [OF i(2) h(1)])
  have tm: "m_mapClientId t = m_mapClientId ?T" "m_mapUserId t = m_mapUserId ?T" "m_pUdpServer t = m_pUdpServer ?T"
    using st by (cases t; cases ?T; simp add: step_clients_def)+
  have ti: "tcp_inv t" "reading_inv t" using tcp_handle_inv [OF i(2) h(1)] st i(3) by (simp_all add: step_clients_def)
  have "relay_inv s' \<and> same_clients t (m_pTcpServer s')"
  proof (cases "\<exists>k. o1 = [Close_CB k]")
    case True
    then obtain k where k: "o1 = [Close_CB k]" by blast
    have "sig_but {k} t" using i(1) st ti tm by (fastforce simp: sig_but_def step_clients_def k)
    then show ?thesis using h(2) tcp_call_inv [of "{k}" "s\<lparr>m_pTcpServer := t\<rparr>" en "Close_CB k" s'] i(4)
      by (auto simp: k bind_outcome_Inr_iff)
  next
    case False
    then have "sig_but {} t" using i(1) st ti tm by (fastforce simp: sig_but_def step_clients_def)
    moreover have "a \<in> set (clients_of t)" if "Parse a p d \<in> set o1" for a p d
      using that st False i(3) by (fastforce simp: step_clients_def)
    ultimately show ?thesis using tcp_calls_inv [OF _ _ h(2)] i(4) by (simp add: relay_inv_def)
  qed
  then show thesis using that h(1) by blast
qed

lemma relay_handle_media:
  assumes "relay_inv s" "relay_handle en s e = Inr (s', out)" "\<And>te. e \<noteq> Tcp te"
  shows "relay_inv s'" "same_clients (m_pTcpServer s) (m_pTcpServer s')"
  using assms(2,3) to_media_inv [OF assms(1)]
  by (auto simp: relay_handle_def split: relay_event.splits)

lemma relay_handle_inv: "relay_inv s \<Longrightarrow> relay_handle en s e = Inr (s', out) \<Longrightarrow> relay_inv s'"
  by (cases e) (use relay_handle_tcp relay_handle_media(1) in blast)+

interpretation relay_sys: event_handler "relay_handle en" relay_inv "\<lambda>_. True"
  by unfold_locales (rule relay_handle_inv)

text \<open>The users and links of the whole server: every event is a run of the abstract relay.\<close>

definition relay_view :: "relay_server \<Rightarrow> (u32, sockaddr_in) relay" where
  "relay_view s = relay_abs (m_pUdpServer_obj s)"

lemma media_calls_obj: "media_calls en cs s = Inr (s', out) \<Longrightarrow> m_pUdpServer_obj s' = m_pUdpServer_obj s"
proof (induction cs arbitrary: s out)
  case (Cons c cs)
  then show ?case by (fastforce simp: bind_outcome_Inr_iff media_call_def split: media_out.splits)
qed simp

lemma to_media_refines:
  assumes "media_inv (m_pUdpServer_obj s)" "to_media en e s = Inr (s', out)"
  shows "media_inv (m_pUdpServer_obj s')" "relay_steps zero_addr (relay_view s) (relay_view s')"
proof -
  obtain m o1 where h: "media_handle (m_pUdpServer_obj s) e = Inr (m, o1)"
    "media_calls en o1 (s\<lparr>m_pUdpServer_obj := m\<rparr>) = Inr (s', out)"
    using assms(2) by (auto simp: to_media_def bind_outcome_Inr_iff)
  show "media_inv (m_pUdpServer_obj s')" "relay_steps zero_addr (relay_view s) (relay_view s')"
    using media_calls_obj [OF h(2)] media_handle_inv [OF assms(1) h(1)] media_ref.step_refines [OF assms(1) h(1)]
    by (simp_all add: relay_view_def)
qed

lemma sig_calls_refines:
  "media_inv (m_pUdpServer_obj s) \<Longrightarrow> sig_calls en cs s = Inr (s', out) \<Longrightarrow>
    media_inv (m_pUdpServer_obj s') \<and> relay_steps zero_addr (relay_view s) (relay_view s')"
proof (induction cs arbitrary: s out)
  case (Cons c cs)
  then obtain t o1 o2 where h: "(case c of To_Media e \<Rightarrow> to_media en e s | Tcp_Out y \<Rightarrow> Inr (s, [Out_Tcp y])) = Inr (t, o1)"
    "sig_calls en cs t = Inr (s', o2)"
    by (auto simp: bind_outcome_Inr_iff)
  have t: "media_inv (m_pUdpServer_obj t)" "relay_steps zero_addr (relay_view s) (relay_view t)"
    using h(1) Cons.prems(1) to_media_refines by (auto simp: steps_refl split: sig_out.splits)
  show ?case using Cons.IH [OF t(1) h(2)] t(2) by (blast intro: relay_steps_trans)
qed (simp add: steps_refl)

lemma tcp_calls_refines:
  "media_inv (m_pUdpServer_obj s) \<Longrightarrow> tcp_calls en cs s = Inr (s', out) \<Longrightarrow>
    media_inv (m_pUdpServer_obj s') \<and> relay_steps zero_addr (relay_view s) (relay_view s')"
proof (induction cs arbitrary: s out)
  case (Cons c cs)
  then obtain t o1 o2 where h: "tcp_call en c s = Inr (t, o1)" "tcp_calls en cs t = Inr (s', o2)"
    by (auto simp: bind_outcome_Inr_iff)
  consider (calls) u o3 where "sig_calls en o3 (s\<lparr>m_pTcpServer := u\<rparr>) = Inr (t, o1)" | (same) "t = s"
    using h(1) by (auto simp: tcp_call_def bind_outcome_Inr_iff split: tcp_out.splits)
  then have t: "media_inv (m_pUdpServer_obj t) \<and> relay_steps zero_addr (relay_view s) (relay_view t)"
  proof cases
    case calls
    then show ?thesis using sig_calls_refines [OF _ calls] Cons.prems(1) by (simp add: relay_view_def)
  qed (use Cons.prems(1) in \<open>simp add: steps_refl\<close>)
  then show ?case using Cons.IH [OF conjunct1 [OF t] h(2)] by (blast intro: relay_steps_trans)
qed (simp add: steps_refl)

lemma relay_handle_refines:
  assumes "media_inv (m_pUdpServer_obj s)" "relay_handle en s e = Inr (s', out)"
  shows "relay_steps zero_addr (relay_view s) (relay_view s')"
proof (cases e)
  case (Tcp te)
  then obtain t o1 where "tcp_calls en o1 (s\<lparr>m_pTcpServer := t\<rparr>) = Inr (s', out)"
    using assms(2) by (auto simp: relay_handle_def bind_outcome_Inr_iff)
  from tcp_calls_refines [OF _ this] show ?thesis using assms(1) by (simp add: relay_view_def)
qed (use assms to_media_refines in \<open>auto simp: relay_handle_def\<close>)

interpretation system_ref: relay_refinement "relay_handle en" relay_inv relay_view zero_addr for en
  by unfold_locales (auto simp: relay_inv_def intro: relay_handle_refines)

lemma relay_started_inv: "relay_inv (relay_started url url2)"
  using tcp_started_inv media_new_ok(2)
  by (simp add: relay_inv_def relay_started_def sig_but_def setUdpServer_def signaling_server_new_def
      tcp_server.extend_def signaling_server.fields_def tcp_server_started_def tcp_inv_defs reading_inv_def)

section \<open>Properties\<close>

lemma relay_run_sig:
  assumes "run_events (relay_handle en) (relay_started url url2) es = Inr (s, out)"
  shows "sig_but {} (m_pTcpServer s)"
  using relay_sys.run_inv [OF relay_started_inv _ assms] by (simp add: relay_inv_def)

lemma remembered_client:
  assumes "sig_but {} s" "map_of (m_mapClientId s) k = Some ex"
  obtains ac c where "map_of (m_mapClientsList s) k = Some ac" "m_pClientHandle ac = tcpClientCtx ex"
    "map_of (ctxs s) (tcpClientCtx ex) = Some c" "tc_clientid c = k" "parent_acceptclient c = Some k"
proof -
  obtain ac where ac: "map_of (m_mapClientsList s) k = Some ac" "m_pClientHandle ac = tcpClientCtx ex"
    using assms by (auto simp: sig_but_def simp del: map_of_eq_Some_iff)
  have "clients_inv s" using assms(1) by (simp add: sig_but_def tcp_inv_def)
  from clients_invD(3) [OF this ac(1)] show thesis using that ac by auto
qed

lemma OnRspP2PAddr_sends:
  assumes "map_of (m_mapClientId s) (rsp_clientId msg) = Some ex" "map_of (ctxs s) (tcpClientCtx ex) = Some c"
    "\<And>a. ret a = 0"
  shows "\<exists>t d. OnRspP2PAddr le junk ret msg s = Inr (t, [Tcp_Out (Uv_Write (tcpClientCtx ex) d)])"
proof -
  have "length (bytes_CRspP2PAddrMsg msg) = 17" by (simp add: bytes_CRspP2PAddrMsg_def)
  then obtain x xs where d: "PacketData le junk (bytes_CRspP2PAddrMsg msg) RSP_P2PADDR = Inr (x # xs)"
    by (auto simp: PacketData_def PacketData2_def Let_def)
  have "fst (snd (sendinl ret (x # xs) (tcpClientCtx ex) s)) = [Uv_Write (tcpClientCtx ex) (x # xs)]"
    using assms(3) by (simp add: sendinl_def Let_def split: list.split)
  then show ?thesis using assms(1,2) d by (simp add: OnRspP2PAddr_def case_prod_beta)
qed

text \<open>
  Property C20. In every run, a client the signaling server remembers is still connected on the
  context it remembers: an answer to it is written to that client and never to freed memory.
\<close>

theorem replies_reach_client:
  assumes "run_events (relay_handle en) (relay_started url url2) es = Inr (s, out)"
    "map_of (m_mapClientId (m_pTcpServer s)) (rsp_clientId msg) = Some ex" "\<And>a. ret a = 0"
  shows "\<exists>c t d. map_of (ctxs (m_pTcpServer s)) (tcpClientCtx ex) = Some c \<and> tc_clientid c = rsp_clientId msg
    \<and> OnRspP2PAddr le junk ret msg (m_pTcpServer s) = Inr (t, [Tcp_Out (Uv_Write (tcpClientCtx ex) d)])"
  using remembered_client [OF relay_run_sig [OF assms(1)] assms(2)]
    OnRspP2PAddr_sends [of "m_pTcpServer s" msg ex _ ret le junk, OF assms(2) _ assms(3)] by metis

text \<open>
  A user that times out in the media server keeps its TCP connection: \<open>OnUserTimeout\<close>
  finds nobody, in any reachable state.
\<close>

theorem timeout_keeps_client:
  assumes "run_events (relay_handle en) (relay_started url url2) es = Inr (s, out)"
  shows "OnUserTimeout u (m_pTcpServer s) = Inr (m_pTcpServer s, [])"
  using relay_run_sig [OF assms] by (simp add: sig_but_def OnUserTimeout_def)

lemma recvdata_wire:
  assumes "sync_ready le H T ps" "pending ps = []" "sendable H T q" "T < 0x80"
  shows "\<exists>ps'. recvdata le ps (wire le q) = Some (Inr (ps', [with_check q])) \<and> sync_ready le H T ps'"
proof -
  obtain r where r: "recvdata le ps (wire le q) = Some r" "sync_result le H T ps (wire le q) r"
    using recvdata_law [OF assms(1)] by blast
  note fr = frames_wire [OF assms(3,4), of le]
  show ?thesis
  proof (cases r)
    case (Inl f)
    then have "frames le H T (wire le q @ [0]) = Inl f" using r(2) assms(2) by (simp add: chunk_result_def)
    then show ?thesis using fr [of "[0]"] by (simp add: frames_short)
  next
    case (Inr x)
    obtain ps' ds where x: "x = (ps', ds)" by (cases x)
    have "sync_ready le H T ps'" "\<And>z. frames le H T (wire le q @ z) = map_outcome ((@) ds) (frames le H T (pending ps' @ z))"
      "frames le H T (pending ps') = Inr []"
      using r(2) assms(2) by (auto simp: chunk_result_def Inr x)
    moreover from this(2) [of "[]"] this(3) fr [of "[]"] have "ds = [with_check q]" by simp
    ultimately show ?thesis using r(1) Inr x by simp
  qed
qed

lemma tcp_recv_packet:
  assumes "map_of (ctxs s) a = Some c" "tcphandle c = Handle_Reading"
    "sync_ready le SERVER_PACKET_HEAD SERVER_PACKET_TAIL (tc_packet c)" "pending (tc_packet c) = []"
    "sendable SERVER_PACKET_HEAD SERVER_PACKET_TAIL (p, d)"
  shows "\<exists>ps'. tcp_handle s (Ev_Recv le a (int (length (wire le (p, d)))) (wire le (p, d)))
    = Inr (modify_ctx a (\<lambda>c. c\<lparr>tc_packet := ps'\<rparr>) s, [Parse a (fst (with_check (p, d))) d])"
proof -
  let ?w = "wire le (p, d)"
  obtain ps' where ps': "recvdata le (tc_packet c) ?w = Some (Inr (ps', [with_check (p, d)]))"
    using recvdata_wire [OF assms(3-5)] by (auto simp: SERVER_PACKET_TAIL_def)
  have "length ?w > 0" using wire_eq [OF assms(5), of le] by simp
  then show ?thesis using assms(1,2) ps'
    by (intro exI [of _ ps']) (simp add: tcp_handle_def tcp_enabled_def AfterRecv_def client_ctx_def with_check_def)
qed

lemma recv_packet:
  assumes "map_of (ctxs (m_pTcpServer s)) a = Some c" "tcphandle c = Handle_Reading"
    "sync_ready le SERVER_PACKET_HEAD SERVER_PACKET_TAIL (tc_packet c)" "pending (tc_packet c) = []"
    "sendable SERVER_PACKET_HEAD SERVER_PACKET_TAIL (p, d)"
  shows "\<exists>ps'. relay_handle en s (Tcp (Ev_Recv le a (int (length (wire le (p, d)))) (wire le (p, d))))
    = tcp_calls en [Parse a (fst (with_check (p, d))) d]
        (s\<lparr>m_pTcpServer := modify_ctx a (\<lambda>c. c\<lparr>tc_packet := ps'\<rparr>) (m_pTcpServer s)\<rparr>)"
  using tcp_recv_packet [OF assms] by (auto simp: relay_handle_def)

text \<open>
  Property C17. From the bytes on a client's connection to the table of the media server: a
  \<open>CReqUpdateForwardTableMsg\<close> that arrives switches the link on or off exactly when both users
  have an address, and changes nothing else.
\<close>

theorem wire_updates_links:
  assumes "relay_inv s" "map_of (ctxs (m_pTcpServer s)) a = Some c" "tcphandle c = Handle_Reading"
    "sync_ready le SERVER_PACKET_HEAD SERVER_PACKET_TAIL (tc_packet c)" "pending (tc_packet c) = []"
    "sendable SERVER_PACKET_HEAD SERVER_PACKET_TAIL (p, bytes_CReqUpdateForwardTableMsg m)"
    "unat (np_type p) = REQ_UPDATE_FORWARDTABLE"
  defines "w \<equiv> wire le (p, bytes_CReqUpdateForwardTableMsg m)" and "v \<equiv> m_pUdpServer_obj s"
  shows "\<exists>s' ps'. relay_handle en s (Tcp (Ev_Recv le a (int (length w)) w)) = Inr (s', [])
    \<and> m_pTcpServer s' = modify_ctx a (\<lambda>c. c\<lparr>tc_packet := ps'\<rparr>) (m_pTcpServer s)
    \<and> address (m_pUdpServer_obj s') = address v
    \<and> links (m_pUdpServer_obj s') = (let l = (uft_srcUserId m, uft_dstUserId m) in
        if address v (fst l) = None \<or> address v (snd l) = None then links v
        else if uft_add m then insert l (links v) else links v - {l})"
proof -
  let ?T = "m_pTcpServer s"
  have i: "m_pUdpServer ?T" "media_inv v" using assms(1) by (auto simp: relay_inv_def sig_but_def v_def)
  obtain ps' where h: "relay_handle en s (Tcp (Ev_Recv le a (int (length w)) w)) = tcp_calls en
      [Parse a (fst (with_check (p, bytes_CReqUpdateForwardTableMsg m))) (bytes_CReqUpdateForwardTableMsg m)]
      (s\<lparr>m_pTcpServer := modify_ctx a (\<lambda>c. c\<lparr>tc_packet := ps'\<rparr>) ?T\<rparr>)"
    using recv_packet [OF assms(2-6)] by (auto simp: w_def)
  let ?t = "modify_ctx a (\<lambda>c. c\<lparr>tc_packet := ps'\<rparr>) ?T"
  have u: "m_pUdpServer ?t" using i(1) by (simp add: modify_ctx_def split: option.split)
  have "sig_ParsePacket (fst (with_check (p, bytes_CReqUpdateForwardTableMsg m))) (bytes_CReqUpdateForwardTableMsg m) a ?t
    = Inr (?t, [To_Media (UpdateForwardTable_Msg (uft_srcUserId m) (uft_dstUserId m) (uft_add m))])"
    using assms(2,7) u by (simp add: sig_ParsePacket_def client_ctx_def with_check_def OnUpdateForwardTableMsg_def
        call_media_def Let_def)
  then have "relay_handle en s (Tcp (Ev_Recv le a (int (length w)) w)) = Inr (s\<lparr>m_pTcpServer := ?t,
    m_pUdpServer_obj := OnUpdateForwardTable (uft_srcUserId m) (uft_dstUserId m) (uft_add m) v\<rparr>, [])"
    using h by (simp add: tcp_call_def to_media_def v_def)
  moreover have "(\<exists>y. x = Some y) = (x \<noteq> None)" for x :: "sockaddr_in option" by simp
  ultimately show ?thesis using OnUpdateForwardTable_ok(3,4) [OF i(2), of "uft_srcUserId m" "uft_dstUserId m" "uft_add m"]
    by (intro exI [of _ "s\<lparr>m_pTcpServer := ?t,
      m_pUdpServer_obj := OnUpdateForwardTable (uft_srcUserId m) (uft_dstUserId m) (uft_add m) v\<rparr>"] exI [of _ ps'])
      (auto simp: Let_def)
qed

lemma disconnect_recv:
  assumes "relay_inv s" "map_of (m_mapClientsList (m_pTcpServer s)) k = Some ac"
    "map_of (ctxs (m_pTcpServer s)) (m_pClientHandle ac) = Some c" "tcphandle c = Handle_Reading" "n < 0"
  defines "a \<equiv> m_pClientHandle ac"
  shows "relay_handle en s (Tcp (Ev_Recv le a n buf)) = Inr (s\<lparr>m_pTcpServer :=
    modify_ctx a (\<lambda>c. c\<lparr>tcphandle := Handle_Closing AfterClientClose_CB\<rparr>)
      (modify_ctx a (\<lambda>c. c\<lparr>tcphandle_data := Data_Accept k\<rparr>) (m_pTcpServer s))\<rparr>, [Out_Tcp (Uv_Close a)])"
proof -
  have "clients_inv (m_pTcpServer s)" using assms(1) by (simp add: relay_inv_def sig_but_def tcp_inv_def)
  note ci = clients_invD [OF this assms(2)]
  have "parent_acceptclient c = Some k" using ci(3) assms(3) by auto
  then show ?thesis
    using assms(2-5) ci(1) by (simp add: relay_handle_def tcp_handle_def tcp_enabled_def AfterRecv_def client_ctx_def a_def
        AcceptClient_Close_def Let_def uv_close_def tcp_call_def del: map_of_eq_Some_iff)
qed

lemma recycle_total: "map_of (ctxs s) a \<noteq> None \<Longrightarrow> \<exists>r. recycle_ctx a s = Inr r"
  by (auto simp: recycle_ctx_def FreeTcpClientCtx_def)

lemma disconnect_close:
  assumes "relay_inv s" "\<not> mutex_held (m_pTcpServer s)" "map_of (m_mapClientId (m_pTcpServer s)) k = Some ex"
    "map_of (ctxs (m_pTcpServer s)) (tcpClientCtx ex) = Some c" "tcphandle c = Handle_Closing AfterClientClose_CB"
    "tcphandle_data c = Data_Accept k"
  shows "\<exists>s'. relay_handle en s (Tcp (Ev_After_Close (tcpClientCtx ex))) = Inr (s', [])
    \<and> map_of (m_mapClientsList (m_pTcpServer s')) k = None \<and> map_of (m_mapClientId (m_pTcpServer s')) k = None
    \<and> m_pUdpServer_obj s' = OnLogout (ex_userId ex) (m_pUdpServer_obj s)"
proof -
  let ?T = "m_pTcpServer s" and ?a = "tcpClientCtx ex"
  have i: "sig_but {} ?T" using assms(1) by (simp add: relay_inv_def)
  obtain ac where ac: "map_of (m_mapClientsList ?T) k = Some ac" "m_pClientHandle ac = ?a"
    using remembered_client [OF i assms(3)] by metis
  let ?t = "modify_ctx ?a (\<lambda>c. c\<lparr>tcphandle := Handle_None\<rparr>) ?T"
  let ?u = "?t\<lparr>m_mapClientsList := AList.update k (ac\<lparr>ac_bIsClosed := True\<rparr>) (m_mapClientsList ?t), mutex_held := True\<rparr>"
  have "map_of (ctxs ?u) ?a \<noteq> None" using assms(4) by simp
  then obtain r where r: "recycle_ctx ?a ?u = Inr r" using recycle_total by blast
  let ?v = "r\<lparr>m_mapClientsList := AList.delete k (m_mapClientsList r), mutex_held := False\<rparr>"
  have "tcp_handle ?T (Ev_After_Close ?a) = Inr (?v, [Close_CB k])"
    using assms(2,4-6) ac r by (simp add: tcp_handle_def tcp_enabled_def after_close_def client_ctx_def Let_def
        AfterClientClose_def SubClientClosed_def lock_clients_def unlock_clients_def del: map_of_eq_Some_iff)
  moreover have "m_mapClientId ?v = m_mapClientId ?T" "m_pUdpServer ?v = m_pUdpServer ?T"
    using r by (auto simp: recycle_ctx_def FreeTcpClientCtx_def modify_ctx_def split: if_splits option.splits)
  ultimately show ?thesis using assms(3) i
    by (simp add: relay_handle_def tcp_call_def sig_CloseCB_def call_media_def sig_but_def to_media_def
        delete_conv' del: map_of_eq_Some_iff)
qed

text \<open>
  Property C18. When the connection of a client with a user id breaks, the server closes it, and
  once it is closed the client is forgotten, its user has no address, and every link from or to
  the user is gone; all other users keep theirs.
\<close>

theorem disconnect_logs_out:
  assumes "relay_inv s" "\<not> mutex_held (m_pTcpServer s)" "map_of (m_mapClientId (m_pTcpServer s)) k = Some ex"
    "map_of (ctxs (m_pTcpServer s)) (tcpClientCtx ex) = Some c" "tcphandle c = Handle_Reading" "n < 0"
  defines "a \<equiv> tcpClientCtx ex" and "u \<equiv> ex_userId ex"
  shows "\<exists>s1 s2. relay_handle en s (Tcp (Ev_Recv le a n buf)) = Inr (s1, [Out_Tcp (Uv_Close a)])
    \<and> relay_handle en s1 (Tcp (Ev_After_Close a)) = Inr (s2, [])
    \<and> map_of (m_mapClientsList (m_pTcpServer s2)) k = None \<and> map_of (m_mapClientId (m_pTcpServer s2)) k = None
    \<and> address (m_pUdpServer_obj s2) = (address (m_pUdpServer_obj s))(u := None)
    \<and> links (m_pUdpServer_obj s2) = {(x, y) \<in> links (m_pUdpServer_obj s). x \<noteq> u \<and> y \<noteq> u}"
proof -
  let ?T = "m_pTcpServer s"
  let ?t = "modify_ctx a (\<lambda>c. c\<lparr>tcphandle := Handle_Closing AfterClientClose_CB\<rparr>)
      (modify_ctx a (\<lambda>c. c\<lparr>tcphandle_data := Data_Accept k\<rparr>) ?T)"
  have i: "sig_but {} ?T" "media_inv (m_pUdpServer_obj s)" using assms(1) by (auto simp: relay_inv_def)
  obtain ac where ac: "map_of (m_mapClientsList ?T) k = Some ac" "m_pClientHandle ac = a"
    using remembered_client [OF i(1) assms(3)] a_def by metis
  have 1: "relay_handle en s (Tcp (Ev_Recv le a n buf)) = Inr (s\<lparr>m_pTcpServer := ?t\<rparr>, [Out_Tcp (Uv_Close a)])"
    using disconnect_recv [OF assms(1) ac(1) _ assms(5,6)] assms(4) ac(2) a_def by simp
  have f: "m_mapClientId ?t = m_mapClientId ?T" "mutex_held ?t = mutex_held ?T"
    by (simp_all add: modify_ctx_def split: option.split)
  have "\<exists>s2. relay_handle en (s\<lparr>m_pTcpServer := ?t\<rparr>) (Tcp (Ev_After_Close a)) = Inr (s2, [])
    \<and> map_of (m_mapClientsList (m_pTcpServer s2)) k = None \<and> map_of (m_mapClientId (m_pTcpServer s2)) k = None
    \<and> m_pUdpServer_obj s2 = OnLogout u (m_pUdpServer_obj s)"
    using disconnect_close [OF relay_handle_inv [OF assms(1) 1], of k ex] assms(2-4) f by (simp add: a_def u_def)
  then show ?thesis using 1 OnLogout_ok(2,3) [OF i(2), of u] by fastforce
qed

section \<open>Witnesses\<close>

text \<open>One client, which has bound the user id 2, and two users that have logged in.\<close>

definition demo_client :: "packet_sync \<Rightarrow> TcpClientCtx" where
  "demo_client ps = \<lparr>tc_packet = ps, tc_clientid = 1, parent_acceptclient = Some 1,
     tcphandle_data = Data_Ctx, tcphandle = Handle_Reading\<rparr>"

definition demo_tcp :: "packet_sync \<Rightarrow> (int \<times> TcpClientCtxEx) list \<Rightarrow> signaling_server" where
  "demo_tcp ps m = \<lparr>ctxs = [(0, demo_client ps)], next_ctx = 1, m_listAvaiTcpHandle = [], m_listWriteParam = [],
     m_mapClientsList = [(1, \<lparr>m_pClientHandle = 0, ac_bIsClosed = False\<rparr>)], s_id = 1, m_bIsClosed = False,
     m_bIsUserAskForClosed = False, mutex_held = False, m_mapClientId = m, m_mapUserId = [], m_pUdpServer = True\<rparr>"

definition demo_bound :: "(int \<times> TcpClientCtxEx) list" where
  "demo_bound = [(1, \<lparr>tcpClientCtx = 0, ex_userId = 2\<rparr>)]"

definition demo_relay :: relay_server where
  "demo_relay = \<lparr>m_pTcpServer = demo_tcp (sync_started 1 2 junk_packet) demo_bound, m_pUdpServer_obj = demo_linked\<rparr>"

definition demo_head :: "nat \<Rightarrow> nat \<Rightarrow> NetPacket" where
  "demo_head ty n = junk_packet\<lparr>np_header := 1, np_tail := 2, np_type := of_nat ty, np_datalen := of_nat n\<rparr>"

definition demo_env :: env where
  "demo_env = \<lparr>env_le = True, env_junk = junk_packet, env_ret = (\<lambda>_. 0)\<rparr>"

lemma demo_sig: "m = [] \<or> m = demo_bound \<Longrightarrow> sig_but {} (demo_tcp ps m)"
  by (auto simp: sig_but_def demo_tcp_def demo_bound_def tcp_inv_defs reading_inv_def demo_client_def)

lemma demo_relay_inv: "relay_inv demo_relay"
  by (simp add: relay_inv_def demo_relay_def demo_sig demo_inv)

lemma demo_bind:
  "\<exists>ps out. run_events (relay_handle demo_env) (relay_started [] []) [Tcp (Ev_Accept 0 0 0 0 junk_packet),
      Tcp (Ev_Recv True 0 (int (length (wire True (demo_head REQ_BIND_USERID 4, bytes_userId 2))))
        (wire True (demo_head REQ_BIND_USERID 4, bytes_userId 2)))]
    = Inr (\<lparr>m_pTcpServer = demo_tcp ps demo_bound, m_pUdpServer_obj = media_new [] []\<rparr>, out)"
proof -
  let ?p = "demo_head REQ_BIND_USERID 4" and ?d = "bytes_userId 2"
  let ?s = "\<lparr>m_pTcpServer = demo_tcp (sync_started 1 2 junk_packet) [], m_pUdpServer_obj = media_new [] []\<rparr>"
  have 1: "relay_handle demo_env (relay_started [] []) (Tcp (Ev_Accept 0 0 0 0 junk_packet)) = Inr (?s, [Out_Tcp (New_Connect 1)])"
    by (simp add: relay_handle_def relay_started_def setUdpServer_def signaling_server_new_def tcp_server.extend_def
        signaling_server.fields_def tcp_eval tcp_call_def demo_tcp_def demo_client_def sync_started_def
        SetPacketCB_def Start_def SERVER_PACKET_HEAD_def SERVER_PACKET_TAIL_def)
  have sd: "sendable SERVER_PACKET_HEAD SERVER_PACKET_TAIL (?p, ?d)"
    by (simp add: sendable_def demo_head_def bytes_userId_def SERVER_PACKET_HEAD_def SERVER_PACKET_TAIL_def)
  obtain ps' where 2: "relay_handle demo_env ?s (Tcp (Ev_Recv True 0 (int (length (wire True (?p, ?d)))) (wire True (?p, ?d))))
    = tcp_calls demo_env [Parse 0 (fst (with_check (?p, ?d))) ?d]
        (?s\<lparr>m_pTcpServer := modify_ctx 0 (\<lambda>c. c\<lparr>tc_packet := ps'\<rparr>) (m_pTcpServer ?s)\<rparr>)"
    using recv_packet [OF _ _ _ _ sd, where s = ?s and a = 0 and c = "demo_client (sync_started 1 2 junk_packet)"
        and le = True and en = demo_env]
      sync_started_ready(1) [of True 1 2 junk_packet] sync_started_ready(2) [of 1 2 junk_packet]
    by (auto simp: demo_tcp_def demo_client_def SERVER_PACKET_HEAD_def SERVER_PACKET_TAIL_def)
  have "tcp_calls demo_env [Parse 0 (fst (with_check (?p, ?d))) ?d]
        (?s\<lparr>m_pTcpServer := modify_ctx 0 (\<lambda>c. c\<lparr>tc_packet := ps'\<rparr>) (m_pTcpServer ?s)\<rparr>)
    = Inr (\<lparr>m_pTcpServer = demo_tcp ps' demo_bound, m_pUdpServer_obj = media_new [] []\<rparr>, [])"
    by (simp add: tcp_call_def sig_ParsePacket_def client_ctx_def demo_tcp_def demo_client_def with_check_def demo_head_def
        OnBindUserId_def REQ_BIND_USERID_def REQ_UPDATE_FORWARDTABLE_def REQ_LOGOUT_def Let_def modify_ctx_def demo_bound_def)
  then show ?thesis using 1 2 by (intro exI [of _ ps'] exI [of _ "[Out_Tcp (New_Connect 1)]"]) simp
qed

theorem replies_reach_client_witness:
  "\<exists>s out t d. run_events (relay_handle demo_env) (relay_started [] []) [Tcp (Ev_Accept 0 0 0 0 junk_packet),
      Tcp (Ev_Recv True 0 (int (length (wire True (demo_head REQ_BIND_USERID 4, bytes_userId 2))))
        (wire True (demo_head REQ_BIND_USERID 4, bytes_userId 2)))] = Inr (s, out)
    \<and> OnRspP2PAddr True junk_packet (\<lambda>_. 0) (OnReqP2PAddr 2 1 (m_pUdpServer_obj s)) (m_pTcpServer s)
      = Inr (t, [Tcp_Out (Uv_Write 0 d)])"
proof -
  obtain ps out where r: "run_events (relay_handle demo_env) (relay_started [] []) [Tcp (Ev_Accept 0 0 0 0 junk_packet),
      Tcp (Ev_Recv True 0 (int (length (wire True (demo_head REQ_BIND_USERID 4, bytes_userId 2))))
        (wire True (demo_head REQ_BIND_USERID 4, bytes_userId 2)))]
    = Inr (\<lparr>m_pTcpServer = demo_tcp ps demo_bound, m_pUdpServer_obj = media_new [] []\<rparr>, out)"
    using demo_bind by blast
  have "rsp_clientId (OnReqP2PAddr 2 1 (media_new [] [])) = 1"
    by (simp add: OnReqP2PAddr_def Let_def split: option.split)
  then show ?thesis
    using replies_reach_client [OF r, of "OnReqP2PAddr 2 1 (media_new [] [])" "\<lparr>tcpClientCtx = 0, ex_userId = 2\<rparr>" "\<lambda>_. 0" True junk_packet] r
    by (auto simp: demo_tcp_def demo_bound_def)
qed

theorem timeout_keeps_client_witness:
  "\<exists>ps. OnUserTimeout 2 (demo_tcp ps demo_bound) = Inr (demo_tcp ps demo_bound, [])"
  using demo_bind timeout_keeps_client by fastforce

theorem wire_updates_links_witness:
  "\<exists>s'. relay_handle demo_env demo_relay (Tcp (Ev_Recv True 0
      (int (length (wire True (demo_head REQ_UPDATE_FORWARDTABLE 9, bytes_CReqUpdateForwardTableMsg \<lparr>uft_srcUserId = 1, uft_dstUserId = 2, uft_add = False\<rparr>))))
      (wire True (demo_head REQ_UPDATE_FORWARDTABLE 9, bytes_CReqUpdateForwardTableMsg \<lparr>uft_srcUserId = 1, uft_dstUserId = 2, uft_add = False\<rparr>)))) = Inr (s', [])
    \<and> links (m_pUdpServer_obj demo_relay) = {(1, 2)} \<and> links (m_pUdpServer_obj s') = {}"
proof -
  let ?m = "\<lparr>uft_srcUserId = 1, uft_dstUserId = 2, uft_add = False\<rparr> :: CReqUpdateForwardTableMsg"
  let ?p = "demo_head REQ_UPDATE_FORWARDTABLE 9"
  have sd: "sendable SERVER_PACKET_HEAD SERVER_PACKET_TAIL (?p, bytes_CReqUpdateForwardTableMsg ?m)"
    by (simp add: sendable_def demo_head_def bytes_CReqUpdateForwardTableMsg_def SERVER_PACKET_HEAD_def SERVER_PACKET_TAIL_def)
  have "map_of (ctxs (m_pTcpServer demo_relay)) 0 = Some (demo_client (sync_started 1 2 junk_packet))"
    by (simp add: demo_relay_def demo_tcp_def)
  moreover have "unat (np_type ?p) = REQ_UPDATE_FORWARDTABLE" by (simp add: demo_head_def REQ_UPDATE_FORWARDTABLE_def)
  ultimately show ?thesis
    using wire_updates_links [OF demo_relay_inv _ _ _ _ sd, where a = 0
        and c = "demo_client (sync_started 1 2 junk_packet)" and le = True and en = demo_env]
      sync_started_ready(1) [of True 1 2 junk_packet] sync_started_ready(2) [of 1 2 junk_packet]
    by (auto simp: demo_client_def SERVER_PACKET_HEAD_def SERVER_PACKET_TAIL_def demo_relay_def demo_abs Let_def)
qed

theorem disconnect_logs_out_witness:
  "\<exists>s1 s2. relay_handle demo_env demo_relay (Tcp (Ev_Recv True 0 (- 1) [])) = Inr (s1, [Out_Tcp (Uv_Close 0)])
    \<and> relay_handle demo_env s1 (Tcp (Ev_After_Close 0)) = Inr (s2, [])
    \<and> links (m_pUdpServer_obj s2) = {} \<and> address (m_pUdpServer_obj s2) = [1 \<mapsto> demo_addr 1]"
  using disconnect_logs_out [OF demo_relay_inv, of 1 "\<lparr>tcpClientCtx = 0, ex_userId = 2\<rparr>"
      "demo_client (sync_started 1 2 junk_packet)" "- 1" demo_env True "[]"]
  by (fastforce simp: demo_relay_def demo_tcp_def demo_bound_def demo_client_def demo_abs)

end
