(* ===== verification/Ip_Address.thy ===== *)
theory Ip_Address
  imports Net_Base Udp_Handle
begin

text \<open>
  IPv4 addresses as text: \<open>simple_uv/common.cpp\<close>, and the part of libuv's \<open>inet.c\<close> and \<open>uv-common.c\<close> that
  the program reaches through \<open>uv_ip4_addr\<close>. The byte order of the host is the parameter \<open>le\<close>.
\<close>

unbundle bit_operations_syntax

section \<open>Decimal numbers\<close>

text \<open>\<open>std::to_string\<close> of an unsigned number.\<close>

definition digit_char :: "nat \<Rightarrow> char" where
  "digit_char d = char_of (48 + d)"

fun to_string :: "nat \<Rightarrow> string" where
  "to_string n = (if n < 10 then [digit_char n] else to_string (n div 10) @ [digit_char (n mod 10)])"

declare to_string.simps [simp del]

text \<open>\<open>strchr(digits, ch)\<close> and the distance from \<open>digits\<close>.\<close>

definition digit_value :: "char \<Rightarrow> nat option" where
  "digit_value c = (let n = of_char c :: nat in if 48 \<le> n \<and> n \<le> 57 then Some (n - 48) else None)"

lemma digit_value_digit [simp]: "d < 10 \<Longrightarrow> digit_value (digit_char d) = Some d"
  by (simp add: digit_value_def digit_char_def Let_def)

lemma digit_char_simps [simp]: "d < 10 \<Longrightarrow> digit_char d \<noteq> CHR ''.''"
  using digit_value_digit [of d] by (auto simp: digit_value_def)

text \<open>A number of at most three digits.\<close>

lemma to_string_octet:
  assumes "n < 1000"
  shows "to_string n = (if n < 10 then [digit_char n]
    else if n < 100 then [digit_char (n div 10), digit_char (n mod 10)]
    else [digit_char (n div 100), digit_char (n div 10 mod 10), digit_char (n mod 10)])"
proof -
  have "n div 10 div 10 = n div 100" by (simp add: div_mult2_eq [symmetric])
  moreover have "n div 10 < 10 \<longleftrightarrow> n < 100" "n div 100 < 10" using assms by auto
  ultimately show ?thesis
    by (simp add: to_string.simps [of n] to_string.simps [of "n div 10"] to_string.simps [of "n div 100"])
qed

section \<open>Addresses as strings\<close>

definition octet :: "nat \<Rightarrow> u32 \<Rightarrow> nat" where
  "octet i ip = unat (drop_bit (8 * i) (ip AND push_bit (8 * i) 0xff))"

definition ip_int2string :: "bool \<Rightarrow> u32 \<Rightarrow> string" where
  "ip_int2string le ip =
     (if le then to_string (octet 0 ip) @ ''.'' @ to_string (octet 1 ip) @ ''.'' @ to_string (octet 2 ip) @ ''.''
        @ to_string (octet 3 ip)
      else to_string (octet 3 ip) @ ''.'' @ to_string (octet 2 ip) @ ''.'' @ to_string (octet 1 ip) @ ''.''
        @ to_string (octet 0 ip))"

definition port_ntohs :: "bool \<Rightarrow> u16 \<Rightarrow> u16" where
  "port_ntohs le port = (if le then bswap16 port else port)"

text \<open>
  The \<open>stringstream\<close> of \<open>ip_string2int\<close>: what is left of it and its two flags. The extraction of an
  \<open>int\<close> leaves the variable alone if the stream is not good or has only white space left, sets it to zero if no digit
  follows, and to the nearest bound if the number does not fit.
\<close>

record stream =
  ss_rest :: string
  ss_eof :: bool
  ss_fail :: bool

definition is_space :: "char \<Rightarrow> bool" where
  "is_space c \<longleftrightarrow> c \<in> {CHR '' '', CHR 0x09, CHR 0x0A, CHR 0x0B, CHR 0x0C, CHR 0x0D}"

definition is_digit :: "char \<Rightarrow> bool" where
  "is_digit c \<longleftrightarrow> digit_value c \<noteq> None"

definition number_value :: "string \<Rightarrow> nat" where
  "number_value ds = foldl (\<lambda>n c. 10 * n + the (digit_value c)) 0 ds"

text \<open>The sentry of an extraction: \<open>None\<close> when nothing is to be read.\<close>

definition ss_sentry :: "stream \<Rightarrow> stream \<times> bool" where
  "ss_sentry s = (
     if ss_eof s \<or> ss_fail s then (s\<lparr>ss_fail := True\<rparr>, False)
     else let r = dropWhile is_space (ss_rest s)
          in if r = [] then (s\<lparr>ss_rest := [], ss_eof := True, ss_fail := True\<rparr>, False)
             else (s\<lparr>ss_rest := r\<rparr>, True))"

definition ss_get_int :: "int \<Rightarrow> stream \<Rightarrow> stream \<times> int" where
  "ss_get_int temp s = (case ss_sentry s of
       (s, False) \<Rightarrow> (s, temp)
     | (s, True) \<Rightarrow>
         let r = ss_rest s;
             neg = (hd r = CHR ''-'');
             r = (if hd r = CHR ''-'' \<or> hd r = CHR ''+'' then tl r else r);
             ds = takeWhile is_digit r; r = dropWhile is_digit r;
             v = (if neg then - int (number_value ds) else int (number_value ds));
             s = s\<lparr>ss_rest := r, ss_eof := (r = [])\<rparr>
         in if ds = [] then (s\<lparr>ss_fail := True\<rparr>, 0)
            else if v > 2 ^ 31 - 1 then (s\<lparr>ss_fail := True\<rparr>, 2 ^ 31 - 1)
            else if v < - (2 ^ 31) then (s\<lparr>ss_fail := True\<rparr>, - (2 ^ 31))
            else (s, v))"

definition ss_get_char :: "stream \<Rightarrow> stream" where
  "ss_get_char s = (case ss_sentry s of
       (s, False) \<Rightarrow> s
     | (s, True) \<Rightarrow> s\<lparr>ss_rest := tl (ss_rest s)\<rparr>)"

text \<open>
  The loop of \<open>ip_string2int\<close> in its iteration \<open>i\<close>. From the fifth on it shifts by a negative number,
  and a shift of a number too large for its place is undefined; before the first number \<open>temp\<close> is
  not set.
\<close>

function string2int_loop :: "nat \<Rightarrow> stream \<Rightarrow> int option \<Rightarrow> u32 \<Rightarrow> u32 outcome" where
  "string2int_loop i s temp res = (
     if ss_eof s then Inr res
     else let (s', v) = ss_get_int (case temp of None \<Rightarrow> 0 | Some t \<Rightarrow> t) s in
       if temp = None \<and> \<not> snd (ss_sentry s) then Inl Indeterminate_Value
       else if 3 < i \<or> v < 0 \<or> v * 2 ^ (24 - 8 * i) \<ge> 2 ^ 32 then Inl Shift_Out_Of_Range
       else string2int_loop (i + 1) (ss_get_char s') (Some v) (res OR push_bit (24 - 8 * i) (of_int v)))"
  by pat_completeness auto

termination by (relation "measure (\<lambda>(i, _). 4 - i)") auto

declare string2int_loop.simps [simp del]

definition ip_string2int :: "bool \<Rightarrow> string \<Rightarrow> u32 outcome" where
  "ip_string2int le ip = map_outcome (\<lambda>res. if le then bswap32 res else res)
     (string2int_loop 0 \<lparr>ss_rest = ip, ss_eof = False, ss_fail = False\<rparr> None 0)"

section \<open>The libuv side\<close>

text \<open>
  \<open>inet_ntop4\<close> and \<open>inet_pton4\<close> of libuv's \<open>inet.c\<close>; \<open>None\<close> is an error code. The four bytes are those at \<open>src\<close>
  and \<open>dst\<close>, \<open>sz\<close> the length of the buffer of the string with its final zero.
\<close>

definition inet_ntop4 :: "bytes \<Rightarrow> nat \<Rightarrow> string option" where
  "inet_ntop4 src sz =
     (let tmp = to_string (unat (src ! 0)) @ ''.'' @ to_string (unat (src ! 1)) @ ''.''
            @ to_string (unat (src ! 2)) @ ''.'' @ to_string (unat (src ! 3))
      in if sz \<le> length tmp then None else Some tmp)"

fun pton4_loop :: "string \<Rightarrow> bool \<Rightarrow> nat \<Rightarrow> nat list \<Rightarrow> nat \<Rightarrow> nat list option" where
  "pton4_loop [] saw_digit octets tmp tp = (if octets < 4 then None else Some (tmp @ [tp]))"
| "pton4_loop (ch # src) saw_digit octets tmp tp = (case digit_value ch of
       Some d \<Rightarrow> let nw = tp * 10 + d in
         if saw_digit \<and> tp = 0 then None
         else if nw > 255 then None
         else if \<not> saw_digit then (if octets + 1 > 4 then None else pton4_loop src True (octets + 1) tmp nw)
         else pton4_loop src saw_digit octets tmp nw
     | None \<Rightarrow>
         if ch = CHR ''.'' \<and> saw_digit
         then (if octets = 4 then None else pton4_loop src False octets (tmp @ [tp]) 0)
         else None)"

definition inet_pton4 :: "string \<Rightarrow> bytes option" where
  "inet_pton4 src = map_option (map of_nat) (pton4_loop src False 0 [] 0)"

text \<open>\<open>uv_ip4_addr\<close>; the second component says whether it succeeded.\<close>

definition AF_INET :: u16 where "AF_INET = 2"

definition uv_ip4_addr :: "bool \<Rightarrow> string \<Rightarrow> u16 \<Rightarrow> sockaddr_in \<times> bool" where
  "uv_ip4_addr le ip port = (
     let addr = \<lparr>sin_family = AF_INET, sin_port = htons le port, sin_addr = 0, sin_zero = replicate 8 0\<rparr>
     in case inet_pton4 ip of None \<Rightarrow> (addr, False)
        | Some b \<Rightarrow> (addr\<lparr>sin_addr := of_nat (from_le (if le then b else rev b))\<rparr>, True))"

section \<open>Lemmas\<close>

lemma octet_eq: "octet i ip = unat ip div 2 ^ (8 * i) mod 256"
proof -
  have m: "(0xff :: u32) = mask 8" by (simp add: mask_eq_exp_minus_1)
  have "drop_bit (8 * i) (ip AND push_bit (8 * i) (mask 8)) = take_bit 8 (drop_bit (8 * i) ip)"
    by (rule bit_word_eqI) (auto simp: bit_simps dest: bit_imp_le_length)
  then have "drop_bit (8 * i) (ip AND push_bit (8 * i) 0xff) = take_bit 8 (drop_bit (8 * i) ip)"
    unfolding m .
  then show ?thesis unfolding octet_def
    using unsigned_less [of ip, where 'a = nat]
    by (simp only: unsigned_take_bit_eq unsigned_drop_bit_eq) (simp add: take_bit_eq_mod drop_bit_eq_div)
qed

lemma octet_bound [simp]: "octet i ip < 256"
  by (simp add: octet_eq)

lemma pton4_number:
  assumes "n < 256" "octets < 4"
  shows "pton4_loop (to_string n @ r) False octets tmp 0 = pton4_loop r True (octets + 1) tmp n"
proof -
  consider "n < 10" | "10 \<le> n" "n < 100" | "100 \<le> n" by linarith
  then show ?thesis
  proof cases
    case 3
    have "n div 100 = n div 10 div 10" by (simp add: div_mult2_eq [symmetric])
    then have "n div 100 * 10 + n div 10 mod 10 = n div 10" "n div 10 * 10 + n mod 10 = n"
      by (simp_all only: div_mult_mod_eq)
    moreover have "n div 100 \<noteq> 0" "n div 10 \<le> 255" "n div 100 < 10" "n div 10 \<noteq> 0" using 3 assms(1) by auto
    ultimately show ?thesis using assms 3 by (simp add: to_string_octet Let_def)
  next
    case 2
    have "n div 10 * 10 + n mod 10 = n" "n div 10 < 10" "n div 10 \<noteq> 0" using 2 by auto
    then show ?thesis using assms 2 by (simp add: to_string_octet Let_def)
  qed (use assms in \<open>simp add: to_string_octet Let_def\<close>)
qed

lemma digit_value_dot [simp]: "digit_value CHR ''.'' = None"
  by (simp add: digit_value_def)

lemma inet_pton4_dotted:
  assumes "a < 256" "b < 256" "c < 256" "d < 256"
  shows "inet_pton4 (to_string a @ ''.'' @ to_string b @ ''.'' @ to_string c @ ''.'' @ to_string d)
    = Some [of_nat a, of_nat b, of_nat c, of_nat d]"
proof -
  have "pton4_loop (to_string d) False 3 [a, b, c] 0 = Some [a, b, c, d]"
    using pton4_number [OF assms(4), of 3 "[]"] by simp
  then show ?thesis using assms by (simp add: inet_pton4_def pton4_number del: One_nat_def)
qed

lemma is_digit_digit [simp]: "d < 10 \<Longrightarrow> is_digit (digit_char d)" "\<not> is_digit CHR ''.''"
  by (simp_all add: is_digit_def)

lemma digit_not_special:
  assumes "is_digit c"
  shows "\<not> is_space c" "c \<noteq> CHR ''-''" "c \<noteq> CHR ''+''"
  using assms by (auto simp: is_digit_def digit_value_def is_space_def)

lemma to_string_digits: "n < 256 \<Longrightarrow> \<forall>c\<in>set (to_string n). is_digit c" "n < 256 \<Longrightarrow> to_string n \<noteq> []"
  by (auto simp: to_string_octet)

lemma number_value_to_string: "n < 256 \<Longrightarrow> number_value (to_string n) = n"
proof -
  assume n: "n < 256"
  have "n div 100 = n div 10 div 10" by (simp add: div_mult2_eq [symmetric])
  then have "10 * (n div 100) + n div 10 mod 10 = n div 10" "10 * (n div 10) + n mod 10 = n"
    by (simp_all only: mult_div_mod_eq)
  then show ?thesis using n by (simp add: number_value_def to_string_octet)
qed

lemma ss_get_int_number:
  assumes "n < 256" "r = [] \<or> \<not> is_digit (hd r)"
  shows "ss_get_int t \<lparr>ss_rest = to_string n @ r, ss_eof = False, ss_fail = False\<rparr>
    = (\<lparr>ss_rest = r, ss_eof = (r = []), ss_fail = False\<rparr>, int n)"
    "snd (ss_sentry \<lparr>ss_rest = to_string n @ r, ss_eof = False, ss_fail = False\<rparr>)"
proof -
  obtain c cs where c: "to_string n = c # cs" using to_string_digits(2) [OF assms(1)] by (cases "to_string n") auto
  have d: "is_digit c" "\<forall>x\<in>set cs. is_digit x" using to_string_digits(1) [OF assms(1)] c by auto
  have t: "takeWhile is_digit (c # cs @ r) = c # cs" "dropWhile is_digit (c # cs @ r) = r"
    using d assms(2) by (cases r; simp add: takeWhile_append dropWhile_append)+
  have v: "number_value (c # cs) = n" using number_value_to_string [OF assms(1)] c by simp
  show "ss_get_int t \<lparr>ss_rest = to_string n @ r, ss_eof = False, ss_fail = False\<rparr>
    = (\<lparr>ss_rest = r, ss_eof = (r = []), ss_fail = False\<rparr>, int n)"
    using digit_not_special [OF d(1)] assms(1) t by (simp add: ss_get_int_def ss_sentry_def c Let_def v)
  show "snd (ss_sentry \<lparr>ss_rest = to_string n @ r, ss_eof = False, ss_fail = False\<rparr>)"
    using digit_not_special [OF d(1)] by (simp add: ss_sentry_def c)
qed

lemma string2int_step:
  assumes "i < 4" "n < 256"
  shows "r \<noteq> [] \<Longrightarrow> string2int_loop i \<lparr>ss_rest = to_string n @ CHR ''.'' # r, ss_eof = False, ss_fail = False\<rparr> t res
    = string2int_loop (i + 1) \<lparr>ss_rest = r, ss_eof = False, ss_fail = False\<rparr> (Some (int n))
        (res OR push_bit (24 - 8 * i) (of_nat n))"
    "string2int_loop i \<lparr>ss_rest = to_string n, ss_eof = False, ss_fail = False\<rparr> t res
    = Inr (res OR push_bit (24 - 8 * i) (of_nat n))"
proof -
  have "int n * 2 ^ (24 - 8 * i) \<le> 255 * 2 ^ 24"
    using assms(2) by (intro mult_mono power_increasing) auto
  then have v: "\<not> (3 < i \<or> int n < 0 \<or> int n * 2 ^ (24 - 8 * i) \<ge> 2 ^ 32)" using assms(1) by simp
  have "ss_get_char \<lparr>ss_rest = CHR ''.'' # r, ss_eof = False, ss_fail = False\<rparr>
    = \<lparr>ss_rest = r, ss_eof = False, ss_fail = False\<rparr>"
    by (simp add: ss_get_char_def ss_sentry_def is_space_def)
  then show "string2int_loop i \<lparr>ss_rest = to_string n @ CHR ''.'' # r, ss_eof = False, ss_fail = False\<rparr> t res
    = string2int_loop (i + 1) \<lparr>ss_rest = r, ss_eof = False, ss_fail = False\<rparr> (Some (int n))
        (res OR push_bit (24 - 8 * i) (of_nat n))" if "r \<noteq> []"
    using ss_get_int_number [OF assms(2), of "CHR ''.'' # r"] v
    by (subst string2int_loop.simps) simp
  have "ss_eof (ss_get_char \<lparr>ss_rest = [], ss_eof = True, ss_fail = False\<rparr>)"
    by (simp add: ss_get_char_def ss_sentry_def)
  then show "string2int_loop i \<lparr>ss_rest = to_string n, ss_eof = False, ss_fail = False\<rparr> t res
    = Inr (res OR push_bit (24 - 8 * i) (of_nat n))"
    using ss_get_int_number [OF assms(2), of "[]"] v
    by (subst string2int_loop.simps) (simp add: string2int_loop.simps [of "Suc i"])
qed

lemma ip_string2int_dotted:
  assumes "a < 256" "b < 256" "c < 256" "d < 256"
  shows "ip_string2int le (to_string a @ ''.'' @ to_string b @ ''.'' @ to_string c @ ''.'' @ to_string d)
    = Inr (let n = push_bit 24 (of_nat a) OR push_bit 16 (of_nat b) OR push_bit 8 (of_nat c) OR of_nat d
        in if le then bswap32 n else n)"
proof -
  note ne = to_string_digits(2) [OF assms(2)] to_string_digits(2) [OF assms(3)] to_string_digits(2) [OF assms(4)]
  note 1 = string2int_step(1) [of 0 a "to_string b @ CHR ''.'' # to_string c @ CHR ''.'' # to_string d" None 0]
  note 2 = string2int_step(1) [of 1 b "to_string c @ CHR ''.'' # to_string d"]
  note 3 = string2int_step(1) [of 2 c "to_string d"]
  note 4 = string2int_step(2) [of 3 d]
  show ?thesis using assms ne
    by (simp add: ip_string2int_def 1 2 3 4 Let_def or.assoc del: One_nat_def)
qed

lemma of_nat_octet_u8: "(of_nat (octet i ip) :: u8) = of_nat (unat ip div 256 ^ i)"
proof -
  have "(2 :: nat) ^ (8 * i) = 256 ^ i" by (simp add: power_mult)
  then show ?thesis by (simp add: octet_eq word_of_nat_eq_iff take_bit_eq_mod)
qed

lemma le_bytes_octets: "le_bytes 4 (unat ip) = map (\<lambda>i. of_nat (octet i ip)) [0, 1, 2, 3]"
  by (simp add: le_bytes_def of_nat_octet_u8 upt_rec)

lemma of_nat_octet: "(of_nat (octet i ip) :: u32) = take_bit 8 (drop_bit (8 * i) ip)"
proof -
  have m: "(0xff :: u32) = mask 8" by (simp add: mask_eq_exp_minus_1)
  have "of_nat (octet i ip) = drop_bit (8 * i) (ip AND push_bit (8 * i) (mask 8))" unfolding octet_def m by simp
  also have "\<dots> = take_bit 8 (drop_bit (8 * i) ip)"
    by (rule bit_word_eqI) (auto simp: bit_simps dest: bit_imp_le_length)
  finally show ?thesis .
qed

lemma join_octets:
  "push_bit 24 (of_nat (octet 3 ip)) OR push_bit 16 (of_nat (octet 2 ip)) OR push_bit 8 (of_nat (octet 1 ip))
     OR of_nat (octet 0 ip) = (ip :: u32)"
  "bswap32 (push_bit 24 (of_nat (octet 0 ip)) OR push_bit 16 (of_nat (octet 1 ip)) OR push_bit 8 (of_nat (octet 2 ip))
     OR of_nat (octet 3 ip)) = (ip :: u32)"
  unfolding of_nat_octet
  by (rule word32_eqI, unfold bit_index_sets, simp add: bswap32_def bit_simps)+

section \<open>Which texts are addresses\<close>

fun dotted :: "nat list \<Rightarrow> string" where
  "dotted [] = []"
| "dotted [n] = to_string n"
| "dotted (n # m # ns) = to_string n @ ''.'' @ dotted (m # ns)"

lemma dotted_Cons: "ns \<noteq> [] \<Longrightarrow> dotted (n # ns) = to_string n @ ''.'' @ dotted ns"
  by (cases ns) simp_all

lemma to_string_snoc: "0 < n \<Longrightarrow> d < 10 \<Longrightarrow> to_string (n * 10 + d) = to_string n @ [digit_char d]"
  by (subst to_string.simps) simp

lemma digit_value_Some: "digit_value c = Some d \<Longrightarrow> c = digit_char d \<and> d < 10"
  by (auto simp: digit_value_def digit_char_def Let_def split: if_splits)

text \<open>What the loop has read of its current number, and what the rest must then be.\<close>

lemma pton4_loop_Some:
  assumes "pton4_loop src saw octets tmp tp = Some r" "octets = length tmp + (if saw then 1 else 0)"
    "tp < 256" "\<not> saw \<Longrightarrow> tp = 0 \<and> octets < 4" "octets \<le> 4"
  shows "\<exists>ns. ns \<noteq> [] \<and> r = tmp @ ns \<and> length r = 4 \<and> (\<forall>n\<in>set ns. n < 256)
    \<and> (if saw then to_string tp @ src else src) = dotted ns"
  using assms
proof (induction src saw octets tmp tp arbitrary: r rule: pton4_loop.induct)
  case (1 saw octets tmp tp)
  then show ?case by (auto split: if_splits intro!: exI [of _ "[tp]"])
next
  case (2 ch src saw octets tmp tp)
  show ?case
  proof (cases "digit_value ch")
    case (Some d)
    note d = digit_value_Some [OF Some]
    show ?thesis
    proof (cases saw)
      case True
      then have h: "pton4_loop src saw octets tmp (tp * 10 + d) = Some r" "tp \<noteq> 0" "tp * 10 + d < 256"
        using 2(4) Some by (auto simp: Let_def split: if_splits)
      have "\<exists>ns. ns \<noteq> [] \<and> r = tmp @ ns \<and> length r = 4 \<and> (\<forall>n\<in>set ns. n < 256)
        \<and> (if saw then to_string (tp * 10 + d) @ src else src) = dotted ns"
        by (rule 2(3) [OF Some refl]) (use h True 2(5,8) in simp_all)
      then show ?thesis using h True d to_string_snoc [of tp d] by simp
    next
      case False
      then have "pton4_loop src True (octets + 1) tmp d = Some r" "octets + 1 \<le> 4"
        using 2(4,7) Some by (auto simp: Let_def split: if_splits)
      moreover have "to_string d = [ch]" using d by (simp add: to_string.simps)
      ultimately show ?thesis using 2(2) [OF Some refl] 2(5-8) False d by (auto simp: Let_def)
    qed
  next
    case None
    then have r: "ch = CHR ''.''" "saw" "octets \<noteq> 4" "pton4_loop src False octets (tmp @ [tp]) 0 = Some r"
      using 2(4) by (auto split: if_splits)
    then obtain ns where "ns \<noteq> []" "r = (tmp @ [tp]) @ ns" "length r = 4" "\<forall>n\<in>set ns. n < 256" "src = dotted ns"
      using 2(1) [OF None] 2(5-8) by auto
    then show ?thesis using r 2(6) by (intro exI [of _ "tp # ns"]) (simp add: dotted_Cons)
  qed
qed

lemma ip_roundtrip: "ip_string2int le (ip_int2string le ip) = Inr ip"
  by (cases le) (simp_all add: ip_int2string_def ip_string2int_dotted [simplified] join_octets Let_def del: One_nat_def)

lemma uv_ip4_addr_ip_int2string:
  "uv_ip4_addr le (ip_int2string le ip) port = (\<lparr>sin_family = AF_INET, sin_port = htons le port, sin_addr = ip,
     sin_zero = replicate 8 0\<rparr>, True)"
proof -
  have "inet_pton4 (ip_int2string le ip) = Some (if le then le_bytes 4 (unat ip) else rev (le_bytes 4 (unat ip)))"
    by (simp add: ip_int2string_def le_bytes_octets inet_pton4_dotted [simplified])
  then show ?thesis by (simp add: uv_ip4_addr_def Let_def)
qed

section \<open>Properties\<close>

text \<open>
  Property C32. An address survives its way through text: \<open>ip_string2int\<close> reads back what \<open>ip_int2string\<close>
  prints, and the socket address that \<open>uv_ip4_addr\<close> makes of the text holds the address itself,
  whatever the byte order of the host.
\<close>

theorem ip_text_roundtrip:
  "ip_string2int le (ip_int2string le ip) = Inr ip
   \<and> uv_ip4_addr le (ip_int2string le ip) port = (\<lparr>sin_family = AF_INET, sin_port = htons le port, sin_addr = ip,
     sin_zero = replicate 8 0\<rparr>, True)"
  by (simp add: ip_roundtrip uv_ip4_addr_ip_int2string)

text \<open>
  The texts that \<open>inet_pton4\<close> accepts are exactly those with four decimal numbers up to 255
  without leading zeros, separated by dots, and it returns these four bytes.
\<close>

theorem inet_pton4_iff:
  "inet_pton4 src = Some b \<longleftrightarrow> (\<exists>ns. length ns = 4 \<and> (\<forall>n\<in>set ns. n < 256) \<and> src = dotted ns \<and> b = map of_nat ns)"
proof
  assume "inet_pton4 src = Some b"
  then obtain r where r: "pton4_loop src False 0 [] 0 = Some r" "b = map of_nat r" by (auto simp: inet_pton4_def)
  from pton4_loop_Some [OF r(1)] r(2)
  show "\<exists>ns. length ns = 4 \<and> (\<forall>n\<in>set ns. n < 256) \<and> src = dotted ns \<and> b = map of_nat ns" by auto
next
  assume "\<exists>ns. length ns = 4 \<and> (\<forall>n\<in>set ns. n < 256) \<and> src = dotted ns \<and> b = map of_nat ns"
  then obtain w x y z where "w < 256" "x < 256" "y < 256" "z < 256" "src = dotted [w, x, y, z]"
    "b = map of_nat [w, x, y, z]"
    by (auto simp: length_Suc_conv eval_nat_numeral)
  then show "inet_pton4 src = Some b" using inet_pton4_dotted [of w x y z] by simp
qed

theorem inet_pton4_iff_witness: "inet_pton4 ''10.0.0.255'' = Some [10, 0, 0, 255]"
proof -
  have t: "''10.0.0.255'' = dotted [10, 0, 0, 255]"
    by (simp add: to_string_octet digit_char_def char_of_def bit_Suc_0_iff)
  show ?thesis
    by (rule iffD2 [OF inet_pton4_iff], intro exI [of _ "[10, 0, 0, 255]"] conjI, simp, simp, rule t, simp)
qed

text \<open>A text that is no address makes the loop shift by a negative number.\<close>

lemma string2int_failed:
  assumes "ss_fail s" "\<not> ss_eof s"
  shows "string2int_loop i s (Some 0) res
    = (if 3 < i then Inl Shift_Out_Of_Range else string2int_loop (i + 1) s (Some 0) res)"
proof -
  obtain r where s: "s = \<lparr>ss_rest = r, ss_eof = False, ss_fail = True\<rparr>" using assms by (cases s) auto
  show ?thesis unfolding s
    by (subst string2int_loop.simps) (simp add: ss_get_int_def ss_get_char_def ss_sentry_def)
qed

lemma ip_string2int_text: "ip_string2int le ''localhost'' = Inl Shift_Out_Of_Range"
proof -
  let ?s = "\<lparr>ss_rest = ''localhost'', ss_eof = False, ss_fail = True\<rparr>"
  have "string2int_loop 0 (?s\<lparr>ss_fail := False\<rparr>) None 0 = string2int_loop 1 ?s (Some 0) 0"
    by (subst string2int_loop.simps) (simp add: ss_get_int_def ss_get_char_def ss_sentry_def is_space_def
        is_digit_def digit_value_def Let_def)
  also have "\<dots> = Inl Shift_Out_Of_Range"
    using string2int_failed [of ?s 1 0] string2int_failed [of ?s 2 0] string2int_failed [of ?s 3 0]
      string2int_failed [of ?s 4 0] by (simp del: One_nat_def)
  finally show ?thesis by (simp add: ip_string2int_def)
qed

end
