(* ===== verification/Udp_Module.thy ===== *)
theory Udp_Module
  imports Media_Server Ip_Address
begin

text \<open>
  The client's UDP module (\<open>client_network/udp_module.cpp\<close>, \<open>udp_module.h\<close>) with its timers
  (\<open>timer_module.cpp\<close>, \<open>timer_module.h\<close>) and the parts of \<open>tcp_module.cpp\<close> and \<open>network_module.cpp\<close> that take
  part in finding a direct path to a peer: logging in, punching through to a peer in the local
  network or at its public address, falling back to the relay, and sending and receiving media. The
  Linux variant of the code.
\<close>

section \<open>State\<close>

definition PUNCH_HOLE_MSG1 :: nat where "PUNCH_HOLE_MSG1 = 0x74"
definition PUNCH_HOLE_MSG2 :: nat where "PUNCH_HOLE_MSG2 = 0x75"
definition heartBeatTime :: u64 where "heartBeatTime = 10000"

datatype P2PStatus = Pending | LAN_success | WAN_success | RequireRelay

text \<open>An address that was never set is \<open>None\<close>.\<close>

record ClientCtx =
  WANAddr :: "sockaddr_in option"
  LANAddr :: "sockaddr_in option"
  p2p_status :: P2PStatus

text \<open>A running timer with its context; \<open>tm_repeat\<close> is the interval of the libuv timer.\<close>

record TimerCtx =
  tm_msg :: UdpPacket
  repeatTimes :: int
  tm_repeat :: u64

text \<open>
  The UDP module with its timer manager; of \<open>ClientNetwork\<close> and the TCP module it holds \<open>m_bInRoom\<close>,
  whether there is a listener, and \<open>m_setFailRequest\<close> with the number of its timers.
\<close>

record udp_module = udp_handle +
  m_serverAddr :: sockaddr_in
  um_userId :: u32
  um_sessionId :: u32
  m_mapPeerClientCtx :: "(u32 \<times> ClientCtx) list"
  m_mapTimer :: "(u8 \<times> TimerCtx) list"
  m_mapP2PTimer :: "(u32 \<times> TimerCtx) list"
  m_bLoginSuccess :: bool
  m_bEnableP2P :: bool
  m_bInRoom :: bool
  m_pVoipDataListener :: bool
  m_setFailRequest :: "u32 list"
  retry_timers :: nat

datatype module_out =
    Udp_Out udp_out
  | Voip_Data bytes u32
  | Get_P2PAddr u32
  | Add_Forward_Node u32

type_synonym module_result = "(udp_module \<times> module_out list) outcome"

section \<open>Timers\<close>

definition generateTimerCtx :: "UdpPacket \<Rightarrow> int \<Rightarrow> u8 \<Rightarrow> u64 \<Rightarrow> TimerCtx" where
  "generateTimerCtx msg n index delay = \<lparr>tm_msg = msg\<lparr>up_index := index\<rparr>, repeatTimes = n, tm_repeat = delay\<rparr>"

text \<open>\<open>rs\<close> are the values of \<open>rand\<close>, cut to a \<open>char\<close>.\<close>

definition gernerateLoginTimer :: "u8 list \<Rightarrow> UdpPacket \<Rightarrow> int \<Rightarrow> u64 \<Rightarrow> udp_module \<Rightarrow> udp_module outcome" where
  "gernerateLoginTimer rs msg n delay s = (
     case dropWhile (\<lambda>i. map_of (m_mapTimer s) i \<noteq> None) rs of
       [] \<Rightarrow> Inl No_Return
     | index # _ \<Rightarrow> Inr (s\<lparr>m_mapTimer := AList.update index (generateTimerCtx msg n index delay) (m_mapTimer s)\<rparr>))"

definition gernerateP2PTimer :: "UdpPacket \<Rightarrow> int \<Rightarrow> u64 \<Rightarrow> udp_module \<Rightarrow> udp_module" where
  "gernerateP2PTimer msg n delay s =
     s\<lparr>m_mapP2PTimer := AList.update (up_dstUserId msg) (generateTimerCtx msg n 0 delay) (m_mapP2PTimer s)\<rparr>"

definition removeTimer :: "u8 \<Rightarrow> udp_module \<Rightarrow> udp_module" where
  "removeTimer index s = s\<lparr>m_mapTimer := AList.delete index (m_mapTimer s)\<rparr>"

definition removeP2PTimer :: "u32 \<Rightarrow> udp_module \<Rightarrow> udp_module" where
  "removeP2PTimer index s = s\<lparr>m_mapP2PTimer := AList.delete index (m_mapP2PTimer s)\<rparr>"

definition clearP2PTimer :: "udp_module \<Rightarrow> udp_module" where
  "clearP2PTimer s = fold removeP2PTimer (map fst (m_mapP2PTimer s)) s"

text \<open>The fields that are not set are those of the uninitialised packet \<open>junk\<close>.\<close>

definition punchhole_msg :: "UdpPacket \<Rightarrow> u32 \<Rightarrow> bool \<Rightarrow> udp_module \<Rightarrow> UdpPacket" where
  "punchhole_msg junk target d s = junk\<lparr>up_userId := um_userId s, up_dstUserId := target,
     up_type := of_nat PUNCH_HOLE_MSG1, up_del := d\<rparr>"

definition tryLANP2PConnect :: "UdpPacket \<Rightarrow> u32 \<Rightarrow> udp_module \<Rightarrow> udp_module" where
  "tryLANP2PConnect junk target s =
     gernerateP2PTimer (punchhole_msg junk target False s) 4 25 (removeP2PTimer target s)"

definition tryWANP2PConnect :: "UdpPacket \<Rightarrow> u32 \<Rightarrow> udp_module \<Rightarrow> udp_module" where
  "tryWANP2PConnect junk target s =
     gernerateP2PTimer (punchhole_msg junk target True s) 10 150 (removeP2PTimer target s)"

text \<open>\<open>send\<close> of the client goes to the server.\<close>

definition module_send :: "bytes \<Rightarrow> sockaddr_in \<Rightarrow> udp_module \<Rightarrow> udp_module \<times> module_out list" where
  "module_send d a s = (let (s, out) = udp_send d a s in (s, map Udp_Out out))"

text \<open>The callbacks of the timers, with the context in \<open>timer->data\<close>.\<close>

definition LoginTimer :: "TimerCtx \<Rightarrow> udp_module \<Rightarrow> udp_module \<times> module_out list" where
  "LoginTimer ctx s = (
     let i = up_index (tm_msg ctx);
         ctx = (if m_bLoginSuccess s then ctx\<lparr>tm_repeat := heartBeatTime\<rparr> else ctx);
         (s, out) = module_send (udp_bytes (tm_msg ctx)) (m_serverAddr s) s;
         ctx = ctx\<lparr>repeatTimes := repeatTimes ctx - 1\<rparr>;
         s = s\<lparr>m_mapTimer := AList.update i ctx (m_mapTimer s)\<rparr>
     in (if repeatTimes ctx = 0 then removeTimer i s else s, out))"

definition P2PTimer :: "UdpPacket \<Rightarrow> TimerCtx \<Rightarrow> udp_module \<Rightarrow> module_result" where
  "P2PTimer junk ctx s = (
     let dst = up_dstUserId (tm_msg ctx) in
     case map_of (m_mapPeerClientCtx s) dst of
       None \<Rightarrow> Inr (removeP2PTimer dst s, [])
     | Some it \<Rightarrow> (case (if up_del (tm_msg ctx) then WANAddr it else LANAddr it) of
         None \<Rightarrow> Inl Indeterminate_Value
       | Some addr \<Rightarrow>
           let (s, out) = module_send (udp_bytes (tm_msg ctx)) addr s in
           if repeatTimes ctx \<noteq> 0
           then Inr (s\<lparr>m_mapP2PTimer := AList.update dst (ctx\<lparr>repeatTimes := repeatTimes ctx - 1\<rparr>) (m_mapP2PTimer s)\<rparr>, out)
           else if \<not> up_del (tm_msg ctx) then Inr (tryWANP2PConnect junk dst s, out)
           else Inr ((removeP2PTimer dst s)\<lparr>m_mapPeerClientCtx :=
                  AList.update dst (it\<lparr>p2p_status := RequireRelay\<rparr>) (m_mapPeerClientCtx s)\<rparr>,
                out @ [Add_Forward_Node dst])))"

section \<open>Packets\<close>

definition OnRecvMediaData :: "bytes \<Rightarrow> udp_module \<Rightarrow> module_result" where
  "OnRecvMediaData buf s = (if length buf < 4 then Inl Out_Of_Bounds else
     let userid = of_nat (from_le (take 4 buf)) in
     if map_of (m_mapPeerClientCtx s) userid = None then Inr (s, [])
     else Inr (s, if m_pVoipDataListener s then [Voip_Data (drop 4 buf) userid] else []))"

definition OnRecvPunchHoleMsg1 :: "UdpPacket \<Rightarrow> sockaddr_in \<Rightarrow> udp_module \<Rightarrow> udp_module \<times> module_out list" where
  "OnRecvPunchHoleMsg1 packet srcAddr s = (
     if up_dstUserId packet \<noteq> um_userId s then (s, [])
     else module_send (udp_bytes (packet\<lparr>up_type := of_nat PUNCH_HOLE_MSG2\<rparr>)) srcAddr s)"

definition OnRecvPunchHoleMsg2 :: "UdpPacket \<Rightarrow> sockaddr_in \<Rightarrow> udp_module \<Rightarrow> udp_module" where
  "OnRecvPunchHoleMsg2 packet srcAddr s = (
     let u = up_dstUserId packet;
         s = removeP2PTimer u s
     in case map_of (m_mapPeerClientCtx s) u of
          None \<Rightarrow> s
        | Some it \<Rightarrow> s\<lparr>m_mapPeerClientCtx := AList.update u
            (if \<not> up_del packet then it\<lparr>p2p_status := LAN_success, LANAddr := Some srcAddr\<rparr>
             else it\<lparr>p2p_status := WAN_success\<rparr>) (m_mapPeerClientCtx s)\<rparr>)"

definition module_ParsePacket :: "UdpPacket \<Rightarrow> bytes \<Rightarrow> sockaddr_in \<Rightarrow> udp_module \<Rightarrow> module_result" where
  "module_ParsePacket packet buf srcAddr s = (
     let ty = unat (up_type packet) in
     if ty < MULTI_FORWARD_MSG then OnRecvMediaData buf s
     else if ty = ACK_LOGIN then Inr (s\<lparr>m_bLoginSuccess := True\<rparr>, [])
     else if ty = PUNCH_HOLE_MSG1 then Inr (OnRecvPunchHoleMsg1 packet srcAddr s)
     else if ty = PUNCH_HOLE_MSG2 then Inr (OnRecvPunchHoleMsg2 packet srcAddr s, [])
     else Inr (s, []))"

section \<open>Messages\<close>

definition OnRspP2PAddrMsg :: "bool \<Rightarrow> UdpPacket \<Rightarrow> CRspP2PAddrMsg \<Rightarrow> udp_module \<Rightarrow> udp_module" where
  "OnRspP2PAddrMsg le junk msg s = (
     let u = rsp_dstUserId msg in
     case map_of (m_mapPeerClientCtx s) u of
       None \<Rightarrow> s
     | Some it \<Rightarrow>
         let ip = ip_int2string le (rsp_dstIp msg);
             WANUdpPort = htons le (rsp_dstPort msg);
             LANUdpPort = htons le (rsp_dstLocalUdpPort msg);
             it = it\<lparr>WANAddr := Some (fst (uv_ip4_addr le ip WANUdpPort)),
               LANAddr := Some (fst (uv_ip4_addr le ''255.255.255.255'' LANUdpPort))\<rparr>
         in tryLANP2PConnect junk u (s\<lparr>m_mapPeerClientCtx := AList.update u it (m_mapPeerClientCtx s)\<rparr>))"

text \<open>Linux: media goes out by \<open>sendmsg\<close>, past the byte counter.\<close>

fun send_direct :: "bytes \<Rightarrow> (u32 \<times> ClientCtx) list \<Rightarrow> (module_out list \<times> bool) outcome" where
  "send_direct d [] = Inr ([], False)"
| "send_direct d ((_, c) # cs) = bind_outcome (send_direct d cs) (\<lambda>(out, requireRelay).
     case p2p_status c of
       WAN_success \<Rightarrow> (case WANAddr c of None \<Rightarrow> Inl Indeterminate_Value
         | Some a \<Rightarrow> Inr (Udp_Out (Sendmsg d a) # out, requireRelay))
     | LAN_success \<Rightarrow> (case LANAddr c of None \<Rightarrow> Inl Indeterminate_Value
         | Some a \<Rightarrow> Inr (Udp_Out (Sendmsg d a) # out, requireRelay))
     | _ \<Rightarrow> Inr (out, True))"

definition OnSendMediaMsg :: "bytes \<Rightarrow> udp_module \<Rightarrow> module_result" where
  "OnSendMediaMsg base s = (
     if \<not> m_bEnableP2P s then Inr (s, [Udp_Out (Sendmsg base (m_serverAddr s))])
     else map_outcome (\<lambda>(out, requireRelay).
       (s, out @ (if requireRelay then [Udp_Out (Sendmsg base (m_serverAddr s))] else [])))
       (send_direct base (m_mapPeerClientCtx s)))"

definition OnUdpLoginMsg :: "u8 list \<Rightarrow> UdpPacket \<Rightarrow> u16 \<Rightarrow> udp_module \<Rightarrow> udp_module outcome" where
  "OnUdpLoginMsg rs junk lport s = gernerateLoginTimer rs
     (junk\<lparr>up_userId := um_userId s, up_type := of_nat LOGIN_MSG, up_dstUserId := um_sessionId s,
       up_localPort := lport\<rparr>) 0 300 s"

definition OnRemoveForwardNodeMsg :: "u32 \<Rightarrow> udp_module \<Rightarrow> udp_module" where
  "OnRemoveForwardNodeMsg u s =
     removeP2PTimer u (s\<lparr>m_mapPeerClientCtx := AList.delete u (m_mapPeerClientCtx s)\<rparr>)"

definition module_OnLeaveRoomMsg :: "udp_module \<Rightarrow> udp_module" where
  "module_OnLeaveRoomMsg s = (clearP2PTimer (s\<lparr>m_mapPeerClientCtx := []\<rparr>))\<lparr>m_bInRoom := False\<rparr>"

definition OnAddForwardNodeMsg :: "u32 \<Rightarrow> udp_module \<Rightarrow> udp_module \<times> module_out list" where
  "OnAddForwardNodeMsg u s = (
     if map_of (m_mapPeerClientCtx s) u \<noteq> None then (s, [])
     else let ctx = \<lparr>WANAddr = None, LANAddr = None, p2p_status = (if m_bEnableP2P s then Pending else RequireRelay)\<rparr>;
              s = s\<lparr>m_mapPeerClientCtx := AList.update u ctx (m_mapPeerClientCtx s)\<rparr>
          in (s, [if m_bEnableP2P s then Get_P2PAddr u else Add_Forward_Node u]))"

text \<open>
  The TCP module passes a successful answer on and puts a failed one on the list of requests that
  its timer repeats after a second.
\<close>

definition OnTcpRspP2PAddr :: "bool \<Rightarrow> UdpPacket \<Rightarrow> CRspP2PAddrMsg \<Rightarrow> udp_module \<Rightarrow> udp_module" where
  "OnTcpRspP2PAddr le junk msg s = (
     if rsp_success msg then OnRspP2PAddrMsg le junk msg s
     else if \<not> m_bInRoom s \<or> map_of (m_mapPeerClientCtx s) (rsp_dstUserId msg) = None then s
     else s\<lparr>m_setFailRequest := List.insert (rsp_dstUserId msg) (m_setFailRequest s), retry_timers := retry_timers s + 1\<rparr>)"

definition RetryTimer :: "udp_module \<Rightarrow> udp_module \<times> module_out list" where
  "RetryTimer s = (s\<lparr>m_setFailRequest := [], retry_timers := retry_timers s - 1\<rparr>, map Get_P2PAddr (m_setFailRequest s))"

section \<open>Events\<close>

text \<open>
  What the loop of the client runs. A timer only fires while it is running. \<open>Set_P2P\<close>, \<open>Join\<close> and
  \<open>Login\<close> are the writes of the application thread.
\<close>

datatype module_event =
    Packet bytes "sockaddr_in option"
  | Login_Tick u8
  | P2P_Tick UdpPacket u32
  | Send_Media bytes
  | Udp_Login "u8 list" UdpPacket u16
  | Remove_Node u32
  | Leave_Room
  | Add_Node u32
  | Rsp_P2PAddr bool UdpPacket CRspP2PAddrMsg
  | Retry_Tick
  | Set_P2P bool
  | Join
  | Login_Relay

definition module_handle :: "udp_module \<Rightarrow> module_event \<Rightarrow> module_result" where
  "module_handle s e = (case e of
       Packet d a \<Rightarrow> (case udp_receive d a s of
           (s', None) \<Rightarrow> Inr (s', [])
         | (s', Some (packet, buf, src)) \<Rightarrow> module_ParsePacket packet buf src s')
     | Login_Tick i \<Rightarrow> (case map_of (m_mapTimer s) i of None \<Rightarrow> Inr (s, []) | Some ctx \<Rightarrow> Inr (LoginTimer ctx s))
     | P2P_Tick junk u \<Rightarrow> (case map_of (m_mapP2PTimer s) u of None \<Rightarrow> Inr (s, []) | Some ctx \<Rightarrow> P2PTimer junk ctx s)
     | Send_Media d \<Rightarrow> OnSendMediaMsg d s
     | Udp_Login rs junk port \<Rightarrow> map_outcome (\<lambda>s. (s, [])) (OnUdpLoginMsg rs junk port s)
     | Remove_Node u \<Rightarrow> Inr (OnRemoveForwardNodeMsg u s, [])
     | Leave_Room \<Rightarrow> Inr (module_OnLeaveRoomMsg s, [])
     | Add_Node u \<Rightarrow> Inr (OnAddForwardNodeMsg u s)
     | Rsp_P2PAddr le junk msg \<Rightarrow> Inr (OnTcpRspP2PAddr le junk msg s, [])
     | Retry_Tick \<Rightarrow> Inr (if retry_timers s = 0 then (s, []) else RetryTimer s)
     | Set_P2P b \<Rightarrow> Inr (s\<lparr>m_bEnableP2P := b\<rparr>, [])
     | Join \<Rightarrow> Inr (s\<lparr>m_bInRoom := True\<rparr>, [])
     | Login_Relay \<Rightarrow> Inr (s\<lparr>m_bLoginSuccess := False\<rparr>, []))"

definition udp_module_new :: "sockaddr_in \<Rightarrow> u32 \<Rightarrow> u32 \<Rightarrow> udp_module" where
  "udp_module_new server userId sessionId = udp_handle.extend udp_handle_new
     (udp_module.fields server userId sessionId [] [] [] False True False False [] 0)"

end
