(* ===== verification/Udp_Module_Proofs.thy ===== *)
theory Udp_Module_Proofs
  imports Udp_Module
begin

text \<open>
  What holds of the client's UDP module: the invariant of its timers, kept by every event; the fall
  back to the relay, the punch-through between two modules, and the delivery of media.
\<close>

section \<open>The invariant\<close>

text \<open>
  Every timer of a punch-through belongs to a peer whose two addresses are known, carries that peer
  in its packet and has not run past its last repetition.
\<close>

definition timers_ok :: "(u32 \<times> TimerCtx) list \<Rightarrow> (u32 \<times> ClientCtx) list \<Rightarrow> bool" where
  "timers_ok ts ps \<longleftrightarrow> (\<forall>k ctx. map_of ts k = Some ctx \<longrightarrow> up_dstUserId (tm_msg ctx) = k
     \<and> 0 \<le> repeatTimes ctx \<and> repeatTimes ctx \<le> (if up_del (tm_msg ctx) then 10 else 4)
     \<and> (\<exists>it. map_of ps k = Some it \<and> WANAddr it \<noteq> None \<and> LANAddr it \<noteq> None))"

definition p2p_inv :: "udp_module \<Rightarrow> bool" where
  "p2p_inv s \<longleftrightarrow> timers_ok (m_mapP2PTimer s) (m_mapPeerClientCtx s) \<and> distinct (map fst (m_mapPeerClientCtx s))
     \<and> length (uh_buf s) = UDP_BUFFER_SIZE"

lemma module_send_eq [simp]:
  "module_send d a s = (s\<lparr>m_nSendByteCount := m_nSendByteCount s + of_nat (length d)\<rparr>, [Udp_Out (Udp_Send d a)])"
  by (simp add: module_send_def udp_send_def)

lemma fold_removeP2PTimer: "fold removeP2PTimer ks s = s\<lparr>m_mapP2PTimer := fold AList.delete ks (m_mapP2PTimer s)\<rparr>"
  by (induction ks arbitrary: s) (simp_all add: removeP2PTimer_def)

lemma map_of_fold_delete: "map_of (fold AList.delete ks m) k = (if k \<in> set ks then None else map_of m k)"
  by (induction ks arbitrary: m) (auto simp: delete_conv')

lemma map_of_None_Nil: "(\<And>k. map_of m k = None) \<Longrightarrow> m = []"
  by (cases m) (auto, metis option.distinct(1))

lemma clearP2PTimer_eq: "clearP2PTimer s = s\<lparr>m_mapP2PTimer := []\<rparr>"
proof -
  have "fold AList.delete (map fst (m_mapP2PTimer s)) (m_mapP2PTimer s) = []"
    by (rule map_of_None_Nil) (auto simp: map_of_fold_delete map_of_eq_None_iff)
  then show ?thesis by (simp add: clearP2PTimer_def fold_removeP2PTimer)
qed

lemmas timer_defs = removeP2PTimer_def gernerateP2PTimer_def generateTimerCtx_def punchhole_msg_def
  tryLANP2PConnect_def tryWANP2PConnect_def

text \<open>Where a timer sends.\<close>

definition p2p_addr :: "TimerCtx \<Rightarrow> ClientCtx \<Rightarrow> sockaddr_in option" where
  "p2p_addr ctx it = (if up_del (tm_msg ctx) then WANAddr it else LANAddr it)"

lemma P2PTimer_cases:
  assumes "p2p_inv s" "map_of (m_mapP2PTimer s) u = Some ctx"
  obtains (next_try) it a where "map_of (m_mapPeerClientCtx s) u = Some it" "0 < repeatTimes ctx"
      "P2PTimer junk ctx s = Inr (s\<lparr>m_nSendByteCount := m_nSendByteCount s + 12,
         m_mapP2PTimer := AList.update u (ctx\<lparr>repeatTimes := repeatTimes ctx - 1\<rparr>) (m_mapP2PTimer s)\<rparr>,
         [Udp_Out (Udp_Send (udp_bytes (tm_msg ctx)) a)])" "p2p_addr ctx it = Some a"
    | (to_wan) it a where "map_of (m_mapPeerClientCtx s) u = Some it" "repeatTimes ctx = 0" "\<not> up_del (tm_msg ctx)"
      "P2PTimer junk ctx s = Inr (tryWANP2PConnect junk u (s\<lparr>m_nSendByteCount := m_nSendByteCount s + 12\<rparr>),
         [Udp_Out (Udp_Send (udp_bytes (tm_msg ctx)) a)])" "p2p_addr ctx it = Some a"
    | (to_relay) it a where "map_of (m_mapPeerClientCtx s) u = Some it" "repeatTimes ctx = 0" "up_del (tm_msg ctx)"
      "P2PTimer junk ctx s = Inr (s\<lparr>m_nSendByteCount := m_nSendByteCount s + 12,
         m_mapP2PTimer := AList.delete u (m_mapP2PTimer s),
         m_mapPeerClientCtx := AList.update u (it\<lparr>p2p_status := RequireRelay\<rparr>) (m_mapPeerClientCtx s)\<rparr>,
         [Udp_Out (Udp_Send (udp_bytes (tm_msg ctx)) a), Add_Forward_Node u])" "p2p_addr ctx it = Some a"
proof -
  obtain it x y where it: "up_dstUserId (tm_msg ctx) = u" "0 \<le> repeatTimes ctx" "map_of (m_mapPeerClientCtx s) u = Some it"
    "WANAddr it = Some x" "LANAddr it = Some y"
    using assms unfolding p2p_inv_def timers_ok_def by blast
  let ?a = "if up_del (tm_msg ctx) then x else y"
  have a: "p2p_addr ctx it = Some ?a"
    using it(4,5) by (simp add: p2p_addr_def)
  then have e: "P2PTimer junk ctx s = (let (s, out) = module_send (udp_bytes (tm_msg ctx)) ?a s in
      if repeatTimes ctx \<noteq> 0
      then Inr (s\<lparr>m_mapP2PTimer := AList.update u (ctx\<lparr>repeatTimes := repeatTimes ctx - 1\<rparr>) (m_mapP2PTimer s)\<rparr>, out)
      else if \<not> up_del (tm_msg ctx) then Inr (tryWANP2PConnect junk u s, out)
      else Inr ((removeP2PTimer u s)\<lparr>m_mapPeerClientCtx :=
             AList.update u (it\<lparr>p2p_status := RequireRelay\<rparr>) (m_mapPeerClientCtx s)\<rparr>, out @ [Add_Forward_Node u]))"
    using it(1,3) by (simp add: P2PTimer_def p2p_addr_def del: map_of_eq_Some_iff)
  consider "0 < repeatTimes ctx" | "repeatTimes ctx = 0" "\<not> up_del (tm_msg ctx)" | "repeatTimes ctx = 0" "up_del (tm_msg ctx)"
    using it(2) by fastforce
  then show thesis
  proof cases
    case 1
    then show thesis using e a by (intro that(1) [OF it(3)]) (simp_all add: case_prod_beta UDP_PACKET_SIZE_def)
  next
    case 2
    then show thesis using e a by (intro that(2) [OF it(3)]) (simp_all add: case_prod_beta UDP_PACKET_SIZE_def)
  next
    case 3
    then show thesis using e a by (intro that(3) [OF it(3)]) (simp_all add: case_prod_beta UDP_PACKET_SIZE_def removeP2PTimer_def)
  qed
qed

lemma timers_okD:
  "timers_ok ts ps \<Longrightarrow> map_of ts k = Some ctx \<Longrightarrow> up_dstUserId (tm_msg ctx) = k \<and> 0 \<le> repeatTimes ctx
    \<and> repeatTimes ctx \<le> (if up_del (tm_msg ctx) then 10 else 4)
    \<and> (\<exists>it. map_of ps k = Some it \<and> WANAddr it \<noteq> None \<and> LANAddr it \<noteq> None)"
  by (simp add: timers_ok_def del: map_of_eq_Some_iff)

text \<open>The changes that keep the timers in order.\<close>

lemma timers_ok_delete: "timers_ok ts ps \<Longrightarrow> timers_ok (AList.delete k ts) ps"
  by (simp add: timers_ok_def delete_conv' del: map_of_eq_Some_iff)

lemma timers_ok_remove: "timers_ok ts ps \<Longrightarrow> timers_ok (AList.delete k ts) (AList.delete k ps)"
  unfolding timers_ok_def by (auto simp: delete_conv' simp del: map_of_eq_Some_iff split: if_splits)

lemma timers_ok_peer:
  "timers_ok ts ps \<Longrightarrow> (map_of ts u = None \<or> (WANAddr it \<noteq> None \<and> LANAddr it \<noteq> None)) \<Longrightarrow> timers_ok ts (AList.update u it ps)"
  unfolding timers_ok_def by (auto simp: update_conv' simp del: map_of_eq_Some_iff)

lemma timers_ok_start:
  assumes "timers_ok ts ps" "up_dstUserId (tm_msg ctx) = u" "0 \<le> repeatTimes ctx"
    "repeatTimes ctx \<le> (if up_del (tm_msg ctx) then 10 else 4)"
    "map_of ps u = Some it" "WANAddr it \<noteq> None" "LANAddr it \<noteq> None"
  shows "timers_ok (AList.update u ctx ts) ps"
  using assms unfolding timers_ok_def by (auto simp: update_conv' simp del: map_of_eq_Some_iff split: if_splits)

lemma recv_fields:
  obtains b n where "fst (udp_receive d a (s :: udp_module)) = s\<lparr>uh_buf := b, m_nRecvByteCount := n\<rparr>"
    "length b = length (uh_buf s)"
proof -
  have "length (udp_recv_into d (uh_buf s)) = length (uh_buf s)" by (simp add: udp_recv_into_def)
  moreover have "\<exists>n. fst (udp_receive d a s) = s\<lparr>uh_buf := udp_recv_into d (uh_buf s), m_nRecvByteCount := n\<rparr>"
    by (auto simp: udp_receive_def OnUdpRead_def Let_def split: option.split intro: exI [of _ "m_nRecvByteCount s"])
  ultimately show thesis using that by blast
qed

lemma module_ParsePacket_inv:
  assumes "p2p_inv s" "module_ParsePacket p b src s = Inr (s', out)"
  shows "p2p_inv s'"
proof -
  have "p2p_inv (OnRecvPunchHoleMsg2 p src s)"
  proof (cases "map_of (m_mapPeerClientCtx s) (up_dstUserId p)")
    case None
    then show ?thesis using assms(1)
      by (simp add: OnRecvPunchHoleMsg2_def p2p_inv_def removeP2PTimer_def Let_def timers_ok_delete)
  next
    case (Some it)
    have "map_of (AList.delete (up_dstUserId p) (m_mapP2PTimer s)) (up_dstUserId p) = None" by (simp add: delete_conv')
    then show ?thesis using assms(1) Some
      by (simp add: OnRecvPunchHoleMsg2_def p2p_inv_def removeP2PTimer_def Let_def timers_ok_delete timers_ok_peer
          del: map_of_eq_Some_iff)
  qed
  then show ?thesis using assms
    by (auto simp: module_ParsePacket_def OnRecvMediaData_def OnRecvPunchHoleMsg1_def Let_def p2p_inv_def
        module_send_def udp_send_def split: if_splits)
qed

lemma P2PTimer_inv:
  assumes "p2p_inv s" "map_of (m_mapP2PTimer s) u = Some ctx" "P2PTimer junk ctx s = Inr (s', out)"
  shows "p2p_inv s'"
proof -
  have ok: "timers_ok (m_mapP2PTimer s) (m_mapPeerClientCtx s)" using assms(1) by (simp add: p2p_inv_def)
  note c = timers_okD [OF ok assms(2)]
  then obtain it where it: "map_of (m_mapPeerClientCtx s) u = Some it" "WANAddr it \<noteq> None" "LANAddr it \<noteq> None" by blast
  show ?thesis
  proof (cases rule: P2PTimer_cases [OF assms(1,2), of junk])
    case (1 it' a)
    have "timers_ok (AList.update u (ctx\<lparr>repeatTimes := repeatTimes ctx - 1\<rparr>) (m_mapP2PTimer s)) (m_mapPeerClientCtx s)"
      by (rule timers_ok_start [OF ok _ _ _ it]) (use c 1(2) in auto)
    then show ?thesis using assms(1,3) 1(3) by (auto simp: p2p_inv_def)
  next
    case (2 it' a)
    have "timers_ok (AList.update u (generateTimerCtx (punchhole_msg junk u True s) 10 0 150) (AList.delete u (m_mapP2PTimer s)))
      (m_mapPeerClientCtx s)"
      by (rule timers_ok_start [OF timers_ok_delete [OF ok] _ _ _ it]) (simp_all add: timer_defs)
    then show ?thesis using assms(1,3) 2(4) by (auto simp: p2p_inv_def timer_defs)
  next
    case (3 it' a)
    have "timers_ok (AList.delete u (m_mapP2PTimer s)) (AList.update u (it'\<lparr>p2p_status := RequireRelay\<rparr>) (m_mapPeerClientCtx s))"
      by (rule timers_ok_peer [OF timers_ok_delete [OF ok]]) (simp add: delete_conv')
    then show ?thesis using assms(1,3) 3(4) by (auto simp: p2p_inv_def)
  qed
qed

lemma OnRspP2PAddrMsg_inv:
  assumes "p2p_inv s"
  shows "p2p_inv (OnRspP2PAddrMsg le junk msg s)"
proof (cases "map_of (m_mapPeerClientCtx s) (rsp_dstUserId msg)")
  case (Some it)
  define it' where "it' = it\<lparr>WANAddr := Some (fst (uv_ip4_addr le (ip_int2string le (rsp_dstIp msg)) (htons le (rsp_dstPort msg)))),
    LANAddr := Some (fst (uv_ip4_addr le ''255.255.255.255'' (htons le (rsp_dstLocalUdpPort msg))))\<rparr>"
  let ?u = "rsp_dstUserId msg"
  have "timers_ok (m_mapP2PTimer s) (AList.update ?u it' (m_mapPeerClientCtx s))"
    using assms by (intro timers_ok_peer) (simp_all add: p2p_inv_def it'_def)
  then have "timers_ok (AList.update ?u (generateTimerCtx (punchhole_msg junk ?u False s) 4 0 25) (AList.delete ?u (m_mapP2PTimer s)))
    (AList.update ?u it' (m_mapPeerClientCtx s))"
    by (intro timers_ok_start [OF timers_ok_delete, where it = it']) (simp_all add: timer_defs it'_def update_conv' del: map_of_eq_Some_iff)
  then show ?thesis using assms Some
    by (simp add: OnRspP2PAddrMsg_def Let_def p2p_inv_def timer_defs it'_def del: map_of_eq_Some_iff)
qed (use assms in \<open>simp add: OnRspP2PAddrMsg_def\<close>)

lemma module_handle_inv:
  assumes "p2p_inv s" "module_handle s e = Inr (s', out)"
  shows "p2p_inv s'"
proof (cases e)
  case (Packet d a)
  obtain b n where r: "fst (udp_receive d a s) = s\<lparr>uh_buf := b, m_nRecvByteCount := n\<rparr>" "length b = length (uh_buf s)"
    by (rule recv_fields)
  have "p2p_inv (fst (udp_receive d a s))" using assms(1) r by (simp add: p2p_inv_def)
  then show ?thesis using assms(2) module_ParsePacket_inv
    by (cases "udp_receive d a s") (auto simp: module_handle_def Packet split: option.splits)
next
  case (Login_Tick i)
  then show ?thesis using assms
    by (auto simp: module_handle_def LoginTimer_def Let_def case_prod_beta removeTimer_def p2p_inv_def split: option.splits)
next
  case (P2P_Tick junk u)
  then show ?thesis using assms P2PTimer_inv by (auto simp: module_handle_def split: option.splits simp del: map_of_eq_Some_iff)
next
  case (Send_Media d)
  then show ?thesis using assms by (auto simp: module_handle_def OnSendMediaMsg_def split: if_splits)
next
  case (Udp_Login rs junk port)
  then show ?thesis using assms
    by (auto simp: module_handle_def OnUdpLoginMsg_def gernerateLoginTimer_def p2p_inv_def split: list.splits)
next
  case (Remove_Node u)
  then show ?thesis using assms
    by (auto simp: module_handle_def OnRemoveForwardNodeMsg_def removeP2PTimer_def p2p_inv_def timers_ok_remove distinct_delete)
next
  case Leave_Room
  then show ?thesis using assms
    by (auto simp: module_handle_def module_OnLeaveRoomMsg_def clearP2PTimer_eq p2p_inv_def timers_ok_def)
next
  case (Add_Node u)
  show ?thesis
  proof (cases "map_of (m_mapPeerClientCtx s) u")
    case None
    have "map_of (m_mapP2PTimer s) u = None"
      using timers_okD [of "m_mapP2PTimer s" "m_mapPeerClientCtx s" u] assms(1) None
      by (cases "map_of (m_mapP2PTimer s) u") (auto simp: p2p_inv_def)
    then show ?thesis using assms Add_Node None
      by (auto simp: module_handle_def OnAddForwardNodeMsg_def Let_def p2p_inv_def simp del: map_of_eq_Some_iff
          intro!: timers_ok_peer)
  qed (use assms Add_Node in \<open>auto simp: module_handle_def OnAddForwardNodeMsg_def simp del: map_of_eq_Some_iff\<close>)
next
  case (Rsp_P2PAddr le junk msg)
  then show ?thesis using assms OnRspP2PAddrMsg_inv [OF assms(1), of le junk msg]
    by (auto simp: module_handle_def OnTcpRspP2PAddr_def p2p_inv_def split: if_splits)
qed (use assms in \<open>auto simp: module_handle_def RetryTimer_def p2p_inv_def split: if_splits\<close>)

interpretation p2p: event_handler module_handle p2p_inv "\<lambda>_. True"
  by unfold_locales (rule module_handle_inv)

lemma udp_module_new_inv: "p2p_inv (udp_module_new server u sid)"
  by (simp add: p2p_inv_def udp_module_new_def udp_handle.extend_def udp_module.fields_def udp_handle_new_def timers_ok_def)

section \<open>Falling back to the relay\<close>

definition is_tick :: "u32 \<Rightarrow> module_event \<Rightarrow> bool" where
  "is_tick u e = (case e of P2P_Tick _ k \<Rightarrow> k = u | _ \<Rightarrow> False)"

text \<open>An event that is no answer of the peer \<open>u\<close>, no new address of it, and does not remove it.\<close>

definition no_answer :: "u32 \<Rightarrow> module_event \<Rightarrow> bool" where
  "no_answer u e = (case e of
       Packet d _ \<Rightarrow> length d < 6 \<or> unat (d ! 5) mod 128 \<noteq> PUNCH_HOLE_MSG2
         \<or> (12 \<le> length d \<and> of_nat (from_le (take 4 (drop 6 d))) \<noteq> u)
     | Remove_Node k \<Rightarrow> k \<noteq> u
     | Leave_Room \<Rightarrow> False
     | Rsp_P2PAddr _ _ msg \<Rightarrow> rsp_dstUserId msg \<noteq> u
     | _ \<Rightarrow> True)"

text \<open>
  The timer of the peer \<open>u\<close> after \<open>k\<close> tries: five go to the address in the local network, eleven to the
  public one.
\<close>

definition trying :: "u32 \<Rightarrow> u32 \<Rightarrow> ClientCtx \<Rightarrow> nat \<Rightarrow> udp_module \<Rightarrow> bool" where
  "trying u me it k s \<longleftrightarrow> p2p_inv s \<and> um_userId s = me \<and> map_of (m_mapPeerClientCtx s) u = Some it \<and> k < 16
     \<and> (\<exists>ctx. map_of (m_mapP2PTimer s) u = Some ctx \<and> repeatTimes ctx = (if k < 5 then 4 - int k else 15 - int k)
       \<and> up_type (tm_msg ctx) = of_nat PUNCH_HOLE_MSG1 \<and> up_userId (tm_msg ctx) = me \<and> up_dstUserId (tm_msg ctx) = u
       \<and> up_del (tm_msg ctx) = (5 \<le> k))"

definition relayed :: "u32 \<Rightarrow> ClientCtx \<Rightarrow> udp_module \<Rightarrow> bool" where
  "relayed u it s \<longleftrightarrow> p2p_inv s \<and> map_of (m_mapP2PTimer s) u = None
     \<and> map_of (m_mapPeerClientCtx s) u = Some (it\<lparr>p2p_status := RequireRelay\<rparr>)"

text \<open>What an event leaves alone.\<close>

definition same_peer :: "u32 \<Rightarrow> udp_module \<Rightarrow> udp_module \<Rightarrow> bool" where
  "same_peer u s s' \<longleftrightarrow> map_of (m_mapP2PTimer s') u = map_of (m_mapP2PTimer s) u
     \<and> map_of (m_mapPeerClientCtx s') u = map_of (m_mapPeerClientCtx s) u \<and> um_userId s' = um_userId s"

lemma received_packet:
  assumes "udp_receive d a s = (s', Some (p, buf, src))" "length (uh_buf s) = UDP_BUFFER_SIZE"
  shows "6 \<le> length d" "unat (up_type p) = unat (d ! 5) mod 128"
    "12 \<le> length d \<Longrightarrow> up_dstUserId p = of_nat (from_le (take 4 (drop 6 d)))"
proof -
  let ?b = "udp_recv_into d (uh_buf s)"
  have p: "p = udp_of_bytes ?b" and l: "6 \<le> length d"
    using assms by (auto simp: udp_receive_def OnUdpRead_def Let_def split: option.splits if_splits)
  have t: "take n ?b = take n d" if "n \<le> length d" "n \<le> 65536" for n
    using that assms(2) by (simp add: udp_recv_into_def UDP_BUFFER_SIZE_def)
  have "?b ! 5 = d ! 5" using l assms(2) by (simp add: udp_recv_into_def nth_append UDP_BUFFER_SIZE_def)
  moreover have "unat (of_nat (n mod 128) :: 7 word) = n mod 128" for n
    by (simp add: unat_of_nat take_bit_eq_mod)
  ultimately show "unat (up_type p) = unat (d ! 5) mod 128" by (simp add: p udp_of_bytes_def)
  show "6 \<le> length d" by (rule l)
  show "up_dstUserId p = of_nat (from_le (take 4 (drop 6 d)))" if "12 \<le> length d"
  proof -
    have "take 4 (drop 6 ?b) = drop 6 (take 10 ?b)" by (simp add: drop_take)
    also have "\<dots> = take 4 (drop 6 d)" using t [of 10] that by (simp add: drop_take)
    finally show ?thesis by (simp add: p udp_of_bytes_def)
  qed
qed

lemma ParsePacket_same_peer:
  assumes "module_ParsePacket p b src s = Inr (s', out)" "unat (up_type p) = PUNCH_HOLE_MSG2 \<Longrightarrow> up_dstUserId p \<noteq> u"
  shows "same_peer u s s' \<and> Add_Forward_Node u \<notin> set out"
  using assms by (auto simp: module_ParsePacket_def OnRecvMediaData_def OnRecvPunchHoleMsg1_def OnRecvPunchHoleMsg2_def
      same_peer_def Let_def removeP2PTimer_def delete_conv' update_conv' simp del: map_of_eq_Some_iff
      split: if_splits option.splits)

text \<open>Who gets media directly, and where.\<close>

definition needs_relay :: "ClientCtx \<Rightarrow> bool" where
  "needs_relay c \<longleftrightarrow> p2p_status c = Pending \<or> p2p_status c = RequireRelay"

definition direct_addr :: "ClientCtx \<Rightarrow> sockaddr_in option" where
  "direct_addr c = (if p2p_status c = WAN_success then WANAddr c else LANAddr c)"

lemma send_direct_eq:
  "send_direct d cs = (if \<exists>(k, c)\<in>set cs. \<not> needs_relay c \<and> direct_addr c = None then Inl Indeterminate_Value
    else Inr (map (\<lambda>(k, c). Udp_Out (Sendmsg d (the (direct_addr c)))) (filter (\<lambda>(k, c). \<not> needs_relay c) cs),
      \<exists>(k, c)\<in>set cs. needs_relay c))"
proof (induction d cs rule: send_direct.induct)
  case (2 d k c cs)
  show ?case
  proof (cases "\<exists>(k, c)\<in>set cs. \<not> needs_relay c \<and> direct_addr c = None")
    case True
    then show ?thesis using 2 by auto
  next
    case False
    then show ?thesis using 2
      by (cases "p2p_status c"; cases "direct_addr c") (simp_all add: needs_relay_def direct_addr_def)
  qed
qed simp

lemma send_direct_out: "send_direct d cs = Inr (out, r) \<Longrightarrow> Add_Forward_Node u \<notin> set out"
  by (auto simp: send_direct_eq split: if_splits)

lemma module_same_peer:
  assumes "p2p_inv s" "module_handle s e = Inr (s', out)" "no_answer u e" "\<not> is_tick u e"
    "map_of (m_mapPeerClientCtx s) u = Some it"
  shows "same_peer u s s' \<and> Add_Forward_Node u \<notin> set out"
proof (cases e)
  case (Packet d a)
  obtain b n where r: "fst (udp_receive d a s) = s\<lparr>uh_buf := b, m_nRecvByteCount := n\<rparr>" "length b = length (uh_buf s)"
    by (rule recv_fields)
  show ?thesis
  proof (cases "snd (udp_receive d a s)")
    case None
    then show ?thesis using assms(2) r(1) Packet
      by (cases "udp_receive d a s") (auto simp: module_handle_def same_peer_def)
  next
    case (Some x)
    obtain p buf src where x: "x = (p, buf, src)" by (cases x)
    have h: "module_ParsePacket p buf src (fst (udp_receive d a s)) = Inr (s', out)"
      using assms(2) Packet Some x by (cases "udp_receive d a s") (simp add: module_handle_def)
    have "udp_receive d a s = (fst (udp_receive d a s), Some (p, buf, src))" using Some x by (cases "udp_receive d a s") simp
    note rp = received_packet [OF this]
    have "up_dstUserId p \<noteq> u" if "unat (up_type p) = PUNCH_HOLE_MSG2"
      using that assms(1,3) rp Packet by (auto simp: no_answer_def p2p_inv_def)
    from ParsePacket_same_peer [OF h this] show ?thesis using r(1) by (simp add: same_peer_def)
  qed
next
  case (P2P_Tick junk k)
  then have k: "k \<noteq> u" using assms(4) by (simp add: is_tick_def)
  show ?thesis
  proof (cases "map_of (m_mapP2PTimer s) k")
    case None
    then show ?thesis using assms(2) P2P_Tick by (simp add: module_handle_def same_peer_def)
  next
    case (Some ctx)
    have h: "P2PTimer junk ctx s = Inr (s', out)" using assms(2) P2P_Tick Some by (simp add: module_handle_def del: map_of_eq_Some_iff)
    show ?thesis
      by (rule P2PTimer_cases [OF assms(1) Some, of junk])
        (use h k in \<open>auto simp: same_peer_def timer_defs update_conv' delete_conv'\<close>)
  qed
next
  case (Send_Media d)
  then show ?thesis using assms(2) send_direct_out
    by (auto simp: module_handle_def OnSendMediaMsg_def same_peer_def split: if_splits)
next
  case (Add_Node k)
  then show ?thesis using assms(2,5)
    by (auto simp: module_handle_def OnAddForwardNodeMsg_def same_peer_def Let_def update_conv' simp del: map_of_eq_Some_iff
        split: if_splits)
next
  case (Rsp_P2PAddr le junk msg)
  then show ?thesis using assms(2,3)
    by (auto simp: module_handle_def OnTcpRspP2PAddr_def OnRspP2PAddrMsg_def Let_def same_peer_def no_answer_def timer_defs
        update_conv' delete_conv' simp del: map_of_eq_Some_iff split: if_splits option.splits)
next
  case (Login_Tick i)
  then show ?thesis using assms(2)
    by (auto simp: module_handle_def LoginTimer_def Let_def removeTimer_def same_peer_def split: option.splits)
next
  case (Udp_Login rs junk port)
  then show ?thesis using assms(2)
    by (auto simp: module_handle_def OnUdpLoginMsg_def gernerateLoginTimer_def same_peer_def split: list.splits)
next
  case (Remove_Node k)
  then show ?thesis using assms(2,3)
    by (auto simp: module_handle_def OnRemoveForwardNodeMsg_def removeP2PTimer_def same_peer_def no_answer_def delete_conv')
qed (use assms(2,3) in \<open>auto simp: module_handle_def RetryTimer_def same_peer_def no_answer_def split: if_splits\<close>)

text \<open>The packet of the next try after \<open>k\<close>, and where it goes.\<close>

definition try_packet :: "u32 \<Rightarrow> u32 \<Rightarrow> nat \<Rightarrow> UdpPacket \<Rightarrow> bool" where
  "try_packet u me k p \<longleftrightarrow> up_type p = of_nat PUNCH_HOLE_MSG1 \<and> up_userId p = me \<and> up_dstUserId p = u
     \<and> up_del p = (5 \<le> k)"

definition try_addr :: "ClientCtx \<Rightarrow> nat \<Rightarrow> sockaddr_in" where
  "try_addr it k = the (if k < 5 then LANAddr it else WANAddr it)"

lemma trying_tick:
  assumes "trying u me it k s"
  shows "\<exists>s' p. module_handle s (P2P_Tick junk u)
        = Inr (s', Udp_Out (Udp_Send (udp_bytes p) (try_addr it k)) # (if k = 15 then [Add_Forward_Node u] else []))
      \<and> try_packet u me k p \<and> (if k = 15 then relayed u it s' else trying u me it (Suc k) s')"
proof -
  have inv: "p2p_inv s" using assms by (simp add: trying_def)
  obtain ctx where c: "map_of (m_mapP2PTimer s) u = Some ctx" "repeatTimes ctx = (if k < 5 then 4 - int k else 15 - int k)"
    "try_packet u me k (tm_msg ctx)"
    using assms by (auto simp: trying_def try_packet_def simp del: map_of_eq_Some_iff)
  have s: "um_userId s = me" "map_of (m_mapPeerClientCtx s) u = Some it" "k < 16" using assms by (simp_all add: trying_def)
  have a: "p2p_addr ctx it = Some a \<Longrightarrow> try_addr it k = a" for a
    using c(3) by (auto simp: p2p_addr_def try_addr_def try_packet_def)
  have h: "module_handle s (P2P_Tick junk u) = P2PTimer junk ctx s" using c(1) by (simp add: module_handle_def del: map_of_eq_Some_iff)
  show ?thesis
  proof (cases rule: P2PTimer_cases [OF inv c(1), of junk])
    case (1 it' a)
    let ?s = "s\<lparr>m_nSendByteCount := m_nSendByteCount s + 12,
         m_mapP2PTimer := AList.update u (ctx\<lparr>repeatTimes := repeatTimes ctx - 1\<rparr>) (m_mapP2PTimer s)\<rparr>"
    have "p2p_inv ?s" by (rule module_handle_inv [OF inv, of "P2P_Tick junk u"]) (use h 1(3) in simp)
    then have "trying u me it (Suc k) ?s" "k \<noteq> 15"
      using s c 1(2) by (auto simp: trying_def try_packet_def update_conv' split: if_splits)
    moreover have "try_addr it k = a" using 1(1,4) s(2) a by simp
    ultimately show ?thesis using h 1(3) c(3) by auto
  next
    case (2 it' a)
    let ?s = "tryWANP2PConnect junk u (s\<lparr>m_nSendByteCount := m_nSendByteCount s + 12\<rparr>)"
    have "p2p_inv ?s" by (rule module_handle_inv [OF inv, of "P2P_Tick junk u"]) (use h 2(4) in simp)
    moreover have "k = 4" using c(2,3) 2(2,3) by (auto simp: try_packet_def split: if_splits)
    ultimately have "trying u me it (Suc k) ?s" "k \<noteq> 15"
      using s by (auto simp: trying_def timer_defs update_conv' delete_conv')
    moreover have "try_addr it k = a" using 2(1,5) s(2) a by simp
    ultimately show ?thesis using h 2(4) c(3) by auto
  next
    case (3 it' a)
    let ?s = "s\<lparr>m_nSendByteCount := m_nSendByteCount s + 12, m_mapP2PTimer := AList.delete u (m_mapP2PTimer s),
         m_mapPeerClientCtx := AList.update u (it'\<lparr>p2p_status := RequireRelay\<rparr>) (m_mapPeerClientCtx s)\<rparr>"
    have "p2p_inv ?s" by (rule module_handle_inv [OF inv, of "P2P_Tick junk u"]) (use h 3(4) in simp)
    then have "relayed u it ?s" using s(2) 3(1) by (simp add: relayed_def update_conv' delete_conv')
    moreover have "k = 15" using c(2,3) s(3) 3(2,3) by (auto simp: try_packet_def split: if_splits)
    moreover have "try_addr it k = a" using 3(1,5) s(2) a by simp
    ultimately show ?thesis using h 3(4) c(3) by auto
  qed
qed

lemma trying_other:
  assumes "trying u me it k s" "module_handle s e = Inr (s', out)" "no_answer u e" "\<not> is_tick u e"
  shows "trying u me it k s' \<and> Add_Forward_Node u \<notin> set out"
proof -
  have "map_of (m_mapPeerClientCtx s) u = Some it" "p2p_inv s" using assms(1) by (simp_all add: trying_def)
  from module_same_peer [OF this(2) assms(2-4) this(1)] show ?thesis
    using assms(1) module_handle_inv [OF _ assms(2)] by (auto simp: trying_def same_peer_def simp del: map_of_eq_Some_iff)
qed

lemma relayed_step:
  assumes "relayed u it s" "module_handle s e = Inr (s', out)" "no_answer u e"
  shows "relayed u it s' \<and> Add_Forward_Node u \<notin> set out"
proof (cases "is_tick u e")
  case True
  then show ?thesis using assms by (auto simp: is_tick_def relayed_def module_handle_def split: module_event.splits)
next
  case False
  have "map_of (m_mapPeerClientCtx s) u = Some (it\<lparr>p2p_status := RequireRelay\<rparr>)" "p2p_inv s"
    using assms(1) by (simp_all add: relayed_def)
  from module_same_peer [OF this(2) assms(2,3) False this(1)] show ?thesis
    using assms(1) module_handle_inv [OF _ assms(2)] by (auto simp: relayed_def same_peer_def simp del: map_of_eq_Some_iff)
qed

lemma relayed_run:
  "relayed u it s \<Longrightarrow> \<forall>e\<in>set es. no_answer u e \<Longrightarrow> run_events module_handle s es = Inr (s', out)
    \<Longrightarrow> relayed u it s' \<and> Add_Forward_Node u \<notin> set out"
proof (induction es arbitrary: s out)
  case (Cons e es)
  then obtain t o1 o2 where h: "module_handle s e = Inr (t, o1)" "run_events module_handle t es = Inr (s', o2)" "out = o1 @ o2"
    by (auto simp: bind_outcome_Inr_iff)
  show ?case using relayed_step [OF Cons.prems(1) h(1)] Cons.IH [OF _ _ h(2)] Cons.prems(2) h(3) by auto
qed simp

lemma trying_run:
  "trying u me it k s \<Longrightarrow> \<forall>e\<in>set es. no_answer u e \<Longrightarrow> run_events module_handle s es = Inr (s', out)
    \<Longrightarrow> n = k + length (filter (is_tick u) es)
    \<Longrightarrow> (if n < 16 then trying u me it n s' \<and> Add_Forward_Node u \<notin> set out
        else relayed u it s' \<and> count_list out (Add_Forward_Node u) = 1)"
proof (induction es arbitrary: s out k)
  case Nil
  then show ?case by (simp add: trying_def)
next
  case (Cons e es)
  then obtain t o1 o2 where h: "module_handle s e = Inr (t, o1)" "run_events module_handle t es = Inr (s', o2)" "out = o1 @ o2"
    by (auto simp: bind_outcome_Inr_iff)
  have es: "\<forall>e\<in>set es. no_answer u e" "no_answer u e" using Cons.prems(2) by simp_all
  show ?case
  proof (cases "is_tick u e")
    case True
    then obtain junk where e: "e = P2P_Tick junk u" by (auto simp: is_tick_def split: module_event.splits)
    obtain p where t: "o1 = Udp_Out (Udp_Send (udp_bytes p) (try_addr it k)) # (if k = 15 then [Add_Forward_Node u] else [])"
      "if k = 15 then relayed u it t else trying u me it (Suc k) t"
      using trying_tick [OF Cons.prems(1), of junk] h(1) e by auto
    show ?thesis
    proof (cases "k = 15")
      case True
      then show ?thesis using t relayed_run [OF _ es(1) h(2)] h(3) Cons.prems(4) \<open>is_tick u e\<close> by (simp add: count_list_0_iff)
    next
      case False
      then show ?thesis using t Cons.IH [of "Suc k", OF _ es(1) h(2)] Cons.prems(4) True h(3) by (auto split: if_splits)
    qed
  next
    case False
    note t = trying_other [OF Cons.prems(1) h(1) es(2) False]
    have "n = k + length (filter (is_tick u) es)" using Cons.prems(4) False by simp
    from Cons.IH [OF conjunct1 [OF t] es(1) h(2) this] show ?thesis using t h(3) by (auto simp: count_list_0_iff split: if_splits)
  qed
qed

section \<open>Media over the module\<close>

text \<open>\<open>ClientNetwork::sendVoipData\<close>: the user id of the sender in front of the data.\<close>

definition sendVoipData :: "bytes \<Rightarrow> udp_module \<Rightarrow> module_event" where
  "sendVoipData d s = Send_Media (le_bytes 4 (unat (um_userId s)) @ d)"

lemma udp_bytes_type: "p = udp_of_bytes b \<Longrightarrow> unat (up_type p) = unat (b ! 5) mod 128"
  by (simp add: udp_of_bytes_def unat_of_nat take_bit_eq_mod)

lemma receive_packet:
  assumes "length (uh_buf s) = UDP_BUFFER_SIZE" "6 \<le> length d" "length d \<le> UDP_BUFFER_SIZE"
  shows "\<exists>b n. udp_receive d (Some a) (s :: udp_module) = (s\<lparr>uh_buf := b, m_nRecvByteCount := n\<rparr>,
    Some (udp_of_bytes (d @ drop (length d) (uh_buf s)), d, a))"
proof -
  obtain b n where "fst (udp_receive d (Some a) s) = s\<lparr>uh_buf := b, m_nRecvByteCount := n\<rparr>" by (rule recv_fields)
  then show ?thesis using udp_receive_some [OF assms, of a] by (metis prod.collapse)
qed

text \<open>A packet that \<open>udp_bytes\<close> made, from the socket to the dispatch.\<close>

lemma packet_handled:
  assumes "length (uh_buf s) = UDP_BUFFER_SIZE"
  shows "\<exists>b n. module_handle s (Packet (udp_bytes p) (Some a))
    = module_ParsePacket p (udp_bytes p) a (s\<lparr>uh_buf := b, m_nRecvByteCount := n\<rparr>)"
proof -
  obtain b n where "udp_receive (udp_bytes p) (Some a) s = (s\<lparr>uh_buf := b, m_nRecvByteCount := n\<rparr>, Some (p, udp_bytes p, a))"
    using receive_packet [OF assms, of "udp_bytes p" a]
    by (auto simp: UDP_PACKET_SIZE_def UDP_BUFFER_SIZE_def udp_of_bytes_append)
  then show ?thesis by (intro exI [of _ b] exI [of _ n]) (simp add: module_handle_def)
qed

lemma udp_module_new_fields [simp]:
  "m_mapPeerClientCtx (udp_module_new a u n) = []" "m_bEnableP2P (udp_module_new a u n)"
  "m_mapP2PTimer (udp_module_new a u n) = []" "um_userId (udp_module_new a u n) = u"
  "m_serverAddr (udp_module_new a u n) = a"
  by (simp_all add: udp_module_new_def udp_handle.extend_def udp_module.fields_def)

lemma from_le_take4: "of_nat (from_le (take 4 (le_bytes 4 (unat (u :: u32)) @ d))) = u"
  by simp

lemma voip_received:
  assumes "length (uh_buf r) = UDP_BUFFER_SIZE" "2 \<le> length d" "length d \<le> 60000"
    "map_of (m_mapPeerClientCtx r) u \<noteq> None" "m_pVoipDataListener r"
  shows "\<exists>r' out. module_handle r (Packet (le_bytes 4 (unat u) @ d) (Some src)) = Inr (r', out)
    \<and> (if unat (d ! 1) mod 128 < MULTI_FORWARD_MSG then out = [Voip_Data d u] else set out \<subseteq> range Udp_Out)"
proof -
  let ?w = "le_bytes 4 (unat u) @ d"
  have len: "6 \<le> length ?w" "length ?w \<le> UDP_BUFFER_SIZE" using assms(2,3) by (simp_all add: UDP_BUFFER_SIZE_def)
  define p where "p = udp_of_bytes (?w @ drop (length ?w) (uh_buf r))"
  obtain b n where "udp_receive ?w (Some src) r = (r\<lparr>uh_buf := b, m_nRecvByteCount := n\<rparr>, Some (p, ?w, src))"
    using receive_packet [OF assms(1) len, of src] by (auto simp: p_def)
  then have h: "module_handle r (Packet ?w (Some src)) = module_ParsePacket p ?w src (r\<lparr>uh_buf := b, m_nRecvByteCount := n\<rparr>)"
    by (simp add: module_handle_def)
  have "(?w @ drop (length ?w) (uh_buf r)) ! 5 = d ! 1" using assms(2) by (simp add: nth_append)
  then have t: "unat (up_type p) = unat (d ! 1) mod 128" using udp_bytes_type p_def by metis
  obtain c where c: "map_of (m_mapPeerClientCtx r) u = Some c" using assms(4) by auto
  show ?thesis
  proof (cases "unat (d ! 1) mod 128 < MULTI_FORWARD_MSG")
    case True
    then show ?thesis using c assms(2,5) from_le_take4 [of u d]
      by (simp add: h module_ParsePacket_def t OnRecvMediaData_def del: map_of_eq_Some_iff One_nat_def)
  next
    case False
    then show ?thesis
      by (auto simp: h module_ParsePacket_def t Let_def OnRecvPunchHoleMsg1_def module_send_def simp del: One_nat_def split: prod.split)
  qed
qed

section \<open>Properties\<close>

text \<open>
  Property C21. The address of a known peer has arrived, and the peer does not answer, gets no other address and is
  not removed. Then every tick of its timer sends one packet that asks the peer to answer: the first five go to the
  broadcast address of the local network with the peer's local port, the next eleven to its public address. Before the
  sixteenth tick the server is not asked for anything and the peer stays as it was; the sixteenth asks it to
  relay, once, and the module relays for the peer from then on and sends it no further try. The timers
  themselves never fault.
\<close>

theorem p2p_fallback:
  assumes "p2p_inv s" "map_of (m_mapPeerClientCtx s) u = Some it0" "rsp_success msg" "rsp_dstUserId msg = u"
    "\<forall>e\<in>set es. no_answer u e" "k = length (filter (is_tick u) es)"
    "run_events module_handle s (Rsp_P2PAddr le junk msg # es) = Inr (s', out)"
    "lan = fst (uv_ip4_addr le ''255.255.255.255'' (htons le (rsp_dstLocalUdpPort msg)))"
    "wan = fst (uv_ip4_addr le (ip_int2string le (rsp_dstIp msg)) (htons le (rsp_dstPort msg)))"
  shows "map_of (m_mapPeerClientCtx s') u = Some (it0\<lparr>WANAddr := Some wan, LANAddr := Some lan,
        p2p_status := (if k < 16 then p2p_status it0 else RequireRelay)\<rparr>)
    \<and> count_list out (Add_Forward_Node u) = (if k < 16 then 0 else 1)
    \<and> (map_of (m_mapP2PTimer s') u = None \<longleftrightarrow> 16 \<le> k)
    \<and> (\<exists>s2 p. module_handle s' (P2P_Tick j u) = Inr (s2,
          if k < 5 then [Udp_Out (Udp_Send (udp_bytes p) lan)]
          else if k < 15 then [Udp_Out (Udp_Send (udp_bytes p) wan)]
          else if k = 15 then [Udp_Out (Udp_Send (udp_bytes p) wan), Add_Forward_Node u] else [])
        \<and> (k < 16 \<longrightarrow> up_type p = of_nat PUNCH_HOLE_MSG1 \<and> up_userId p = um_userId s \<and> up_dstUserId p = u \<and> up_del p = (5 \<le> k)))
    \<and> (\<exists>r. module_handle s' (P2P_Tick j v) = Inr r)"
proof -
  let ?s1 = "OnRspP2PAddrMsg le junk msg s"
  let ?it = "it0\<lparr>WANAddr := Some wan, LANAddr := Some lan\<rparr>"
  have h: "run_events module_handle ?s1 es = Inr (s', out)"
    using assms(3,7) by (simp add: module_handle_def OnTcpRspP2PAddr_def)
  have "trying u (um_userId s) ?it 0 ?s1" using OnRspP2PAddrMsg_inv [OF assms(1), of le junk msg] assms(2,4,8,9)
    by (auto simp: trying_def OnRspP2PAddrMsg_def Let_def timer_defs update_conv' delete_conv' simp del: map_of_eq_Some_iff)
  from trying_run [OF this assms(5) h, of k] assms(6)
  have r: "if k < 16 then trying u (um_userId s) ?it k s' \<and> Add_Forward_Node u \<notin> set out
      else relayed u ?it s' \<and> count_list out (Add_Forward_Node u) = 1" by simp
  then have inv: "p2p_inv s'" by (auto simp: trying_def relayed_def split: if_splits)
  have f: "\<exists>r. module_handle s' (P2P_Tick j v) = Inr r"
  proof (cases "map_of (m_mapP2PTimer s') v")
    case (Some ctx)
    have "\<exists>r. P2PTimer j ctx s' = Inr r" by (rule P2PTimer_cases [OF inv Some, of j]) blast+
    then show ?thesis using Some by (simp add: module_handle_def del: map_of_eq_Some_iff)
  qed (simp add: module_handle_def)
  show ?thesis
  proof (cases "k < 16")
    case True
    then have t: "trying u (um_userId s) ?it k s'" "Add_Forward_Node u \<notin> set out" using r by simp_all
    have a: "try_addr ?it k = (if k < 5 then lan else wan)" by (simp add: try_addr_def)
    obtain s2 p where n: "module_handle s' (P2P_Tick j u) = Inr (s2, Udp_Out (Udp_Send (udp_bytes p) (try_addr ?it k))
        # (if k = 15 then [Add_Forward_Node u] else []))" "try_packet u (um_userId s) k p"
      using trying_tick [OF t(1), of j] by blast
    have "map_of (m_mapPeerClientCtx s') u = Some ?it" "map_of (m_mapP2PTimer s') u \<noteq> None"
      using t(1) by (auto simp: trying_def simp del: map_of_eq_Some_iff)
    then show ?thesis using True t(2) n f by (auto simp: a try_packet_def count_list_0_iff simp del: map_of_eq_Some_iff)
  next
    case False
    then have t: "relayed u ?it s'" "count_list out (Add_Forward_Node u) = 1" using r by simp_all
    have "module_handle s' (P2P_Tick j u) = Inr (s', [])" using t(1) by (simp add: relayed_def module_handle_def)
    then show ?thesis using False t f by (auto simp: relayed_def simp del: map_of_eq_Some_iff)
  qed
qed

definition quiet_addr :: sockaddr_in where
  "quiet_addr = \<lparr>sin_family = 2, sin_port = 9, sin_addr = 1, sin_zero = replicate 8 0\<rparr>"

definition quiet_junk :: UdpPacket where
  "quiet_junk = \<lparr>up_userId = 0, up_index = 0, up_type = 0, up_del = False, up_dstUserId = 0, up_localPort = 0\<rparr>"

definition quiet_rsp :: CRspP2PAddrMsg where
  "quiet_rsp = \<lparr>rsp_dstUserId = 7, rsp_dstIp = 1, rsp_dstPort = 1, rsp_dstLocalUdpPort = 1, rsp_clientId = 0, rsp_success = True\<rparr>"

definition quiet_start :: udp_module where
  "quiet_start = (udp_module_new quiet_addr 3 1)\<lparr>m_mapPeerClientCtx := [(7, \<lparr>WANAddr = None, LANAddr = None, p2p_status = Pending\<rparr>)]\<rparr>"

lemma quiet_inv: "p2p_inv quiet_start"
  by (simp add: p2p_inv_def quiet_start_def udp_module_new_def udp_handle.extend_def udp_module.fields_def
      udp_handle_new_def timers_ok_def)

lemma quiet_ticks: "\<exists>s' out. run_events module_handle quiet_start
    (Rsp_P2PAddr True quiet_junk quiet_rsp # replicate n (P2P_Tick quiet_junk 7)) = Inr (s', out)"
proof -
  have tick: "\<exists>s' out. module_handle s (P2P_Tick quiet_junk 7) = Inr (s', out)" if "p2p_inv s" for s
  proof (cases "map_of (m_mapP2PTimer s) 7")
    case (Some ctx)
    have "\<exists>r. P2PTimer quiet_junk ctx s = Inr r" by (rule P2PTimer_cases [OF that Some, of quiet_junk]) blast+
    then show ?thesis using Some by (auto simp: module_handle_def simp del: map_of_eq_Some_iff)
  qed (simp add: module_handle_def)
  have ticks: "p2p_inv s \<Longrightarrow> \<exists>s' out. run_events module_handle s (replicate n (P2P_Tick quiet_junk 7)) = Inr (s', out)" for n s
  proof (induction n arbitrary: s)
    case (Suc n)
    obtain t o1 where "module_handle s (P2P_Tick quiet_junk 7) = Inr (t, o1)" using tick [OF Suc.prems] by blast
    then show ?case using Suc.IH [of t] module_handle_inv [OF Suc.prems] by fastforce
  qed simp
  obtain t where t: "module_handle quiet_start (Rsp_P2PAddr True quiet_junk quiet_rsp) = Inr (t, [])"
    by (simp add: module_handle_def)
  obtain s' out where "run_events module_handle t (replicate n (P2P_Tick quiet_junk 7)) = Inr (s', out)"
    using ticks [OF module_handle_inv [OF quiet_inv t], of n] by blast
  then show ?thesis using t by simp
qed

theorem p2p_fallback_witness:
  "(\<exists>s' out s2 p lan. run_events module_handle quiet_start
     (Rsp_P2PAddr True quiet_junk quiet_rsp # replicate 4 (P2P_Tick quiet_junk 7)) = Inr (s', out)
     \<and> count_list out (Add_Forward_Node 7) = 0
     \<and> module_handle s' (P2P_Tick quiet_junk 7) = Inr (s2, [Udp_Out (Udp_Send (udp_bytes p) lan)]) \<and> \<not> up_del p)
   \<and> (\<exists>s' out. run_events module_handle quiet_start
     (Rsp_P2PAddr True quiet_junk quiet_rsp # replicate 16 (P2P_Tick quiet_junk 7)) = Inr (s', out)
   \<and> count_list out (Add_Forward_Node 7) = 1)"
proof (rule conjI)
  have f: "rsp_success quiet_rsp" "rsp_dstUserId quiet_rsp = 7" by (simp_all add: quiet_rsp_def)
  have p: "map_of (m_mapPeerClientCtx quiet_start) 7 = Some \<lparr>WANAddr = None, LANAddr = None, p2p_status = Pending\<rparr>"
    by (simp add: quiet_start_def)
  have n: "\<forall>e\<in>set (replicate n (P2P_Tick quiet_junk 7)). no_answer 7 e"
    "n = length (filter (is_tick 7) (replicate n (P2P_Tick quiet_junk 7)))" for n
    by (simp_all add: no_answer_def is_tick_def filter_replicate)
  note fb = p2p_fallback [OF quiet_inv p f n _ refl refl, where j = quiet_junk]
  obtain s' out where "run_events module_handle quiet_start
     (Rsp_P2PAddr True quiet_junk quiet_rsp # replicate 4 (P2P_Tick quiet_junk 7)) = Inr (s', out)" using quiet_ticks by blast
  from fb [OF this] this show "\<exists>s' out s2 p lan. run_events module_handle quiet_start
     (Rsp_P2PAddr True quiet_junk quiet_rsp # replicate 4 (P2P_Tick quiet_junk 7)) = Inr (s', out)
     \<and> count_list out (Add_Forward_Node 7) = 0
     \<and> module_handle s' (P2P_Tick quiet_junk 7) = Inr (s2, [Udp_Out (Udp_Send (udp_bytes p) lan)]) \<and> \<not> up_del p" by fastforce
  obtain s' out where "run_events module_handle quiet_start
     (Rsp_P2PAddr True quiet_junk quiet_rsp # replicate 16 (P2P_Tick quiet_junk 7)) = Inr (s', out)" using quiet_ticks by blast
  from fb [OF this] this show "\<exists>s' out. run_events module_handle quiet_start
     (Rsp_P2PAddr True quiet_junk quiet_rsp # replicate 16 (P2P_Tick quiet_junk 7)) = Inr (s', out)
   \<and> count_list out (Add_Forward_Node 7) = 1" by fastforce
qed

lemma punch1_handled:
  assumes "length (uh_buf t) = UDP_BUFFER_SIZE" "unat (up_type p) = PUNCH_HOLE_MSG1"
  shows "\<exists>t'. module_handle t (Packet (udp_bytes p) (Some a)) = Inr (t',
    if up_dstUserId p = um_userId t then [Udp_Out (Udp_Send (udp_bytes (p\<lparr>up_type := of_nat PUNCH_HOLE_MSG2\<rparr>)) a)] else [])"
proof -
  obtain b n where r: "module_handle t (Packet (udp_bytes p) (Some a))
      = module_ParsePacket p (udp_bytes p) a (t\<lparr>uh_buf := b, m_nRecvByteCount := n\<rparr>)"
    using packet_handled [OF assms(1)] by blast
  show ?thesis using assms(2)
    by (simp add: r module_ParsePacket_def OnRecvPunchHoleMsg1_def Let_def PUNCH_HOLE_MSG1_def
        MULTI_FORWARD_MSG_def ACK_LOGIN_def)
qed

lemma punch2_handled:
  assumes "length (uh_buf s) = UDP_BUFFER_SIZE" "unat (up_type p) = PUNCH_HOLE_MSG2" "\<not> up_del p"
    "map_of (m_mapPeerClientCtx s) (up_dstUserId p) = Some it"
  shows "\<exists>s'. module_handle s (Packet (udp_bytes p) (Some b)) = Inr (s', [])
    \<and> map_of (m_mapP2PTimer s') (up_dstUserId p) = None
    \<and> map_of (m_mapPeerClientCtx s') (up_dstUserId p) = Some (it\<lparr>p2p_status := LAN_success, LANAddr := Some b\<rparr>)"
proof -
  obtain c n where r: "module_handle s (Packet (udp_bytes p) (Some b))
      = module_ParsePacket p (udp_bytes p) b (s\<lparr>uh_buf := c, m_nRecvByteCount := n\<rparr>)"
    using packet_handled [OF assms(1)] by blast
  show ?thesis using assms(2-4)
    by (simp add: r module_ParsePacket_def OnRecvPunchHoleMsg2_def Let_def PUNCH_HOLE_MSG2_def
        PUNCH_HOLE_MSG1_def MULTI_FORWARD_MSG_def ACK_LOGIN_def removeP2PTimer_def delete_conv' update_conv' del: map_of_eq_Some_iff)
qed

text \<open>
  Property C23. The punch-through in the local network works between two modules: the packet a timer
  of one sends is answered by exactly the user it names, and the answer stops the timer and makes the
  address it came from the one that media is sent to.
\<close>

theorem punch_handshake:
  assumes "p2p_inv s" "map_of (m_mapP2PTimer s) u = Some ctx" "\<not> up_del (tm_msg ctx)" "0 < repeatTimes ctx"
    "unat (up_type (tm_msg ctx)) = PUNCH_HOLE_MSG1" "p2p_inv t" "p2p_inv v" "um_userId t = u" "um_userId v \<noteq> u"
  shows "\<exists>s1 w addr t1 w' v1 s2 it. module_handle s (P2P_Tick junk u) = Inr (s1, [Udp_Out (Udp_Send w addr)])
    \<and> module_handle v (Packet w (Some a)) = Inr (v1, [])
    \<and> module_handle t (Packet w (Some a)) = Inr (t1, [Udp_Out (Udp_Send w' a)])
    \<and> module_handle s1 (Packet w' (Some b)) = Inr (s2, []) \<and> map_of (m_mapP2PTimer s2) u = None
    \<and> map_of (m_mapPeerClientCtx s2) u = Some it \<and> \<not> needs_relay it \<and> direct_addr it = Some b"
proof -
  let ?w = "udp_bytes (tm_msg ctx)" and ?p = "(tm_msg ctx)\<lparr>up_type := of_nat PUNCH_HOLE_MSG2\<rparr>"
  have inv: "timers_ok (m_mapP2PTimer s) (m_mapPeerClientCtx s)" "length (uh_buf s) = UDP_BUFFER_SIZE"
    "length (uh_buf t) = UDP_BUFFER_SIZE" "length (uh_buf v) = UDP_BUFFER_SIZE"
    using assms(1,6,7) by (simp_all add: p2p_inv_def)
  have d: "up_dstUserId (tm_msg ctx) = u" using timers_okD [OF inv(1) assms(2)] by blast
  obtain it addr where tick: "map_of (m_mapPeerClientCtx s) u = Some it"
    "P2PTimer junk ctx s = Inr (s\<lparr>m_nSendByteCount := m_nSendByteCount s + 12,
         m_mapP2PTimer := AList.update u (ctx\<lparr>repeatTimes := repeatTimes ctx - 1\<rparr>) (m_mapP2PTimer s)\<rparr>,
         [Udp_Out (Udp_Send ?w addr)])"
    by (rule P2PTimer_cases [OF assms(1,2), of junk]) (use assms(4) in auto)
  define s1 where "s1 = s\<lparr>m_nSendByteCount := m_nSendByteCount s + 12,
         m_mapP2PTimer := AList.update u (ctx\<lparr>repeatTimes := repeatTimes ctx - 1\<rparr>) (m_mapP2PTimer s)\<rparr>"
  have 1: "module_handle s (P2P_Tick junk u) = Inr (s1, [Udp_Out (Udp_Send ?w addr)])"
    using assms(2) tick(2) by (simp add: module_handle_def s1_def del: map_of_eq_Some_iff)
  obtain t1 v1 where 2: "module_handle t (Packet ?w (Some a)) = Inr (t1, [Udp_Out (Udp_Send (udp_bytes ?p) a)])"
    "module_handle v (Packet ?w (Some a)) = Inr (v1, [])"
    using punch1_handled [OF inv(3) assms(5), of a] punch1_handled [OF inv(4) assms(5), of a] assms(8,9) d by auto
  have "unat (up_type ?p) = PUNCH_HOLE_MSG2" by (simp add: PUNCH_HOLE_MSG2_def)
  then obtain s2 where 3: "module_handle s1 (Packet (udp_bytes ?p) (Some b)) = Inr (s2, [])"
    "map_of (m_mapP2PTimer s2) u = None"
    "map_of (m_mapPeerClientCtx s2) u = Some (it\<lparr>p2p_status := LAN_success, LANAddr := Some b\<rparr>)"
    using punch2_handled [of s1 ?p it b] inv(2) tick(1) d assms(3) by (auto simp: s1_def simp del: map_of_eq_Some_iff)
  show ?thesis using 1 2 3 by (fastforce simp: needs_relay_def direct_addr_def)
qed

definition punching :: udp_module where
  "punching = quiet_start\<lparr>m_mapPeerClientCtx := [(7, \<lparr>WANAddr = Some quiet_addr, LANAddr = Some quiet_addr, p2p_status = Pending\<rparr>)],
     m_mapP2PTimer := [(7, generateTimerCtx (punchhole_msg quiet_junk 7 False quiet_start) 4 0 25)]\<rparr>"

theorem punch_handshake_witness:
  "\<exists>s1 w addr t1 w' s2 it. module_handle punching (P2P_Tick quiet_junk 7) = Inr (s1, [Udp_Out (Udp_Send w addr)])
    \<and> module_handle (udp_module_new quiet_addr 7 1) (Packet w (Some quiet_addr)) = Inr (t1, [Udp_Out (Udp_Send w' quiet_addr)])
    \<and> module_handle s1 (Packet w' (Some zero_addr)) = Inr (s2, [])
    \<and> map_of (m_mapPeerClientCtx s2) 7 = Some it \<and> direct_addr it = Some zero_addr"
proof -
  have inv: "p2p_inv punching" using quiet_inv
    by (auto simp: punching_def p2p_inv_def timers_ok_def quiet_start_def timer_defs split: if_splits)
  have "unat (of_nat PUNCH_HOLE_MSG1 :: 7 word) = PUNCH_HOLE_MSG1" by (simp add: PUNCH_HOLE_MSG1_def)
  then show ?thesis
    using punch_handshake [OF inv, of 7 "generateTimerCtx (punchhole_msg quiet_junk 7 False quiet_start) 4 0 25"
        "udp_module_new quiet_addr 7 1" "udp_module_new quiet_addr 8 1" quiet_junk quiet_addr zero_addr]
      udp_module_new_inv
    by (fastforce simp: punching_def timer_defs)
qed

text \<open>
  Media data arrives with the receiver's listener unchanged and under the sender's id
  exactly if its second byte, which lies where the packet type is, is no type of a control message;
  otherwise the listener never sees it.
\<close>

theorem voip_delivery:
  assumes "p2p_inv s" "p2p_inv r" "2 \<le> length d" "length d \<le> 60000" "\<not> m_bEnableP2P s"
    "map_of (m_mapPeerClientCtx r) (um_userId s) \<noteq> None" "m_pVoipDataListener r"
  shows "\<exists>w. module_handle s (sendVoipData d s) = Inr (s, [Udp_Out (Sendmsg w (m_serverAddr s))])
    \<and> (\<exists>r' out. module_handle r (Packet w (Some src)) = Inr (r', out)
      \<and> (if unat (d ! 1) mod 128 < MULTI_FORWARD_MSG then out = [Voip_Data d (um_userId s)]
         else \<forall>x k. Voip_Data x k \<notin> set out))"
proof -
  have "length (uh_buf r) = UDP_BUFFER_SIZE" using assms(2) by (simp add: p2p_inv_def)
  from voip_received [OF this assms(3,4,6,7), of src] obtain r' out where
    "module_handle r (Packet (le_bytes 4 (unat (um_userId s)) @ d) (Some src)) = Inr (r', out)"
    "if unat (d ! 1) mod 128 < MULTI_FORWARD_MSG then out = [Voip_Data d (um_userId s)] else set out \<subseteq> range Udp_Out" by blast
  then show ?thesis
    using assms(5) by (cases "unat (d ! 1) mod 128 < MULTI_FORWARD_MSG")
      (auto simp: sendVoipData_def module_handle_def [of s] OnSendMediaMsg_def simp del: One_nat_def)
qed

theorem voip_delivery_witness:
  "\<exists>w r' out. module_handle (quiet_start\<lparr>m_bEnableP2P := False\<rparr>) (sendVoipData [1, 2, 3] (quiet_start\<lparr>m_bEnableP2P := False\<rparr>))
      = Inr (quiet_start\<lparr>m_bEnableP2P := False\<rparr>, [Udp_Out (Sendmsg w quiet_addr)])
    \<and> module_handle (quiet_start\<lparr>m_mapPeerClientCtx := [(3, \<lparr>WANAddr = None, LANAddr = None, p2p_status = Pending\<rparr>)],
        m_pVoipDataListener := True\<rparr>) (Packet w (Some zero_addr)) = Inr (r', [Voip_Data [1, 2, 3] 3])"
proof -
  let ?s = "quiet_start\<lparr>m_bEnableP2P := False\<rparr>"
  let ?r = "quiet_start\<lparr>m_mapPeerClientCtx := [(3, \<lparr>WANAddr = None, LANAddr = None, p2p_status = Pending\<rparr>)], m_pVoipDataListener := True\<rparr>"
  have i: "p2p_inv ?s" "p2p_inv ?r" using quiet_inv by (simp_all add: p2p_inv_def timers_ok_def quiet_start_def)
  have f: "um_userId ?s = 3" "m_serverAddr ?s = quiet_addr"
    by (simp_all add: quiet_start_def)
  show ?thesis using voip_delivery [OF i, of "[1, 2, 3]" zero_addr] by (simp add: f MULTI_FORWARD_MSG_def)
qed

text \<open>
  An answer for the public address that comes before the address itself makes the module
  send media to an address nobody has set.
\<close>

theorem early_punch_answer:
  "run_events module_handle (udp_module_new quiet_addr 3 1)
     [Add_Node 7, Packet (udp_bytes (quiet_junk\<lparr>up_type := of_nat PUNCH_HOLE_MSG2, up_del := True, up_dstUserId := 7\<rparr>)) (Some quiet_addr),
      Send_Media [1]] = Inl Indeterminate_Value"
proof -
  define p where "p = quiet_junk\<lparr>up_type := of_nat PUNCH_HOLE_MSG2, up_del := True, up_dstUserId := 7\<rparr>"
  have p: "unat (up_type p) = PUNCH_HOLE_MSG2" "up_del p" "up_dstUserId p = 7" by (simp_all add: p_def PUNCH_HOLE_MSG2_def)
  let ?s = "(udp_module_new quiet_addr 3 1)\<lparr>m_mapPeerClientCtx := [(7, \<lparr>WANAddr = None, LANAddr = None, p2p_status = Pending\<rparr>)]\<rparr>"
  have 1: "module_handle (udp_module_new quiet_addr 3 1) (Add_Node 7) = Inr (?s, [Get_P2PAddr 7])"
    by (simp add: module_handle_def OnAddForwardNodeMsg_def Let_def)
  have "length (uh_buf ?s) = UDP_BUFFER_SIZE" using udp_module_new_inv [of quiet_addr 3 1] by (simp add: p2p_inv_def)
  then obtain b n where r: "module_handle ?s (Packet (udp_bytes p) (Some quiet_addr))
      = module_ParsePacket p (udp_bytes p) quiet_addr (?s\<lparr>uh_buf := b, m_nRecvByteCount := n\<rparr>)"
    using packet_handled by blast
  have 2: "module_handle ?s (Packet (udp_bytes p) (Some quiet_addr)) = Inr (?s\<lparr>uh_buf := b, m_nRecvByteCount := n,
      m_mapPeerClientCtx := [(7, \<lparr>WANAddr = None, LANAddr = None, p2p_status = WAN_success\<rparr>)]\<rparr>, [])"
    by (simp add: r module_ParsePacket_def OnRecvPunchHoleMsg2_def p Let_def PUNCH_HOLE_MSG2_def
        PUNCH_HOLE_MSG1_def MULTI_FORWARD_MSG_def ACK_LOGIN_def removeP2PTimer_def)
  show ?thesis unfolding p_def [symmetric]
    by (simp add: 1 2) (simp add: module_handle_def OnSendMediaMsg_def)
qed

end
