(* ===== verification/Config_File.thy ===== *)
theory Config_File
  imports Ip_Address "HOL-Library.Char_ord" "HOL-Library.List_Lexorder"
begin

text \<open>
  Configuration files: \<open>simple_uv/config.cpp\<close> and \<open>config.h\<close> with the streams and strings they use, and the
  settings \<open>CRelayServer\<close> takes from its file (\<open>relay_server_sdk/relay_server.cpp\<close>). Reading is a total
  function; its two loops end because every line that is read takes something from the stream.
\<close>

section \<open>Strings\<close>

text \<open>\<open>std::string::find\<close>; \<open>None\<close> is \<open>npos\<close>. \<open>substr(0, npos)\<close> is the whole string.\<close>

fun string_find :: "string \<Rightarrow> string \<Rightarrow> nat option" where
  "string_find p s = (if take (length p) s = p then Some 0
     else case s of [] \<Rightarrow> None | _ # s' \<Rightarrow> map_option Suc (string_find p s'))"

declare string_find.simps [simp del]

definition before :: "string \<Rightarrow> string \<Rightarrow> string" where
  "before p s = (case string_find p s of None \<Rightarrow> s | Some n \<Rightarrow> take n s)"

definition is_white :: "char \<Rightarrow> bool" where
  "is_white c \<longleftrightarrow> c \<in> {CHR '' '', CHR 0x0A, CHR 0x09, CHR 0x0B, CHR 0x0D, CHR 0x0C}"

definition Trim :: "string \<Rightarrow> string" where
  "Trim s = rev (dropWhile is_white (rev (dropWhile is_white s)))"

section \<open>Reading lines\<close>

text \<open>
  A stream with its two flags. \<open>std::getline\<close> does not touch the string when the stream has already
  reached its end.
\<close>

definition getline :: "stream \<Rightarrow> string \<Rightarrow> stream \<times> string" where
  "getline s str = (
     if ss_eof s \<or> ss_fail s then (s\<lparr>ss_fail := True\<rparr>, str)
     else let l = takeWhile (\<lambda>c. c \<noteq> CHR 0x0A) (ss_rest s); r = dropWhile (\<lambda>c. c \<noteq> CHR 0x0A) (ss_rest s)
       in case r of [] \<Rightarrow> (s\<lparr>ss_rest := [], ss_eof := True, ss_fail := (l = [])\<rparr>, l)
        | _ # r' \<Rightarrow> (s\<lparr>ss_rest := r'\<rparr>, l))"

text \<open>How much a stream can still give.\<close>

definition stream_left :: "stream \<Rightarrow> nat" where
  "stream_left s = (if ss_fail s then 0 else if ss_eof s then 1 else 2 + length (ss_rest s))"

lemma dropWhile_length: "length (dropWhile P xs) \<le> length xs"
  by (induction xs) auto

lemma getline_left: "\<not> ss_fail s \<Longrightarrow> getline s str = (s', l) \<Longrightarrow> stream_left s' < stream_left s"
proof -
  assume f: "\<not> ss_fail s" and g: "getline s str = (s', l)"
  let ?r = "dropWhile (\<lambda>c. c \<noteq> CHR 0x0A) (ss_rest s)"
  have "length ?r \<le> length (ss_rest s)" by (rule dropWhile_length)
  then show ?thesis using f g
    by (cases "ss_eof s"; cases ?r) (auto simp: getline_def stream_left_def Let_def simp del: dropWhile_eq_Nil_conv dropWhile_eq_Cons_conv)
qed

section \<open>The configuration\<close>

record Config =
  m_Delimiter :: string
  m_Comment :: string
  m_Contents :: "(string \<times> string) list"

definition Config_new :: Config where
  "Config_new = \<lparr>m_Delimiter = ''='', m_Comment = ''#'', m_Contents = []\<rparr>"

definition KeyExists :: "string \<Rightarrow> Config \<Rightarrow> bool" where
  "KeyExists key cf \<longleftrightarrow> map_of (m_Contents cf) key \<noteq> None"

text \<open>Erasing the end iterator is undefined.\<close>

definition Remove :: "string \<Rightarrow> Config \<Rightarrow> Config outcome" where
  "Remove key cf = (if map_of (m_Contents cf) key = None then Inl Iterator_Invalidated
     else Inr (cf\<lparr>m_Contents := AList.delete key (m_Contents cf)\<rparr>))"

definition Config_Add :: "string \<Rightarrow> string \<Rightarrow> Config \<Rightarrow> Config" where
  "Config_Add key v cf = cf\<lparr>m_Contents := AList.update (Trim key) (Trim v) (m_Contents cf)\<rparr>"

text \<open>Lines 107 to 126 of \<open>operator>>\<close>: the lines that continue a value.\<close>

function continue_value :: "string \<Rightarrow> string \<Rightarrow> stream \<Rightarrow> string \<Rightarrow> string \<Rightarrow> stream \<times> string \<times> string" where
  "continue_value delim comm s line nextline = (
     if ss_fail s then (s, line, nextline)
     else let (s', nextline) = getline s nextline in
       if Trim nextline = [] then (s', line, nextline)
       else let nextline = before comm nextline in
         if string_find delim nextline \<noteq> None then (s', line, nextline)
         else let line = (if Trim nextline \<noteq> [] then line @ [CHR 0x0A] else line)
              in continue_value delim comm s' (line @ nextline) nextline)"
  by pat_completeness auto

termination by (relation "measure (\<lambda>(_, _, s, _). stream_left s)") (auto intro: getline_left [OF _ sym])

declare continue_value.simps [simp del]

lemma continue_left:
  "continue_value delim comm s line nextline = (s', l, n) \<Longrightarrow>
    stream_left s' \<le> stream_left s \<and> (\<not> ss_fail s \<longrightarrow> stream_left s' < stream_left s) \<and> (ss_fail s \<longrightarrow> n = nextline)"
proof (induction delim comm s line nextline rule: continue_value.induct)
  case (1 delim comm s line nextline)
  show ?case
  proof (cases "ss_fail s")
    case False
    obtain t m where g: "getline s nextline = (t, m)" by (cases "getline s nextline")
    note lt = getline_left [OF False g]
    show ?thesis using 1 g lt False
      by (subst (asm) (2) continue_value.simps) (fastforce simp: Let_def split: if_splits)
  qed (use 1(2) in \<open>simp add: continue_value.simps\<close>)
qed

text \<open>\<open>operator>>\<close>: the loop over the lines, with what was read ahead.\<close>

definition next_line :: "stream \<Rightarrow> string \<Rightarrow> stream \<times> string" where
  "next_line s nextline = (if nextline \<noteq> [] then (s, nextline) else getline s [])"

definition config_left :: "stream \<Rightarrow> string \<Rightarrow> nat" where
  "config_left s nextline = 2 * stream_left s + (if nextline = [] then 0 else 1)"

lemma next_line_left:
  assumes "\<not> (ss_fail s \<and> nextline = [])" "next_line s nextline = (s1, line)"
  shows "config_left s1 [] < config_left s nextline"
  using assms getline_left [of s "[]" s1 line] by (auto simp: next_line_def config_left_def split: if_splits)

lemma value_left:
  assumes "continue_value d c s1 l [] = (s2, v, n2)"
  shows "config_left s2 n2 \<le> config_left s1 []"
  using continue_left [OF assms] by (cases "ss_fail s1") (auto simp: config_left_def)

lemma read_left:
  assumes "(s1, line) = next_line s nextline" "(s2, v, n2) = continue_value d c s1 l []" "\<not> ss_fail s \<or> nextline \<noteq> []"
  shows "config_left s2 n2 < config_left s nextline"
proof -
  have "config_left s1 [] < config_left s nextline"
    by (rule next_line_left [of s nextline s1 line]) (use assms(1,3) in auto)
  then show ?thesis using value_left [of d c s1 l s2 v n2] assms(2) by simp
qed

function read_config :: "stream \<Rightarrow> string \<Rightarrow> Config \<Rightarrow> stream \<times> Config" where
  "read_config s nextline cf = (
     if ss_fail s \<and> nextline = [] then (s, cf)
     else let (s1, line) = next_line s nextline;
              line = before (m_Comment cf) line
       in case string_find (m_Delimiter cf) line of
            None \<Rightarrow> read_config s1 [] cf
          | Some p \<Rightarrow> (case continue_value (m_Delimiter cf) (m_Comment cf) s1 (drop (p + length (m_Delimiter cf)) line) [] of
              (s2, v, nextline2) \<Rightarrow> read_config s2 nextline2
                (cf\<lparr>m_Contents := AList.update (Trim (take p line)) (Trim v) (m_Contents cf)\<rparr>)))"
  by pat_completeness auto

termination
proof (relation "measure (\<lambda>(s, nextline, _). config_left s nextline)", goal_cases)
  case 2
  then show ?case by (auto intro: next_line_left [OF _ sym])
next
  case 3
  then show ?case by (auto intro: read_left)
qed simp

declare read_config.simps [simp del]

text \<open>\<open>operator<<\<close>; the map is visited in the order of its keys.\<close>

fun insert_entry :: "string \<times> string \<Rightarrow> (string \<times> string) list \<Rightarrow> (string \<times> string) list" where
  "insert_entry e [] = [e]"
| "insert_entry e (f # es) = (if fst e \<le> fst f then e # f # es else f # insert_entry e es)"

definition map_entries :: "Config \<Rightarrow> (string \<times> string) list" where
  "map_entries cf = foldr insert_entry (m_Contents cf) []"

definition write_config :: "Config \<Rightarrow> string" where
  "write_config cf = concat (map (\<lambda>(k, v). k @ '' '' @ m_Delimiter cf @ '' '' @ v @ [CHR 0x0A]) (map_entries cf))"

text \<open>
  \<open>ReadFile\<close>: the contents of the file, if it can be opened, are an argument. A file that is not there
  raises \<open>File_not_found\<close>.
\<close>

definition ReadFile :: "string option \<Rightarrow> string \<Rightarrow> string \<Rightarrow> Config \<Rightarrow> Config outcome" where
  "ReadFile file delimiter comment cf = (
     let cf = cf\<lparr>m_Delimiter := delimiter, m_Comment := comment\<rparr>
     in case file of None \<Rightarrow> Inl File_Not_Found
        | Some text \<Rightarrow> Inr (snd (read_config \<lparr>ss_rest = text, ss_eof = False, ss_fail = False\<rparr> [] cf)))"

definition FileExist :: "string option \<Rightarrow> bool" where
  "FileExist file \<longleftrightarrow> file \<noteq> None"

text \<open>
  Values as strings and as \<open>int\<close>s; the \<open>int\<close> is not initialised, and an empty text leaves it so.
\<close>

definition string_as_int :: "string \<Rightarrow> int outcome" where
  "string_as_int v = (
     let ist = \<lparr>ss_rest = v, ss_eof = False, ss_fail = False\<rparr>
     in if snd (ss_sentry ist) then Inr (snd (ss_get_int 0 ist)) else Inl Indeterminate_Value)"

definition toupper :: "char \<Rightarrow> char" where
  "toupper c = (let n = of_char c :: nat in if 97 \<le> n \<and> n \<le> 122 then char_of (n - 32) else c)"

definition string_as_bool :: "string \<Rightarrow> bool" where
  "string_as_bool s = (map toupper s \<notin> {''FALSE'', ''F'', ''NO'', ''N'', ''0'', ''NONE''})"

definition Read_string :: "string \<Rightarrow> string \<Rightarrow> Config \<Rightarrow> string" where
  "Read_string key dflt cf = (case map_of (m_Contents cf) key of None \<Rightarrow> dflt | Some v \<Rightarrow> v)"

definition Read_int :: "string \<Rightarrow> int \<Rightarrow> Config \<Rightarrow> int outcome" where
  "Read_int key dflt cf = (case map_of (m_Contents cf) key of None \<Rightarrow> Inr dflt | Some v \<Rightarrow> string_as_int v)"

text \<open>The variant without a default raises \<open>Key_not_found\<close>.\<close>

definition Read_key :: "string \<Rightarrow> Config \<Rightarrow> string outcome" where
  "Read_key key cf = (case map_of (m_Contents cf) key of None \<Rightarrow> Inl Key_Not_Found | Some v \<Rightarrow> Inr v)"

definition ReadInto_string :: "string \<Rightarrow> string \<Rightarrow> Config \<Rightarrow> string \<times> bool" where
  "ReadInto_string var key cf = (case map_of (m_Contents cf) key of None \<Rightarrow> (var, False) | Some v \<Rightarrow> (v, True))"
section \<open>What a file says\<close>

text \<open>
  The entries of a file as a grammar over its lines, with no stream and no reading ahead. A comment is
  taken off first; a line with a delimiter opens an entry; the lines after it continue its value
  until a blank line or one that opens another entry, and a line that is only a comment adds nothing but
  the blanks before it.
\<close>

definition stripped :: "string \<Rightarrow> string" where
  "stripped l = takeWhile (\<lambda>c. c \<noteq> CHR ''#'') l"

definition blank :: "string \<Rightarrow> bool" where
  "blank l \<longleftrightarrow> list_all is_white l"

definition continues :: "string \<Rightarrow> bool" where
  "continues l \<longleftrightarrow> \<not> blank l \<and> CHR ''='' \<notin> set (stripped l)"

definition continued :: "string \<Rightarrow> string" where
  "continued l = (if blank (stripped l) then stripped l else CHR 0x0A # stripped l)"

definition value_of :: "string \<Rightarrow> string list \<Rightarrow> string" where
  "value_of v ls = v @ concat (map continued (takeWhile continues ls))"

lemma dropWhile_short: "length (dropWhile P xs) < Suc (length xs)"
  using dropWhile_length [of P xs] by simp

function entries :: "string list \<Rightarrow> (string \<times> string) list" where
  "entries [] = []"
| "entries (l # ls) = (let s = stripped l in
     if CHR ''='' \<in> set s then (Trim (takeWhile (\<lambda>c. c \<noteq> CHR ''='') s),
         Trim (value_of (tl (dropWhile (\<lambda>c. c \<noteq> CHR ''='') s)) ls)) # entries (dropWhile continues ls)
     else entries ls)"
  by pat_completeness auto

termination by (relation "measure length") (simp_all add: dropWhile_short)

declare entries.simps(2) [simp del]

lemma dropWhile_Cons_less: "dropWhile P xs = x # ys \<Longrightarrow> length ys < length xs"
  using dropWhile_length [of P xs] by simp

text \<open>
  The lines of a file. One that ends the file without a line feed is seen twice, the second time without
  its comment, when it can only continue a value.
\<close>

function file_lines :: "string \<Rightarrow> string list" where
  "file_lines t = (case dropWhile (\<lambda>c. c \<noteq> CHR 0x0A) t of
       [] \<Rightarrow> if t = [] then [] else if blank (stripped t) \<or> CHR ''='' \<in> set (stripped t) then [t] else [t, stripped t]
     | _ # r \<Rightarrow> takeWhile (\<lambda>c. c \<noteq> CHR 0x0A) t # file_lines r)"
  by pat_completeness auto

termination
  by (relation "measure length") (auto dest: dropWhile_Cons_less simp del: dropWhile_eq_Cons_conv)

declare file_lines.simps [simp del]

lemma string_find_char: "string_find [d] s = (if d \<in> set s then Some (length (takeWhile (\<lambda>x. x \<noteq> d) s)) else None)"
  by (induction s) (subst string_find.simps, force)+

lemma stripped_same: "CHR ''#'' \<notin> set l \<Longrightarrow> stripped l = l"
  by (auto simp: stripped_def takeWhile_eq_all_conv)

lemma before_stripped: "before ''#'' s = stripped s"
proof (cases "CHR ''#'' \<in> set s")
  case True
  then show ?thesis by (simp add: before_def string_find_char stripped_def takeWhile_eq_take [symmetric])
qed (simp add: before_def string_find_char stripped_same)

lemma Trim_blank: "Trim s = [] \<longleftrightarrow> blank s"
  by (auto simp: Trim_def blank_def list_all_iff dropWhile_eq_Nil_conv dest: set_dropWhileD)
    (metis Un_iff set_append set_takeWhileD takeWhile_dropWhile_id)

lemma stripped_idem [simp]: "stripped (stripped l) = stripped l"
  by (simp add: stripped_def)

lemma not_white: "\<not> is_white CHR ''#''" "\<not> is_white CHR ''=''"
  by (simp_all add: is_white_def)

lemma not_blank: "x \<in> set l \<Longrightarrow> \<not> is_white x \<Longrightarrow> \<not> blank l"
  by (auto simp: blank_def list_all_iff)

lemma stripped_blank: "blank l \<Longrightarrow> stripped l = l"
  using not_blank not_white(1) by (blast intro: stripped_same)

lemma entries_stripped: "entries (stripped l # ls) = entries (l # ls)"
  by (simp only: entries.simps(2) stripped_idem)

lemma entries_skip: "CHR ''='' \<notin> set (stripped l) \<Longrightarrow> entries (l # ls) = entries ls"
  by (simp only: entries.simps(2) Let_def if_False)

section \<open>Reading is what the file says\<close>

text \<open>The lines a stream still has, after what was read ahead.\<close>

definition lines_left :: "stream \<Rightarrow> string \<Rightarrow> string list" where
  "lines_left s n = (if n = [] then [] else [n]) @ (if ss_eof s then [] else file_lines (ss_rest s))"

definition stream_ok :: "stream \<Rightarrow> bool" where
  "stream_ok s \<longleftrightarrow> (ss_fail s \<longrightarrow> ss_eof s)"

text \<open>What the loop over the continued lines takes from a stream: at its end, the line before once more.\<close>

definition lines_ahead :: "stream \<Rightarrow> string \<Rightarrow> string list" where
  "lines_ahead s n = (if \<not> ss_eof s then file_lines (ss_rest s) else if ss_fail s \<or> blank n then [] else [n])"

lemma getline_lines:
  assumes "\<not> ss_eof s" "stream_ok s" "getline s n = (s', l)"
  shows "stream_ok s'" "ss_eof s' \<Longrightarrow> ss_fail s' \<longleftrightarrow> l = []"
    "file_lines (ss_rest s) = (if ss_eof s' then if l = [] then [] else
        if blank (stripped l) \<or> CHR ''='' \<in> set (stripped l) then [l] else [l, stripped l] else l # file_lines (ss_rest s'))"
proof -
  let ?P = "\<lambda>c. c \<noteq> CHR 0x0A"
  have "\<not> ss_fail s" using assms(1,2) by (simp add: stream_ok_def)
  then have g: "getline s n = (case dropWhile ?P (ss_rest s) of
      [] \<Rightarrow> (s\<lparr>ss_rest := [], ss_eof := True, ss_fail := (takeWhile ?P (ss_rest s) = [])\<rparr>, takeWhile ?P (ss_rest s))
    | _ # r' \<Rightarrow> (s\<lparr>ss_rest := r'\<rparr>, takeWhile ?P (ss_rest s)))"
    using assms(1) by (simp add: getline_def Let_def)
  have t: "dropWhile ?P (ss_rest s) = [] \<Longrightarrow> takeWhile ?P (ss_rest s) = ss_rest s"
    using takeWhile_dropWhile_id [of ?P "ss_rest s"] by simp
  have "stream_ok s' \<and> (ss_eof s' \<longrightarrow> ss_fail s' = (l = [])) \<and>
    file_lines (ss_rest s) = (if ss_eof s' then if l = [] then [] else
        if blank (stripped l) \<or> CHR ''='' \<in> set (stripped l) then [l] else [l, stripped l] else l # file_lines (ss_rest s'))"
  proof (cases "dropWhile ?P (ss_rest s)")
    case Nil
    then have "s' = s\<lparr>ss_rest := [], ss_eof := True, ss_fail := (ss_rest s = [])\<rparr>" "l = ss_rest s"
      using g t [OF Nil] assms(3) by (simp_all del: dropWhile_eq_Nil_conv takeWhile_eq_all_conv)
    then show ?thesis using Nil by (simp add: stream_ok_def file_lines.simps [of "ss_rest s"] del: dropWhile_eq_Nil_conv)
  next
    case (Cons x r)
    then have "s' = s\<lparr>ss_rest := r\<rparr>" "l = takeWhile ?P (ss_rest s)" using g assms(3) by (simp_all del: dropWhile_eq_Cons_conv)
    then show ?thesis using Cons assms(1,2) by (simp add: stream_ok_def file_lines.simps [of "ss_rest s"] del: dropWhile_eq_Cons_conv)
  qed
  then show "stream_ok s'" "ss_eof s' \<Longrightarrow> ss_fail s' \<longleftrightarrow> l = []"
    "file_lines (ss_rest s) = (if ss_eof s' then if l = [] then [] else
        if blank (stripped l) \<or> CHR ''='' \<in> set (stripped l) then [l] else [l, stripped l] else l # file_lines (ss_rest s'))"
    by blast+
qed

lemma getline_eof: "ss_eof s \<Longrightarrow> getline s n = (s\<lparr>ss_fail := True\<rparr>, n)"
  by (simp add: getline_def)

lemma continue_step:
  "continue_value ''='' ''#'' s line n = (
     if ss_fail s then (s, line, n)
     else let (s', l) = getline s n in
       if blank l then (s', line, l)
       else if CHR ''='' \<in> set (stripped l) then (s', line, stripped l)
       else continue_value ''='' ''#'' s' (line @ continued l) (stripped l))"
  by (subst continue_value.simps) (auto simp: Let_def before_stripped Trim_blank string_find_char continued_def split: prod.split)

lemma value_of_Cons [simp]:
  "value_of v [] = v" "value_of v (l # ls) = (if continues l then value_of (v @ continued l) ls else v)"
  by (simp_all add: value_of_def)

text \<open>The line that stops a value is what was read ahead.\<close>

lemma stopped_at:
  assumes "lines_ahead s n = (if ss_eof t \<and> l = [] then [] else l # (if ss_eof t then [] else file_lines (ss_rest t)))"
    "m = stripped l" "\<not> continues l" "CHR ''='' \<in> set m \<or> blank l"
  shows "value_of v (lines_ahead s n) = v" "entries (lines_left t m) = entries (dropWhile continues (lines_ahead s n))"
proof -
  show "value_of v (lines_ahead s n) = v" using assms(1,3) by simp
  have m: "l = [] \<longleftrightarrow> m = []" 
  proof
    assume "m = []"
    then have "blank l" using assms(4) by simp
    then show "l = []" using stripped_blank [of l] assms(2) \<open>m = []\<close> by simp
  qed (simp add: assms(2) stripped_def)
  have "entries (m # ls) = entries (l # ls)" for ls unfolding assms(2) by (rule entries_stripped)
  moreover have "entries ([] # ls) = entries ls" for ls by (rule entries_skip) (simp add: stripped_def)
  ultimately show "entries (lines_left t m) = entries (dropWhile continues (lines_ahead s n))"
    using assms(1,3) m by (cases "m = []") (simp_all add: lines_left_def)
qed

lemma continue_lines:
  assumes "continue_value ''='' ''#'' s v n = (s', v', n')" "stream_ok s" "ss_eof s \<Longrightarrow> CHR ''='' \<notin> set n \<and> stripped n = n"
  shows "stream_ok s' \<and> v' = value_of v (lines_ahead s n)
    \<and> entries (lines_left s' n') = entries (dropWhile continues (lines_ahead s n))"
  using assms
proof (induction "stream_left s" arbitrary: s v n rule: less_induct)
  case less
  show ?case
  proof (cases "ss_fail s")
    case True
    then have "s' = s" "v' = v" "n' = n" "ss_eof s" using less.prems by (simp_all add: continue_step [of s] stream_ok_def)
    then show ?thesis using less.prems True by (auto simp: lines_ahead_def lines_left_def entries_skip)
  next
    case False
    obtain t l where g: "getline s n = (t, l)" by (cases "getline s n")
    note c = less.prems(1) [unfolded continue_step [of s]]
    note IH = less.hyps [OF getline_left [OF False g]]
    show ?thesis
    proof (cases "ss_eof s")
      case True
      then have t: "t = s\<lparr>ss_fail := True\<rparr>" "l = n" "CHR ''='' \<notin> set n" "stripped n = n"
        using g less.prems(3) by (simp_all add: getline_eof)
      then have "s' = t" "n' = n" "v' = (if blank n then v else v @ continued n)"
        using c False g by (auto simp: continue_step [of "s\<lparr>ss_fail := True\<rparr>"] split: if_splits)
      then show ?thesis using t False True
        by (auto simp: lines_ahead_def lines_left_def stream_ok_def continues_def entries_skip)
    next
      case False': False
      note gl = getline_lines [OF False' less.prems(2) g]
      show ?thesis
      proof (cases "continues l")
        case True
        then have "continue_value ''='' ''#'' t (v @ continued l) (stripped l) = (s', v', n')"
          using c False g by (simp add: continues_def)
        moreover have "lines_ahead s n = l # lines_ahead t (stripped l)"
          using gl True False' by (auto simp: lines_ahead_def continues_def blank_def)
        ultimately show ?thesis using IH [of "v @ continued l" "stripped l"] gl(1) True by (simp add: continues_def)
      next
        case stop: False
        then have "s' = t" "v' = v" "n' = stripped l" "CHR ''='' \<in> set (stripped l) \<or> blank l"
          using c False g by (auto simp: continues_def stripped_blank split: if_splits)
        moreover have "lines_ahead s n = (if ss_eof t \<and> l = [] then [] else l # (if ss_eof t then [] else file_lines (ss_rest t)))"
          using gl stop False' by (auto simp: lines_ahead_def continues_def stripped_blank)
        ultimately show ?thesis using stopped_at [OF _ _ stop, of s n t] gl(1) by simp
      qed
    qed
  qed
qed

abbreviation put_entries :: "(string \<times> string) list \<Rightarrow> Config \<Rightarrow> Config" where
  "put_entries es cf \<equiv> cf\<lparr>m_Contents := fold (\<lambda>(k, v). AList.update k v) es (m_Contents cf)\<rparr>"

text \<open>The line the main loop takes, and what is left.\<close>

lemma next_line_lines:
  assumes "next_line s n = (t, l)" "stream_ok s" "\<not> (ss_fail s \<and> n = [])"
  shows "stream_ok t" "entries (lines_left s n) = entries (l # lines_left t [])"
proof -
  have "stream_ok t \<and> entries (lines_left s n) = entries (l # lines_left t [])"
  proof (cases "n = []")
    case True
    then have g: "getline s n = (t, l)" using assms(1) by (simp add: next_line_def)
    show ?thesis
    proof (cases "ss_eof s")
      case True
      then show ?thesis using g \<open>n = []\<close> by (auto simp: getline_eof lines_left_def stream_ok_def entries_skip stripped_def)
    next
      case False
      have e: "entries ([] # ls) = entries ls" for ls by (rule entries_skip) (simp add: stripped_def)
      show ?thesis using getline_lines [OF False assms(2) g] \<open>n = []\<close> False
        by (auto simp: lines_left_def e entries_skip)
    qed
  next
    case False
    then show ?thesis using assms(1,2) by (simp add: next_line_def lines_left_def)
  qed
  then show "stream_ok t" "entries (lines_left s n) = entries (l # lines_left t [])" by blast+
qed

lemma lines_ahead_left: "stream_ok s \<Longrightarrow> lines_ahead s [] = lines_left s []"
  by (simp add: lines_ahead_def lines_left_def blank_def)

lemma read_config_entries:
  assumes "stream_ok s" "m_Delimiter cf = ''=''" "m_Comment cf = ''#''"
  shows "snd (read_config s n cf) = put_entries (entries (lines_left s n)) cf"
  using assms
proof (induction "config_left s n" arbitrary: s n cf rule: less_induct)
  case less
  show ?case
  proof (cases "ss_fail s \<and> n = []")
    case True
    then show ?thesis using less.prems(1) by (subst read_config.simps) (simp add: lines_left_def stream_ok_def)
  next
    case False
    obtain t l where l: "next_line s n = (t, l)" by (cases "next_line s n")
    note nl = next_line_lines [OF l less.prems(1) False]
    have lt: "config_left t [] < config_left s n" by (rule next_line_left [OF False l])
    let ?l = "stripped l"
    let ?k = "takeWhile (\<lambda>c. c \<noteq> CHR ''='') ?l" and ?r = "tl (dropWhile (\<lambda>c. c \<noteq> CHR ''='') ?l)"
    show ?thesis
    proof (cases "CHR ''='' \<in> set ?l")
      case False': False
      have "read_config s n cf = read_config t [] cf"
        using l False' less.prems by (subst read_config.simps, subst if_not_P [OF False]) (simp add: before_stripped string_find_char)
      then show ?thesis using less.hyps [OF lt nl(1) less.prems(2,3)] nl(2) False' by (simp add: entries_skip)
    next
      case True
      obtain t' v n' where c: "continue_value ''='' ''#'' t ?r [] = (t', v, n')" by (cases "continue_value ''='' ''#'' t ?r []")
      have "stripped [] = []" by (simp add: stripped_def)
      then have v: "stream_ok t'" "v = value_of ?r (lines_left t [])"
        "entries (lines_left t' n') = entries (dropWhile continues (lines_left t []))"
        using continue_lines [OF c nl(1)] lines_ahead_left [OF nl(1)] by simp_all
      have d: "drop (Suc (length ?k)) ?l = ?r" by (simp add: drop_Suc drop_tl dropWhile_eq_drop)
      let ?cf = "cf\<lparr>m_Contents := AList.update (Trim ?k) (Trim v) (m_Contents cf)\<rparr>"
      have "read_config s n cf = read_config t' n' ?cf"
        using l True less.prems c d
        by (subst read_config.simps, subst if_not_P [OF False]) (simp add: before_stripped string_find_char takeWhile_eq_take [symmetric])
      moreover have "config_left t' n' < config_left s n" using value_left [OF c] lt by simp
      moreover have "entries (lines_left s n) = (Trim ?k, Trim v) # entries (lines_left t' n')"
        using True by (simp add: nl(2) entries.simps(2) v(2,3) Let_def)
      ultimately show ?thesis using less.hyps [of t' n' ?cf] v(1) less.prems(2,3) by simp
    qed
  qed
qed

section \<open>Writing and reading back\<close>

text \<open>
  Keys and values that the file format can hold. A value may have several lines when each of the further
  ones continues it.
\<close>

function value_lines :: "string \<Rightarrow> string list" where
  "value_lines v = takeWhile (\<lambda>c. c \<noteq> CHR 0x0A) v
     # (case dropWhile (\<lambda>c. c \<noteq> CHR 0x0A) v of [] \<Rightarrow> [] | _ # r \<Rightarrow> value_lines r)"
  by pat_completeness auto

termination
  by (relation "measure length") (auto dest: dropWhile_Cons_less simp del: dropWhile_eq_Cons_conv)

declare value_lines.simps [simp del]

definition trimmed :: "string \<Rightarrow> bool" where
  "trimmed s \<longleftrightarrow> s = [] \<or> (\<not> is_white (hd s) \<and> \<not> is_white (last s))"

definition clean :: "string \<times> string \<Rightarrow> bool" where
  "clean e \<longleftrightarrow> trimmed (fst e) \<and> trimmed (snd e) \<and> CHR ''#'' \<notin> set (fst e @ snd e)
     \<and> CHR ''='' \<notin> set (fst e) \<and> CHR 0x0A \<notin> set (fst e) \<and> list_all continues (tl (value_lines (snd e)))"

definition entry_lines :: "string \<times> string \<Rightarrow> string list" where
  "entry_lines e = (fst e @ '' = '' @ hd (value_lines (snd e))) # tl (value_lines (snd e))"

lemma Trim_trimmed:
  assumes "trimmed s"
  shows "Trim (s @ '' '') = s" "Trim (CHR '' '' # s) = s"
proof -
  have w: "is_white CHR '' ''" by (simp add: is_white_def)
  have "Trim (s @ '' '') = s \<and> Trim (CHR '' '' # s) = s"
  proof (cases s)
    case Nil
    then show ?thesis using w by (simp add: Trim_def)
  next
    case (Cons c cs)
    then have h: "\<not> is_white c" and l: "\<not> is_white (last s)" using assms by (auto simp: trimmed_def)
    obtain x xs where r: "rev s = x # xs" using Cons by (cases "rev s") auto
    then have x: "\<not> is_white x" using l by (metis last_rev list.sel(1) hd_rev)
    have "dropWhile is_white s = s" "dropWhile is_white (rev s) = rev s" using h x r Cons by auto
    then have "Trim s = s" by (simp only: Trim_def) simp
    moreover have "Trim (s @ '' '') = Trim s" using h w Cons x r by (simp add: Trim_def)
    moreover have "Trim (CHR '' '' # s) = Trim s" using w by (simp add: Trim_def)
    ultimately show ?thesis by simp
  qed
  then show "Trim (s @ '' '') = s" "Trim (CHR '' '' # s) = s" by blast+
qed

lemma first_line:
  assumes "CHR 0x0A \<notin> set p"
  shows "takeWhile (\<lambda>c. c \<noteq> CHR 0x0A) (p @ CHR 0x0A # r) = p" "dropWhile (\<lambda>c. c \<noteq> CHR 0x0A) (p @ CHR 0x0A # r) = CHR 0x0A # r"
    "takeWhile (\<lambda>c. c \<noteq> CHR 0x0A) p = p" "dropWhile (\<lambda>c. c \<noteq> CHR 0x0A) p = []"
  using assms by (auto simp: takeWhile_append dropWhile_append takeWhile_eq_all_conv)

lemma value_lines_simps:
  assumes "CHR 0x0A \<notin> set p"
  shows "value_lines p = [p]" "value_lines (p @ CHR 0x0A # r) = p # value_lines r"
    "file_lines (p @ CHR 0x0A # r) = p # file_lines r"
  by (subst value_lines.simps file_lines.simps, simp only: first_line [OF assms] list.case)+

lemma value_cases:
  obtains (one) "CHR 0x0A \<notin> set v" | (more) p w where "v = p @ CHR 0x0A # w" "CHR 0x0A \<notin> set p"
  by (metis split_list_first)

lemma value_induct [case_names one more]:
  assumes "\<And>v. CHR 0x0A \<notin> set v \<Longrightarrow> P v" "\<And>p w. CHR 0x0A \<notin> set p \<Longrightarrow> P w \<Longrightarrow> P (p @ CHR 0x0A # w)"
  shows "P v"
proof (induction v rule: measure_induct_rule [where f = length])
  case (less v)
  show ?case by (rule value_cases [of v]) (use assms less in auto)
qed

lemma value_lines_Cons: "hd (value_lines v) # tl (value_lines v) = value_lines v"
  by (subst (1 2 3) value_lines.simps) simp

lemma file_lines_value:
  assumes "CHR 0x0A \<notin> set p"
  shows "file_lines (p @ v @ CHR 0x0A # r) = (p @ hd (value_lines v)) # tl (value_lines v) @ file_lines r"
  using assms
proof (induction v arbitrary: p rule: value_induct)
  case (one v)
  then show ?case using value_lines_simps(3) [of "p @ v" r] by (simp add: value_lines_simps)
next
  case (more q w)
  then show ?case using more(2) [of "[]"] value_lines_simps(3) [of "p @ q"] value_lines_Cons [of w]
    by (simp add: value_lines_simps)
qed

lemma file_lines_entries:
  "list_all clean es \<Longrightarrow>
    file_lines (concat (map (\<lambda>e. fst e @ '' = '' @ snd e @ [CHR 0x0A]) es)) = concat (map entry_lines es)"
proof (induction es)
  case (Cons e es)
  then have "CHR 0x0A \<notin> set (fst e @ '' = '')" by (simp add: clean_def)
  from file_lines_value [OF this, of "snd e" "concat (map (\<lambda>e. fst e @ '' = '' @ snd e @ [CHR 0x0A]) es)"]
  show ?case using Cons by (simp add: entry_lines_def)
qed (simp add: file_lines.simps)

lemma value_lines_set: "l \<in> set (value_lines v) \<Longrightarrow> set l \<subseteq> set v"
  by (induction v rule: value_induct) (auto simp: value_lines_simps)

lemma value_lines_join: "hd (value_lines v) @ concat (map ((#) (CHR 0x0A)) (tl (value_lines v))) = v"
proof (induction v rule: value_induct)
  case (more p w)
  have "concat (map ((#) (CHR 0x0A)) (value_lines w)) = CHR 0x0A # w"
    using more(2) by (subst value_lines_Cons [symmetric]) simp
  then show ?case by (simp add: value_lines_simps more(1))
qed (simp add: value_lines_simps)

lemma value_of_written:
  assumes "clean e" "rest = [] \<or> \<not> continues (hd rest)"
  shows "Trim (value_of ('' '' @ hd (value_lines (snd e))) (tl (value_lines (snd e)) @ rest)) = snd e"
    "dropWhile continues (tl (value_lines (snd e)) @ rest) = rest"
proof -
  let ?ls = "tl (value_lines (snd e))"
  have c: "\<forall>l\<in>set ?ls. continues l" using assms(1) by (simp add: clean_def list_all_iff)
  have "set ?ls \<subseteq> set (value_lines (snd e))" by (subst (2) value_lines_Cons [symmetric]) auto
  then have "\<forall>l\<in>set ?ls. stripped l = l"
    using assms(1) value_lines_set [of _ "snd e"] by (intro ballI stripped_same) (auto simp: clean_def)
  then have "map continued ?ls = map ((#) (CHR 0x0A)) ?ls" using c by (auto simp: continued_def continues_def)
  moreover have "takeWhile continues (?ls @ rest) = ?ls" "dropWhile continues (?ls @ rest) = rest"
    using c assms(2) by (cases rest; auto simp: takeWhile_append dropWhile_append)+
  moreover have "Trim (CHR '' '' # snd e) = snd e" using assms(1) by (simp add: Trim_trimmed clean_def)
  ultimately show "Trim (value_of ('' '' @ hd (value_lines (snd e))) (?ls @ rest)) = snd e"
    "dropWhile continues (?ls @ rest) = rest"
    using value_lines_join [of "snd e"] by (simp_all add: value_of_def del: map_eq_conv)
qed

lemma entry_head:
  assumes "clean e" "h = hd (value_lines (snd e))"
  shows "stripped (fst e @ '' = '' @ h) = fst e @ '' = '' @ h" "CHR ''='' \<in> set (fst e @ '' = '' @ h)"
    "takeWhile (\<lambda>c. c \<noteq> CHR ''='') (fst e @ '' = '' @ h) = fst e @ '' ''"
    "tl (dropWhile (\<lambda>c. c \<noteq> CHR ''='') (fst e @ '' = '' @ h)) = '' '' @ h" "\<not> continues (fst e @ '' = '' @ h)"
proof -
  have "set h \<subseteq> set (snd e)" using value_lines_set [of h "snd e"] value_lines_Cons [of "snd e"] assms(2)
    by (metis list.set_intros(1))
  then show s: "stripped (fst e @ '' = '' @ h) = fst e @ '' = '' @ h"
    using assms(1) by (intro stripped_same) (auto simp: clean_def)
  show "CHR ''='' \<in> set (fst e @ '' = '' @ h)" by simp
  then show "\<not> continues (fst e @ '' = '' @ h)" by (simp only: continues_def s) simp
  have "\<forall>c\<in>set (fst e). c \<noteq> CHR ''=''" using assms(1) by (auto simp: clean_def)
  then show "takeWhile (\<lambda>c. c \<noteq> CHR ''='') (fst e @ '' = '' @ h) = fst e @ '' ''"
    "tl (dropWhile (\<lambda>c. c \<noteq> CHR ''='') (fst e @ '' = '' @ h)) = '' '' @ h"
    by (simp_all add: takeWhile_append dropWhile_append)
qed

lemma entries_written: "list_all clean es \<Longrightarrow> entries (concat (map entry_lines es)) = es"
proof (induction es)
  case (Cons e es)
  let ?rest = "concat (map entry_lines es)"
  note h = entry_head [of e, OF _ refl]
  have e: "clean e" "list_all clean es" using Cons.prems by simp_all
  have "?rest = [] \<or> \<not> continues (hd ?rest)"
  proof (cases es)
    case (Cons f fs)
    then show ?thesis using e(2) entry_head(5) [of f, OF _ refl] by (simp add: entry_lines_def)
  qed simp
  note w = value_of_written [OF e(1) this]
  have "Trim (fst e @ '' '') = fst e" using e(1) by (simp add: Trim_trimmed clean_def)
  moreover have "concat (map entry_lines (e # es))
      = (fst e @ '' = '' @ hd (value_lines (snd e))) # tl (value_lines (snd e)) @ ?rest"
    by (simp add: entry_lines_def)
  ultimately show ?case using w Cons.IH [OF e(2)] prod.collapse [of e]
    by (simp only: entries.simps(2) Let_def h [OF e(1)] if_True)
qed simp

lemma map_of_fold_update:
  "distinct (map fst es) \<Longrightarrow> map_of (fold (\<lambda>(k, v). AList.update k v) es m) k
    = (case map_of es k of None \<Rightarrow> map_of m k | Some v \<Rightarrow> Some v)"
proof (induction es arbitrary: m)
  case (Cons e es)
  then have "map_of es (fst e) = None" by (simp add: map_of_eq_None_iff)
  then show ?case using Cons by (cases e) (auto simp: update_conv' split: option.split)
qed simp

lemma set_insert_entry: "set (insert_entry e es) = insert e (set es)"
  by (induction es) auto

lemma distinct_insert_entry:
  "distinct (map fst (insert_entry e es)) \<longleftrightarrow> fst e \<notin> fst ` set es \<and> distinct (map fst es)"
  by (induction es) (auto simp: set_insert_entry)

lemma map_entries_facts:
  assumes "distinct (map fst (m_Contents cf))"
  shows "set (map_entries cf) = set (m_Contents cf)" "distinct (map fst (map_entries cf))"
proof -
  have s: "set (foldr insert_entry es []) = set es" for es by (induction es) (simp_all add: set_insert_entry)
  show "set (map_entries cf) = set (m_Contents cf)" by (simp add: map_entries_def s)
  have "distinct (map fst es) \<Longrightarrow> distinct (map fst (foldr insert_entry es []))" for es
    by (induction es) (simp_all add: distinct_insert_entry s)
  then show "distinct (map fst (map_entries cf))" using assms by (simp add: map_entries_def)
qed

lemma ReadFile_entries:
  "ReadFile (Some t) ''='' ''#'' cf = Inr (put_entries (entries (file_lines t)) (cf\<lparr>m_Delimiter := ''='', m_Comment := ''#''\<rparr>))"
proof -
  have "stream_ok \<lparr>ss_rest = t, ss_eof = False, ss_fail = False\<rparr>" by (simp add: stream_ok_def)
  from read_config_entries [OF this, of "cf\<lparr>m_Delimiter := ''='', m_Comment := ''#''\<rparr>" "[]"]
  show ?thesis by (simp add: ReadFile_def Let_def lines_left_def)
qed

section \<open>Properties\<close>

text \<open>
  Property C33. Reading a file, whatever it holds, puts exactly the entries that its lines spell into the
  map, the last one of a key in force: comments off, values with the lines that continue them, keys and values
  trimmed. A configuration that is written out is read back with the same keys and values, when every
  key and value is trimmed and without a comment sign, no key has a delimiter or a line feed, and the further
  lines of a value are such that they continue it.
\<close>

theorem config_roundtrip:
  "ReadFile (Some t) ''='' ''#'' cf
      = Inr (cf\<lparr>m_Delimiter := ''='', m_Comment := ''#'',
          m_Contents := fold (\<lambda>(k, v). AList.update k v) (entries (file_lines t)) (m_Contents cf)\<rparr>)
    \<and> (distinct (map fst (m_Contents cf)) \<and> list_all clean (m_Contents cf) \<and> m_Delimiter cf = ''=''
      \<longrightarrow> (\<exists>cf'. ReadFile (Some (write_config cf)) ''='' ''#'' Config_new = Inr cf'
        \<and> map_of (m_Contents cf') = map_of (m_Contents cf)))"
proof (intro conjI impI)
  show "ReadFile (Some t) ''='' ''#'' cf = Inr (cf\<lparr>m_Delimiter := ''='', m_Comment := ''#'',
      m_Contents := fold (\<lambda>(k, v). AList.update k v) (entries (file_lines t)) (m_Contents cf)\<rparr>)"
    by (simp add: ReadFile_entries)
next
  assume c: "distinct (map fst (m_Contents cf)) \<and> list_all clean (m_Contents cf) \<and> m_Delimiter cf = ''=''"
  note m = map_entries_facts [OF conjunct1 [OF c]]
  have l: "list_all clean (map_entries cf)" using c m(1) by (simp add: list_all_iff)
  have "write_config cf = concat (map (\<lambda>e. fst e @ '' = '' @ snd e @ [CHR 0x0A]) (map_entries cf))"
    unfolding write_config_def using c by (intro arg_cong [where f = concat]) auto
  then have "entries (file_lines (write_config cf)) = map_entries cf"
    using file_lines_entries [OF l] entries_written [OF l] by simp
  then have "ReadFile (Some (write_config cf)) ''='' ''#'' Config_new
      = Inr (put_entries (map_entries cf) (Config_new\<lparr>m_Delimiter := ''='', m_Comment := ''#''\<rparr>))"
    by (simp add: ReadFile_entries)
  moreover have "map_of (fold (\<lambda>(k, v). AList.update k v) (map_entries cf) []) = map_of (map_entries cf)"
    using map_of_fold_update [OF m(2), of "[]"] by (auto simp: fun_eq_iff split: option.split)
  moreover have "map_of (map_entries cf) = map_of (m_Contents cf)"
    by (rule map_of_inject_set [THEN iffD2, OF m(2) conjunct1 [OF c] m(1)])
  ultimately show "\<exists>cf'. ReadFile (Some (write_config cf)) ''='' ''#'' Config_new = Inr cf'
      \<and> map_of (m_Contents cf') = map_of (m_Contents cf)"
    by (simp add: Config_new_def)
qed

text \<open>
  A file with a comment, a value over two lines and a repeated key; and a configuration with a value of
  two lines, written and read back.
\<close>

theorem config_roundtrip_witness:
  "ReadFile (Some (''a = 1 # one'' @ [CHR 0x0A] @ ''  b'' @ [CHR 0x0A, CHR 0x0A] @ ''c = 2'' @ [CHR 0x0A] @ ''c = 3'' @ [CHR 0x0A]))
      ''='' ''#'' Config_new = Inr (Config_new\<lparr>m_Contents := [(''a'', ''1 '' @ [CHR 0x0A] @ ''  b''), (''c'', ''3'')]\<rparr>)
   \<and> (\<exists>cf'. ReadFile (Some (write_config \<lparr>m_Delimiter = ''='', m_Comment = ''#'',
      m_Contents = [(''slave_port'', ''12345''), (''notes'', ''x=1'' @ [CHR 0x0A] @ ''y'')]\<rparr>)) ''='' ''#'' Config_new = Inr cf'
    \<and> map_of (m_Contents cf') ''notes'' = Some (''x=1'' @ [CHR 0x0A] @ ''y''))"
proof -
  let ?cf = "\<lparr>m_Delimiter = ''='', m_Comment = ''#'', m_Contents = [(''slave_port'', ''12345''), (''notes'', ''x=1'' @ [CHR 0x0A] @ ''y'')]\<rparr>"
  let ?t = "''a = 1 # one'' @ [CHR 0x0A] @ ''  b'' @ [CHR 0x0A, CHR 0x0A] @ ''c = 2'' @ [CHR 0x0A] @ ''c = 3'' @ [CHR 0x0A]"
  have "list_all clean (m_Contents ?cf)" by code_simp
  then have "\<exists>cf'. ReadFile (Some (write_config ?cf)) ''='' ''#'' Config_new = Inr cf'
      \<and> map_of (m_Contents cf') = map_of (m_Contents ?cf)"
    using config_roundtrip [of ?t ?cf] by simp
  moreover have "entries (file_lines ?t) = [(''a'', ''1 '' @ [CHR 0x0A] @ ''  b''), (''c'', ''2''), (''c'', ''3'')]" by code_simp
  moreover have "Config_new\<lparr>m_Delimiter := ''='', m_Comment := ''#''\<rparr> = Config_new" by (simp add: Config_new_def)
  ultimately show ?thesis using config_roundtrip [of ?t Config_new] by (auto simp: Config_new_def)
qed

text \<open>A continuation line that ends the file without a line feed is taken twice.\<close>

lemma last_line_twice:
  "map_of (m_Contents (snd (read_config \<lparr>ss_rest = ''a = 1'' @ [CHR 0x0A] @ '' b'', ss_eof = False, ss_fail = False\<rparr> [] Config_new))) ''a''
    = Some (''1'' @ [CHR 0x0A] @ '' b'' @ [CHR 0x0A] @ '' b'')"
  by code_simp

section \<open>The settings of the relay server\<close>

text \<open>
  \<open>CRelayServer::LoadConfiguration\<close> with what it passes to the media server, and the two queries that
  decide a verification. \<open>http\<close> is libcurl: the body of the answer to a GET, if there was one.
\<close>

record relay_settings =
  m_nServerPort :: int
  m_nMasterPort :: int
  m_strServerIP :: string
  m_strMasterIP :: string
  set_strValidateUrl :: string
  set_strValidateUrlOnLogin :: string

definition relay_settings_new :: relay_settings where
  "relay_settings_new = \<lparr>m_nServerPort = 12345, m_nMasterPort = 10000, m_strServerIP = [], m_strMasterIP = [],
     set_strValidateUrl = [], set_strValidateUrlOnLogin = []\<rparr>"

definition LoadConfiguration :: "string option \<Rightarrow> relay_settings \<Rightarrow> relay_settings outcome" where
  "LoadConfiguration file s = (
     if \<not> FileExist file then Inr s
     else bind_outcome (ReadFile file ''='' ''#'' Config_new) (\<lambda>cf.
       bind_outcome (Read_int ''slave_port'' (m_nServerPort s) cf) (\<lambda>port.
       let s = s\<lparr>m_nServerPort := port, m_strServerIP := Read_string ''slave_ip'' (m_strServerIP s) cf\<rparr> in
       map_outcome (\<lambda>mport. s\<lparr>m_nMasterPort := mport,
           m_strMasterIP := Read_string ''master_ip'' (m_strMasterIP s) cf,
           set_strValidateUrl := Read_string ''http_validate'' (set_strValidateUrl s) cf,
           set_strValidateUrlOnLogin := Read_string ''http_validate_on_login'' (set_strValidateUrlOnLogin s) cf\<rparr>)
         (Read_int ''master_port'' (m_nMasterPort s) cf))))"

definition accepted :: "string option \<Rightarrow> int" where
  "accepted response = (case response of Some (c # _) \<Rightarrow> if c = CHR ''1'' then 0 else 1 | _ \<Rightarrow> 1)"

definition Validate :: "(string \<Rightarrow> string option) \<Rightarrow> u32 \<Rightarrow> u32 \<Rightarrow> u32 \<Rightarrow> string \<Rightarrow> int" where
  "Validate http uid1 sessionId uid2 url = accepted (http (url @ ''?uid1='' @ to_string (unat uid1)
     @ ''&sessionId='' @ to_string (unat sessionId) @ ''&uid2='' @ to_string (unat uid2)))"

definition ValidateOnLogin :: "(string \<Rightarrow> string option) \<Rightarrow> u32 \<Rightarrow> u32 \<Rightarrow> string \<Rightarrow> int" where
  "ValidateOnLogin http uid1 sessionId url = accepted (http (url @ ''?uid='' @ to_string (unat uid1)
     @ ''&sessionId='' @ to_string (unat sessionId)))"

text \<open>A port that is left empty in the file is read from an \<open>int\<close> that was never set.\<close>

lemma empty_port: "LoadConfiguration (Some (''slave_port ='' @ [CHR 0x0A])) relay_settings_new = Inl Indeterminate_Value"
  by code_simp

lemma no_file: "LoadConfiguration None s = Inr s"
  by (simp add: LoadConfiguration_def FileExist_def)

end
