(* ===== verification/Master.thy ===== *)
theory Master
  imports Signaling_Server Config_File
begin

text \<open>
  The master of the relay servers (\<open>relay_server_master/master.cpp\<close>, \<open>master.h\<close>): a TCP server at
  which slaves log in with their address and clients ask for the slave of a session. The state
  extends that of \<open>Tcp_Server\<close>; the handlers give the new state and the packets sent. The
  properties say that a session stays with its slave, that runs without a disconnected slave are
  safe, and what a disconnected slave leads to.
\<close>

section \<open>State and messages\<close>

record SlaveNode =
  node_ip :: u32
  node_port :: u16

text \<open>\<open>m_nMasterPort\<close> is not set before \<open>LoadConfig\<close> has read a file.\<close>

record master = tcp_server +
  m_vectorIndex :: "int list"
  m_mapSlaveAddr :: "(int \<times> SlaveNode) list"
  m_setSlaveNodeWhitelist :: "u32 list"
  m_mapSessionIndex :: "(u32 \<times> int) list"
  m_nMasterPort :: "int option"

definition master_new :: "tcp_server \<Rightarrow> master" where
  "master_new s = tcp_server.extend s (master.fields [] [] [] [] None)"

definition view_CSlaveLoginMsg :: "bytes \<Rightarrow> SlaveNode outcome" where
  "view_CSlaveLoginMsg buf = map_outcome (\<lambda>b. \<lparr>node_ip = u32_at 0 b, node_port = u16_at 4 b\<rparr>) (msg_view 6 buf)"

definition view_sessionId :: "bytes \<Rightarrow> u32 outcome" where
  "view_sessionId buf = map_outcome (u32_at 0) (msg_view 4 buf)"

text \<open>\<open>CSlaveLoginMsg\<close> and \<open>CRspSlaveAddrMsg\<close> both hold an address and a port.\<close>

definition bytes_SlaveNode :: "SlaveNode \<Rightarrow> bytes" where
  "bytes_SlaveNode n = le_bytes 4 (unat (node_ip n)) @ le_bytes 2 (unat (node_port n))"

type_synonym master_result = "(master \<times> tcp_out list) outcome"

section \<open>Configuration\<close>

text \<open>\<open>getline(ss, ip, ';')\<close> until the stream has ended.\<close>

fun split_semicolon :: "string \<Rightarrow> string list" where
  "split_semicolon [] = [[]]"
| "split_semicolon (c # s) = (if c = CHR '';'' then [] # split_semicolon s
     else case split_semicolon s of [] \<Rightarrow> [[c]] | p # ps \<Rightarrow> (c # p) # ps)"

fun whitelist_insert :: "bool \<Rightarrow> string list \<Rightarrow> u32 list \<Rightarrow> u32 list outcome" where
  "whitelist_insert le [] w = Inr w"
| "whitelist_insert le (ip # ips) w = bind_outcome (ip_string2int le ip) (\<lambda>a. whitelist_insert le ips (List.insert a w))"

definition LoadConfig :: "bool \<Rightarrow> string option \<Rightarrow> master \<Rightarrow> master outcome" where
  "LoadConfig le file s = (
     if \<not> FileExist file then Inr s
     else bind_outcome (ReadFile file ''='' ''#'' Config_new) (\<lambda>cf.
       bind_outcome (whitelist_insert le (split_semicolon (Read_string ''slave_node'' [] cf)) (m_setSlaveNodeWhitelist s)) (\<lambda>w.
       map_outcome (\<lambda>port. s\<lparr>m_setSlaveNodeWhitelist := w, m_nMasterPort := Some port\<rparr>)
         (Read_int ''master_port'' 10000 cf))))"

section \<open>Handlers\<close>

text \<open>\<open>r\<close> is what \<open>rand\<close> returns.\<close>

definition AllocateServerToSessionId :: "nat \<Rightarrow> u32 \<Rightarrow> master \<Rightarrow> (master \<times> int) outcome" where
  "AllocateServerToSessionId r sessionId s = (
     if m_vectorIndex s = [] then Inl Division_By_Zero
     else let index = m_vectorIndex s ! (r mod length (m_vectorIndex s))
          in Inr (s\<lparr>m_mapSessionIndex := AList.update sessionId index (m_mapSessionIndex s)\<rparr>, index))"

text \<open>
  \<open>sockname\<close> is the address that \<open>uv_tcp_getsockname\<close> stores, the one of the server's own end of the
  connection.
\<close>

definition OnSlaveLogin :: "u32 \<Rightarrow> SlaveNode \<Rightarrow> int \<Rightarrow> master \<Rightarrow> master \<times> int" where
  "OnSlaveLogin sockname msg clientid s = (
     if sockname \<notin> set (m_setSlaveNodeWhitelist s) then (s, -1)
     else if map_of (m_mapSlaveAddr s) clientid \<noteq> None then (s, -1)
     else (s\<lparr>m_mapSlaveAddr := AList.update clientid msg (m_mapSlaveAddr s),
             m_vectorIndex := m_vectorIndex s @ [clientid]\<rparr>, 0))"

text \<open>The slave for a session, or \<open>None\<close> if no slave is in the vector; \<open>result\<close> may be the end iterator.\<close>

definition find_slave :: "nat \<Rightarrow> u32 \<Rightarrow> master \<Rightarrow> (master \<times> SlaveNode option) outcome" where
  "find_slave r sessionId s = (
     if m_vectorIndex s = [] then Inr (s, None)
     else let allocate = bind_outcome (AllocateServerToSessionId r sessionId s) (\<lambda>(s, index).
            case map_of (m_mapSlaveAddr s) index of None \<Rightarrow> Inl Iterator_Invalidated | Some n \<Rightarrow> Inr (s, Some n))
       in case map_of (m_mapSessionIndex s) sessionId of
            None \<Rightarrow> allocate
          | Some index \<Rightarrow> (case map_of (m_mapSlaveAddr s) index of None \<Rightarrow> allocate | Some n \<Rightarrow> Inr (s, Some n)))"

definition OnReqSlaveAddr :: "bool \<Rightarrow> NetPacket \<Rightarrow> (nat \<Rightarrow> int) \<Rightarrow> nat \<Rightarrow> u32 \<Rightarrow> nat \<Rightarrow> master \<Rightarrow> master_result" where
  "OnReqSlaveAddr le junk ret r sessionId a s = bind_outcome (find_slave r sessionId s) (\<lambda>(s, result).
     case result of
       None \<Rightarrow> Inr (s, [])
     | Some n \<Rightarrow> map_outcome (\<lambda>d. let (s', out, _) = sendinl ret d a s in (s', out))
         (PacketData le junk (bytes_SlaveNode n) GET_SLAVE_ADDR_MSG))"

definition master_ParsePacket ::
  "bool \<Rightarrow> NetPacket \<Rightarrow> (nat \<Rightarrow> int) \<Rightarrow> nat \<Rightarrow> u32 \<Rightarrow> NetPacket \<Rightarrow> bytes \<Rightarrow> nat \<Rightarrow> master \<Rightarrow> master_result" where
  "master_ParsePacket le junk ret r sockname packet buf a s = bind_outcome (client_ctx a s) (\<lambda>c.
     let ty = unat (np_type packet) in
     if ty = SLAVE_LOGIN_MSG
     then map_outcome (\<lambda>m. (fst (OnSlaveLogin sockname m (tc_clientid c) s), [])) (view_CSlaveLoginMsg buf)
     else if ty = SLAVE_STATUS_REPORT_MSG then map_outcome (\<lambda>_. (s, [])) (msg_view 12 buf)
     else if ty = GET_SLAVE_ADDR_MSG then bind_outcome (view_sessionId buf) (\<lambda>u. OnReqSlaveAddr le junk ret r u a s)
     else Inr (s, []))"

text \<open>The entry of the vector stays.\<close>

definition master_CloseCB :: "int \<Rightarrow> master \<Rightarrow> master" where
  "master_CloseCB clientid s = s\<lparr>m_mapSlaveAddr := AList.delete clientid (m_mapSlaveAddr s)\<rparr>"

section \<open>Events\<close>

datatype master_event =
    Slave_Login u32 SlaveNode int
  | Req_Slave nat u32
  | Slave_Closed int

definition master_handle :: "master \<Rightarrow> master_event \<Rightarrow> (master \<times> SlaveNode option list) outcome" where
  "master_handle s e = (case e of
       Slave_Login sockname n k \<Rightarrow> Inr (fst (OnSlaveLogin sockname n k s), [])
     | Req_Slave r u \<Rightarrow> map_outcome (\<lambda>(s, n). (s, [n])) (find_slave r u s)
     | Slave_Closed k \<Rightarrow> Inr (master_CloseCB k s, []))"

section \<open>Lemmas\<close>

text \<open>
  Every slave that is online is in the vector and every session is with a slave that was; as long as
  no slave has gone (\<open>all_online\<close>), the vector holds no other.
\<close>

definition master_inv :: "master \<Rightarrow> bool" where
  "master_inv s \<longleftrightarrow> (\<forall>k. map_of (m_mapSlaveAddr s) k \<noteq> None \<longrightarrow> k \<in> set (m_vectorIndex s))
     \<and> (\<forall>u k. map_of (m_mapSessionIndex s) u = Some k \<longrightarrow> k \<in> set (m_vectorIndex s))"

definition all_online :: "master \<Rightarrow> bool" where
  "all_online s \<longleftrightarrow> master_inv s \<and> (\<forall>k\<in>set (m_vectorIndex s). map_of (m_mapSlaveAddr s) k \<noteq> None)"

definition no_close :: "master_event \<Rightarrow> bool" where
  "no_close e = (case e of Slave_Closed _ \<Rightarrow> False | _ \<Rightarrow> True)"

lemma find_slave_cases:
  assumes "find_slave r u s = Inr (s', n)"
  obtains "s' = s" "n = None" "m_vectorIndex s = []"
    | k m where "s' = s" "n = Some m" "map_of (m_mapSessionIndex s) u = Some k" "map_of (m_mapSlaveAddr s) k = Some m"
    | k m where "s' = s\<lparr>m_mapSessionIndex := AList.update u k (m_mapSessionIndex s)\<rparr>" "n = Some m"
      "k = m_vectorIndex s ! (r mod length (m_vectorIndex s))" "k \<in> set (m_vectorIndex s)" "map_of (m_mapSlaveAddr s) k = Some m"
      "\<And>j. map_of (m_mapSessionIndex s) u = Some j \<Longrightarrow> map_of (m_mapSlaveAddr s) j = None"
proof (cases "m_vectorIndex s = []")
  case True
  then show thesis using assms that(1) by (simp add: find_slave_def)
next
  case False
  define k where "k = m_vectorIndex s ! (r mod length (m_vectorIndex s))"
  have m: "k \<in> set (m_vectorIndex s)" unfolding k_def using False by (intro nth_mem) simp
  note fresh = that(3)
  have new: thesis if "map_of (m_mapSlaveAddr s) k = Some m" "n = Some m"
      "s' = s\<lparr>m_mapSessionIndex := AList.update u k (m_mapSessionIndex s)\<rparr>"
      "\<And>j. map_of (m_mapSessionIndex s) u = Some j \<Longrightarrow> map_of (m_mapSlaveAddr s) j = None" for m
    using fresh [OF that(3,2) k_def m that(1,4)] .
  show thesis
  proof (cases "map_of (m_mapSessionIndex s) u")
    case None
    then show thesis using assms False new
      by (simp add: find_slave_def AllocateServerToSessionId_def Let_def k_def [symmetric]
          del: map_of_eq_Some_iff split: option.splits)
  next
    case (Some j)
    show thesis
    proof (cases "map_of (m_mapSlaveAddr s) j")
      case None
      then show thesis using assms False new Some
        by (simp add: find_slave_def AllocateServerToSessionId_def Let_def k_def [symmetric]
            del: map_of_eq_Some_iff split: option.splits)
    next
      case (Some m)
      then have "s' = s" "n = Some m" using assms False \<open>map_of _ u = Some j\<close>
        by (simp_all add: find_slave_def Let_def del: map_of_eq_Some_iff)
      then show thesis using that(2) Some \<open>map_of _ u = Some j\<close> by blast
    qed
  qed
qed

lemma master_handle_inv: "master_inv s \<Longrightarrow> master_handle s e = Inr (s', out) \<Longrightarrow> master_inv s'"
proof (cases e)
  case (Req_Slave r u)
  assume s: "master_inv s" and h: "master_handle s e = Inr (s', out)"
  then obtain n where f: "find_slave r u s = Inr (s', n)" using Req_Slave by (auto simp: master_handle_def)
  show ?thesis using s
    by (rule_tac find_slave_cases [OF f]) (auto simp: master_inv_def update_conv' simp del: map_of_eq_Some_iff split: if_splits)
qed (auto simp: master_handle_def OnSlaveLogin_def master_CloseCB_def master_inv_def update_conv' delete_conv'
      simp del: map_of_eq_Some_iff split: if_splits)

lemma master_handle_online:
  assumes "all_online s" "no_close e"
  shows "\<exists>s' out. master_handle s e = Inr (s', out) \<and> all_online s'"
proof -
  have "\<exists>s' out. master_handle s e = Inr (s', out)
    \<and> (\<forall>k\<in>set (m_vectorIndex s'). map_of (m_mapSlaveAddr s') k \<noteq> None)"
  proof (cases e)
    case (Req_Slave r u)
    show ?thesis
    proof (cases "m_vectorIndex s = []")
      case True
      then show ?thesis using Req_Slave by (simp add: master_handle_def find_slave_def)
    next
      case False
      define k where "k = m_vectorIndex s ! (r mod length (m_vectorIndex s))"
      have "k \<in> set (m_vectorIndex s)" unfolding k_def using False by (intro nth_mem) simp
      then obtain m where "map_of (m_mapSlaveAddr s) k = Some m" using assms(1) unfolding all_online_def by fast
      then show ?thesis using assms(1) False unfolding Req_Slave
        by (simp add: master_handle_def find_slave_def AllocateServerToSessionId_def Let_def all_online_def k_def [symmetric]
            del: map_of_eq_Some_iff split: option.split)
    qed
  next
    case (Slave_Login x n k)
    then show ?thesis using assms(1)
      by (auto simp: master_handle_def OnSlaveLogin_def all_online_def update_conv' simp del: map_of_eq_Some_iff)
  qed (use assms(2) in \<open>simp add: no_close_def\<close>)
  then show ?thesis using master_handle_inv assms(1) unfolding all_online_def by blast
qed

interpretation master: event_handler master_handle master_inv "\<lambda>_. True"
  by unfold_locales (rule master_handle_inv)

interpretation calm_master: safe_event_handler master_handle all_online no_close
  using master_handle_online by unfold_locales fastforce+

lemma session_step:
  assumes "map_of (m_mapSessionIndex s) u = Some k" "map_of (m_mapSlaveAddr s) k = Some n"
    "master_handle s e = Inr (s', out)" "e \<noteq> Slave_Closed k"
  shows "map_of (m_mapSessionIndex s') u = Some k \<and> map_of (m_mapSlaveAddr s') k = Some n"
proof (cases e)
  case (Req_Slave r v)
  then obtain m where f: "find_slave r v s = Inr (s', m)" using assms(3) by (auto simp: master_handle_def)
  show ?thesis
    by (rule find_slave_cases [OF f]) (use assms(1,2) in \<open>auto simp: update_conv' simp del: map_of_eq_Some_iff\<close>)
qed (use assms in \<open>auto simp: master_handle_def OnSlaveLogin_def master_CloseCB_def update_conv' delete_conv'
      simp del: map_of_eq_Some_iff split: if_splits\<close>)

lemma session_run:
  "map_of (m_mapSessionIndex s) u = Some k \<Longrightarrow> map_of (m_mapSlaveAddr s) k = Some n \<Longrightarrow>
    run_events master_handle s es = Inr (s', out) \<Longrightarrow> Slave_Closed k \<notin> set es \<Longrightarrow>
    map_of (m_mapSessionIndex s') u = Some k \<and> map_of (m_mapSlaveAddr s') k = Some n"
proof (induction es arbitrary: s out)
  case (Cons e es)
  then obtain t o1 o2 where h: "master_handle s e = Inr (t, o1)" "run_events master_handle t es = Inr (s', o2)"
    by (auto simp: bind_outcome_Inr_iff simp del: map_of_eq_Some_iff)
  have "e \<noteq> Slave_Closed k" "Slave_Closed k \<notin> set es" using Cons.prems(4) by auto
  then show ?case using session_step [OF Cons.prems(1,2) h(1)] Cons.IH [OF _ _ h(2)] by blast
qed simp

section \<open>Properties\<close>

lemma master_new_online: "all_online (master_new srv\<lparr>m_setSlaveNodeWhitelist := w\<rparr>)"
  by (simp add: master_new_def all_online_def master_inv_def tcp_server.defs master.defs)

text \<open>
  Property C35. A session stays with its slave. Whatever happens from the start of the master to a
  request that allocates a slave to a session, and whatever happens after it, as long as the
  connection of that slave is not closed: every later request for the session gets the same slave,
  whatever \<open>rand\<close> returns, and changes nothing.
\<close>

theorem session_sticky:
  assumes "run_events master_handle (master_new srv\<lparr>m_setSlaveNodeWhitelist := w\<rparr>) es = Inr (s, out)"
    and "master_handle s (Req_Slave r u) = Inr (t, [Some n])"
    and "map_of (m_mapSessionIndex t) u = Some k"
    and "run_events master_handle t es' = Inr (t', out')" and "Slave_Closed k \<notin> set es'"
  shows "master_handle t' (Req_Slave r' u) = Inr (t', [Some n])"
proof -
  have "master_inv s" using master.run_inv [OF _ _ assms(1)] master_new_online by (auto simp: all_online_def)
  then have t: "master_inv t" using assms(2) by (rule master_handle_inv)
  have t': "master_inv t'" using master.run_inv [OF t _ assms(4)] by simp
  have f: "find_slave r u s = Inr (t, Some n)" using assms(2) by (auto simp: master_handle_def)
  have k: "map_of (m_mapSlaveAddr t) k = Some n"
    by (rule find_slave_cases [OF f]) (use assms(3) in \<open>auto simp: update_conv' simp del: map_of_eq_Some_iff\<close>)
  note r = session_run [OF assms(3) k assms(4,5)]
  moreover have "m_vectorIndex t' \<noteq> []" using r t' unfolding master_inv_def by force
  ultimately show ?thesis by (simp add: master_handle_def find_slave_def Let_def del: map_of_eq_Some_iff)
qed

definition empty_server :: tcp_server where
  "empty_server = \<lparr>ctxs = [], next_ctx = 0, m_listAvaiTcpHandle = [], m_listWriteParam = [], m_mapClientsList = [],
     s_id = 0, m_bIsClosed = True, m_bIsUserAskForClosed = False, mutex_held = False\<rparr>"

abbreviation sample_master :: master where
  "sample_master \<equiv> master_new empty_server\<lparr>m_setSlaveNodeWhitelist := [7]\<rparr>"

lemma session_sticky_witness:
  "\<exists>t'. master_handle t' (Req_Slave 9 42) = Inr (t', [Some \<lparr>node_ip = 2, node_port = 20\<rparr>])"
proof -
  let ?s = "sample_master\<lparr>m_mapSlaveAddr := [(0, \<lparr>node_ip = 1, node_port = 10\<rparr>), (1, \<lparr>node_ip = 2, node_port = 20\<rparr>)],
    m_vectorIndex := [0, 1]\<rparr>"
  let ?t = "?s\<lparr>m_mapSessionIndex := [(42, 1)]\<rparr>"
  have 1: "run_events master_handle sample_master
      [Slave_Login 7 \<lparr>node_ip = 1, node_port = 10\<rparr> 0, Slave_Login 7 \<lparr>node_ip = 2, node_port = 20\<rparr> 1] = Inr (?s, [])"
    by code_simp
  have 2: "master_handle ?s (Req_Slave 5 42) = Inr (?t, [Some \<lparr>node_ip = 2, node_port = 20\<rparr>])" by code_simp
  have 3: "map_of (m_mapSessionIndex ?t) 42 = Some 1" by simp
  have 4: "run_events master_handle ?t [Slave_Closed 0]
      = Inr (?t\<lparr>m_mapSlaveAddr := [(1, \<lparr>node_ip = 2, node_port = 20\<rparr>)]\<rparr>, [])" by code_simp
  show ?thesis using session_sticky [OF 1 2 3 4, of 9] by auto
qed

text \<open>
  The master is free of undefined behaviour as long as no slave disconnects: every run
  of logins and requests from the start returns, with every slave of the vector online.
\<close>

theorem master_safe:
  assumes "\<forall>e\<in>set es. no_close e"
  shows "\<exists>s out. run_events master_handle (master_new srv\<lparr>m_setSlaveNodeWhitelist := w\<rparr>) es = Inr (s, out) \<and> all_online s"
  using calm_master.run_safe [OF master_new_online] calm_master.run_inv [OF master_new_online] assms by fastforce

lemma master_safe_witness:
  "\<exists>s out. run_events master_handle sample_master [Req_Slave 3 1, Slave_Login 7 \<lparr>node_ip = 1, node_port = 10\<rparr> 0, Req_Slave 3 1]
     = Inr (s, out) \<and> all_online s"
  by (rule master_safe) (simp add: no_close_def)

text \<open>
  A slave that has gone is never taken out of \<open>m_vectorIndex\<close>: if it was the only one,
  the next request dereferences the end iterator of \<open>m_mapSlaveAddr\<close>.
\<close>

theorem stale_slave:
  assumes "sockname \<in> set (m_setSlaveNodeWhitelist s)" "m_vectorIndex s = []" "m_mapSlaveAddr s = []"
  shows "run_events master_handle s [Slave_Login sockname n k, Slave_Closed k, Req_Slave r u] = Inl Iterator_Invalidated"
  using assms by (simp add: master_handle_def OnSlaveLogin_def master_CloseCB_def find_slave_def Let_def
      AllocateServerToSessionId_def del: map_of_eq_Some_iff split: option.split)

lemma stale_slave_witness:
  "run_events master_handle sample_master [Slave_Login 7 \<lparr>node_ip = 1, node_port = 10\<rparr> 0, Slave_Closed 0, Req_Slave 3 1]
     = Inl Iterator_Invalidated"
  by (rule stale_slave) (simp_all add: master_new_def tcp_server.defs master.defs)

end
