(* ===== verification/Tcp_Client.thy ===== *)
theory Tcp_Client
  imports Tcp_Server Circular_Buffer
begin

text \<open>
  The TCP client (\<open>simple_uv/tcpclient.cpp\<close>, \<open>tcpclient.h\<close>, \<open>TcpHandle.cpp\<close>): connecting, sending through
  the circular buffer, receiving, reconnecting with a timer whose delay doubles, and closing. What
  libuv returns is an argument of each operation; the calls of \<open>Send\<close> run in other threads, one round of
  their loop at a time (the rounds hold \<open>m_mutexClients\<close>). Of the handles of the loop only the one of the
  connection and the timer are modelled.
\<close>

section \<open>State\<close>

datatype connect_status = CONNECT_TIMEOUT | CONNECT_FINISH | CONNECT_ERROR | CONNECT_DIS

text \<open>
  The state of the handle in \<open>m_handleClient\<close> (a closing handle knows whether \<open>AfterClientClose\<close> is its
  callback), and the object its \<open>data\<close> points to: the context, or the client itself.
\<close>

datatype client_handle_state = CH_None | CH_Open | CH_Reading | CH_Closing bool

datatype client_data = Data_Context | Data_Client

text \<open>
  \<open>c_sends\<close> holds the calls of \<open>Send\<close> that other threads are in (data and \<open>iret\<close>), \<open>c_connecting\<close> says
  that \<open>m_connetcReq\<close> is pending, and \<open>m_timerReconnet\<close> is the repeat time of the timer while it is armed.
  \<open>m_nRepeatTime\<close> has no value before the first use.
\<close>

record tcp_client =
  c_packet :: packet_sync
  c_handle :: client_handle_state
  c_data :: client_data
  c_connecting :: bool
  c_bIsClosed :: bool
  c_bIsUserAskForClosed :: bool
  m_bIsIPv6 :: bool
  m_bIsReconnecting :: bool
  m_bTcpHandleClosed :: bool
  m_nConnectStatus :: connect_status
  m_nRepeatTime :: "int option"
  m_timerReconnet :: "int option"
  m_server :: "string \<times> int"
  c_listWriteParam :: "nat list"
  m_buferWrite :: "u8 circular_buffer"
  c_sends :: "(bytes \<times> nat) list"

text \<open>
  What the client does to its surroundings. \<open>C_Accept\<close> shows the bytes that the write buffer has taken,
  \<open>C_Lost\<close> those of a failed \<open>uv_write\<close>, whose only trace in the code is the message on \<open>stdout\<close>.
\<close>

datatype client_out =
    C_Write bytes
  | C_Lost bytes
  | C_Accept bytes
  | C_Return nat
  | C_Async
  | C_Packet NetPacket bytes
  | C_Close
  | C_Connect
  | C_Timer_Start int
  | C_Reconnected
  | C_Disconnected

type_synonym client_result = "(tcp_client \<times> client_out list) outcome"

definition tcp_client_new :: "NetPacket \<Rightarrow> tcp_client" where
  "tcp_client_new junk = \<lparr>c_packet = packet_sync_new junk, c_handle = CH_None, c_data = Data_Context,
     c_connecting = False, c_bIsClosed = True, c_bIsUserAskForClosed = False, m_bIsIPv6 = False,
     m_bIsReconnecting = False, m_bTcpHandleClosed = False, m_nConnectStatus = CONNECT_DIS,
     m_nRepeatTime = None, m_timerReconnet = None, m_server = ([], 0), c_listWriteParam = [],
     m_buferWrite = cb_new (replicate BUFFER_SIZE 0), c_sends = []\<rparr>"

section \<open>The handle\<close>

definition closing :: "client_handle_state \<Rightarrow> bool" where
  "closing h = (case h of CH_Closing _ \<Rightarrow> True | _ \<Rightarrow> False)"

definition c_uv_tcp_init :: "int \<Rightarrow> tcp_client \<Rightarrow> tcp_client outcome" where
  "c_uv_tcp_init ret s = (if c_handle s \<noteq> CH_None then Inl Handle_Misuse
     else Inr (if ret = 0 then s\<lparr>c_handle := CH_Open\<rparr> else s))"

definition c_uv_close :: "bool \<Rightarrow> tcp_client \<Rightarrow> tcp_client outcome" where
  "c_uv_close cb s = (case c_handle s of
       CH_Closing _ \<Rightarrow> Inl Assertion_Failed
     | CH_None \<Rightarrow> Inl Handle_Misuse
     | _ \<Rightarrow> Inr (s\<lparr>c_handle := CH_Closing cb\<rparr>))"

section \<open>Reconnecting\<close>

definition StartReconnect :: "tcp_client \<Rightarrow> tcp_client" where
  "StartReconnect s = s\<lparr>m_bIsReconnecting := True, c_data := Data_Client, m_nRepeatTime := Some 1000\<rparr>"

definition StopReconnect :: "tcp_client \<Rightarrow> tcp_client" where
  "StopReconnect s = s\<lparr>m_bIsReconnecting := False, c_data := Data_Context, m_nRepeatTime := Some 1000,
     m_timerReconnet := None\<rparr>"

text \<open>\<open>uv_timer_stop\<close>, \<open>m_nRepeatTime *= 2\<close> (an \<open>int64_t\<close>) and \<open>uv_timer_start\<close>.\<close>

definition restart_timer :: "tcp_client \<Rightarrow> client_result" where
  "restart_timer s = (case m_nRepeatTime s of
       None \<Rightarrow> Inl Indeterminate_Value
     | Some t \<Rightarrow> if 2 ^ 63 \<le> t * 2 then Inl Signed_Overflow
         else Inr (s\<lparr>m_nRepeatTime := Some (t * 2), m_timerReconnet := Some (t * 2)\<rparr>, [C_Timer_Start (t * 2)]))"

text \<open>
  The callback of \<open>uv_tcp_connect\<close>; \<open>read_ret\<close> is what \<open>uv_read_start\<close> returns.
\<close>

definition AfterConnect :: "int \<Rightarrow> int \<Rightarrow> tcp_client \<Rightarrow> client_result" where
  "AfterConnect status read_ret s = (
     if c_data s \<noteq> Data_Context then Inl Wrong_Type
     else let s = s\<lparr>c_connecting := False\<rparr> in
     if status \<noteq> 0
     then let s = s\<lparr>m_nConnectStatus := CONNECT_ERROR\<rparr>
          in if m_bIsReconnecting s then restart_timer s else Inr (s, [])
     else let s = (if read_ret \<noteq> 0 then s\<lparr>m_nConnectStatus := CONNECT_ERROR\<rparr>
                   else s\<lparr>m_nConnectStatus := CONNECT_FINISH, c_handle := CH_Reading\<rparr>)
          in if m_bIsReconnecting s then Inr (StopReconnect s, [C_Reconnected]) else Inr (s, []))"

text \<open>
  The timer: \<open>init_ret\<close>, \<open>addr_ret\<close> and \<open>connect_ret\<close> are what \<open>uv_tcp_init\<close>, \<open>uv_ip4_addr\<close> (or
  \<open>uv_ip6_addr\<close>) and \<open>uv_tcp_connect\<close> return. The address is passed through a pointer to a variable
  whose block has ended, so \<open>connect_ret\<close> says nothing about it.
\<close>

definition ReconnectTimer :: "int \<Rightarrow> int \<Rightarrow> int \<Rightarrow> tcp_client \<Rightarrow> client_result" where
  "ReconnectTimer init_ret addr_ret connect_ret s = (
     if \<not> m_bIsReconnecting s then Inr (s, [])
     else bind_outcome (if m_bTcpHandleClosed s
         then map_outcome (\<lambda>s. (s\<lparr>m_bTcpHandleClosed := False\<rparr>, init_ret)) (c_uv_tcp_init init_ret s)
         else Inr (s, 0)) (\<lambda>(s, iret).
       if iret \<noteq> 0 then restart_timer s
       else
       let s = s\<lparr>c_data := Data_Context\<rparr>;
           break = (\<lambda>s. bind_outcome (c_uv_close False s) (\<lambda>s.
             map_outcome (\<lambda>(s, out). (s, C_Close # out)) (restart_timer (s\<lparr>m_bTcpHandleClosed := True\<rparr>))))
       in if addr_ret \<noteq> 0 then break s
          else if c_handle s = CH_None \<or> closing (c_handle s) then Inl Handle_Misuse
          else if connect_ret \<noteq> 0 then break s
          else Inr (s\<lparr>c_connecting := True\<rparr>, [C_Connect])))"

text \<open>The close callback; \<open>timer_ret\<close> is what \<open>uv_timer_start\<close> returns.\<close>

definition c_AfterClientClose :: "int \<Rightarrow> tcp_client \<Rightarrow> client_result" where
  "c_AfterClientClose timer_ret s = (
     if c_data s \<noteq> Data_Client then Inl Wrong_Type
     else if \<not> m_bIsReconnecting s then Inr (s, [])
     else case m_nRepeatTime s of
         None \<Rightarrow> Inl Indeterminate_Value
       | Some t \<Rightarrow> if timer_ret \<noteq> 0 then Inr (s\<lparr>m_timerReconnet := None\<rparr>, [C_Close])
           else Inr (s\<lparr>m_timerReconnet := Some t\<rparr>, [C_Timer_Start t]))"

definition c_after_close :: "int \<Rightarrow> tcp_client \<Rightarrow> client_result" where
  "c_after_close timer_ret s = (case c_handle s of
       CH_Closing cb \<Rightarrow> (let s = s\<lparr>c_handle := CH_None\<rparr> in
         if cb then c_AfterClientClose timer_ret s else Inr (s, []))
     | _ \<Rightarrow> Inl Handle_Misuse)"

section \<open>Sending\<close>

definition UV_EBADF :: int where "UV_EBADF = -9"

text \<open>
  The loop of \<open>send_inl\<close>. \<open>rets i\<close> is what the \<open>i\<close>-th \<open>uv_write\<close> of the call returns for a handle with a
  socket; without one it is \<open>UV_EBADF\<close>. The fuel is one more than the bytes in the buffer.
\<close>

fun send_loop :: "nat \<Rightarrow> (nat \<Rightarrow> int) \<Rightarrow> nat \<Rightarrow> tcp_client \<Rightarrow> client_result" where
  "send_loop 0 rets i s = Inl No_Return"
| "send_loop (Suc fuel) rets i s = (
     if m_bEmpty (m_buferWrite s) then Inr (s, [])
     else let (cap, params) = (case c_listWriteParam s of [] \<Rightarrow> (BUFFER_SIZE, []) | c # cs \<Rightarrow> (c, cs))
     in bind_outcome (cb_read (m_buferWrite s) (int cap)) (\<lambda>(b, d).
       let iret = (if c_handle s = CH_Open \<or> c_handle s = CH_Reading then rets i else UV_EBADF);
           s = s\<lparr>m_buferWrite := b, c_listWriteParam := (if iret \<noteq> 0 then params @ [cap] else params)\<rparr>
       in map_outcome (\<lambda>(s, out). (s, (if iret \<noteq> 0 then C_Lost d else C_Write d) # out))
            (send_loop fuel rets (Suc i) s)))"

definition keep_param :: "nat \<Rightarrow> tcp_client \<Rightarrow> tcp_client" where
  "keep_param cap s = (if length (c_listWriteParam s) > MAXLISTSIZE then s
     else s\<lparr>c_listWriteParam := c_listWriteParam s @ [cap]\<rparr>)"

definition send_inl :: "nat option \<Rightarrow> (nat \<Rightarrow> int) \<Rightarrow> tcp_client \<Rightarrow> client_result" where
  "send_inl req rets s = (
     let s = (case req of None \<Rightarrow> s | Some cap \<Rightarrow> keep_param cap s)
     in send_loop (Suc (cb_size (m_buferWrite s))) rets 0 s)"

definition c_AfterSend :: "nat \<Rightarrow> int \<Rightarrow> (nat \<Rightarrow> int) \<Rightarrow> tcp_client \<Rightarrow> client_result" where
  "c_AfterSend cap status rets s = (if status < 0 then Inr (keep_param cap s, []) else send_inl (Some cap) rets s)"

text \<open>
  \<open>Send\<close> up to its loop, and one round of the loop of the \<open>i\<close>-th call; after a round that could not
  place everything the caller sleeps.
\<close>

definition Send_begin :: "bytes \<Rightarrow> tcp_client \<Rightarrow> client_result" where
  "Send_begin data s = (if data = [] then Inr (s, [C_Return 0])
     else Inr (s\<lparr>c_sends := c_sends s @ [(data, 0)]\<rparr>, [C_Async]))"

definition drop_nth :: "nat \<Rightarrow> 'a list \<Rightarrow> 'a list" where
  "drop_nth i xs = take i xs @ drop (Suc i) xs"

definition Send_round :: "nat \<Rightarrow> tcp_client \<Rightarrow> client_result" where
  "Send_round i s = (
     if length (c_sends s) \<le> i then Inr (s, [])
     else let (data, iret) = c_sends s ! i in
       if c_bIsUserAskForClosed s then Inr (s\<lparr>c_sends := drop_nth i (c_sends s)\<rparr>, [C_Async, C_Return iret])
       else bind_outcome (cb_write (m_buferWrite s) (drop iret data) (int (length data - iret))) (\<lambda>(b, n).
         let s = s\<lparr>m_buferWrite := b\<rparr>; iret' = iret + nat n; took = C_Accept (take (nat n) (drop iret data))
         in if iret' < length data then Inr (s\<lparr>c_sends := (c_sends s)[i := (data, iret')]\<rparr>, [took])
            else Inr (s\<lparr>c_sends := drop_nth i (c_sends s)\<rparr>, [took, C_Async, C_Return iret'])))"

section \<open>Receiving\<close>

definition c_AfterRecv :: "bool \<Rightarrow> int \<Rightarrow> bytes \<Rightarrow> (nat \<Rightarrow> int) \<Rightarrow> tcp_client \<Rightarrow> client_result" where
  "c_AfterRecv le nread buf rets s = (
     if c_data s \<noteq> Data_Context then Inl Wrong_Type
     else if nread < 0
     then map_outcome (\<lambda>s. (s\<lparr>m_bTcpHandleClosed := True\<rparr>, [C_Disconnected, C_Close])) (c_uv_close True (StartReconnect s))
     else bind_outcome (send_inl None rets s) (\<lambda>(s, out).
       if nread = 0 then Inr (s, out)
       else case recvdata le (c_packet s) (take (nat nread) buf) of
           None \<Rightarrow> Inl No_Return
         | Some r \<Rightarrow> map_outcome (\<lambda>(ps, ds). (s\<lparr>c_packet := ps\<rparr>, out @ map (\<lambda>(p, d). C_Packet p d) ds)) r))"

section \<open>Opening and closing\<close>

text \<open>\<open>CloseWalkCB\<close> closes the timer too.\<close>

definition c_CloseWalkCB :: "tcp_client \<Rightarrow> tcp_client \<times> client_out list" where
  "c_CloseWalkCB s = (if c_handle s = CH_Open \<or> c_handle s = CH_Reading
     then (s\<lparr>c_handle := CH_Closing (c_data s = Data_Client), m_timerReconnet := None, m_bTcpHandleClosed := True\<rparr>, [C_Close])
     else (s\<lparr>m_timerReconnet := None, m_bTcpHandleClosed := True\<rparr>, []))"

definition c_closeinl :: "tcp_client \<Rightarrow> tcp_client \<times> client_out list" where
  "c_closeinl s = (if c_bIsClosed s then (s, []) else c_CloseWalkCB (StopReconnect s))"

definition c_Close :: "tcp_client \<Rightarrow> tcp_client \<times> client_out list" where
  "c_Close s = (if c_bIsClosed s then (s, []) else (s\<lparr>c_bIsUserAskForClosed := True\<rparr>, [C_Async]))"

definition c_AsyncCloseCB :: "(nat \<Rightarrow> int) \<Rightarrow> tcp_client \<Rightarrow> client_result" where
  "c_AsyncCloseCB rets s = (if c_bIsUserAskForClosed s then Inr (c_closeinl s) else send_inl None rets s)"

text \<open>
  \<open>CTCPHandle::init\<close>: the return codes are those of \<open>uv_async_init\<close> and of \<open>uv_tcp_init\<close> on
  \<open>m_tcpHandle\<close>.
\<close>

definition handle_init :: "int \<Rightarrow> int \<Rightarrow> tcp_client \<Rightarrow> tcp_client \<times> bool" where
  "handle_init async_ret tcp_ret s = (
     if \<not> c_bIsClosed s then (s, True)
     else if async_ret \<noteq> 0 \<or> tcp_ret \<noteq> 0 then (s, False)
     else (s\<lparr>c_bIsClosed := False\<rparr>, True))"

definition client_init :: "int \<Rightarrow> int \<Rightarrow> int \<Rightarrow> int \<Rightarrow> tcp_client \<Rightarrow> (tcp_client \<times> bool) outcome" where
  "client_init async_ret tcp_ret init_ret timer_ret s0 = (
     let (s, ok) = handle_init async_ret tcp_ret s0 in
     if \<not> ok then Inr (s, False)
     else map_outcome (\<lambda>s.
         (s\<lparr>c_data := Data_Context, c_packet := Start SERVER_PACKET_HEAD SERVER_PACKET_TAIL (SetPacketCB (c_packet s))\<rparr>,
          timer_ret = 0)) (c_uv_tcp_init init_ret s))"

text \<open>The caller looks at \<open>m_nConnectStatus\<close> every 100 ms; \<open>seen i\<close> is what it sees the \<open>i\<close>-th time.\<close>

function wait_connect :: "(nat \<Rightarrow> connect_status) \<Rightarrow> nat \<Rightarrow> connect_status" where
  "wait_connect seen wait_count = (
     if seen wait_count \<noteq> CONNECT_DIS then seen wait_count
     else if wait_count + 1 > 100 then CONNECT_TIMEOUT
     else wait_connect seen (wait_count + 1))"
  by pat_completeness auto
termination by (relation "measure (\<lambda>(_, n). 101 - n)") auto

declare wait_connect.simps [simp del]

text \<open>
  \<open>Connect\<close> and \<open>Connect6\<close>, which differ in the family and the function for the address; the second
  result says whether the caller goes on to wait.
\<close>

definition Connect_begin ::
  "bool \<Rightarrow> string \<times> int \<Rightarrow> int \<Rightarrow> int \<Rightarrow> int \<Rightarrow> int \<Rightarrow> int \<Rightarrow> int \<Rightarrow> int \<Rightarrow> tcp_client \<Rightarrow> (tcp_client \<times> bool) outcome" where
  "Connect_begin ip6 server async_ret tcp_ret init_ret timer_ret addr_ret connect_ret thread_ret s = (
     bind_outcome (client_init async_ret tcp_ret init_ret timer_ret (fst (c_closeinl s))) (\<lambda>(s, ok).
       if \<not> ok then Inr (s, False)
       else let s = s\<lparr>m_server := server, m_bIsIPv6 := ip6\<rparr> in
       if addr_ret \<noteq> 0 then Inr (s, False)
       else if c_handle s \<noteq> CH_Open then Inl Handle_Misuse
       else if connect_ret \<noteq> 0 then Inr (s, False)
       else Inr (s\<lparr>c_connecting := True\<rparr>, thread_ret = 0)))"

definition Connect_end :: "(nat \<Rightarrow> connect_status) \<Rightarrow> tcp_client \<Rightarrow> tcp_client \<times> bool" where
  "Connect_end seen s = (let status = wait_connect seen 0 in
     (if status = CONNECT_TIMEOUT then s\<lparr>m_nConnectStatus := CONNECT_TIMEOUT\<rparr> else s,
      status = CONNECT_FINISH))"

definition Connect ::
  "string \<times> int \<Rightarrow> int \<Rightarrow> int \<Rightarrow> int \<Rightarrow> int \<Rightarrow> int \<Rightarrow> int \<Rightarrow> int \<Rightarrow> (nat \<Rightarrow> connect_status) \<Rightarrow> tcp_client \<Rightarrow> (tcp_client \<times> bool) outcome" where
  "Connect server async_ret tcp_ret init_ret timer_ret addr_ret connect_ret thread_ret seen s =
     map_outcome (\<lambda>(s, ok). if ok then Connect_end seen s else (s, False))
       (Connect_begin False server async_ret tcp_ret init_ret timer_ret addr_ret connect_ret thread_ret s)"

definition Connect6 ::
  "string \<times> int \<Rightarrow> int \<Rightarrow> int \<Rightarrow> int \<Rightarrow> int \<Rightarrow> int \<Rightarrow> int \<Rightarrow> int \<Rightarrow> (nat \<Rightarrow> connect_status) \<Rightarrow> tcp_client \<Rightarrow> (tcp_client \<times> bool) outcome" where
  "Connect6 server async_ret tcp_ret init_ret timer_ret addr_ret connect_ret thread_ret seen s =
     map_outcome (\<lambda>(s, ok). if ok then Connect_end seen s else (s, False))
       (Connect_begin True server async_ret tcp_ret init_ret timer_ret addr_ret connect_ret thread_ret s)"

definition c_SendUvMessage :: "bool \<Rightarrow> NetPacket \<Rightarrow> bytes \<Rightarrow> nat \<Rightarrow> tcp_client \<Rightarrow> client_result" where
  "c_SendUvMessage le junk msg nMsgType s = bind_outcome (PacketData le junk msg nMsgType) (\<lambda>d. Send_begin d s)"

section \<open>Events\<close>

datatype client_event =
    Cl_Connected int int
  | Cl_Recv bool int bytes "nat \<Rightarrow> int"
  | Cl_Sent nat int "nat \<Rightarrow> int"
  | Cl_Closed int
  | Cl_Timer int int int
  | Cl_Async "nat \<Rightarrow> int"
  | Cl_Send bytes
  | Cl_Round nat
  | Cl_Close

text \<open>
  When the loop runs a callback: a connected or refused handle, a read of one that is being read, a
  close after the pending connect has been answered, and a timer that is armed, after the close
  callbacks of the round before. \<open>uv_tcp_connect\<close> refuses a handle that is connecting already.
\<close>

definition client_enabled :: "client_event \<Rightarrow> tcp_client \<Rightarrow> bool" where
  "client_enabled e s = (case e of
       Cl_Connected status _ \<Rightarrow> c_connecting s \<and> (status = 0 \<longrightarrow> c_handle s = CH_Open)
     | Cl_Recv _ _ _ _ \<Rightarrow> c_handle s = CH_Reading
     | Cl_Closed _ \<Rightarrow> closing (c_handle s) \<and> \<not> c_connecting s
     | Cl_Timer _ _ connect_ret \<Rightarrow> m_timerReconnet s \<noteq> None \<and> \<not> closing (c_handle s)
         \<and> (c_connecting s \<longrightarrow> connect_ret \<noteq> 0)
     | _ \<Rightarrow> True)"

definition client_handle :: "tcp_client \<Rightarrow> client_event \<Rightarrow> client_result" where
  "client_handle s e = (if \<not> client_enabled e s then Inr (s, []) else case e of
       Cl_Connected status read_ret \<Rightarrow> AfterConnect status read_ret s
     | Cl_Recv le nread buf rets \<Rightarrow> c_AfterRecv le nread buf rets s
     | Cl_Sent cap status rets \<Rightarrow> c_AfterSend cap status rets s
     | Cl_Closed timer_ret \<Rightarrow> c_after_close timer_ret s
     | Cl_Timer init_ret addr_ret connect_ret \<Rightarrow> ReconnectTimer init_ret addr_ret connect_ret s
     | Cl_Async rets \<Rightarrow> c_AsyncCloseCB rets s
     | Cl_Send data \<Rightarrow> Send_begin data s
     | Cl_Round i \<Rightarrow> Send_round i s
     | Cl_Close \<Rightarrow> Inr (c_Close s))"

end
