(* ===== verification/Tcp_Client_Proofs.thy ===== *)
theory Tcp_Client_Proofs
  imports Tcp_Client
begin

text \<open>
  The correctness of the TCP client: the bytes that \<open>Send\<close> places in the buffer leave it in order (what
  two threads send at a time is mixed, and what is buffered when a connection breaks may be lost); the client
  never stops reconnecting, with doubling delays; and what a \<open>Close\<close> in the middle of it leads to.
\<close>

section \<open>The bytes that pass through the client\<close>

definition placed :: "client_out list \<Rightarrow> bytes" where
  "placed out = concat (map (\<lambda>x. case x of C_Accept d \<Rightarrow> d | _ \<Rightarrow> []) out)"

definition written :: "client_out list \<Rightarrow> bytes" where
  "written out = concat (map (\<lambda>x. case x of C_Write d \<Rightarrow> d | _ \<Rightarrow> []) out)"

definition taken :: "client_out list \<Rightarrow> bytes" where
  "taken out = concat (map (\<lambda>x. case x of C_Write d \<Rightarrow> d | C_Lost d \<Rightarrow> d | _ \<Rightarrow> []) out)"

lemma traffic_simps [simp]:
  "placed [] = []" "taken [] = []" "written [] = []"
  "placed (out @ out') = placed out @ placed out'" "taken (out @ out') = taken out @ taken out'"
  "written (out @ out') = written out @ written out'"
  by (simp_all add: placed_def taken_def written_def)

lemma traffic_Cons [simp]:
  "placed (x # out) = (case x of C_Accept d \<Rightarrow> d | _ \<Rightarrow> []) @ placed out"
  "taken (x # out) = (case x of C_Write d \<Rightarrow> d | C_Lost d \<Rightarrow> d | _ \<Rightarrow> []) @ taken out"
  "written (x # out) = (case x of C_Write d \<Rightarrow> d | _ \<Rightarrow> []) @ written out"
  by (simp_all add: placed_def taken_def written_def)

lemma traffic_packets [simp]:
  "placed (map (\<lambda>(p, d). C_Packet p d) ds) = []" "taken (map (\<lambda>(p, d). C_Packet p d) ds) = []"
  by (induction ds) auto

lemma written_taken: "\<forall>d. C_Lost d \<notin> set out \<Longrightarrow> taken out = written out"
  by (induction out) (auto split: client_out.splits)

definition buffer_inv :: "tcp_client \<Rightarrow> bool" where
  "buffer_inv s \<longleftrightarrow> cb_inv (m_buferWrite s) \<and> (\<forall>c\<in>set (c_listWriteParam s). 0 < c)
     \<and> (\<forall>(d, n)\<in>set (c_sends s). n < length d)"

definition client_allowed :: "client_event \<Rightarrow> bool" where
  "client_allowed e = (case e of Cl_Sent cap _ _ \<Rightarrow> 0 < cap | _ \<Rightarrow> True)"

text \<open>What \<open>send_inl\<close> may change: the buffer and the free requests.\<close>

definition same_but_buffer :: "tcp_client \<Rightarrow> tcp_client \<Rightarrow> bool" where
  "same_but_buffer s t \<longleftrightarrow> (\<exists>b ps. t = s\<lparr>m_buferWrite := b, c_listWriteParam := ps\<rparr>)"

lemma same_but_buffer_refl [simp]: "same_but_buffer s s"
  unfolding same_but_buffer_def by (intro exI [of _ "m_buferWrite s"] exI [of _ "c_listWriteParam s"]) simp

lemma same_but_buffer_trans: "same_but_buffer s t \<Longrightarrow> same_but_buffer t u \<Longrightarrow> same_but_buffer s u"
  by (auto simp: same_but_buffer_def) blast

lemma same_but_buffer_fields:
  assumes "same_but_buffer s t"
  shows "c_packet t = c_packet s" "c_handle t = c_handle s" "c_data t = c_data s" "c_connecting t = c_connecting s"
    "c_bIsClosed t = c_bIsClosed s" "c_bIsUserAskForClosed t = c_bIsUserAskForClosed s"
    "m_bIsReconnecting t = m_bIsReconnecting s" "m_bTcpHandleClosed t = m_bTcpHandleClosed s"
    "m_nRepeatTime t = m_nRepeatTime s" "m_timerReconnet t = m_timerReconnet s" "c_sends t = c_sends s"
  using assms by (auto simp: same_but_buffer_def)

lemma send_loop_law:
  assumes "buffer_inv s" "length (cb_contents (m_buferWrite s)) < fuel"
  shows "\<exists>s' out. send_loop fuel rets i s = Inr (s', out) \<and> buffer_inv s' \<and> same_but_buffer s s'
    \<and> taken out = cb_contents (m_buferWrite s) \<and> cb_contents (m_buferWrite s') = [] \<and> placed out = []
    \<and> (if c_handle s = CH_Open \<or> c_handle s = CH_Reading
        then (\<forall>i. rets i = 0) \<longrightarrow> (\<forall>d. C_Lost d \<notin> set out) else written out = [])
    \<and> m_nBufSize (m_buferWrite s') = m_nBufSize (m_buferWrite s)"
  using assms
proof (induction fuel arbitrary: i s)
  case (Suc fuel)
  show ?case
  proof (cases "m_bEmpty (m_buferWrite s)")
    case True
    then show ?thesis using Suc.prems(1) by (simp add: cb_contents_def)
  next
    case False
    define cap where "cap = (case c_listWriteParam s of [] \<Rightarrow> BUFFER_SIZE | c # _ \<Rightarrow> c)"
    define params where "params = (case c_listWriteParam s of [] \<Rightarrow> [] | _ # cs \<Rightarrow> cs)"
    have cap: "0 < cap" "(case c_listWriteParam s of [] \<Rightarrow> (BUFFER_SIZE, []) | c # cs \<Rightarrow> (c, cs)) = (cap, params)"
      "\<forall>c\<in>set params. 0 < c"
      using Suc.prems(1) by (cases "c_listWriteParam s"; simp add: cap_def params_def buffer_inv_def BUFFER_SIZE_def)+
    have inv: "cb_inv (m_buferWrite s)" using Suc.prems(1) by (simp add: buffer_inv_def)
    obtain b where b: "cb_read (m_buferWrite s) (int cap) = Inr (b, take cap (cb_contents (m_buferWrite s)))"
      "cb_inv b" "cb_contents b = drop cap (cb_contents (m_buferWrite s))" "m_nBufSize b = m_nBufSize (m_buferWrite s)"
      using ring.read_total [OF inv, of "int cap"] by auto
    have ne: "cb_contents (m_buferWrite s) \<noteq> []"
      using False inv length_cb_contents [OF inv] by (auto simp: cb_size_def cb_inv_def split: if_splits)
    define iret where "iret = (if c_handle s = CH_Open \<or> c_handle s = CH_Reading then rets i else UV_EBADF)"
    define t where "t = s\<lparr>m_buferWrite := b, c_listWriteParam := (if iret \<noteq> 0 then params @ [cap] else params)\<rparr>"
    have t: "buffer_inv t" "same_but_buffer s t" "cb_contents (m_buferWrite t) = drop cap (cb_contents (m_buferWrite s))"
      "m_nBufSize (m_buferWrite t) = m_nBufSize (m_buferWrite s)"
      using b(2-4) Suc.prems(1) cap by (auto simp: t_def buffer_inv_def same_but_buffer_def)
    have "length (cb_contents (m_buferWrite t)) < fuel"
      using Suc.prems(2) ne cap(1) by (cases "cb_contents (m_buferWrite s)") (auto simp: t(3))
    from Suc.IH [OF t(1) this, of "Suc i"] obtain s' out where IH: "send_loop fuel rets (Suc i) t = Inr (s', out)"
      "buffer_inv s'" "same_but_buffer t s'" "taken out = cb_contents (m_buferWrite t)"
      "cb_contents (m_buferWrite s') = []" "placed out = []"
      "if c_handle s = CH_Open \<or> c_handle s = CH_Reading
        then (\<forall>i. rets i = 0) \<longrightarrow> (\<forall>d. C_Lost d \<notin> set out) else written out = []"
      "m_nBufSize (m_buferWrite s') = m_nBufSize (m_buferWrite t)"
      unfolding same_but_buffer_fields(2) [OF t(2)]
      by blast
    have "send_loop (Suc fuel) rets i s = Inr (s', (if iret \<noteq> 0 then C_Lost (take cap (cb_contents (m_buferWrite s)))
        else C_Write (take cap (cb_contents (m_buferWrite s)))) # out)"
      using False IH(1) by (simp add: cap(2) b(1) iret_def [symmetric] t_def)
    moreover have "iret = (if c_handle s = CH_Open \<or> c_handle s = CH_Reading then rets i else UV_EBADF)" by (simp add: iret_def)
    ultimately show ?thesis using IH(2-) same_but_buffer_trans [OF t(2) IH(3)] by (auto simp add: t(3,4) UV_EBADF_def)
  qed
qed simp

lemma same_but_buffer_params [simp]: "same_but_buffer s (s\<lparr>c_listWriteParam := ps\<rparr>)"
  unfolding same_but_buffer_def by (intro exI [of _ "m_buferWrite s"] exI [of _ ps]) simp

lemma keep_param_law:
  "buffer_inv s \<Longrightarrow> 0 < cap \<Longrightarrow> buffer_inv (keep_param cap s)" "same_but_buffer s (keep_param cap s)"
  "m_buferWrite (keep_param cap s) = m_buferWrite s"
  by (simp_all add: keep_param_def buffer_inv_def)

lemma send_inl_law:
  assumes "buffer_inv s" "\<forall>c. req = Some c \<longrightarrow> 0 < c"
  shows "\<exists>s' out. send_inl req rets s = Inr (s', out) \<and> buffer_inv s' \<and> same_but_buffer s s'
    \<and> taken out = cb_contents (m_buferWrite s) \<and> cb_contents (m_buferWrite s') = [] \<and> placed out = []
    \<and> (if c_handle s = CH_Open \<or> c_handle s = CH_Reading
        then (\<forall>i. rets i = 0) \<longrightarrow> (\<forall>d. C_Lost d \<notin> set out) else written out = [])
    \<and> m_nBufSize (m_buferWrite s') = m_nBufSize (m_buferWrite s)"
proof -
  define t where "t = (case req of None \<Rightarrow> s | Some cap \<Rightarrow> keep_param cap s)"
  have t: "buffer_inv t" "same_but_buffer s t" "m_buferWrite t = m_buferWrite s"
    using assms keep_param_law by (simp_all add: t_def split: option.split)
  have "length (cb_contents (m_buferWrite t)) < Suc (cb_size (m_buferWrite t))"
    using t(1) by (simp add: buffer_inv_def length_cb_contents)
  from send_loop_law [OF t(1) this, of rets 0] show ?thesis
    unfolding send_inl_def t_def [symmetric] Let_def t(3) same_but_buffer_fields(2) [OF t(2)] using same_but_buffer_trans [OF t(2)] by blast
qed

lemma set_drop_nth: "set (drop_nth i xs) \<subseteq> set xs"
  by (auto simp: drop_nth_def dest: in_set_takeD in_set_dropD)

lemma Send_round_law:
  assumes "buffer_inv s" "Send_round i s = Inr (s', out)"
  shows "buffer_inv s' \<and> cb_contents (m_buferWrite s) @ placed out = taken out @ cb_contents (m_buferWrite s')"
proof (cases "i < length (c_sends s)")
  case True
  obtain data iret where d: "c_sends s ! i = (data, iret)" by (cases "c_sends s ! i")
  have n: "iret < length data"
    using assms(1) True d nth_mem [OF True] by (auto simp: buffer_inv_def)
  have inv: "cb_inv (m_buferWrite s)" using assms(1) by (simp add: buffer_inv_def)
  obtain b k where b: "cb_write (m_buferWrite s) (drop iret data) (int (length data - iret)) = Inr (b, int k)"
    "cb_inv b" "cb_contents b = cb_contents (m_buferWrite s) @ take k (drop iret data)"
    using ring.write_total [OF inv, of "int (length data - iret)" "drop iret data"] by (metis length_drop nat_int order_refl)
  have dn: "\<forall>(d, n)\<in>set (drop_nth i (c_sends s)). n < length d"
    using assms(1) set_drop_nth by (fastforce simp: buffer_inv_def)
  have up: "\<forall>(d, n)\<in>set ((c_sends s)[i := (data, iret + k)]). n < length d" if "iret + k < length data"
    using assms(1) that set_update_subset_insert by (fastforce simp: buffer_inv_def)
  show ?thesis using assms True d b n dn up by (auto simp: Send_round_def Let_def buffer_inv_def split: if_splits)
qed (use assms in \<open>auto simp: Send_round_def\<close>)

lemma restart_timer_eq:
  "restart_timer s = Inr (s', out) \<longleftrightarrow> (\<exists>t. m_nRepeatTime s = Some t \<and> t * 2 < 2 ^ 63
     \<and> s' = s\<lparr>m_nRepeatTime := Some (t * 2), m_timerReconnet := Some (t * 2)\<rparr> \<and> out = [C_Timer_Start (t * 2)])"
  by (auto simp: restart_timer_def split: option.splits)

text \<open>Handlers that leave the buffer and the calls of \<open>Send\<close> alone.\<close>

definition quiet_step :: "tcp_client \<Rightarrow> tcp_client \<Rightarrow> client_out list \<Rightarrow> bool" where
  "quiet_step s s' out \<longleftrightarrow> m_buferWrite s' = m_buferWrite s \<and> c_listWriteParam s' = c_listWriteParam s
     \<and> c_sends s' = c_sends s \<and> c_bIsUserAskForClosed s' = c_bIsUserAskForClosed s \<and> placed out = [] \<and> taken out = []"

lemma c_uv_close_eq: "c_uv_close cb s = Inr s' \<longleftrightarrow> c_handle s \<in> {CH_Open, CH_Reading} \<and> s' = s\<lparr>c_handle := CH_Closing cb\<rparr>"
  by (cases "c_handle s") (auto simp: c_uv_close_def)

lemma c_uv_tcp_init_eq:
  "c_uv_tcp_init ret s = Inr s' \<longleftrightarrow> c_handle s = CH_None \<and> s' = (if ret = 0 then s\<lparr>c_handle := CH_Open\<rparr> else s)"
  by (auto simp: c_uv_tcp_init_def)

lemma AfterConnect_quiet: "AfterConnect status ret s = Inr (s', out) \<Longrightarrow> quiet_step s s' out"
  by (auto simp: AfterConnect_def StopReconnect_def restart_timer_eq quiet_step_def Let_def split: if_splits)

lemma ReconnectTimer_quiet: "ReconnectTimer i a c s = Inr (s', out) \<Longrightarrow> quiet_step s s' out"
  by (auto simp: ReconnectTimer_def restart_timer_eq quiet_step_def Let_def bind_outcome_Inr_iff c_uv_close_eq
      c_uv_tcp_init_eq split: if_splits)

lemma c_after_close_quiet: "c_after_close t s = Inr (s', out) \<Longrightarrow> quiet_step s s' out"
  by (auto simp: c_after_close_def c_AfterClientClose_def quiet_step_def Let_def split: client_handle_state.splits if_splits option.splits)

lemma c_closeinl_quiet: "c_closeinl s = (s', out) \<Longrightarrow> quiet_step s s' out"
  by (auto simp: c_closeinl_def c_CloseWalkCB_def StopReconnect_def quiet_step_def split: if_splits)

lemma quiet_buffer: "quiet_step s s' out \<Longrightarrow> buffer_inv s \<Longrightarrow>
    buffer_inv s' \<and> cb_contents (m_buferWrite s) @ placed out = taken out @ cb_contents (m_buferWrite s')"
  by (simp add: quiet_step_def buffer_inv_def)

text \<open>A step of the loop other than the calls of \<open>Send\<close>: what it writes comes out of the buffer.\<close>

definition loop_step :: "tcp_client \<Rightarrow> tcp_client \<Rightarrow> client_out list \<Rightarrow> bool" where
  "loop_step s s' out \<longleftrightarrow> buffer_inv s' \<and> cb_contents (m_buferWrite s) = taken out @ cb_contents (m_buferWrite s')
     \<and> c_sends s' = c_sends s \<and> c_bIsUserAskForClosed s' = c_bIsUserAskForClosed s \<and> placed out = []"

lemma quiet_loop_step: "quiet_step s s' out \<Longrightarrow> buffer_inv s \<Longrightarrow> loop_step s s' out"
  by (simp add: quiet_step_def buffer_inv_def loop_step_def)

lemma send_inl_step:
  assumes "buffer_inv s" "\<forall>c. req = Some c \<longrightarrow> 0 < c" "send_inl req rets s = Inr (s', out)"
  shows "loop_step s s' out"
  using send_inl_law [OF assms(1,2), of rets] assms(3) same_but_buffer_fields by (auto simp: loop_step_def)

lemma c_AfterRecv_step:
  assumes "buffer_inv s" "c_AfterRecv le nread buf rets s = Inr (s', out)"
  shows "loop_step s s' out"
proof (cases "nread < 0")
  case True
  then have "quiet_step s s' out"
    using assms(2) by (auto simp: c_AfterRecv_def StartReconnect_def c_uv_close_eq quiet_step_def split: if_splits)
  then show ?thesis using assms(1) by (rule quiet_loop_step)
next
  case False
  then obtain t out1 where t: "send_inl None rets s = Inr (t, out1)"
    "(if nread = 0 then Inr (t, out1) else case recvdata le (c_packet t) (take (nat nread) buf) of
           None \<Rightarrow> Inl No_Return
         | Some r \<Rightarrow> map_outcome (\<lambda>(ps, ds). (t\<lparr>c_packet := ps\<rparr>, out1 @ map (\<lambda>(p, d). C_Packet p d) ds)) r) = Inr (s', out)"
    using assms(2) by (auto simp: c_AfterRecv_def bind_outcome_Inr_iff split: if_splits)
  have "loop_step s t out1" using send_inl_step [OF assms(1) _ t(1)] by simp
  then show ?thesis using t(2) by (auto simp: loop_step_def buffer_inv_def split: if_splits option.splits)
qed

lemma client_loop_step:
  assumes "buffer_inv s" "client_allowed e" "client_handle s e = Inr (s', out)"
    "\<forall>d. e \<noteq> Cl_Send d" "\<forall>i. e \<noteq> Cl_Round i" "e \<noteq> Cl_Close"
  shows "loop_step s s' out"
proof (cases "client_enabled e s")
  case False
  then show ?thesis using assms(1,3) by (auto simp: client_handle_def loop_step_def)
next
  case True
  have sent: "loop_step s (keep_param cap s) []" if "0 < cap" for cap
    using keep_param_law [where s = s and cap = cap] assms(1) that same_but_buffer_fields [OF keep_param_law(2) [of s cap]]
    by (simp add: loop_step_def)
  show ?thesis
  proof (cases e)
    case (Cl_Async rets)
    then show ?thesis using assms True
      by (auto simp: client_handle_def c_AsyncCloseCB_def split: if_splits
          intro: quiet_loop_step c_closeinl_quiet send_inl_step)
  next
    case (Cl_Sent cap status rets)
    then show ?thesis using assms True sent
      by (auto simp: client_handle_def c_AfterSend_def client_allowed_def split: if_splits intro: send_inl_step)
  qed (use assms True in \<open>auto simp: client_handle_def intro: quiet_loop_step AfterConnect_quiet ReconnectTimer_quiet
      c_after_close_quiet c_AfterRecv_step\<close>)
qed

lemma client_step_flow:
  assumes "buffer_inv s" "client_allowed e" "client_handle s e = Inr (s', out)"
  shows "buffer_inv s' \<and> cb_contents (m_buferWrite s) @ placed out = taken out @ cb_contents (m_buferWrite s')"
proof (cases e)
  case (Cl_Send d)
  then show ?thesis using assms
    by (auto simp: client_handle_def client_enabled_def Send_begin_def buffer_inv_def split: if_splits)
next
  case (Cl_Round i)
  then show ?thesis using Send_round_law assms(1,3) by (simp add: client_handle_def client_enabled_def)
next
  case Cl_Close
  then show ?thesis using assms
    by (auto simp: client_handle_def client_enabled_def c_Close_def buffer_inv_def split: if_splits)
qed (use client_loop_step [OF assms] in \<open>simp_all add: loop_step_def\<close>)

interpretation client: event_handler client_handle buffer_inv client_allowed
  using client_step_flow by unfold_locales blast

lemma client_run_flow:
  assumes "buffer_inv s" "\<forall>e\<in>set es. client_allowed e" "run_events client_handle s es = Inr (s', out)"
  shows "cb_contents (m_buferWrite s) @ placed out = taken out @ cb_contents (m_buferWrite s')"
  using assms
proof (induction es arbitrary: s out)
  case (Cons e es)
  then obtain t o1 o2 where h: "client_handle s e = Inr (t, o1)" "run_events client_handle t es = Inr (s', o2)" "out = o1 @ o2"
    by (auto simp: bind_outcome_Inr_iff)
  have f: "buffer_inv t" "cb_contents (m_buferWrite s) @ placed o1 = taken o1 @ cb_contents (m_buferWrite t)"
    using client_step_flow [OF Cons.prems(1) _ h(1)] Cons.prems(2) by auto
  have "cb_contents (m_buferWrite t) @ placed o2 = taken o2 @ cb_contents (m_buferWrite s')"
    using Cons.IH [OF f(1) _ h(2)] Cons.prems(2) by simp
  then show ?case using f(2) h(3) by (metis append.assoc traffic_simps(4,5))
qed simp

text \<open>One thread that sends: no call of \<open>Send\<close> begins before the last one has returned.\<close>

fun one_sender :: "tcp_client \<Rightarrow> client_event list \<Rightarrow> bool" where
  "one_sender s [] = True"
| "one_sender s (e # es) = ((case e of Cl_Send _ \<Rightarrow> c_sends s = [] | Cl_Close \<Rightarrow> False | _ \<Rightarrow> True)
     \<and> (case client_handle s e of Inr (t, _) \<Rightarrow> one_sender t es | _ \<Rightarrow> True))"

definition sent :: "client_event list \<Rightarrow> bytes" where
  "sent es = concat (map (\<lambda>e. case e of Cl_Send d \<Rightarrow> d | _ \<Rightarrow> []) es)"

definition unsent :: "tcp_client \<Rightarrow> bytes" where
  "unsent s = concat (map (\<lambda>(d, n). drop n d) (c_sends s))"

lemma sender_step:
  assumes "buffer_inv s" "client_allowed e" "client_handle s e = Inr (s', out)" "length (c_sends s) \<le> 1"
    "case e of Cl_Send _ \<Rightarrow> c_sends s = [] | Cl_Close \<Rightarrow> False | _ \<Rightarrow> True" "\<not> c_bIsUserAskForClosed s"
  shows "unsent s @ sent [e] = placed out @ unsent s' \<and> length (c_sends s') \<le> 1 \<and> \<not> c_bIsUserAskForClosed s'"
proof (cases e)
  case (Cl_Send d)
  then show ?thesis using assms(3,5,6)
    by (auto simp: client_handle_def client_enabled_def Send_begin_def sent_def unsent_def split: if_splits)
next
  case (Cl_Round i)
  have r: "Send_round i s = Inr (s', out)" using assms(3) Cl_Round by (simp add: client_handle_def client_enabled_def)
  show ?thesis
  proof (cases "c_sends s")
    case Nil
    then show ?thesis using r assms(6) Cl_Round by (simp add: Send_round_def sent_def)
  next
    case (Cons x xs)
    obtain data iret where x: "x = (data, iret)" by (cases x)
    have xs: "xs = []" using assms(4) Cons by simp
    have n: "iret < length data" using assms(1) Cons x by (simp add: buffer_inv_def)
    show ?thesis
    proof (cases i)
      case 0
      have inv: "cb_inv (m_buferWrite s)" using assms(1) by (simp add: buffer_inv_def)
      obtain b k where b: "cb_write (m_buferWrite s) (drop iret data) (int (length data - iret)) = Inr (b, int k)"
        using ring.write_total [OF inv, of "int (length data - iret)" "drop iret data"] by (metis length_drop nat_int order_refl)
      show ?thesis using r assms(6) Cl_Round Cons x xs n b 0
        by (auto simp: Send_round_def Let_def sent_def unsent_def drop_nth_def split: if_splits)
          (metis append_take_drop_id add.commute drop_drop drop_all append_Nil2 linorder_not_less)+
    next
      case (Suc j)
      then show ?thesis using r assms(4,6) Cl_Round Cons xs by (simp add: Send_round_def sent_def)
    qed
  qed
next
  case Cl_Close
  then show ?thesis using assms(5) by simp
qed (use client_loop_step [OF assms(1-3)] assms(4,6) in \<open>simp_all add: loop_step_def sent_def unsent_def\<close>)

lemma sender_run:
  assumes "buffer_inv s" "\<forall>e\<in>set es. client_allowed e" "run_events client_handle s es = Inr (s', out)"
    "length (c_sends s) \<le> 1" "one_sender s es" "\<not> c_bIsUserAskForClosed s"
  shows "unsent s @ sent es = placed out @ unsent s' \<and> \<not> c_bIsUserAskForClosed s'"
  using assms
proof (induction es arbitrary: s out)
  case (Cons e es)
  then obtain t o1 o2 where h: "client_handle s e = Inr (t, o1)" "run_events client_handle t es = Inr (s', o2)" "out = o1 @ o2"
    by (auto simp: bind_outcome_Inr_iff)
  have e: "client_allowed e" "\<forall>e\<in>set es. client_allowed e" "one_sender t es"
    "case e of Cl_Send _ \<Rightarrow> c_sends s = [] | Cl_Close \<Rightarrow> False | _ \<Rightarrow> True"
    using Cons.prems(2,5) h(1) by simp_all
  have st: "unsent s @ sent [e] = placed o1 @ unsent t" "length (c_sends t) \<le> 1" "\<not> c_bIsUserAskForClosed t"
    using sender_step [OF Cons.prems(1) e(1) h(1) Cons.prems(4) e(4) Cons.prems(6)] by simp_all
  have "buffer_inv t" using client_step_flow [OF Cons.prems(1) e(1) h(1)] by blast
  from Cons.IH [OF this e(2) h(2) st(2) e(3) st(3)] have "unsent t @ sent es = placed o2 @ unsent s' \<and> \<not> c_bIsUserAskForClosed s'" .
  moreover have "sent (e # es) = sent [e] @ sent es" by (simp add: sent_def)
  ultimately show ?case using st(1) h(3) by (metis append.assoc traffic_simps(4))
qed (simp add: sent_def)

section \<open>Reconnecting never stops\<close>

definition calm_event :: "client_event \<Rightarrow> bool" where
  "calm_event e = (case e of Cl_Sent cap _ _ \<Rightarrow> 0 < cap | Cl_Closed ret \<Rightarrow> ret = 0 | Cl_Timer ret _ _ \<Rightarrow> ret = 0
     | Cl_Close \<Rightarrow> False | _ \<Rightarrow> True)"

text \<open>The phases of a client: without a connection to restore, closing the old handle, and waiting with the timer.\<close>

definition connected_phase :: "tcp_client \<Rightarrow> bool" where
  "connected_phase s \<longleftrightarrow> \<not> m_bIsReconnecting s \<and> c_data s = Data_Context \<and> \<not> closing (c_handle s) \<and> (c_connecting s \<longrightarrow> c_handle s = CH_Open)"

definition closing_phase :: "tcp_client \<Rightarrow> bool" where
  "closing_phase s \<longleftrightarrow> m_bIsReconnecting s \<and> c_handle s = CH_Closing True \<and> c_data s = Data_Client
     \<and> \<not> c_connecting s \<and> m_bTcpHandleClosed s \<and> m_nRepeatTime s = Some 1000"

definition waiting_phase :: "tcp_client \<Rightarrow> bool" where
  "waiting_phase s \<longleftrightarrow> m_bIsReconnecting s \<and> (\<exists>k. m_nRepeatTime s = Some (1000 * 2 ^ k))
     \<and> m_timerReconnet s = m_nRepeatTime s \<and> (c_connecting s \<longrightarrow> c_data s = Data_Context)
     \<and> (if m_bTcpHandleClosed s then c_handle s = CH_None \<or> c_handle s = CH_Closing False else c_handle s = CH_Open)"

definition reconnect_inv :: "tcp_client \<Rightarrow> bool" where
  "reconnect_inv s \<longleftrightarrow> buffer_inv s \<and> \<not> c_bIsUserAskForClosed s
     \<and> (connected_phase s \<or> closing_phase s \<or> waiting_phase s)"

lemma phases_cong:
  assumes "same_but_buffer s t"
  shows "connected_phase t = connected_phase s" "closing_phase t = closing_phase s" "waiting_phase t = waiting_phase s"
  using same_but_buffer_fields [OF assms] by (simp_all add: connected_phase_def closing_phase_def waiting_phase_def)

lemma phases_sends [simp]:
  "connected_phase (s\<lparr>c_sends := x\<rparr>) = connected_phase s" "closing_phase (s\<lparr>c_sends := x\<rparr>) = closing_phase s"
  "waiting_phase (s\<lparr>c_sends := x\<rparr>) = waiting_phase s"
  "connected_phase (s\<lparr>m_buferWrite := b\<rparr>) = connected_phase s" "closing_phase (s\<lparr>m_buferWrite := b\<rparr>) = closing_phase s"
  "waiting_phase (s\<lparr>m_buferWrite := b\<rparr>) = waiting_phase s"
  "connected_phase (s\<lparr>c_packet := p\<rparr>) = connected_phase s" "closing_phase (s\<lparr>c_packet := p\<rparr>) = closing_phase s"
  "waiting_phase (s\<lparr>c_packet := p\<rparr>) = waiting_phase s"
  by (simp_all add: connected_phase_def closing_phase_def waiting_phase_def)

lemma double_time: "m_nRepeatTime s = Some (1000 * 2 ^ k) \<Longrightarrow> restart_timer s = Inr (s', out) \<Longrightarrow>
    s' = s\<lparr>m_nRepeatTime := Some (1000 * 2 ^ Suc k), m_timerReconnet := Some (1000 * 2 ^ Suc k)\<rparr>"
  by (auto simp: restart_timer_eq)

lemma AfterConnect_phase:
  assumes "connected_phase s \<or> waiting_phase s" "client_enabled (Cl_Connected status ret) s" "AfterConnect status ret s = Inr (s', out)"
  shows "connected_phase s' \<or> waiting_phase s'"
proof (cases "status \<noteq> 0 \<and> m_bIsReconnecting s")
  case True
  then obtain k where k: "m_nRepeatTime s = Some (1000 * 2 ^ k)" and w: "waiting_phase s"
    using assms(1) by (auto simp: connected_phase_def waiting_phase_def)
  have "restart_timer (s\<lparr>c_connecting := False, m_nConnectStatus := CONNECT_ERROR\<rparr>) = Inr (s', out)"
    using assms(3) True by (auto simp: AfterConnect_def Let_def split: if_splits)
  with k have "s' = s\<lparr>c_connecting := False, m_nConnectStatus := CONNECT_ERROR,
      m_nRepeatTime := Some (1000 * 2 ^ Suc k), m_timerReconnet := Some (1000 * 2 ^ Suc k)\<rparr>"
    using double_time [of "s\<lparr>c_connecting := False, m_nConnectStatus := CONNECT_ERROR\<rparr>" k] by simp
  moreover have "\<exists>j. (1000 :: int) * 2 ^ Suc k = 1000 * 2 ^ j" by blast
  ultimately have "waiting_phase s'" using w by (simp add: waiting_phase_def del: power_Suc)
  then show ?thesis ..
next
  case False
  then show ?thesis using assms
    by (auto simp: AfterConnect_def Let_def StopReconnect_def connected_phase_def waiting_phase_def client_enabled_def closing_def
        split: if_splits)
qed

lemma ReconnectTimer_phase:
  assumes "waiting_phase s" "client_enabled (Cl_Timer 0 a c) s" "ReconnectTimer 0 a c s = Inr (s', out)"
  shows "waiting_phase s'"
proof -
  obtain k where k: "m_nRepeatTime s = Some (1000 * 2 ^ k)" using assms(1) by (auto simp: waiting_phase_def)
  have j: "\<exists>j. (1000 :: int) * 2 ^ k * 2 = 1000 * 2 ^ j" by (intro exI [of _ "Suc k"]) simp
  show ?thesis using assms k j
    by (auto simp: ReconnectTimer_def restart_timer_eq waiting_phase_def client_enabled_def closing_def Let_def
        bind_outcome_Inr_iff c_uv_close_eq c_uv_tcp_init_eq split: if_splits)
qed

lemma power_is_one [simp]: "\<exists>k. (2 :: int) ^ k = 1"
  by (rule exI [of _ 0]) simp

lemma c_after_close_phase:
  assumes "closing_phase s \<or> waiting_phase s" "client_enabled (Cl_Closed 0) s" "c_after_close 0 s = Inr (s', out)"
  shows "waiting_phase s'"
  using assms by (auto simp: c_after_close_def c_AfterClientClose_def closing_phase_def waiting_phase_def client_enabled_def
      closing_def split: if_splits)

lemma c_AfterRecv_phase:
  assumes "buffer_inv s" "connected_phase s" "c_handle s = CH_Reading" "c_AfterRecv le nread buf rets s = Inr (s', out)"
  shows "connected_phase s' \<or> closing_phase s'"
proof (cases "nread < 0")
  case True
  then show ?thesis using assms(2-4)
    by (auto simp: c_AfterRecv_def StartReconnect_def c_uv_close_eq connected_phase_def closing_phase_def)
next
  case False
  then obtain t out1 where t: "send_inl None rets s = Inr (t, out1)" "s' = t \<or> (\<exists>ps. s' = t\<lparr>c_packet := ps\<rparr>)"
    using assms(4) by (auto simp: c_AfterRecv_def bind_outcome_Inr_iff split: if_splits option.splits)
  have "same_but_buffer s t" using send_inl_law [OF assms(1), of None rets] t(1) by auto
  then have "connected_phase t" using assms(2) phases_cong(1) by blast
  then show ?thesis using t(2) by auto
qed

lemma client_phase_step:
  assumes "reconnect_inv s" "calm_event e" "client_handle s e = Inr (s', out)"
  shows "reconnect_inv s'"
proof -
  have al: "client_allowed e" using assms(2) by (simp add: calm_event_def client_allowed_def split: client_event.splits)
  have inv: "buffer_inv s" and ask: "\<not> c_bIsUserAskForClosed s"
    and ph: "connected_phase s \<or> closing_phase s \<or> waiting_phase s" using assms(1) by (simp_all add: reconnect_inv_def)
  have inv': "buffer_inv s'" using client_step_flow [OF inv al assms(3)] by blast
  have ask': "\<not> c_bIsUserAskForClosed s'"
  proof (cases "\<exists>d i. e = Cl_Send d \<or> e = Cl_Round i \<or> e = Cl_Close")
    case True
    then show ?thesis using ask assms(2,3)
      by (auto simp: client_handle_def client_enabled_def calm_event_def Send_begin_def Send_round_def Let_def
          bind_outcome_Inr_iff split: if_splits prod.splits)
  next
    case False
    then show ?thesis using client_loop_step [OF inv al assms(3)] ask by (simp add: loop_step_def)
  qed
  have keep: "connected_phase t \<or> closing_phase t \<or> waiting_phase t" if "same_but_buffer s t" for t
    using ph phases_cong [OF that] by blast
  have send: "connected_phase t \<or> closing_phase t \<or> waiting_phase t"
    if "send_inl req rets s = Inr (t, o1)" "\<forall>c. req = Some c \<longrightarrow> 0 < c" for req rets t o1
    using send_inl_law [OF inv that(2), of rets] that(1) keep by auto
  have "connected_phase s' \<or> closing_phase s' \<or> waiting_phase s'"
  proof (cases "client_enabled e s")
    case False
    then show ?thesis using assms(3) ph by (simp add: client_handle_def)
  next
    case True
    show ?thesis
    proof (cases e)
      case (Cl_Connected status ret)
      then have "\<not> closing_phase s" using True by (auto simp: client_enabled_def closing_phase_def)
      then show ?thesis using AfterConnect_phase [of s status ret s' out] ph True assms(3) Cl_Connected
        by (auto simp: client_handle_def)
    next
      case (Cl_Recv le nread buf rets)
      then have "c_handle s = CH_Reading" using True by (simp add: client_enabled_def)
      moreover from this have "connected_phase s"
        using ph by (auto simp: closing_phase_def waiting_phase_def split: if_splits)
      ultimately show ?thesis using c_AfterRecv_phase [OF inv, of le nread buf rets s' out] True assms(3) Cl_Recv
        by (auto simp: client_handle_def)
    next
      case (Cl_Sent cap status rets)
      then show ?thesis using assms(2,3) True keep [OF keep_param_law(2) [of s cap]] send [of "Some cap" rets s' out]
        by (auto simp: client_handle_def c_AfterSend_def calm_event_def split: if_splits)
    next
      case (Cl_Closed ret)
      then have "\<not> connected_phase s" using True by (auto simp: client_enabled_def connected_phase_def)
      then show ?thesis using c_after_close_phase [of s s' out] ph True assms(2,3) Cl_Closed
        by (auto simp: client_handle_def calm_event_def)
    next
      case (Cl_Timer i a c)
      show ?thesis
      proof (cases "m_bIsReconnecting s")
        case False
        then show ?thesis using ph assms(3) True Cl_Timer by (auto simp: client_handle_def ReconnectTimer_def)
      next
        case True
        then have "waiting_phase s"
          using ph \<open>client_enabled e s\<close> Cl_Timer by (auto simp: client_enabled_def closing_phase_def connected_phase_def closing_def)
        then show ?thesis using ReconnectTimer_phase [of s a c s' out] \<open>client_enabled e s\<close> assms(2,3) Cl_Timer
          by (auto simp: client_handle_def calm_event_def)
      qed
    next
      case (Cl_Async rets)
      then show ?thesis using assms(3) ask True send [of None rets s' out]
        by (auto simp: client_handle_def c_AsyncCloseCB_def split: if_splits)
    next
      case (Cl_Send d)
      then show ?thesis using assms(3) ph True by (auto simp: client_handle_def Send_begin_def split: if_splits)
    next
      case (Cl_Round i)
      then show ?thesis using assms(3) ph True
        by (auto simp: client_handle_def Send_round_def Let_def bind_outcome_Inr_iff split: if_splits prod.splits)
    next
      case Cl_Close
      then show ?thesis using assms(2) by (simp add: calm_event_def)
    qed
  qed
  then show ?thesis using inv' ask' by (simp add: reconnect_inv_def)
qed

interpretation reconnecting: event_handler client_handle reconnect_inv calm_event
  by unfold_locales (rule client_phase_step)

lemma client_new_inv: "buffer_inv (tcp_client_new junk)"
  using cb_inv_new [of "replicate BUFFER_SIZE (0 :: u8)"] by (simp add: buffer_inv_def tcp_client_new_def BUFFER_SIZE_def)

text \<open>The client after a \<open>Connect\<close> that has started.\<close>

lemma Connect_begin_new:
  "Connect_begin v6 server 0 0 0 0 0 0 0 (tcp_client_new junk) = Inr ((tcp_client_new junk)\<lparr>c_packet := sync_started 1 2 junk,
     c_handle := CH_Open, c_connecting := True, c_bIsClosed := False, m_bIsIPv6 := v6, m_server := server\<rparr>, True)"
  by (simp add: Connect_begin_def client_init_def handle_init_def c_closeinl_def c_uv_tcp_init_def sync_started_def
      tcp_client_new_def SERVER_PACKET_HEAD_def SERVER_PACKET_TAIL_def Start_def SetPacketCB_def)

lemma Connect_begin_inv:
  assumes "Connect_begin v6 server 0 0 0 0 0 0 0 (tcp_client_new junk) = Inr (s, ok)"
  shows "reconnect_inv s" "c_sends s = []" "cb_contents (m_buferWrite s) = []"
proof -
  have s: "s = (tcp_client_new junk)\<lparr>c_packet := sync_started 1 2 junk,
     c_handle := CH_Open, c_connecting := True, c_bIsClosed := False, m_bIsIPv6 := v6, m_server := server\<rparr>"
    using assms by (simp add: Connect_begin_new)
  show "reconnect_inv s" using client_new_inv [of junk] unfolding s
    by (simp add: reconnect_inv_def buffer_inv_def connected_phase_def closing_def tcp_client_new_def)
  show "c_sends s = []" unfolding s by (simp add: tcp_client_new_def)
  show "cb_contents (m_buferWrite s) = []" unfolding s
    using cb_inv_new [of "replicate BUFFER_SIZE (0 :: u8)"] by (simp add: tcp_client_new_def BUFFER_SIZE_def)
qed

section \<open>Properties\<close>

text \<open>
  A client with a connection, and the events of a time in which the connection neither breaks nor is closed
  by the user, and \<open>uv_write\<close> takes what it is given.
\<close>

definition connected :: "tcp_client \<Rightarrow> bool" where
  "connected s \<longleftrightarrow> connected_phase s \<and> c_handle s = CH_Reading"

definition steady :: "client_event \<Rightarrow> bool" where
  "steady e \<longleftrightarrow> (case e of Cl_Recv _ nread _ rets \<Rightarrow> 0 \<le> nread \<and> (\<forall>i. rets i = 0)
     | Cl_Sent cap status rets \<Rightarrow> 0 < cap \<and> 0 \<le> status \<and> (\<forall>i. rets i = 0) | Cl_Async rets \<Rightarrow> \<forall>i. rets i = 0
     | Cl_Close \<Rightarrow> False | _ \<Rightarrow> True)"

definition kept :: "tcp_client \<Rightarrow> client_out list \<Rightarrow> bool" where
  "kept s out \<longleftrightarrow> buffer_inv s \<and> connected s \<and> \<not> c_bIsUserAskForClosed s \<and> C_Close \<notin> set out \<and> (\<forall>d. C_Lost d \<notin> set out)"

lemma send_loop_no_close: "send_loop fuel rets i s = Inr (s', out) \<Longrightarrow> C_Close \<notin> set out"
  by (induction fuel arbitrary: i s out)
    (auto simp: Let_def bind_outcome_Inr_iff split: if_splits prod.splits list.splits)

lemma send_inl_kept:
  assumes "buffer_inv s" "connected s" "\<not> c_bIsUserAskForClosed s" "\<forall>i. rets i = 0" "\<forall>c. req = Some c \<longrightarrow> 0 < c"
    "send_inl req rets s = Inr (s', out)"
  shows "kept s' out"
proof -
  have "C_Close \<notin> set out" using assms(6) send_loop_no_close unfolding send_inl_def Let_def by blast
  moreover have "same_but_buffer s s'" "buffer_inv s'" "\<forall>d. C_Lost d \<notin> set out"
    using send_inl_law [OF assms(1,5), of rets] assms(2,4,6) by (auto simp: connected_def)
  ultimately show ?thesis using assms(2,3) phases_cong(1) same_but_buffer_fields by (simp add: kept_def connected_def)
qed

lemma steady_step:
  assumes "buffer_inv s" "connected s" "\<not> c_bIsUserAskForClosed s" "steady e" "client_allowed e" "client_handle s e = Inr (s', out)"
  shows "kept s' out"
proof (cases "client_enabled e s")
  case False
  then show ?thesis using assms by (simp add: client_handle_def kept_def)
next
  case True
  note c = assms(2) [unfolded connected_def connected_phase_def]
  show ?thesis
  proof (cases e)
    case (Cl_Recv le nread buf rets)
    then obtain t out1 where t: "send_inl None rets s = Inr (t, out1)"
      "(if nread = 0 then Inr (t, out1) else case recvdata le (c_packet t) (take (nat nread) buf) of
           None \<Rightarrow> Inl No_Return
         | Some r \<Rightarrow> map_outcome (\<lambda>(ps, ds). (t\<lparr>c_packet := ps\<rparr>, out1 @ map (\<lambda>(p, d). C_Packet p d) ds)) r) = Inr (s', out)"
      using assms(4,6) True by (auto simp: client_handle_def steady_def c_AfterRecv_def bind_outcome_Inr_iff split: if_splits)
    have "kept t out1" by (rule send_inl_kept [OF assms(1-3) _ _ t(1)]) (use assms(4) Cl_Recv in \<open>simp_all add: steady_def\<close>)
    then show ?thesis using t(2) by (auto simp: kept_def connected_def buffer_inv_def split: if_splits option.splits)
  next
    case (Cl_Sent cap status rets)
    then have "send_inl (Some cap) rets s = Inr (s', out)" using assms(4,6) True
      by (simp add: client_handle_def c_AfterSend_def steady_def)
    then show ?thesis by (rule send_inl_kept [OF assms(1-3), rotated 2]) (use assms(4) Cl_Sent in \<open>simp_all add: steady_def\<close>)
  next
    case (Cl_Async rets)
    then have "send_inl None rets s = Inr (s', out)" using assms(3,6) True
      by (simp add: client_handle_def c_AsyncCloseCB_def)
    then show ?thesis by (rule send_inl_kept [OF assms(1-3), rotated 2]) (use assms(4) Cl_Async in \<open>simp_all add: steady_def\<close>)
  next
    case (Cl_Round i)
    then have r: "Send_round i s = Inr (s', out)" using assms(6) True by (simp add: client_handle_def)
    have "buffer_inv s'" using Send_round_law [OF assms(1) r] by blast
    then show ?thesis using r c assms(2,3)
      by (auto simp: Send_round_def Let_def kept_def connected_def bind_outcome_Inr_iff split: if_splits prod.splits)
  next
    case (Cl_Send d)
    then have "buffer_inv s'" using client_step_flow [OF assms(1,5,6)] by blast
    then show ?thesis using Cl_Send assms(2,3,6) True
      by (auto simp: client_handle_def Send_begin_def kept_def connected_def split: if_splits)
  next
    case (Cl_Timer a b d)
    then show ?thesis using assms(1-3,6) True c by (simp add: client_handle_def ReconnectTimer_def kept_def)
  qed (use assms(4) True c in \<open>auto simp: client_enabled_def steady_def closing_def\<close>)
qed

lemma steady_run:
  assumes "buffer_inv s" "connected s" "\<not> c_bIsUserAskForClosed s" "\<forall>e\<in>set es. steady e \<and> client_allowed e"
    "run_events client_handle s es = Inr (s', out)"
  shows "kept s' out"
  using assms
proof (induction es arbitrary: s out)
  case (Cons e es)
  then obtain t o1 o2 where h: "client_handle s e = Inr (t, o1)" "run_events client_handle t es = Inr (s', o2)" "out = o1 @ o2"
    by (auto simp: bind_outcome_Inr_iff)
  have "kept t o1" using steady_step [OF Cons.prems(1-3) _ _ h(1)] Cons.prems(4) by simp
  then show ?case using Cons.IH [OF _ _ _ _ h(2)] Cons.prems(4) h(3) by (simp add: kept_def)
qed (simp add: kept_def)

lemma one_sender_append:
  "run_events client_handle s es = Inr (t, out) \<Longrightarrow> one_sender s (es @ es') \<longleftrightarrow> one_sender s es \<and> one_sender t es'"
  by (induction es arbitrary: s out) (auto simp: bind_outcome_Inr_iff)

text \<open>
  Property C14. What one thread sends goes out in its order, and the packets arrive as long as the connection holds. Take
  any run of the client from its first connect, with the rounds of \<open>Send\<close>, the callbacks of the loop, breaks and
  reconnects in any order, but no \<open>Close\<close> by the user: what the thread has sent is what the client has handed to
  \<open>uv_write\<close> or lost there, then what its buffer holds, then what \<open>Send\<close> has not yet placed. Now let the client at some
  point be connected and idle, which it may have become by a reconnect, and let the thread send the frames of
  the packets \<open>qs\<close> until the client is idle again, while the connection does not break and every \<open>uv_write\<close>
  succeeds. Then the handle is not closed, and a receiver at the other end that stands between two packets, as
  one does that was started for the new connection, delivers exactly \<open>qs\<close> with their checksums when it gets the written
  bytes in any pieces. Nothing is claimed of packets that a break cuts or that are sent without a connection.
\<close>

theorem client_stream:
  assumes "Connect_begin v6 server 0 0 0 0 0 0 0 (tcp_client_new junk) = Inr (s, True)"
    and "run_events client_handle s es1 = Inr (s1, out1)" "run_events client_handle s1 es2 = Inr (s2, out2)"
    and "\<forall>e\<in>set (es1 @ es2). client_allowed e" "one_sender s (es1 @ es2)"
  shows "sent (es1 @ es2) = taken (out1 @ out2) @ cb_contents (m_buferWrite s2) @ unsent s2
    \<and> (connected s1 \<and> c_sends s1 = [] \<and> cb_contents (m_buferWrite s1) = [] \<and> (\<forall>e\<in>set es2. steady e)
        \<and> c_sends s2 = [] \<and> cb_contents (m_buferWrite s2) = []
        \<and> (\<forall>q\<in>set qs. sendable SERVER_PACKET_HEAD SERVER_PACKET_TAIL q) \<and> sent es2 = concat (map (wire le) qs)
        \<and> sync_ready le SERVER_PACKET_HEAD SERVER_PACKET_TAIL ps \<and> pending ps = [] \<and> concat cs = written out2
      \<longrightarrow> connected s2 \<and> C_Close \<notin> set out2
        \<and> (\<exists>ps'. run_chunks (recvdata le) ps cs = Some (Inr (ps', map with_check qs))))"
proof -
  note s = Connect_begin_inv [OF assms(1)]
  have i: "buffer_inv s" "\<not> c_bIsUserAskForClosed s" "length (c_sends s) \<le> 1" "unsent s = []"
    using s(1,2) by (simp_all add: reconnect_inv_def unsent_def)
  have run: "run_events client_handle s (es1 @ es2) = Inr (s2, out1 @ out2)" using assms(2,3) by (simp add: run_events_append)
  have flow: "sent (es1 @ es2) = taken (out1 @ out2) @ cb_contents (m_buferWrite s2) @ unsent s2"
    using sender_run [OF i(1) assms(4) run i(3) assms(5) i(2)] client_run_flow [OF i(1) assms(4) run] s(3) i(4) by simp
  have al: "\<forall>e\<in>set es1. client_allowed e" "\<forall>e\<in>set es2. client_allowed e" "one_sender s es1"
    using assms(4,5) one_sender_append [OF assms(2), of es2] by auto
  have flow1: "sent es1 = taken out1 @ cb_contents (m_buferWrite s1) @ unsent s1"
    using sender_run [OF i(1) al(1) assms(2) i(3) al(3) i(2)] client_run_flow [OF i(1) al(1) assms(2)] s(3) i(4) by simp
  have s1: "buffer_inv s1" "\<not> c_bIsUserAskForClosed s1"
    using client.run_inv [OF i(1) al(1) assms(2)] sender_run [OF i(1) al(1) assms(2) i(3) al(3) i(2)] by simp_all
  have "connected s2 \<and> C_Close \<notin> set out2
        \<and> (\<exists>ps'. run_chunks (recvdata le) ps cs = Some (Inr (ps', map with_check qs)))"
    if h: "connected s1" "c_sends s1 = []" "cb_contents (m_buferWrite s1) = []" "\<forall>e\<in>set es2. steady e"
      "c_sends s2 = []" "cb_contents (m_buferWrite s2) = []" "\<forall>q\<in>set qs. sendable SERVER_PACKET_HEAD SERVER_PACKET_TAIL q"
      "sent es2 = concat (map (wire le) qs)" "sync_ready le SERVER_PACKET_HEAD SERVER_PACKET_TAIL ps" "pending ps = []"
      "concat cs = written out2"
  proof -
    have k: "kept s2 out2" using steady_run [OF s1(1) h(1) s1(2) _ assms(3)] h(4) al(2) by blast
    then have "taken out2 = written out2" using written_taken by (simp add: kept_def)
    moreover have "sent (es1 @ es2) = sent es1 @ sent es2" by (simp add: sent_def)
    ultimately have "sent es2 = written out2" using flow flow1 h(2,3,5,6) by (simp add: unsent_def)
    then have "concat cs = concat (map (wire le) qs)" using h(8,11) by simp
    moreover have "SERVER_PACKET_TAIL < 0x80" by (simp add: SERVER_PACKET_TAIL_def)
    ultimately show ?thesis using packets_received [OF h(7) _ _ h(9,10)] k by (simp add: kept_def)
  qed
  then show ?thesis using flow by blast
qed

text \<open>A \<open>Send\<close> that fits into the buffer, and the round of the loop that writes it.\<close>

lemma send_run:
  assumes "buffer_inv s" "c_sends s = []" "cb_contents (m_buferWrite s) = []" "\<not> c_bIsUserAskForClosed s"
    "c_handle s = CH_Open \<or> c_handle s = CH_Reading" "w \<noteq> []" "length w \<le> m_nBufSize (m_buferWrite s)"
  shows "\<exists>s' out. run_events client_handle s [Cl_Send w, Cl_Round 0, Cl_Async (\<lambda>_. 0)] = Inr (s', out)
    \<and> c_sends s' = [] \<and> cb_contents (m_buferWrite s') = [] \<and> (\<forall>d. C_Lost d \<notin> set out) \<and> written out = w
    \<and> one_sender s [Cl_Send w, Cl_Round 0, Cl_Async (\<lambda>_. 0)]"
proof -
  have inv: "cb_inv (m_buferWrite s)" using assms(1) by (simp add: buffer_inv_def)
  obtain b where b: "cb_write (m_buferWrite s) w (int (length w)) = Inr (b, int (length w))" "cb_inv b" "cb_contents b = w"
    using ring.write_total [OF inv, of "int (length w)" w] assms(3,7) by (auto simp: min_def split: if_splits)
  define t where "t = s\<lparr>c_sends := [], m_buferWrite := b\<rparr>"
  have t: "buffer_inv t" "m_buferWrite t = b" "c_handle t = c_handle s" "c_sends t = []" "\<not> c_bIsUserAskForClosed t"
    using assms(1,4) b(2) by (simp_all add: t_def buffer_inv_def)
  have 1: "client_handle s (Cl_Send w) = Inr (s\<lparr>c_sends := [(w, 0)]\<rparr>, [C_Async])"
    using assms(2,6) by (simp add: client_handle_def client_enabled_def Send_begin_def)
  have 2: "client_handle (s\<lparr>c_sends := [(w, 0)]\<rparr>) (Cl_Round 0) = Inr (t, [C_Accept w, C_Async, C_Return (length w)])"
    using assms(4) b(1) by (simp add: client_handle_def client_enabled_def Send_round_def Let_def drop_nth_def t_def)
  obtain u out where u: "send_inl None (\<lambda>_. 0) t = Inr (u, out)" "same_but_buffer t u" "taken out = w"
    "cb_contents (m_buferWrite u) = []" "\<forall>d. C_Lost d \<notin> set out"
    using send_inl_law [OF t(1), of None "\<lambda>_. 0"] t(2,3) b(3) assms(5) by auto
  have 3: "client_handle t (Cl_Async (\<lambda>_. 0)) = Inr (u, out)"
    using t(5) u(1) by (simp add: client_handle_def client_enabled_def c_AsyncCloseCB_def)
  show ?thesis using 1 2 3 assms(2) u(3-5) same_but_buffer_fields(11) [OF u(2)] t(4) written_taken [OF u(5)] by simp
qed

definition client_packet :: NetPacket where
  "client_packet = (sample_packet 2 [])\<lparr>np_header := 1, np_tail := 2\<rparr>"

lemma client_stream_witness:
  "\<exists>s s1 out1 s2 out2 ps. Connect_begin False (''10.0.0.1'', 12345) 0 0 0 0 0 0 0 (tcp_client_new client_packet) = Inr (s, True)
    \<and> run_events client_handle s [Cl_Connected 0 0, Cl_Recv True (-4095) [] (\<lambda>_. 0), Cl_Closed 0, Cl_Timer 0 0 0, Cl_Connected 0 0]
      = Inr (s1, out1)
    \<and> run_events client_handle s1 [Cl_Send (wire True (client_packet, [8, 9])), Cl_Round 0, Cl_Async (\<lambda>_. 0)] = Inr (s2, out2)
    \<and> run_chunks (recvdata True) (sync_started SERVER_PACKET_HEAD SERVER_PACKET_TAIL client_packet) [written out2]
      = Some (Inr (ps, [with_check (client_packet, [8, 9])]))"
proof -
  let ?q = "(client_packet, [8, 9]) :: NetPacket \<times> bytes"
  let ?es1 = "[Cl_Connected 0 0, Cl_Recv True (-4095) [] (\<lambda>_. 0), Cl_Closed 0, Cl_Timer 0 0 0, Cl_Connected 0 0]"
  define w where "w = wire True ?q"
  have sd: "sendable SERVER_PACKET_HEAD SERVER_PACKET_TAIL ?q"
    by (simp add: sendable_def client_packet_def sample_packet_def SERVER_PACKET_HEAD_def SERVER_PACKET_TAIL_def)
  have w: "w \<noteq> []" "length w \<le> 10240" using wire_eq [OF sd, of True]
    by (auto simp: w_def NET_PACKAGE_HEADLEN_def with_check_def wf_NetPacket_def payload_md5_def client_packet_def sample_packet_def)
  define s where "s = (tcp_client_new client_packet)\<lparr>c_packet := sync_started 1 2 client_packet,
     c_handle := CH_Open, c_connecting := True, c_bIsClosed := False, m_bIsIPv6 := False, m_server := (''10.0.0.1'', 12345)\<rparr>"
  have c: "Connect_begin False (''10.0.0.1'', 12345) 0 0 0 0 0 0 0 (tcp_client_new client_packet) = Inr (s, True)"
    by (simp add: Connect_begin_new s_def)
  note i = Connect_begin_inv [OF c]
  define t where "t = s\<lparr>c_connecting := False, m_nConnectStatus := CONNECT_FINISH, c_handle := CH_Reading,
     m_nRepeatTime := Some 1000, m_bTcpHandleClosed := False\<rparr>"
  obtain out1 where t: "run_events client_handle s ?es1 = Inr (t, out1)"
    by (simp add: client_handle_def client_enabled_def AfterConnect_def c_AfterRecv_def StartReconnect_def StopReconnect_def
        c_uv_close_def c_after_close_def c_AfterClientClose_def ReconnectTimer_def c_uv_tcp_init_def closing_def Let_def
        s_def t_def tcp_client_new_def)
  have ti: "buffer_inv t" "c_sends t = []" "cb_contents (m_buferWrite t) = []" "\<not> c_bIsUserAskForClosed t"
    "c_handle t = CH_Reading" "length w \<le> m_nBufSize (m_buferWrite t)" "connected t"
    using i w(2) by (simp_all add: t_def reconnect_inv_def buffer_inv_def s_def tcp_client_new_def cb_new_def BUFFER_SIZE_def
        connected_def connected_phase_def closing_def)
  obtain s' out where r: "run_events client_handle t [Cl_Send w, Cl_Round 0, Cl_Async (\<lambda>_. 0)] = Inr (s', out)"
    "c_sends s' = []" "cb_contents (m_buferWrite s') = []" "\<forall>d. C_Lost d \<notin> set out" "written out = w"
    "one_sender t [Cl_Send w, Cl_Round 0, Cl_Async (\<lambda>_. 0)]"
    using send_run [OF ti(1-4) _ w(1) ti(6)] ti(5) by auto
  have one: "one_sender s (?es1 @ [Cl_Send w, Cl_Round 0, Cl_Async (\<lambda>_. 0)])"
    unfolding one_sender_append [OF t] using r(6) by (simp split: sum.splits prod.splits)
  have "\<forall>e\<in>set (?es1 @ [Cl_Send w, Cl_Round 0, Cl_Async (\<lambda>_. 0)]). client_allowed e" by (simp add: client_allowed_def)
  note cs = client_stream [OF c t r(1) this one, THEN conjunct2]
  have "sent [Cl_Send w, Cl_Round 0, Cl_Async (\<lambda>_. 0)] = concat (map (wire True) [?q])"
    "\<forall>e\<in>set [Cl_Send w, Cl_Round 0, Cl_Async (\<lambda>_. 0)]. steady e" "concat [w] = written out"
    using r(5) by (simp_all add: sent_def steady_def w_def)
  then have "\<exists>ps. run_chunks (recvdata True) (sync_started SERVER_PACKET_HEAD SERVER_PACKET_TAIL client_packet) [w]
      = Some (Inr (ps, map with_check [?q]))"
    using cs [of "[?q]" True "sync_started SERVER_PACKET_HEAD SERVER_PACKET_TAIL client_packet" "[w]"] ti(2,3,7) r(2,3) sd
      sync_started_ready by simp
  then show ?thesis using c t r(1,5) unfolding w_def by auto
qed

text \<open>One round of a call of \<open>Send\<close>, and one visit of the loop to the buffer.\<close>

lemma round_law:
  assumes "buffer_inv s" "\<not> c_bIsUserAskForClosed s" "i < length (c_sends s)" "c_sends s ! i = (d, n)"
    "k = min (length d - n) (m_nBufSize (m_buferWrite s) - length (cb_contents (m_buferWrite s)))"
  shows "\<exists>b out. client_handle s (Cl_Round i) = Inr (s\<lparr>m_buferWrite := b,
        c_sends := (if n + k < length d then (c_sends s)[i := (d, n + k)] else drop_nth i (c_sends s))\<rparr>, out)
      \<and> cb_inv b \<and> m_nBufSize b = m_nBufSize (m_buferWrite s)
      \<and> cb_contents b = cb_contents (m_buferWrite s) @ take k (drop n d) \<and> written out = []"
proof -
  have inv: "cb_inv (m_buferWrite s)" using assms(1) by (simp add: buffer_inv_def)
  obtain b where "cb_write (m_buferWrite s) (drop n d) (int (length d - n)) = Inr (b, int k)" "cb_inv b"
    "m_nBufSize b = m_nBufSize (m_buferWrite s)" "cb_contents b = cb_contents (m_buferWrite s) @ take k (drop n d)"
    using ring.write_total [OF inv, of "int (length d - n)" "drop n d"] assms(5) by (metis length_drop nat_int order_refl)
  then show ?thesis using assms(2-4)
    by (intro exI [of _ b]) (simp add: client_handle_def client_enabled_def Send_round_def Let_def)
qed

lemma async_law:
  assumes "buffer_inv s" "\<not> c_bIsUserAskForClosed s" "c_handle s = CH_Reading"
  shows "\<exists>s' out. client_handle s (Cl_Async (\<lambda>_. 0)) = Inr (s', out) \<and> buffer_inv s' \<and> same_but_buffer s s'
    \<and> cb_contents (m_buferWrite s') = [] \<and> m_nBufSize (m_buferWrite s') = m_nBufSize (m_buferWrite s)
    \<and> written out = cb_contents (m_buferWrite s)"
proof -
  obtain s' out where r: "send_inl None (\<lambda>_. 0) s = Inr (s', out)" "buffer_inv s'" "same_but_buffer s s'"
    "taken out = cb_contents (m_buferWrite s)" "cb_contents (m_buferWrite s') = []" "\<forall>d. C_Lost d \<notin> set out"
    "m_nBufSize (m_buferWrite s') = m_nBufSize (m_buferWrite s)"
    using send_inl_law [OF assms(1), of None "\<lambda>_. 0"] assms(3) by auto
  then show ?thesis using assms(2) written_taken [OF r(6)]
    by (simp add: client_handle_def client_enabled_def c_AsyncCloseCB_def)
qed

text \<open>Both: the buffer ends up empty, and its contents with what the round placed are on the wire.\<close>

definition sending :: "tcp_client \<Rightarrow> bool" where
  "sending s \<longleftrightarrow> buffer_inv s \<and> \<not> c_bIsUserAskForClosed s \<and> c_handle s = CH_Reading"

lemma round_async_law:
  assumes "sending s" "i < length (c_sends s)" "c_sends s ! i = (d, n)"
    "k = min (length d - n) (m_nBufSize (m_buferWrite s) - length (cb_contents (m_buferWrite s)))"
  shows "\<exists>s' out. run_events client_handle s [Cl_Round i, Cl_Async (\<lambda>_. 0)] = Inr (s', out) \<and> sending s'
      \<and> cb_contents (m_buferWrite s') = [] \<and> m_nBufSize (m_buferWrite s') = m_nBufSize (m_buferWrite s)
      \<and> c_sends s' = (if n + k < length d then (c_sends s)[i := (d, n + k)] else drop_nth i (c_sends s))
      \<and> written out = cb_contents (m_buferWrite s) @ take k (drop n d)"
proof -
  have s: "buffer_inv s" "\<not> c_bIsUserAskForClosed s" "c_handle s = CH_Reading" using assms(1) by (simp_all add: sending_def)
  define sends where "sends = (if n + k < length d then (c_sends s)[i := (d, n + k)] else drop_nth i (c_sends s))"
  obtain b o1 where r: "client_handle s (Cl_Round i) = Inr (s\<lparr>m_buferWrite := b, c_sends := sends\<rparr>, o1)" "cb_inv b"
    "m_nBufSize b = m_nBufSize (m_buferWrite s)" "cb_contents b = cb_contents (m_buferWrite s) @ take k (drop n d)" "written o1 = []"
    using round_law [OF s(1,2) assms(2-4)] unfolding sends_def by blast
  define t where "t = s\<lparr>m_buferWrite := b, c_sends := sends\<rparr>"
  have "buffer_inv t" using client_step_flow [OF s(1) _ r(1)] by (simp add: t_def client_allowed_def)
  then obtain s' o2 where "client_handle t (Cl_Async (\<lambda>_. 0)) = Inr (s', o2)" "buffer_inv s'" "same_but_buffer t s'"
    "cb_contents (m_buferWrite s') = []" "m_nBufSize (m_buferWrite s') = m_nBufSize b" "written o2 = cb_contents b"
    using async_law [of t] s by (auto simp: t_def)
  then show ?thesis using r s same_but_buffer_fields [of t s'] unfolding t_def [symmetric] sends_def [symmetric]
    by (auto simp: sending_def t_def)
qed

text \<open>
  Property C39. Two threads that send at the same time tear each other's frames apart: with room for one
  byte in the buffer, the first call places one byte, and what the other call sends goes in between.
\<close>

theorem interleaved_sends:
  assumes "sending s" "c_sends s = []"
    and "length (cb_contents (m_buferWrite s)) + 1 = m_nBufSize (m_buferWrite s)"
    and "a \<noteq> []" "b \<noteq> []" "length (x # a) \<le> m_nBufSize (m_buferWrite s)" "length b \<le> m_nBufSize (m_buferWrite s)"
  shows "\<exists>s' out. run_events client_handle s [Cl_Send (x # a), Cl_Send b, Cl_Round 0, Cl_Async (\<lambda>_. 0), Cl_Round 1,
      Cl_Async (\<lambda>_. 0), Cl_Round 0, Cl_Async (\<lambda>_. 0)] = Inr (s', out)
    \<and> written out = cb_contents (m_buferWrite s) @ [x] @ b @ a"
proof -
  let ?N = "m_nBufSize (m_buferWrite s)" and ?async = "Cl_Async (\<lambda>_. 0)"
  define t where "t = s\<lparr>c_sends := [(x # a, 0), (b, 0)]\<rparr>"
  have 1: "run_events client_handle s [Cl_Send (x # a), Cl_Send b] = Inr (t, [C_Async, C_Async])"
    using assms(2,5) by (simp add: client_handle_def client_enabled_def Send_begin_def t_def)
  have t: "sending t" using assms(1,5) by (simp add: t_def sending_def buffer_inv_def)
  have k: "Suc 0 = min (length (x # a) - 0) (m_nBufSize (m_buferWrite t) - length (cb_contents (m_buferWrite t)))"
    using assms(3,4) by (simp add: t_def)
  obtain u o1 where u: "run_events client_handle t [Cl_Round 0, ?async] = Inr (u, o1)" "sending u"
    "cb_contents (m_buferWrite u) = []" "m_nBufSize (m_buferWrite u) = ?N" "c_sends u = [(x # a, Suc 0), (b, 0)]"
    "written o1 = cb_contents (m_buferWrite s) @ [x]"
    using round_async_law [where i = 0, OF t _ _ k] assms(4) by (auto simp: t_def simp del: run_events.simps)
  obtain v o2 where v: "run_events client_handle u [Cl_Round 1, ?async] = Inr (v, o2)" "sending v"
    "cb_contents (m_buferWrite v) = []" "m_nBufSize (m_buferWrite v) = ?N" "c_sends v = [(x # a, Suc 0)]" "written o2 = b"
    using round_async_law [of u 1 b 0 "length b"] u(2-5) assms(7) by (auto simp: drop_nth_def simp del: run_events.simps)
  obtain w o3 where w: "run_events client_handle v [Cl_Round 0, ?async] = Inr (w, o3)" "written o3 = a"
    using round_async_law [of v 0 "x # a" "Suc 0" "length a"] v(2-5) assms(6)
    by (auto simp: drop_nth_def simp del: run_events.simps)
  have "run_events client_handle s ([Cl_Send (x # a), Cl_Send b] @ [Cl_Round 0, ?async] @ [Cl_Round 1, ?async] @ [Cl_Round 0, ?async])
      = Inr (w, [C_Async, C_Async] @ o1 @ o2 @ o3)"
    unfolding run_events_append 1 bind_outcome.simps prod.case u(1) v(1) w(1) map_outcome.simps ..
  then show ?thesis using u(6) v(6) w(2) by simp
qed

definition nearly_full :: tcp_client where
  "nearly_full = (tcp_client_new client_packet)\<lparr>c_handle := CH_Reading, c_bIsClosed := False,
     m_nConnectStatus := CONNECT_FINISH, m_buferWrite := \<lparr>m_pBuf = [10, 11, 12, 0], m_nBufSize = 4, m_nReadPos = 0,
     m_nWritePos = 3, m_bEmpty = False, m_bFull = False\<rparr>\<rparr>"

lemma interleaved_sends_witness:
  "\<exists>s' out. run_events client_handle nearly_full [Cl_Send [1, 2, 3], Cl_Send [7, 8], Cl_Round 0, Cl_Async (\<lambda>_. 0), Cl_Round 1,
      Cl_Async (\<lambda>_. 0), Cl_Round 0, Cl_Async (\<lambda>_. 0)] = Inr (s', out) \<and> written out = [10, 11, 12, 1, 7, 8, 2, 3]"
proof -
  have c: "cb_contents (m_buferWrite nearly_full) = [10, 11, 12]" by (simp add: nearly_full_def cb_contents_def)
  have "sending nearly_full"
    by (simp add: sending_def nearly_full_def tcp_client_new_def buffer_inv_def cb_inv_def)
  then show ?thesis using interleaved_sends [of nearly_full "[2, 3]" "[7, 8]" 1] c
    by (simp add: nearly_full_def tcp_client_new_def del: run_events.simps)
qed

text \<open>
  Property C15. The client does not stop reconnecting. In any run from the first connect without a
  \<open>Close\<close> of its user, in which the timer and the new handle can be set up: whenever the client has lost
  its connection, either the timer is armed, with a delay of \<open>1000 * 2 ^ k\<close> milliseconds, or the old
  handle is being closed, and its callback arms the timer with one second.
\<close>

theorem reconnect_live:
  assumes "Connect_begin v6 server 0 0 0 0 0 0 0 (tcp_client_new junk) = Inr (s, True)"
    and "\<forall>e\<in>set es. calm_event e" "run_events client_handle s es = Inr (s', out)" "m_bIsReconnecting s'"
  shows "(\<exists>k. m_timerReconnet s' = Some (1000 * 2 ^ k))
    \<or> (\<exists>t. client_enabled (Cl_Closed 0) s' \<and> client_handle s' (Cl_Closed 0) = Inr (t, [C_Timer_Start 1000])
        \<and> m_timerReconnet t = Some 1000)"
proof -
  have "reconnect_inv s'" using reconnecting.run_inv [OF Connect_begin_inv(1) [OF assms(1)] assms(2,3)] .
  then consider "waiting_phase s'" | "closing_phase s'"
    using assms(4) by (auto simp: reconnect_inv_def connected_phase_def)
  then show ?thesis
  proof cases
    case 1
    then show ?thesis by (auto simp: waiting_phase_def)
  next
    case 2
    then show ?thesis
      by (simp add: closing_phase_def client_handle_def client_enabled_def closing_def c_after_close_def c_AfterClientClose_def)
  qed
qed

text \<open>\<open>k\<close> refused attempts, then one that succeeds.\<close>

definition refused :: "int \<Rightarrow> client_event list" where
  "refused err = [Cl_Timer 0 0 0, Cl_Connected err 0]"

text \<open>The state in which the timer has been armed for the attempt after the \<open>k\<close>-th.\<close>

definition waiting_at :: "nat \<Rightarrow> tcp_client \<Rightarrow> tcp_client" where
  "waiting_at k s = s\<lparr>m_bIsReconnecting := True, m_nRepeatTime := Some (1000 * 2 ^ k), m_timerReconnet := Some (1000 * 2 ^ k),
     c_data := (if k = 0 then Data_Client else Data_Context), m_bTcpHandleClosed := (k = 0),
     c_handle := (if k = 0 then CH_None else CH_Open),
     m_nConnectStatus := (if k = 0 then m_nConnectStatus s else CONNECT_ERROR)\<rparr>"

definition reconnected :: "tcp_client \<Rightarrow> tcp_client" where
  "reconnected s = s\<lparr>m_bIsReconnecting := False, m_nRepeatTime := Some 1000, m_timerReconnet := None,
     c_data := Data_Context, m_bTcpHandleClosed := False, c_handle := CH_Reading, m_nConnectStatus := CONNECT_FINISH\<rparr>"

lemma disconnect_run:
  assumes "c_handle s = CH_Reading" "c_data s = Data_Context" "\<not> c_connecting s" "nread < 0"
  shows "run_events client_handle s [Cl_Recv le nread buf rets, Cl_Closed 0]
    = Inr (waiting_at 0 s, [C_Disconnected, C_Close, C_Timer_Start 1000])"
  using assms by (simp add: client_handle_def client_enabled_def c_AfterRecv_def StartReconnect_def c_uv_close_def
      c_after_close_def c_AfterClientClose_def closing_def waiting_at_def)

lemma attempt_start:
  assumes "\<not> c_connecting s"
  shows "client_handle (waiting_at k s) (Cl_Timer 0 0 0)
    = Inr ((waiting_at k s)\<lparr>c_data := Data_Context, m_bTcpHandleClosed := False, c_handle := CH_Open, c_connecting := True\<rparr>, [C_Connect])"
  using assms by (simp add: client_handle_def client_enabled_def ReconnectTimer_def waiting_at_def closing_def c_uv_tcp_init_def Let_def)

lemma refused_run:
  assumes "\<not> c_connecting s" "err \<noteq> 0" "k < 53"
  shows "run_events client_handle (waiting_at k s) (refused err)
    = Inr (waiting_at (Suc k) s, [C_Connect, C_Timer_Start (1000 * 2 ^ Suc k)])"
proof -
  have "(2::int) ^ k * 2000 \<le> 2 ^ 52 * 2000" using assms(3) by (intro mult_right_mono power_increasing) auto
  then have b: "(2::int) ^ k * 2000 < 9223372036854775808" by simp
  show ?thesis using attempt_start [OF assms(1), of k] assms(1,2) b
    by (simp add: refused_def client_handle_def [of _ "Cl_Connected err 0"] client_enabled_def AfterConnect_def Let_def
        restart_timer_def waiting_at_def mult.commute)
qed

text \<open>
  Property C16. The delays between attempts double. After the server has gone and \<open>k\<close> attempts have been
  refused (\<open>k\<close> at most 53, the last doubling that an \<open>int64_t\<close> holds), the client has waited
  \<open>1000, 2000, ..., 1000 * 2 ^ k\<close> milliseconds; an attempt that succeeds then ends in a client that reads,
  with the timer off. Nothing else of its state has changed: what the old connection left in the packet
  synchroniser is still there.
\<close>

theorem reconnect_backoff:
  assumes "c_handle s = CH_Reading" "c_data s = Data_Context" "\<not> c_connecting s" "nread < 0" "err \<noteq> 0" "k \<le> 53"
  shows "run_events client_handle s ([Cl_Recv le nread buf rets, Cl_Closed 0] @ concat (replicate k (refused err))
      @ [Cl_Timer 0 0 0, Cl_Connected 0 0])
    = Inr (reconnected s, [C_Disconnected, C_Close, C_Timer_Start 1000]
        @ concat (map (\<lambda>i. [C_Connect, C_Timer_Start (1000 * 2 ^ Suc i)]) [0..<k]) @ [C_Connect, C_Reconnected])"
proof -
  have r: "run_events client_handle (waiting_at 0 s) (concat (replicate k (refused err)))
      = Inr (waiting_at k s, concat (map (\<lambda>i. [C_Connect, C_Timer_Start (1000 * 2 ^ Suc i)]) [0..<k]))"
    using assms(6)
  proof (induction k)
    case (Suc k)
    have "concat (replicate (Suc k) (refused err)) = concat (replicate k (refused err)) @ refused err"
      by (simp flip: replicate_append_same)
    then show ?case using Suc refused_run [OF assms(3,5), of k] by (simp add: run_events_append del: power_Suc)
  qed simp
  have l: "run_events client_handle (waiting_at k s) [Cl_Timer 0 0 0, Cl_Connected 0 0] = Inr (reconnected s, [C_Connect, C_Reconnected])"
    using attempt_start [OF assms(3), of k] assms(3)
    by (simp add: client_handle_def [of _ "Cl_Connected 0 0"] client_enabled_def AfterConnect_def Let_def
        StopReconnect_def waiting_at_def reconnected_def)
  show ?thesis unfolding run_events_append disconnect_run [OF assms(1-4)] bind_outcome.simps prod.case r l map_outcome.simps ..
qed

text \<open>
  A \<open>Close\<close> by the user while the client closes a lost connection is undefined behaviour: in
  between, \<open>StopReconnect\<close> makes the handle point to the context again, and \<open>AfterClientClose\<close> takes it for
  the client.
\<close>

theorem close_while_reconnecting:
  assumes "c_handle s = CH_Reading" "c_data s = Data_Context" "\<not> c_connecting s" "\<not> c_bIsClosed s" "nread < 0"
  shows "run_events client_handle s [Cl_Recv le nread buf rets, Cl_Close, Cl_Async rets', Cl_Closed t] = Inl Wrong_Type"
  using assms by (simp add: client_handle_def client_enabled_def c_AfterRecv_def StartReconnect_def c_uv_close_def c_Close_def
      c_AsyncCloseCB_def c_closeinl_def c_CloseWalkCB_def StopReconnect_def c_after_close_def c_AfterClientClose_def closing_def)

section \<open>Instances\<close>

definition reading_client :: tcp_client where
  "reading_client = (tcp_client_new client_packet)\<lparr>c_handle := CH_Reading, c_bIsClosed := False, m_nConnectStatus := CONNECT_FINISH\<rparr>"

lemma reconnect_live_witness:
  "\<exists>s s' out. Connect_begin False (''10.0.0.1'', 12345) 0 0 0 0 0 0 0 (tcp_client_new client_packet) = Inr (s, True)
    \<and> run_events client_handle s [Cl_Connected 0 0, Cl_Recv True (-4095) [] (\<lambda>_. 0), Cl_Closed 0, Cl_Timer 0 0 (-111)] = Inr (s', out)
    \<and> (\<exists>k. m_timerReconnet s' = Some (1000 * 2 ^ k))"
proof -
  obtain s where c: "Connect_begin False (''10.0.0.1'', 12345) 0 0 0 0 0 0 0 (tcp_client_new client_packet) = Inr (s, True)"
    using Connect_begin_new by blast
  have s: "s = (tcp_client_new client_packet)\<lparr>c_packet := sync_started 1 2 client_packet,
     c_handle := CH_Open, c_connecting := True, c_bIsClosed := False, m_bIsIPv6 := False, m_server := (''10.0.0.1'', 12345)\<rparr>"
    using c by (simp add: Connect_begin_new)
  let ?es = "[Cl_Connected 0 0, Cl_Recv True (-4095) [] (\<lambda>_. 0), Cl_Closed 0, Cl_Timer 0 0 (-111)]"
  obtain s' out where r: "run_events client_handle s ?es = Inr (s', out)" "m_bIsReconnecting s'" "c_handle s' = CH_Closing False"
    by (simp add: s tcp_client_new_def client_handle_def client_enabled_def AfterConnect_def c_AfterRecv_def StartReconnect_def
        c_uv_close_def c_after_close_def c_AfterClientClose_def ReconnectTimer_def c_uv_tcp_init_def restart_timer_def closing_def Let_def)
  have "(\<exists>k. m_timerReconnet s' = Some (1000 * 2 ^ k)) \<or> (\<exists>t. client_enabled (Cl_Closed 0) s'
      \<and> client_handle s' (Cl_Closed 0) = Inr (t, [C_Timer_Start 1000]) \<and> m_timerReconnet t = Some 1000)"
    by (rule reconnect_live [OF c _ r(1,2)]) (simp add: calm_event_def)
  then have "\<exists>k. m_timerReconnet s' = Some (1000 * 2 ^ k)"
    using r(3) by (auto simp: client_handle_def c_after_close_def client_enabled_def)
  then show ?thesis using c r(1) by blast
qed

lemma reconnect_backoff_witness:
  "run_events client_handle reading_client ([Cl_Recv True (-4095) [] (\<lambda>_. 0), Cl_Closed 0] @ concat (replicate 2 (refused (-111)))
      @ [Cl_Timer 0 0 0, Cl_Connected 0 0])
    = Inr (reconnected reading_client, [C_Disconnected, C_Close, C_Timer_Start 1000, C_Connect, C_Timer_Start 2000, C_Connect,
        C_Timer_Start 4000, C_Connect, C_Reconnected])"
  using reconnect_backoff [of reading_client "-4095" "-111" 2 True "[]" "\<lambda>_. 0"]
  by (simp add: reading_client_def tcp_client_new_def upt_rec del: run_events.simps replicate.simps)

lemma close_while_reconnecting_witness:
  "run_events client_handle reading_client [Cl_Recv True (-4095) [] (\<lambda>_. 0), Cl_Close, Cl_Async (\<lambda>_. 0), Cl_Closed 0] = Inl Wrong_Type"
  by (rule close_while_reconnecting) (simp_all add: reading_client_def tcp_client_new_def)

text \<open>Bytes that are sent while there is no connection are dropped, and \<open>Send\<close> returns their number.\<close>

lemma lost_without_connection:
  assumes "buffer_inv s" "\<not> c_bIsUserAskForClosed s" "c_handle s \<noteq> CH_Open" "c_handle s \<noteq> CH_Reading"
  shows "\<exists>s' out. client_handle s (Cl_Async rets) = Inr (s', out) \<and> cb_contents (m_buferWrite s') = [] \<and> written out = []"
  using send_inl_law [OF assms(1), of None rets] assms(2-4) by (auto simp: client_handle_def client_enabled_def c_AsyncCloseCB_def)

text \<open>A second \<open>Connect\<close> initialises a handle that is in use.\<close>

lemma connect_twice:
  assumes "\<not> c_bIsClosed s" "c_handle s = CH_Reading"
  shows "Connect_begin v6 server async_ret tcp_ret init_ret timer_ret addr_ret connect_ret thread_ret s = Inl Handle_Misuse"
  using assms by (simp add: Connect_begin_def c_closeinl_def c_CloseWalkCB_def StopReconnect_def client_init_def handle_init_def
      c_uv_tcp_init_def)

text \<open>After 101 looks the caller of \<open>Connect\<close> gives up; it returns \<open>True\<close> only if it has seen the connection.\<close>

lemma wait_connect_timeout: "\<forall>i\<le>100. seen i = CONNECT_DIS \<Longrightarrow> n \<le> 100 \<Longrightarrow> wait_connect seen n = CONNECT_TIMEOUT"
  by (induction seen n rule: wait_connect.induct) (subst wait_connect.simps, auto)

lemma wait_connect_seen: "wait_connect seen n = CONNECT_FINISH \<Longrightarrow> n \<le> 100 \<Longrightarrow> \<exists>i\<le>100. seen i = CONNECT_FINISH"
  by (induction seen n rule: wait_connect.induct) (subst (asm) wait_connect.simps, auto split: if_splits)

lemma Connect_seen:
  assumes "Connect server async_ret tcp_ret init_ret timer_ret addr_ret connect_ret thread_ret seen s = Inr (s', True)"
  shows "\<exists>i\<le>100. seen i = CONNECT_FINISH"
  using assms wait_connect_seen [of seen 0] by (auto simp: Connect_def Connect_end_def Let_def split: if_splits)

text \<open>A \<open>Connect\<close> after one that failed looks at the old status, and gives up at once.\<close>

lemma connect_after_error: "seen 0 = CONNECT_ERROR \<Longrightarrow> snd (Connect_end seen s) = False"
  by (simp add: Connect_end_def Let_def wait_connect.simps [of seen 0])

end
