(* ===== verification/Client_Network.thy ===== *)
theory Client_Network
  imports Udp_Module_Proofs Tcp_Client_Proofs Tcp_Server_Proofs Signaling_Server
begin

text \<open>
  The client as a whole (\<open>client_network/network_module.cpp\<close>, \<open>tcp_module.cpp\<close>, \<open>client_thread_msg.h\<close>): the TCP
  module on the TCP client, the messages posted to the thread of the UDP module, and the facade
  \<open>ClientNetwork\<close> that logs in, passes the calls of the application on and connects the two modules, which
  run on one loop. The class \<open>NetworkCenter\<close> it derives from and its \<open>Parameter\<close> are not in the
  repository; of them only the address of the server is used.
\<close>

section \<open>The TCP module\<close>

text \<open>
  \<open>CTCPModule\<close>: the TCP client with the user it works for and the answer of the master. A field that
  was never set is \<open>None\<close>. (\<open>m_setFailRequest\<close> and its timers are fields of \<open>udp_module\<close>.)
\<close>

record tcp_module =
  tm_client :: tcp_client
  m_bGetAddrSuccess :: bool
  tm_userId :: u32
  m_nRelayServerAddr :: "u32 option"
  m_nRelayServerPort :: "u16 option"

definition tcp_module_new :: "NetPacket \<Rightarrow> u32 \<Rightarrow> tcp_module" where
  "tcp_module_new junk userId = \<lparr>tm_client = tcp_client_new junk, m_bGetAddrSuccess = False, tm_userId = userId,
     m_nRelayServerAddr = None, m_nRelayServerPort = None\<rparr>"

text \<open>
  The messages it sends: payload and type. The field \<open>clientId\<close> of a request for an address is
  not set; its value is \<open>junk\<close>.
\<close>

definition msg_bindUserIdOnServer :: "tcp_module \<Rightarrow> bytes \<times> nat" where
  "msg_bindUserIdOnServer t = (bytes_userId (tm_userId t), REQ_BIND_USERID)"

definition msg_AddForwardNode :: "u32 \<Rightarrow> tcp_module \<Rightarrow> bytes \<times> nat" where
  "msg_AddForwardNode u t = (bytes_CReqUpdateForwardTableMsg
     \<lparr>uft_srcUserId = tm_userId t, uft_dstUserId = u, uft_add = True\<rparr>, REQ_UPDATE_FORWARDTABLE)"

definition msg_RemoveForwardNode :: "u32 \<Rightarrow> tcp_module \<Rightarrow> (bytes \<times> nat) list" where
  "msg_RemoveForwardNode u t = (if tm_userId t = u then [] else
     [(bytes_CReqUpdateForwardTableMsg \<lparr>uft_srcUserId = tm_userId t, uft_dstUserId = u, uft_add = False\<rparr>,
       REQ_UPDATE_FORWARDTABLE)])"

definition msg_GetP2PAddr :: "u32 \<Rightarrow> u32 \<Rightarrow> tcp_module \<Rightarrow> bytes \<times> nat" where
  "msg_GetP2PAddr junk u t = (bytes_CReqP2PAddrMsg
     \<lparr>p2p_srcUserId = tm_userId t, p2p_dstUserId = u, p2p_clientId = junk\<rparr>, REQ_P2PADDR)"

definition msg_requestRelayServerAddr :: "u32 \<Rightarrow> bytes \<times> nat" where
  "msg_requestRelayServerAddr sessionId = (bytes_userId sessionId, GET_SLAVE_ADDR_MSG)"

text \<open>
  A call of \<open>SendUvMessage\<close> by a thread of the application: its rounds are later events. Called on
  the thread of the loop it goes through its rounds at once; what does not fit into the
  write buffer then never will, because only the loop empties the buffer.
\<close>

definition tcp_send :: "bool \<Rightarrow> NetPacket \<Rightarrow> bytes \<times> nat \<Rightarrow> tcp_module \<Rightarrow> (tcp_module \<times> client_out list) outcome" where
  "tcp_send le junk m t = map_outcome (\<lambda>(c, out). (t\<lparr>tm_client := c\<rparr>, out))
     (c_SendUvMessage le junk (fst m) (snd m) (tm_client t))"

definition c_loop_send :: "bool \<Rightarrow> NetPacket \<Rightarrow> bytes \<times> nat \<Rightarrow> tcp_client \<Rightarrow> client_result" where
  "c_loop_send le junk m s = bind_outcome (c_SendUvMessage le junk (fst m) (snd m) s) (\<lambda>(s, out).
     let n = length (c_sends s) in
     bind_outcome (Send_round (n - 1) s) (\<lambda>(s, out').
       if length (c_sends s) = n then Inl No_Return else Inr (s, out @ out')))"

definition loop_send :: "bool \<Rightarrow> NetPacket \<Rightarrow> bytes \<times> nat \<Rightarrow> tcp_module \<Rightarrow> (tcp_module \<times> client_out list) outcome" where
  "loop_send le junk m t = map_outcome (\<lambda>(c, out). (t\<lparr>tm_client := c\<rparr>, out)) (c_loop_send le junk m (tm_client t))"

text \<open>
  Waiting for a flag that another thread sets: \<open>seen i\<close> is what the \<open>i\<close>-th look shows. The result is
  the number of the look that ends the loop.
\<close>

fun wait_flag :: "nat \<Rightarrow> (nat \<Rightarrow> bool) \<Rightarrow> nat \<Rightarrow> nat" where
  "wait_flag 0 seen i = i"
| "wait_flag (Suc n) seen i = (if seen i then i else wait_flag n seen (Suc i))"

definition requestRelayServerAddr_end :: "(nat \<Rightarrow> bool) \<Rightarrow> int" where
  "requestRelayServerAddr_end seen = (if seen (Suc (wait_flag 5 seen 0)) then 0 else -1)"

definition LoginRelayServer_end :: "(nat \<Rightarrow> bool) \<Rightarrow> bool" where
  "LoginRelayServer_end seen = seen (Suc (wait_flag 5 seen 0))"

section \<open>Messages between the threads of the client\<close>

definition SEND_MEDIA_MSG :: nat where "SEND_MEDIA_MSG = 0"
definition ADD_FORWARD_NODE_MSG :: nat where "ADD_FORWARD_NODE_MSG = 1"
definition REMOVE_FORWARD_NODE_MSG :: nat where "REMOVE_FORWARD_NODE_MSG = 2"
definition REQ_UDP_LOGIN_MSG :: nat where "REQ_UDP_LOGIN_MSG = 3"

text \<open>The object behind \<open>m_pData\<close> knows its class; a handler that casts it to another reads another object.\<close>

datatype thread_obj =
    Obj_SendMedia bytes
  | Obj_UdpLogin
  | Obj_RemoveForwardNode u32
  | Obj_LeaveRoom u32
  | Obj_AddForwardNode u32

fun MSG_ID :: "thread_obj \<Rightarrow> nat" where
  "MSG_ID (Obj_SendMedia _) = SEND_MEDIA_MSG"
| "MSG_ID Obj_UdpLogin = REQ_UDP_LOGIN_MSG"
| "MSG_ID (Obj_RemoveForwardNode _) = REMOVE_FORWARD_NODE_MSG"
| "MSG_ID (Obj_LeaveRoom _) = REQ_LEAVE_ROOM_MSG"
| "MSG_ID (Obj_AddForwardNode _) = ADD_FORWARD_NODE_MSG"

text \<open>
  \<open>OnDispatchMsg\<close> of \<open>CUDPModule\<close>; what a login needs beside the message is \<open>rs\<close>, \<open>junk\<close> and \<open>port\<close>. A
  message of an unknown type goes to the base class, which does nothing with it.
\<close>

definition module_OnDispatchMsg :: "u8 list \<Rightarrow> UdpPacket \<Rightarrow> u16 \<Rightarrow> nat \<Rightarrow> thread_obj \<Rightarrow> udp_module \<Rightarrow> module_result" where
  "module_OnDispatchMsg rs junk port nMsgType data u = (
     if nMsgType = SEND_MEDIA_MSG then (case data of Obj_SendMedia d \<Rightarrow> module_handle u (Send_Media d) | _ \<Rightarrow> Inl Wrong_Type)
     else if nMsgType = REQ_UDP_LOGIN_MSG then (case data of Obj_UdpLogin \<Rightarrow> module_handle u (Udp_Login rs junk port) | _ \<Rightarrow> Inl Wrong_Type)
     else if nMsgType = REMOVE_FORWARD_NODE_MSG then (case data of Obj_RemoveForwardNode v \<Rightarrow> module_handle u (Remove_Node v) | _ \<Rightarrow> Inl Wrong_Type)
     else if nMsgType = REQ_LEAVE_ROOM_MSG then (case data of Obj_LeaveRoom _ \<Rightarrow> module_handle u Leave_Room | _ \<Rightarrow> Inl Wrong_Type)
     else if nMsgType = ADD_FORWARD_NODE_MSG then (case data of Obj_AddForwardNode v \<Rightarrow> module_handle u (Add_Node v) | _ \<Rightarrow> Inl Wrong_Type)
     else Inr (u, []))"

section \<open>The facade\<close>

text \<open>
  \<open>ClientNetwork\<close>. \<open>m_bInRoom\<close> and whether there is a listener live in the UDP module while there is
  one; \<open>cn_bInRoom\<close> and \<open>cn_listener\<close> keep them before and after.
\<close>

record client_network =
  cn_serverIP :: string
  cn_port :: u32
  cn_userId :: "u32 option"
  m_pTcpClient :: "tcp_module option"
  m_pUdpClient :: "udp_module option"
  cn_bInRoom :: bool
  cn_listener :: bool
  m_pNetworkChangeCB :: bool

datatype net_out =
    N_Tcp client_out
  | N_Module module_out
  | N_Post nat thread_obj
  | N_Status bool

text \<open>\<open>SendUvThreadMessage\<close> posts under the id of the class; the type its callers pass is not used.\<close>

definition SendUvThreadMessage :: "thread_obj \<Rightarrow> nat \<Rightarrow> net_out" where
  "SendUvThreadMessage msg nMsgType = N_Post (MSG_ID msg) msg"

type_synonym net_result = "(client_network \<times> net_out list) outcome"

text \<open>What the code leaves open: byte order and the values of objects that are not initialised.\<close>

record net_env =
  ne_le :: bool
  ne_junk :: NetPacket
  ne_clientId :: u32

definition client_network_new :: "string \<Rightarrow> u32 \<Rightarrow> client_network" where
  "client_network_new ip port = \<lparr>cn_serverIP = ip, cn_port = port, cn_userId = None, m_pTcpClient = None,
     m_pUdpClient = None, cn_bInRoom = False, cn_listener = False, m_pNetworkChangeCB = False\<rparr>"

definition set_in_room :: "bool \<Rightarrow> client_network \<Rightarrow> client_network" where
  "set_in_room b s = s\<lparr>cn_bInRoom := b, m_pUdpClient := map_option (\<lambda>u. u\<lparr>m_bInRoom := b\<rparr>) (m_pUdpClient s)\<rparr>"

definition set_listener :: "bool \<Rightarrow> client_network \<Rightarrow> client_network" where
  "set_listener b s = s\<lparr>cn_listener := b, m_pUdpClient := map_option (\<lambda>u. u\<lparr>m_pVoipDataListener := b\<rparr>) (m_pUdpClient s)\<rparr>"

definition in_room :: "client_network \<Rightarrow> bool" where
  "in_room s = (case m_pUdpClient s of None \<Rightarrow> cn_bInRoom s | Some u \<Rightarrow> m_bInRoom u)"

text \<open>A call that sends on the TCP module: of an application thread, or of the loop.\<close>

definition via_tcp :: "(tcp_module \<Rightarrow> (tcp_module \<times> client_out list) outcome) \<Rightarrow> client_network \<Rightarrow> net_result" where
  "via_tcp f s = (case m_pTcpClient s of
       None \<Rightarrow> Inl Null_Dereference
     | Some t \<Rightarrow> map_outcome (\<lambda>(t, out). (s\<lparr>m_pTcpClient := Some t\<rparr>, map N_Tcp out)) (f t))"

definition Logout :: "client_network \<Rightarrow> client_network" where
  "Logout s = s\<lparr>cn_bInRoom := in_room s, m_pTcpClient := None, m_pUdpClient := None\<rparr>"

definition TryP2PConnect :: "net_env \<Rightarrow> u32 \<Rightarrow> client_network \<Rightarrow> net_result" where
  "TryP2PConnect en u = via_tcp (\<lambda>t. loop_send (ne_le en) (ne_junk en) (msg_GetP2PAddr (ne_clientId en) u t) t)"

definition AfterP2PFail :: "net_env \<Rightarrow> u32 \<Rightarrow> client_network \<Rightarrow> net_result" where
  "AfterP2PFail en u = via_tcp (\<lambda>t. loop_send (ne_le en) (ne_junk en) (msg_AddForwardNode u t) t)"

definition AddGroupClientNode :: "u32 \<Rightarrow> client_network \<Rightarrow> client_network \<times> net_out list" where
  "AddGroupClientNode u s = (if m_pTcpClient s = None \<or> m_pUdpClient s = None then (s, [])
     else (set_in_room True s, [SendUvThreadMessage (Obj_AddForwardNode u) ADD_FORWARD_NODE_MSG]))"

definition RemoveGroupClientNode :: "net_env \<Rightarrow> u32 \<Rightarrow> client_network \<Rightarrow> net_result" where
  "RemoveGroupClientNode en u s = (case (m_pTcpClient s, m_pUdpClient s) of
       (Some t, Some _) \<Rightarrow> map_outcome (\<lambda>(s, out). (s, out @ [SendUvThreadMessage (Obj_RemoveForwardNode u) 0]))
         (case msg_RemoveForwardNode u t of [] \<Rightarrow> Inr (s, [])
          | m # _ \<Rightarrow> via_tcp (tcp_send (ne_le en) (ne_junk en) m) s)
     | _ \<Rightarrow> Inr (s, []))"

text \<open>\<open>ClearGroupClientList\<close> up to its wait of at most twenty looks at \<open>m_bInRoom\<close>.\<close>

definition ClearGroupClientList :: "net_env \<Rightarrow> client_network \<Rightarrow> net_result" where
  "ClearGroupClientList en s = (case (m_pTcpClient s, m_pUdpClient s, cn_userId s) of
       (Some t, Some _, Some u) \<Rightarrow> map_outcome (\<lambda>(s, out). (s, out @ [SendUvThreadMessage (Obj_LeaveRoom u) REQ_LEAVE_ROOM_MSG]))
         (via_tcp (tcp_send (ne_le en) (ne_junk en) (bytes_userId u, REQ_LEAVE_ROOM_MSG)) s)
     | (Some _, Some _, None) \<Rightarrow> Inl Indeterminate_Value
     | _ \<Rightarrow> Inr (s, []))"

definition ClearGroupClientList_end :: "(nat \<Rightarrow> bool) \<Rightarrow> nat" where
  "ClearGroupClientList_end looks = wait_flag 20 (\<lambda>i. \<not> looks i) 0"

definition setP2PTransmit :: "bool \<Rightarrow> client_network \<Rightarrow> client_network" where
  "setP2PTransmit enable s = s\<lparr>m_pUdpClient := map_option (\<lambda>u. u\<lparr>m_bEnableP2P := enable\<rparr>) (m_pUdpClient s)\<rparr>"

definition setNetworkChangeCB :: "bool \<Rightarrow> client_network \<Rightarrow> client_network" where
  "setNetworkChangeCB cb s = s\<lparr>m_pNetworkChangeCB := cb\<rparr>"

definition net_sendVoipData :: "bytes \<Rightarrow> client_network \<Rightarrow> (client_network \<times> net_out list \<times> int) outcome" where
  "net_sendVoipData d s = (case (m_pUdpClient s, cn_userId s) of
       (None, _) \<Rightarrow> Inr (s, [], -1)
     | (Some _, None) \<Rightarrow> Inl Indeterminate_Value
     | (Some _, Some u) \<Rightarrow> Inr (s, [SendUvThreadMessage (Obj_SendMedia (le_bytes 4 (unat u) @ d)) SEND_MEDIA_MSG], 0))"
section \<open>Logging in\<close>

text \<open>
  The answers that \<open>Login\<close> gets: the return codes of libuv while the TCP module connects, the connection
  status its caller sees, what \<open>uv_ip4_addr\<close>, \<open>uv_udp_recv_start\<close> and \<open>uv_udp_set_broadcast\<close> return and the
  address for the UDP socket, and the looks at \<open>m_bLoginSuccess\<close>.
\<close>

record login_answers =
  la_connect :: "int \<times> int \<times> int \<times> int \<times> int \<times> int \<times> int"
  la_status :: "nat \<Rightarrow> connect_status"
  la_udp :: "int \<times> int \<times> int"
  la_serverAddr :: sockaddr_in
  la_ack :: "nat \<Rightarrow> bool"

text \<open>
  \<open>CUDPModule::Connect\<close>, and its result for the module that \<open>Login\<close> has just constructed: the socket is
  open, and it receives if the result is \<open>true\<close>.
\<close>

definition udp_module_Connect :: "int \<times> int \<times> int \<Rightarrow> udp_socket \<Rightarrow> (udp_socket \<times> bool) outcome" where
  "udp_module_Connect r u = (let (addr_ret, recv_ret, broadcast_ret) = r in
     map_outcome (\<lambda>(u, ok). if \<not> ok then (u, False) else (u, setBroadcast broadcast_ret)) (udp_client_Connect addr_ret recv_ret u))"

definition module_Connect :: "int \<times> int \<times> int \<Rightarrow> bool" where
  "module_Connect r = (let (addr_ret, recv_ret, broadcast_ret) = r in addr_ret = 0 \<and> recv_ret = 0 \<and> broadcast_ret = 0)"

lemma module_Connect_result:
  "\<exists>u. udp_module_Connect r Udp_Open = Inr (u, module_Connect r) \<and> (module_Connect r \<longrightarrow> u = Udp_Receiving)"
  by (auto simp: udp_module_Connect_def module_Connect_def udp_client_Connect_def udp_recv_start_def setBroadcast_def
      split: prod.splits)

text \<open>
  \<open>Login\<close>; the local \<open>masterServer\<close> is 0, so the branch that asks the master is never taken. The
  result says whether \<open>true\<close> is returned.
\<close>

definition Login :: "net_env \<Rightarrow> login_answers \<Rightarrow> u32 \<Rightarrow> u32 \<Rightarrow> client_network \<Rightarrow> (client_network \<times> net_out list \<times> bool) outcome" where
  "Login en la userId sessionId s0 = (
     let s = (Logout s0)\<lparr>cn_userId := Some userId\<rparr>;
         (c1, c2, c3, c4, c5, c6, c7) = la_connect la;
         t = tcp_module_new (ne_junk en) userId;
         u = (udp_module_new (la_serverAddr la) userId sessionId)
               \<lparr>m_bInRoom := cn_bInRoom s, m_pVoipDataListener := cn_listener s\<rparr>
     in bind_outcome (Connect (cn_serverIP s, int (unat (cn_port s))) c1 c2 c3 c4 c5 c6 c7 (la_status la) (tm_client t)) (\<lambda>(c, connected).
          if \<not> connected then Inr (Logout s, [], False)
          else bind_outcome (tcp_send (ne_le en) (ne_junk en) (msg_bindUserIdOnServer t) (t\<lparr>tm_client := c\<rparr>)) (\<lambda>(t, out).
            let s = s\<lparr>m_pTcpClient := Some t, m_pUdpClient := Some (u\<lparr>m_bLoginSuccess := False\<rparr>)\<rparr>;
                out = map N_Tcp out
            in if \<not> module_Connect (la_udp la) then Inr (Logout s, out, False)
               else let out = out @ [SendUvThreadMessage Obj_UdpLogin REQ_UDP_LOGIN_MSG] in
                 if LoginRelayServer_end (la_ack la) then Inr (s, out, True) else Inr (Logout s, out, False))))"

section \<open>The one instance\<close>

definition CreateInstance :: "string \<Rightarrow> u32 \<Rightarrow> client_network option \<Rightarrow> client_network option" where
  "CreateInstance ip port s_pInstance = (case s_pInstance of None \<Rightarrow> Some (client_network_new ip port) | Some s \<Rightarrow> Some s)"

definition DestroyInstance :: "client_network option \<Rightarrow> client_network option" where
  "DestroyInstance s_pInstance = None"

section \<open>The loop\<close>

text \<open>What the UDP module asks of the facade goes out on the TCP module.\<close>

fun module_calls :: "net_env \<Rightarrow> module_out list \<Rightarrow> client_network \<Rightarrow> net_result" where
  "module_calls en [] s = Inr (s, [])"
| "module_calls en (c # cs) s = bind_outcome
     (case c of Get_P2PAddr u \<Rightarrow> TryP2PConnect en u s | Add_Forward_Node u \<Rightarrow> AfterP2PFail en u s
      | _ \<Rightarrow> Inr (s, [N_Module c])) (\<lambda>(s, out).
     map_outcome (\<lambda>(s, out'). (s, out @ out')) (module_calls en cs s))"

definition view_CRspP2PAddrMsg :: "bytes \<Rightarrow> CRspP2PAddrMsg outcome" where
  "view_CRspP2PAddrMsg buf = map_outcome (\<lambda>b. \<lparr>rsp_dstUserId = u32_at 0 b, rsp_dstIp = u32_at 4 b,
     rsp_dstPort = u16_at 8 b, rsp_dstLocalUdpPort = u16_at 10 b, rsp_clientId = sint (u32_at 12 b),
     rsp_success = (b ! 16 \<noteq> 0)\<rparr>) (msg_view 17 buf)"

definition view_CRspSlaveAddrMsg :: "bytes \<Rightarrow> (u32 \<times> u16) outcome" where
  "view_CRspSlaveAddrMsg buf = map_outcome (\<lambda>b. (u32_at 0 b, u16_at 4 b)) (msg_view 6 buf)"

definition OnRspSlaveAddr :: "u32 \<times> u16 \<Rightarrow> tcp_module \<Rightarrow> tcp_module" where
  "OnRspSlaveAddr m t = t\<lparr>m_nRelayServerAddr := Some (fst m), m_nRelayServerPort := Some (snd m), m_bGetAddrSuccess := True\<rparr>"

text \<open>\<open>ParsePacket\<close> of \<open>CTCPModule\<close>.\<close>

definition tcp_ParsePacket :: "net_env \<Rightarrow> UdpPacket \<Rightarrow> NetPacket \<Rightarrow> bytes \<Rightarrow> client_network \<Rightarrow> net_result" where
  "tcp_ParsePacket en junk packet buf s = (
     let ty = unat (np_type packet) in
     if ty = GET_SLAVE_ADDR_MSG then map_outcome (\<lambda>m.
         (s\<lparr>m_pTcpClient := map_option (OnRspSlaveAddr m) (m_pTcpClient s)\<rparr>, [])) (view_CRspSlaveAddrMsg buf)
     else if ty = RSP_P2PADDR then bind_outcome (view_CRspP2PAddrMsg buf) (\<lambda>m.
         if \<not> rsp_success m \<and> \<not> in_room s then Inr (s, [])
         else case m_pUdpClient s of
           None \<Rightarrow> Inl Null_Dereference
         | Some u \<Rightarrow> Inr (s\<lparr>m_pUdpClient := Some (OnTcpRspP2PAddr (ne_le en) junk m u)\<rparr>, []))
     else Inr (s, []))"

definition AfterReconnectSuccess :: "net_env \<Rightarrow> client_network \<Rightarrow> net_result" where
  "AfterReconnectSuccess en s = map_outcome (\<lambda>(s, out). (s, out @ (if m_pNetworkChangeCB s then [N_Status True] else [])))
     (via_tcp (\<lambda>t. loop_send (ne_le en) (ne_junk en) (msg_bindUserIdOnServer t) t) s)"

definition AfterDisconnected :: "client_network \<Rightarrow> client_network \<times> net_out list" where
  "AfterDisconnected s = (s, if m_pNetworkChangeCB s then [N_Status False] else [])"

definition client_call :: "net_env \<Rightarrow> UdpPacket \<Rightarrow> client_out \<Rightarrow> client_network \<Rightarrow> net_result" where
  "client_call en junk c s = (case c of
       C_Packet p d \<Rightarrow> tcp_ParsePacket en junk p d s
     | C_Reconnected \<Rightarrow> AfterReconnectSuccess en s
     | C_Disconnected \<Rightarrow> Inr (AfterDisconnected s)
     | _ \<Rightarrow> Inr (s, [N_Tcp c]))"

fun client_calls :: "net_env \<Rightarrow> UdpPacket \<Rightarrow> client_out list \<Rightarrow> client_network \<Rightarrow> net_result" where
  "client_calls en junk [] s = Inr (s, [])"
| "client_calls en junk (c # cs) s = bind_outcome (client_call en junk c s) (\<lambda>(s, out).
     map_outcome (\<lambda>(s, out'). (s, out @ out')) (client_calls en junk cs s))"

text \<open>
  The events of the loop that both modules share, and of the application's threads that are in
  \<open>Send\<close>. \<open>N_Dispatch\<close> is a posted message on its way to the module.
\<close>

datatype net_event =
    N_Loop_Tcp UdpPacket client_event
  | N_Loop_Udp module_event
  | N_Dispatch "u8 list" UdpPacket u16 nat thread_obj

definition net_handle :: "net_env \<Rightarrow> client_network \<Rightarrow> net_event \<Rightarrow> net_result" where
  "net_handle en s e = (case e of
       N_Loop_Tcp junk ce \<Rightarrow> (case m_pTcpClient s of
           None \<Rightarrow> Inr (s, [])
         | Some t \<Rightarrow> bind_outcome (client_handle (tm_client t) ce) (\<lambda>(c, out).
             client_calls en junk out (s\<lparr>m_pTcpClient := Some (t\<lparr>tm_client := c\<rparr>)\<rparr>)))
     | N_Loop_Udp me \<Rightarrow> (case m_pUdpClient s of
           None \<Rightarrow> Inr (s, [])
         | Some u \<Rightarrow> bind_outcome (module_handle u me) (\<lambda>(u, out). module_calls en out (s\<lparr>m_pUdpClient := Some u\<rparr>)))
     | N_Dispatch rs junk port ty d \<Rightarrow> (case m_pUdpClient s of
           None \<Rightarrow> Inr (s, [])
         | Some u \<Rightarrow> bind_outcome (module_OnDispatchMsg rs junk port ty d u) (\<lambda>(u, out).
             module_calls en out (s\<lparr>m_pUdpClient := Some u\<rparr>))))"
section \<open>Messages on the wire\<close>

text \<open>The header \<open>PacketData\<close> fills in, over the uninitialised one.\<close>

definition head_of :: "NetPacket \<Rightarrow> bytes \<times> nat \<Rightarrow> NetPacket" where
  "head_of junk m = junk\<lparr>np_type := of_nat (snd m), np_header := SERVER_PACKET_HEAD, np_tail := SERVER_PACKET_TAIL,
     np_datalen := of_nat (length (fst m))\<rparr>"

definition wire_of :: "bool \<Rightarrow> NetPacket \<Rightarrow> bytes \<times> nat \<Rightarrow> bytes" where
  "wire_of le junk m = wire le (head_of junk m, fst m)"

lemma head_of_sendable: "length (fst m) < 1000 \<Longrightarrow> sendable SERVER_PACKET_HEAD SERVER_PACKET_TAIL (head_of junk m, fst m)"
  by (simp add: sendable_def head_of_def unsigned_of_nat take_bit_nat_eq_self)

lemma length_wire_of: "length (fst m) < 1000 \<Longrightarrow> length (wire_of le junk m) = length (fst m) + NET_PACKAGE_HEADLEN + 2"
  using wire_eq [OF head_of_sendable, of m le junk] by (simp add: wire_of_def with_check_def wf_NetPacket_def payload_md5_def)

lemma PacketData_wire: "length (fst m) < 1000 \<Longrightarrow> PacketData le junk (fst m) (snd m) = Inr (wire_of le junk m)"
  by (simp add: PacketData_def wire_of_def wire_def PacketData2_def head_of_def Let_def unsigned_of_nat take_bit_nat_eq_self)

lemma c_SendUvMessage_eq:
  assumes "length (fst m) < 1000"
  shows "c_SendUvMessage le junk (fst m) (snd m) c = Inr (c\<lparr>c_sends := c_sends c @ [(wire_of le junk m, 0)]\<rparr>, [C_Async])"
proof -
  have "wire_of le junk m \<noteq> []" using length_wire_of [OF assms, of le junk] by (intro notI) simp
  then show ?thesis by (simp add: c_SendUvMessage_def PacketData_wire [OF assms] Send_begin_def)
qed

lemma tcp_send_eq:
  assumes "length (fst m) < 1000"
  shows "tcp_send le junk m t = Inr (t\<lparr>tm_client := (tm_client t)\<lparr>c_sends := c_sends (tm_client t) @ [(wire_of le junk m, 0)]\<rparr>\<rparr>, [C_Async])"
  by (simp add: tcp_send_def c_SendUvMessage_eq [OF assms])

text \<open>There is room in the write buffer for a message.\<close>

definition c_roomy :: "tcp_client \<Rightarrow> bytes \<times> nat \<Rightarrow> bool" where
  "c_roomy c m \<longleftrightarrow> buffer_inv c \<and> \<not> c_bIsUserAskForClosed c
     \<and> length (cb_contents (m_buferWrite c)) + length (fst m) + NET_PACKAGE_HEADLEN + 2 \<le> m_nBufSize (m_buferWrite c)"

definition roomy :: "tcp_module \<Rightarrow> bytes \<times> nat \<Rightarrow> bool" where
  "roomy t m = c_roomy (tm_client t) m"

lemma drop_nth_last [simp]: "drop_nth (length xs) (xs @ [x]) = xs"
  by (simp add: drop_nth_def)

lemma c_loop_send_eq:
  assumes "length (fst m) < 1000" "c_roomy c m"
  shows "\<exists>b. c_loop_send le junk m c = Inr (c\<lparr>m_buferWrite := b\<rparr>,
      [C_Async, C_Accept (wire_of le junk m), C_Async, C_Return (length (wire_of le junk m))])
    \<and> cb_inv b \<and> cb_contents b = cb_contents (m_buferWrite c) @ wire_of le junk m"
proof -
  let ?w = "wire_of le junk m"
  have inv: "cb_inv (m_buferWrite c)" using assms(2) by (simp add: c_roomy_def buffer_inv_def)
  have len: "length ?w = length (fst m) + NET_PACKAGE_HEADLEN + 2" by (rule length_wire_of [OF assms(1)])
  then have k: "length ?w = min (length ?w) (m_nBufSize (m_buferWrite c) - length (cb_contents (m_buferWrite c)))"
    using assms(2) by (auto simp: c_roomy_def)
  then obtain b where b: "cb_write (m_buferWrite c) ?w (int (length ?w)) = Inr (b, int (length ?w))" "cb_inv b"
    "cb_contents b = cb_contents (m_buferWrite c) @ ?w"
    using ring.write_total [OF inv, of "int (length ?w)" ?w] by (metis nat_int order_refl take_all)
  have "?w \<noteq> []" using len by (intro notI) simp
  then show ?thesis using b assms(2)
    by (intro exI [of _ b]) (simp add: c_loop_send_def c_SendUvMessage_eq [OF assms(1)] Send_round_def nth_append c_roomy_def Let_def)
qed

lemma loop_send_eq:
  assumes "length (fst m) < 1000" "roomy t m"
  shows "\<exists>b. loop_send le junk m t = Inr (t\<lparr>tm_client := (tm_client t)\<lparr>m_buferWrite := b\<rparr>\<rparr>,
      [C_Async, C_Accept (wire_of le junk m), C_Async, C_Return (length (wire_of le junk m))])
    \<and> cb_inv b \<and> cb_contents b = cb_contents (m_buferWrite (tm_client t)) @ wire_of le junk m"
  using c_loop_send_eq [OF assms(1), of "tm_client t" le junk] assms(2) by (auto simp: roomy_def loop_send_def)

section \<open>Properties of the facade\<close>

lemma Logout_fields [simp]:
  "cn_serverIP (Logout s) = cn_serverIP s" "cn_port (Logout s) = cn_port s" "cn_listener (Logout s) = cn_listener s"
  "cn_userId (Logout s) = cn_userId s" "cn_bInRoom (Logout s) = in_room s"
  "m_pTcpClient (Logout s) = None" "m_pUdpClient (Logout s) = None"
  by (simp_all add: Logout_def)

text \<open>The ways \<open>Login\<close> ends.\<close>

lemma Login_cases:
  assumes "Login en la userId sessionId s = Inr (s', out, ok)"
  obtains (no_connection) "\<not> ok" "s' = Logout ((Logout s)\<lparr>cn_userId := Some userId\<rparr>)" "out = []"
    | (no_socket) t u where "\<not> ok" "s' = Logout ((Logout s)\<lparr>cn_userId := Some userId, m_pTcpClient := Some t, m_pUdpClient := Some u\<rparr>)"
        "out = [N_Tcp C_Async]"
    | (no_answer) t u where "\<not> ok" "s' = Logout ((Logout s)\<lparr>cn_userId := Some userId, m_pTcpClient := Some t, m_pUdpClient := Some u\<rparr>)"
        "out = [N_Tcp C_Async, N_Post (MSG_ID Obj_UdpLogin) Obj_UdpLogin]"
    | (logged_in) c where "ok" "wait_connect (la_status la) 0 = CONNECT_FINISH" "module_Connect (la_udp la)"
        "LoginRelayServer_end (la_ack la)" "out = [N_Tcp C_Async, N_Post (MSG_ID Obj_UdpLogin) Obj_UdpLogin]"
        "s' = (Logout s)\<lparr>cn_userId := Some userId, m_pTcpClient := Some ((tcp_module_new (ne_junk en) userId)\<lparr>tm_client :=
            c\<lparr>c_sends := [(wire_of (ne_le en) (ne_junk en) (bytes_userId userId, REQ_BIND_USERID), 0)]\<rparr>\<rparr>),
          m_pUdpClient := Some ((udp_module_new (la_serverAddr la) userId sessionId)
            \<lparr>m_bInRoom := in_room s, m_pVoipDataListener := cn_listener s, m_bLoginSuccess := False\<rparr>)\<rparr>"
proof -
  obtain c1 c2 c3 c4 c5 c6 c7 where c: "la_connect la = (c1, c2, c3, c4, c5, c6, c7)" by (cases "la_connect la")
  let ?t = "tcp_module_new (ne_junk en) userId"
  obtain c conn where r: "Connect (cn_serverIP s, int (unat (cn_port s))) c1 c2 c3 c4 c5 c6 c7 (la_status la) (tm_client ?t) = Inr (c, conn)"
    using assms by (auto simp: Login_def c Logout_def Let_def bind_outcome_Inr_iff)
  have f: "c_sends c = []" "conn \<Longrightarrow> wait_connect (la_status la) 0 = CONNECT_FINISH"
    using r by (auto simp: Connect_def Connect_begin_def client_init_def handle_init_def c_closeinl_def c_uv_tcp_init_def
        tcp_module_new_def tcp_client_new_def Connect_end_def Let_def bind_outcome_Inr_iff split: if_splits)
  let ?m = "(bytes_userId userId, REQ_BIND_USERID)" and ?s = "(Logout s)\<lparr>cn_userId := Some userId\<rparr>"
  let ?T = "?t\<lparr>tm_client := c\<lparr>c_sends := [(wire_of (ne_le en) (ne_junk en) ?m, 0)]\<rparr>\<rparr>"
    and ?U = "(udp_module_new (la_serverAddr la) userId sessionId)
      \<lparr>m_bInRoom := in_room s, m_pVoipDataListener := cn_listener s, m_bLoginSuccess := False\<rparr>"
  have m: "msg_bindUserIdOnServer ?t = ?m" by (simp add: msg_bindUserIdOnServer_def tcp_module_new_def)
  have send: "tcp_send (ne_le en) (ne_junk en) ?m (?t\<lparr>tm_client := c\<rparr>) = Inr (?T, [C_Async])"
    using tcp_send_eq [of ?m] f(1) by (simp add: bytes_userId_def)
  have L: "Login en la userId sessionId s = (if \<not> conn then Inr (Logout ?s, [], False)
    else let s2 = ?s\<lparr>m_pTcpClient := Some ?T, m_pUdpClient := Some ?U\<rparr>; o2 = [N_Tcp C_Async, N_Post (MSG_ID Obj_UdpLogin) Obj_UdpLogin]
      in if \<not> module_Connect (la_udp la) then Inr (Logout s2, [N_Tcp C_Async], False)
        else if LoginRelayServer_end (la_ack la) then Inr (s2, o2, True) else Inr (Logout s2, o2, False))"
    using r by (simp add: Login_def c m send Let_def SendUvThreadMessage_def)
  consider "\<not> conn" | "conn" "\<not> module_Connect (la_udp la)"
    | "conn" "module_Connect (la_udp la)" "\<not> LoginRelayServer_end (la_ack la)"
    | "conn" "module_Connect (la_udp la)" "LoginRelayServer_end (la_ack la)" by blast
  then show thesis
  proof cases
    case 1
    then show thesis using assms L by (intro no_connection) simp_all
  next
    case 2
    then show thesis using assms L by (intro no_socket [of ?U ?T]) (simp_all add: Let_def)
  next
    case 3
    then show thesis using assms L by (intro no_answer [of ?U ?T]) (simp_all add: Let_def)
  next
    case 4
    then show thesis using assms L f(2) by (intro logged_in [of c]) (simp_all add: Let_def)
  qed
qed

text \<open>
  What \<open>Login\<close> answers. It is true only if the connection was seen to be up, the socket was set
  up and the answer of the relay server came; then both modules work for the user and the
  binding of the user id is on its way. Whenever it is false both modules are gone.
\<close>

theorem login_result:
  assumes "Login en la userId sessionId s = Inr (s', out, ok)"
  shows "cn_userId s' = Some userId \<and> (if ok then wait_connect (la_status la) 0 = CONNECT_FINISH
      \<and> module_Connect (la_udp la) \<and> LoginRelayServer_end (la_ack la)
      \<and> (\<exists>t u. m_pTcpClient s' = Some t \<and> m_pUdpClient s' = Some u \<and> tm_userId t = userId \<and> um_userId u = userId
          \<and> um_sessionId u = sessionId \<and> m_bInRoom u = in_room s
          \<and> c_sends (tm_client t) = [(wire_of (ne_le en) (ne_junk en) (bytes_userId userId, REQ_BIND_USERID), 0)])
      \<and> out = [N_Tcp C_Async, N_Post (MSG_ID Obj_UdpLogin) Obj_UdpLogin]
    else m_pTcpClient s' = None \<and> m_pUdpClient s' = None)"
  by (cases rule: Login_cases [OF assms])
    (simp_all add: tcp_module_new_def udp_module_new_def udp_module.defs udp_handle.defs)

text \<open>
  Property C27. Every message that a call of the facade posts reaches, on the thread of the module, the handler
  of its own class: no handler ever takes an object for one of another class.
\<close>

theorem posts_well_typed:
  assumes "AddGroupClientNode v s = (s', out) \<or> RemoveGroupClientNode en v s = Inr (s', out)
      \<or> ClearGroupClientList en s = Inr (s', out) \<or> net_sendVoipData d s = Inr (s', out, ret)
      \<or> Login en la userId sessionId s = Inr (s', out, ok)"
    and "N_Post ty data \<in> set out"
  shows "module_OnDispatchMsg rs junk port ty data u = module_handle u (case data of
      Obj_SendMedia d \<Rightarrow> Send_Media d | Obj_UdpLogin \<Rightarrow> Udp_Login rs junk port | Obj_RemoveForwardNode v \<Rightarrow> Remove_Node v
    | Obj_LeaveRoom _ \<Rightarrow> Leave_Room | Obj_AddForwardNode v \<Rightarrow> Add_Node v)"
proof -
  have "ty = MSG_ID data" if "Login en la userId sessionId s = Inr (s', out, ok)"
    using assms(2) by (cases rule: Login_cases [OF that]) auto
  then have "ty = MSG_ID data"
    using assms by (auto simp: AddGroupClientNode_def RemoveGroupClientNode_def ClearGroupClientList_def net_sendVoipData_def
        SendUvThreadMessage_def via_tcp_def split: if_splits option.splits list.splits)
  then show ?thesis by (cases data) (simp_all add: module_OnDispatchMsg_def SEND_MEDIA_MSG_def REQ_UDP_LOGIN_MSG_def
      REMOVE_FORWARD_NODE_MSG_def REQ_LEAVE_ROOM_MSG_def ADD_FORWARD_NODE_MSG_def)
qed

text \<open>The last try of a peer: its address is tried once more and the server is asked to relay.\<close>

lemma last_try:
  assumes "m_pTcpClient s = Some t" "m_pUdpClient s = Some u" "p2p_inv u" "map_of (m_mapP2PTimer u) v = Some ctx"
    "repeatTimes ctx = 0" "up_del (tm_msg ctx)" "roomy t (msg_AddForwardNode v t)"
  obtains s' out where "net_handle en s (N_Loop_Udp (P2P_Tick junk v)) = Inr (s', out)"
    "{w. N_Tcp (C_Accept w) \<in> set out} = {wire_of (ne_le en) (ne_junk en) (msg_AddForwardNode v t)}"
proof -
  have len: "length (fst (msg_AddForwardNode v t)) < 1000"
    by (simp add: msg_AddForwardNode_def bytes_CReqUpdateForwardTableMsg_def)
  obtain u' a where p: "P2PTimer junk ctx u = Inr (u', [Udp_Out (Udp_Send (udp_bytes (tm_msg ctx)) a), Add_Forward_Node v])"
    using assms(5,6) by (cases rule: P2PTimer_cases [OF assms(3,4), of junk]) auto
  obtain b where b: "loop_send (ne_le en) (ne_junk en) (msg_AddForwardNode v t) t
      = Inr (t\<lparr>tm_client := (tm_client t)\<lparr>m_buferWrite := b\<rparr>\<rparr>, [C_Async, C_Accept (wire_of (ne_le en) (ne_junk en) (msg_AddForwardNode v t)),
          C_Async, C_Return (length (wire_of (ne_le en) (ne_junk en) (msg_AddForwardNode v t)))])"
    using loop_send_eq [OF len assms(7)] by blast
  show thesis
    by (rule that) (use assms(1,2,4) p b in \<open>auto simp: net_handle_def module_handle_def AfterP2PFail_def via_tcp_def simp del: map_of_eq_Some_iff\<close>)
qed

lemma reconnected:
  assumes "m_pTcpClient s = Some t" "roomy t (msg_bindUserIdOnServer t)"
  obtains s' out where "AfterReconnectSuccess en s = Inr (s', out)" "m_pUdpClient s' = m_pUdpClient s"
    "{w. N_Tcp (C_Accept w) \<in> set out} = {wire_of (ne_le en) (ne_junk en) (msg_bindUserIdOnServer t)}"
proof -
  have len: "length (fst (msg_bindUserIdOnServer t)) < 1000" by (simp add: msg_bindUserIdOnServer_def bytes_userId_def)
  let ?w = "wire_of (ne_le en) (ne_junk en) (msg_bindUserIdOnServer t)"
  obtain b where b: "loop_send (ne_le en) (ne_junk en) (msg_bindUserIdOnServer t) t
      = Inr (t\<lparr>tm_client := (tm_client t)\<lparr>m_buferWrite := b\<rparr>\<rparr>, [C_Async, C_Accept ?w, C_Async, C_Return (length ?w)])"
    using loop_send_eq [OF len assms(2)] by blast
  let ?s = "s\<lparr>m_pTcpClient := Some (t\<lparr>tm_client := (tm_client t)\<lparr>m_buferWrite := b\<rparr>\<rparr>)\<rparr>"
    and ?out = "map N_Tcp [C_Async, C_Accept ?w, C_Async, C_Return (length ?w)] @ (if m_pNetworkChangeCB s then [N_Status True] else [])"
  have "AfterReconnectSuccess en s = Inr (?s, ?out)" using assms(1) b by (simp add: AfterReconnectSuccess_def via_tcp_def)
  then show thesis by (rule that) auto
qed
section \<open>Instances\<close>

definition demo_net_env :: net_env where
  "demo_net_env = \<lparr>ne_le = True, ne_junk = junk_packet, ne_clientId = 0\<rparr>"

definition demo_login_answers :: login_answers where
  "demo_login_answers = \<lparr>la_connect = (0, 0, 0, 0, 0, 0, 0), la_status = (\<lambda>_. CONNECT_FINISH), la_udp = (0, 0, 0),
     la_serverAddr = quiet_addr, la_ack = (\<lambda>i. 2 \<le> i)\<rparr>"

theorem login_result_witness:
  "\<exists>s' out t. Login demo_net_env demo_login_answers 3 1 (client_network_new ''10.0.0.1'' 12345) = Inr (s', out, True)
    \<and> m_pTcpClient s' = Some t \<and> tm_userId t = 3
    \<and> c_sends (tm_client t) = [(wire_of True junk_packet (bytes_userId 3, REQ_BIND_USERID), 0)]"
proof -
  let ?s = "client_network_new ''10.0.0.1'' 12345"
  have "wait_connect (\<lambda>_. CONNECT_FINISH) 0 = CONNECT_FINISH" by (simp add: wait_connect.simps)
  then obtain s' out where r: "Login demo_net_env demo_login_answers 3 1 ?s = Inr (s', out, True)"
    by (simp add: Login_def demo_login_answers_def demo_net_env_def Connect_def Connect_begin_new Connect_end_def
        tcp_module_new_def tcp_send_eq msg_bindUserIdOnServer_def bytes_userId_def module_Connect_def LoginRelayServer_end_def
        eval_nat_numeral)
  show ?thesis using login_result [OF r] r by (auto simp: demo_net_env_def)
qed

text \<open>A client whose connection is up, with the UDP module \<open>u\<close>.\<close>

definition demo_tcp_module :: "u32 \<Rightarrow> tcp_module" where
  "demo_tcp_module v = (tcp_module_new junk_packet v)\<lparr>tm_client := (tcp_client_new junk_packet)\<lparr>c_handle := CH_Reading,
     c_bIsClosed := False\<rparr>\<rparr>"

definition demo_net :: "udp_module \<Rightarrow> client_network" where
  "demo_net u = (client_network_new ''10.0.0.1'' 12345)\<lparr>cn_userId := Some (um_userId u),
     m_pTcpClient := Some (demo_tcp_module (um_userId u)), m_pUdpClient := Some u\<rparr>"

lemma demo_roomy: "length (fst m) < 1000 \<Longrightarrow> roomy (demo_tcp_module v) m"
  by (simp add: roomy_def c_roomy_def demo_tcp_module_def tcp_module_new_def buffer_inv_def tcp_client_new_def
      cb_new_def cb_inv_def cb_contents_def NET_PACKAGE_HEADLEN_def BUFFER_SIZE_def)

theorem posts_well_typed_witness:
  "\<exists>s' out. RemoveGroupClientNode demo_net_env 7 (demo_net quiet_start) = Inr (s', out)
    \<and> N_Post (MSG_ID (Obj_RemoveForwardNode 7)) (Obj_RemoveForwardNode 7) \<in> set out
    \<and> module_OnDispatchMsg [] quiet_junk 0 (MSG_ID (Obj_RemoveForwardNode 7)) (Obj_RemoveForwardNode 7) quiet_start
      = module_handle quiet_start (Remove_Node 7)"
proof -
  have "length (fst (hd (msg_RemoveForwardNode 7 (demo_tcp_module 3)))) < 1000" "um_userId quiet_start = 3"
    by (simp_all add: msg_RemoveForwardNode_def bytes_CReqUpdateForwardTableMsg_def demo_tcp_module_def tcp_module_new_def
        quiet_start_def udp_module_new_def udp_module.defs udp_handle.defs)
  then obtain s' out where r: "RemoveGroupClientNode demo_net_env 7 (demo_net quiet_start) = Inr (s', out)"
    and post: "N_Post (MSG_ID (Obj_RemoveForwardNode 7)) (Obj_RemoveForwardNode 7) \<in> set out"
    by (auto simp: RemoveGroupClientNode_def demo_net_def via_tcp_def tcp_send_eq SendUvThreadMessage_def
        msg_RemoveForwardNode_def demo_tcp_module_def tcp_module_new_def)
  have "AddGroupClientNode 7 (demo_net quiet_start) = (s', out) \<or> RemoveGroupClientNode demo_net_env 7 (demo_net quiet_start) = Inr (s', out)
      \<or> ClearGroupClientList demo_net_env (demo_net quiet_start) = Inr (s', out) \<or> net_sendVoipData [] (demo_net quiet_start) = Inr (s', out, 0)
      \<or> Login demo_net_env demo_login_answers 3 1 (demo_net quiet_start) = Inr (s', out, True)"
    using r by blast
  from posts_well_typed [OF this post, of "[]" quiet_junk 0 quiet_start] show ?thesis using r post by auto
qed

end
