(* ===== verification/Client_Relay.thy ===== *)
theory Client_Relay
  imports Client_Network Relay_System
begin

text \<open>
  The client and the relay server together: what the client puts into its stream, read by the server,
  and what that means for the media.
\<close>

section \<open>The message of the client at the server\<close>

lemma wire_of_update:
  assumes "relay_inv r" "map_of (ctxs (m_pTcpServer r)) a = Some c" "tcphandle c = Handle_Reading"
    "sync_ready le SERVER_PACKET_HEAD SERVER_PACKET_TAIL (tc_packet c)" "pending (tc_packet c) = []"
    "w = wire_of le junk (bytes_CReqUpdateForwardTableMsg m, REQ_UPDATE_FORWARDTABLE)"
    "address (m_pUdpServer_obj r) (uft_srcUserId m) \<noteq> None" "address (m_pUdpServer_obj r) (uft_dstUserId m) \<noteq> None"
  shows "\<exists>r'. relay_handle env r (Tcp (Ev_Recv le a (int (length w)) w)) = Inr (r', []) \<and> relay_inv r'
    \<and> address (m_pUdpServer_obj r') = address (m_pUdpServer_obj r)
    \<and> links (m_pUdpServer_obj r') = (let l = (uft_srcUserId m, uft_dstUserId m) in
        if uft_add m then insert l (links (m_pUdpServer_obj r)) else links (m_pUdpServer_obj r) - {l})"
proof -
  let ?q = "(bytes_CReqUpdateForwardTableMsg m, REQ_UPDATE_FORWARDTABLE)"
  have len: "length (fst ?q) < 1000" by (simp add: bytes_CReqUpdateForwardTableMsg_def)
  have ty: "unat (np_type (head_of junk ?q)) = REQ_UPDATE_FORWARDTABLE"
    by (simp add: head_of_def REQ_UPDATE_FORWARDTABLE_def)
  show ?thesis
    using wire_updates_links [OF assms(1-5), of "head_of junk ?q" m env] head_of_sendable [OF len, of junk] ty
      relay_handle_inv [OF assms(1)] assms(6-8)
    by (auto simp: wire_of_def Let_def)
qed

lemma wire_of_bind:
  assumes "relay_inv r" "map_of (ctxs (m_pTcpServer r)) a = Some c" "tcphandle c = Handle_Reading"
    "sync_ready le SERVER_PACKET_HEAD SERVER_PACKET_TAIL (tc_packet c)" "pending (tc_packet c) = []"
    "w = wire_of le junk (bytes_userId u, REQ_BIND_USERID)"
  shows "\<exists>r'. relay_handle env r (Tcp (Ev_Recv le a (int (length w)) w)) = Inr (r', []) \<and> relay_inv r'
    \<and> m_pUdpServer_obj r' = m_pUdpServer_obj r
    \<and> map_of (m_mapClientId (m_pTcpServer r')) (tc_clientid c) = (case map_of (m_mapClientId (m_pTcpServer r)) (tc_clientid c) of
        None \<Rightarrow> Some \<lparr>tcpClientCtx = a, ex_userId = u\<rparr> | Some ex \<Rightarrow> Some ex)"
proof -
  let ?q = "(bytes_userId u, REQ_BIND_USERID)" and ?T = "m_pTcpServer r"
  have len: "length (fst ?q) < 1000" by (simp add: bytes_userId_def)
  obtain ps' where h: "relay_handle env r (Tcp (Ev_Recv le a (int (length w)) w)) = tcp_calls env
      [Parse a (fst (with_check (head_of junk ?q, bytes_userId u))) (bytes_userId u)]
      (r\<lparr>m_pTcpServer := modify_ctx a (\<lambda>c. c\<lparr>tc_packet := ps'\<rparr>) ?T\<rparr>)"
    using recv_packet [OF assms(2-5), of "head_of junk ?q" "bytes_userId u"] head_of_sendable [OF len, of junk] assms(6)
    by (auto simp: wire_of_def)
  let ?t = "modify_ctx a (\<lambda>c. c\<lparr>tc_packet := ps'\<rparr>) ?T"
  have "unat (np_type (head_of junk ?q)) = REQ_BIND_USERID" by (simp add: head_of_def REQ_BIND_USERID_def)
  then have "\<exists>t'. sig_ParsePacket (fst (with_check (head_of junk ?q, bytes_userId u))) (bytes_userId u) a ?t = Inr (t', [])
      \<and> map_of (m_mapClientId t') (tc_clientid c) = (case map_of (m_mapClientId ?T) (tc_clientid c) of
        None \<Rightarrow> Some \<lparr>tcpClientCtx = a, ex_userId = u\<rparr> | Some ex \<Rightarrow> Some ex)"
    using assms(2) by (simp add: sig_ParsePacket_def client_ctx_def with_check_def OnBindUserId_def Let_def
        REQ_BIND_USERID_def REQ_UPDATE_FORWARDTABLE_def REQ_LOGOUT_def modify_ctx_def split: option.split)
  then obtain t' where "relay_handle env r (Tcp (Ev_Recv le a (int (length w)) w)) = Inr (r\<lparr>m_pTcpServer := t'\<rparr>, [])"
    "map_of (m_mapClientId t') (tc_clientid c) = (case map_of (m_mapClientId ?T) (tc_clientid c) of
        None \<Rightarrow> Some \<lparr>tcpClientCtx = a, ex_userId = u\<rparr> | Some ex \<Rightarrow> Some ex)"
    using h by (auto simp: tcp_call_def)
  then show ?thesis using relay_handle_inv [OF assms(1)] by auto
qed

lemma media_goes:
  assumes "relay_inv r" "6 \<le> length d" "length d \<le> UDP_BUFFER_SIZE" "unat (d ! 5) mod 128 < MULTI_FORWARD_MSG"
    "up_userId (udp_of_bytes (udp_recv_into d (uh_buf (m_pUdpServer_obj r)))) = u"
  shows "\<exists>m' ds. media_handle (m_pUdpServer_obj r) (Datagram now d (Some src))
      = Inr (m', map (\<lambda>b. Net (Sendmsg d (the (address (m_pUdpServer_obj r) b)))) ds)
    \<and> set ds = {b. (u, b) \<in> links (m_pUdpServer_obj r)}"
proof -
  have "media_inv (m_pUdpServer_obj r)" using assms(1) by (simp add: relay_inv_def)
  obtain m' ds where "media_handle (m_pUdpServer_obj r) (Datagram now d (Some src))
      = Inr (m', map (\<lambda>b. Net (Sendmsg d (the (address (m_pUdpServer_obj r) b)))) ds)"
    "set ds = {b. (u, b) \<in> links (m_pUdpServer_obj r)}"
    using forward_exact [OF \<open>media_inv (m_pUdpServer_obj r)\<close> assms(2-4), of now src] unfolding assms(5) by blast
  then show ?thesis by blast
qed
section \<open>Properties\<close>

text \<open>
  Property C22. From the last unanswered try to punch through to a peer to the relayed media: the
  tick of the timer puts one packet into the stream to the server; when the server has read it, the
  link from the user to the peer is there, and any media datagram of the user is sent on to the peer.
\<close>

theorem fallback_relays:
  assumes "m_pTcpClient s = Some t" "m_pUdpClient s = Some u" "p2p_inv u" "map_of (m_mapP2PTimer u) v = Some ctx"
    "repeatTimes ctx = 0" "up_del (tm_msg ctx)" "roomy t (msg_AddForwardNode v t)"
    "relay_inv r" "map_of (ctxs (m_pTcpServer r)) a = Some c" "tcphandle c = Handle_Reading"
    "sync_ready (ne_le en) SERVER_PACKET_HEAD SERVER_PACKET_TAIL (tc_packet c)" "pending (tc_packet c) = []"
    "address (m_pUdpServer_obj r) (tm_userId t) \<noteq> None" "address (m_pUdpServer_obj r) v \<noteq> None"
    "6 \<le> length d" "length d \<le> UDP_BUFFER_SIZE" "unat (d ! 5) mod 128 < MULTI_FORWARD_MSG"
    "of_nat (from_le (take 4 d)) = tm_userId t"
  shows "\<exists>s' out w r' m' ds. net_handle en s (N_Loop_Udp (P2P_Tick junk v)) = Inr (s', out)
    \<and> {x. N_Tcp (C_Accept x) \<in> set out} = {w}
    \<and> relay_handle env r (Tcp (Ev_Recv (ne_le en) a (int (length w)) w)) = Inr (r', [])
    \<and> links (m_pUdpServer_obj r') = insert (tm_userId t, v) (links (m_pUdpServer_obj r))
    \<and> media_handle (m_pUdpServer_obj r') (Datagram now d (Some src)) = Inr (m', ds)
    \<and> Net (Sendmsg d (the (address (m_pUdpServer_obj r) v))) \<in> set ds"
proof -
  obtain s' out where c: "net_handle en s (N_Loop_Udp (P2P_Tick junk v)) = Inr (s', out)"
    "{x. N_Tcp (C_Accept x) \<in> set out} = {wire_of (ne_le en) (ne_junk en) (msg_AddForwardNode v t)}"
    by (rule last_try [OF assms(1-7)])
  let ?w = "wire_of (ne_le en) (ne_junk en) (msg_AddForwardNode v t)"
  have "uft_add \<lparr>uft_srcUserId = tm_userId t, uft_dstUserId = v, uft_add = True\<rparr>" by simp
  then obtain r' where r: "relay_handle env r (Tcp (Ev_Recv (ne_le en) a (int (length ?w)) ?w)) = Inr (r', [])" "relay_inv r'"
    "address (m_pUdpServer_obj r') = address (m_pUdpServer_obj r)"
    "links (m_pUdpServer_obj r') = insert (tm_userId t, v) (links (m_pUdpServer_obj r))"
    using wire_of_update [OF assms(8-12), where m = "\<lparr>uft_srcUserId = tm_userId t, uft_dstUserId = v, uft_add = True\<rparr>"
        and env = env and junk = "ne_junk en" and w = ?w] assms(13,14)
    by (auto simp: msg_AddForwardNode_def)
  have "up_userId (udp_of_bytes (udp_recv_into d (uh_buf (m_pUdpServer_obj r')))) = tm_userId t"
    using assms(15,16,18) r(2) by (simp add: udp_of_bytes_def udp_recv_into_def relay_inv_def media_inv_def)
  from media_goes [OF r(2) assms(15-17) this, of now src] obtain m' ds where
    "media_handle (m_pUdpServer_obj r') (Datagram now d (Some src))
      = Inr (m', map (\<lambda>b. Net (Sendmsg d (the (address (m_pUdpServer_obj r') b)))) ds)"
    "set ds = {b. (tm_userId t, b) \<in> links (m_pUdpServer_obj r')}" by blast
  then show ?thesis using c r by (fastforce simp: r(3,4))
qed
text \<open>
  Property C37. A connection that breaks takes the relay with it: the server drops the links of the
  user, and the client that is connected again puts one packet into its stream, the one that binds its own
  user id. When a server on which the links are still gone has read it, on a new connection that has not
  been bound, that connection stands for the user, but media of the user that needs the relay reaches
  nobody, while the module still counts on it.
\<close>

theorem reconnect_loses_links:
  assumes "m_pTcpClient s = Some t" "roomy t (msg_bindUserIdOnServer t)"
    "relay_inv r" "\<not> mutex_held (m_pTcpServer r)" "map_of (m_mapClientId (m_pTcpServer r)) k = Some ex"
    "map_of (ctxs (m_pTcpServer r)) (tcpClientCtx ex) = Some c" "tcphandle c = Handle_Reading" "ex_userId ex = tm_userId t"
    "n < 0" "6 \<le> length d" "length d \<le> UDP_BUFFER_SIZE" "unat (d ! 5) mod 128 < MULTI_FORWARD_MSG"
    "of_nat (from_le (take 4 d)) = tm_userId t"
  shows "\<exists>r1 r2 s' out w. relay_handle env r (Tcp (Ev_Recv le (tcpClientCtx ex) n buf)) = Inr (r1, [Out_Tcp (Uv_Close (tcpClientCtx ex))])
    \<and> relay_handle env r1 (Tcp (Ev_After_Close (tcpClientCtx ex))) = Inr (r2, [])
    \<and> links (m_pUdpServer_obj r2) = {(x, y) \<in> links (m_pUdpServer_obj r). x \<noteq> tm_userId t \<and> y \<noteq> tm_userId t}
    \<and> AfterReconnectSuccess en s = Inr (s', out) \<and> {x. N_Tcp (C_Accept x) \<in> set out} = {w}
    \<and> w = wire_of (ne_le en) (ne_junk en) (bytes_userId (tm_userId t), REQ_BIND_USERID)
    \<and> m_pUdpClient s' = m_pUdpClient s
    \<and> (\<forall>r3 a' c'. relay_inv r3 \<and> m_pUdpServer_obj r3 = m_pUdpServer_obj r2
        \<and> map_of (ctxs (m_pTcpServer r3)) a' = Some c' \<and> tcphandle c' = Handle_Reading
        \<and> sync_ready (ne_le en) SERVER_PACKET_HEAD SERVER_PACKET_TAIL (tc_packet c') \<and> pending (tc_packet c') = []
        \<and> map_of (m_mapClientId (m_pTcpServer r3)) (tc_clientid c') = None
      \<longrightarrow> (\<exists>r4 m'. relay_handle env r3 (Tcp (Ev_Recv (ne_le en) a' (int (length w)) w)) = Inr (r4, [])
          \<and> map_of (m_mapClientId (m_pTcpServer r4)) (tc_clientid c') = Some \<lparr>tcpClientCtx = a', ex_userId = tm_userId t\<rparr>
          \<and> media_handle (m_pUdpServer_obj r4) (Datagram now d (Some src)) = Inr (m', [])))"
proof -
  obtain r1 r2 where r: "relay_handle env r (Tcp (Ev_Recv le (tcpClientCtx ex) n buf)) = Inr (r1, [Out_Tcp (Uv_Close (tcpClientCtx ex))])"
    "relay_handle env r1 (Tcp (Ev_After_Close (tcpClientCtx ex))) = Inr (r2, [])"
    "links (m_pUdpServer_obj r2) = {(x, y) \<in> links (m_pUdpServer_obj r). x \<noteq> tm_userId t \<and> y \<noteq> tm_userId t}"
    using disconnect_logs_out [OF assms(3-7,9), of env le buf] assms(8) by auto
  let ?w = "wire_of (ne_le en) (ne_junk en) (msg_bindUserIdOnServer t)"
  obtain s' out where s: "AfterReconnectSuccess en s = Inr (s', out)" "m_pUdpClient s' = m_pUdpClient s"
    "{x. N_Tcp (C_Accept x) \<in> set out} = {?w}"
    by (rule reconnected [OF assms(1,2)])
  have "\<exists>r4 m'. relay_handle env r3 (Tcp (Ev_Recv (ne_le en) a' (int (length ?w)) ?w)) = Inr (r4, [])
      \<and> map_of (m_mapClientId (m_pTcpServer r4)) (tc_clientid c') = Some \<lparr>tcpClientCtx = a', ex_userId = tm_userId t\<rparr>
      \<and> media_handle (m_pUdpServer_obj r4) (Datagram now d (Some src)) = Inr (m', [])"
    if r3: "relay_inv r3" "m_pUdpServer_obj r3 = m_pUdpServer_obj r2" "map_of (ctxs (m_pTcpServer r3)) a' = Some c'"
      "tcphandle c' = Handle_Reading" "sync_ready (ne_le en) SERVER_PACKET_HEAD SERVER_PACKET_TAIL (tc_packet c')"
      "pending (tc_packet c') = []" "map_of (m_mapClientId (m_pTcpServer r3)) (tc_clientid c') = None" for r3 a' c'
  proof -
    obtain r4 where r4: "relay_handle env r3 (Tcp (Ev_Recv (ne_le en) a' (int (length ?w)) ?w)) = Inr (r4, [])"
      "relay_inv r4" "m_pUdpServer_obj r4 = m_pUdpServer_obj r2"
      "map_of (m_mapClientId (m_pTcpServer r4)) (tc_clientid c') = Some \<lparr>tcpClientCtx = a', ex_userId = tm_userId t\<rparr>"
      using wire_of_bind [OF r3(1,3-6), of ?w "ne_junk en" "tm_userId t" env] r3(2,7)
      by (auto simp: msg_bindUserIdOnServer_def)
    have "up_userId (udp_of_bytes (udp_recv_into d (uh_buf (m_pUdpServer_obj r4)))) = tm_userId t"
      using assms(10,11,13) r4(2) by (simp add: udp_of_bytes_def udp_recv_into_def relay_inv_def media_inv_def)
    from media_goes [OF r4(2) assms(10-12) this, of now src] show ?thesis using r4(1,4) r(3) by (fastforce simp: r4(3))
  qed
  moreover have "?w = wire_of (ne_le en) (ne_junk en) (bytes_userId (tm_userId t), REQ_BIND_USERID)"
    by (simp add: msg_bindUserIdOnServer_def)
  ultimately show ?thesis using r s by blast
qed

text \<open>
  A member that is removed from the group: the packet that is sent takes away the link to it at
  the server, and the message that is posted takes away the peer and its timer at the module.
\<close>

theorem remove_member_unlinks:
  fixes en :: net_env
  assumes "m_pTcpClient s = Some t" "m_pUdpClient s = Some u" "v \<noteq> tm_userId t"
    "relay_inv r" "map_of (ctxs (m_pTcpServer r)) a = Some c" "tcphandle c = Handle_Reading"
    "sync_ready (ne_le en) SERVER_PACKET_HEAD SERVER_PACKET_TAIL (tc_packet c)" "pending (tc_packet c) = []"
    "address (m_pUdpServer_obj r) (tm_userId t) \<noteq> None" "address (m_pUdpServer_obj r) v \<noteq> None"
  shows "\<exists>s1 t1 w s2 u2 r'. RemoveGroupClientNode en v s
      = Inr (s1, [N_Tcp C_Async, N_Post (MSG_ID (Obj_RemoveForwardNode v)) (Obj_RemoveForwardNode v)])
    \<and> m_pTcpClient s1 = Some t1 \<and> c_sends (tm_client t1) = c_sends (tm_client t) @ [(w, 0)]
    \<and> net_handle en s1 (N_Dispatch rs junk port (MSG_ID (Obj_RemoveForwardNode v)) (Obj_RemoveForwardNode v)) = Inr (s2, [])
    \<and> m_pUdpClient s2 = Some u2 \<and> map_of (m_mapPeerClientCtx u2) v = None \<and> map_of (m_mapP2PTimer u2) v = None
    \<and> relay_handle env r (Tcp (Ev_Recv (ne_le en) a (int (length w)) w)) = Inr (r', [])
    \<and> links (m_pUdpServer_obj r') = links (m_pUdpServer_obj r) - {(tm_userId t, v)}"
proof -
  let ?m = "\<lparr>uft_srcUserId = tm_userId t, uft_dstUserId = v, uft_add = False\<rparr> :: CReqUpdateForwardTableMsg"
  let ?q = "(bytes_CReqUpdateForwardTableMsg ?m, REQ_UPDATE_FORWARDTABLE)"
  let ?w = "wire_of (ne_le en) (ne_junk en) ?q"
  let ?t = "t\<lparr>tm_client := (tm_client t)\<lparr>c_sends := c_sends (tm_client t) @ [(?w, 0)]\<rparr>\<rparr>"
  have len: "length (fst ?q) < 1000" by (simp add: bytes_CReqUpdateForwardTableMsg_def)
  have "RemoveGroupClientNode en v s = Inr (s\<lparr>m_pTcpClient := Some ?t\<rparr>,
      [N_Tcp C_Async, N_Post (MSG_ID (Obj_RemoveForwardNode v)) (Obj_RemoveForwardNode v)])"
    using assms(1-3) by (simp add: RemoveGroupClientNode_def msg_RemoveForwardNode_def via_tcp_def tcp_send_eq [OF len]
        SendUvThreadMessage_def)
  moreover have "net_handle en (s\<lparr>m_pTcpClient := Some ?t\<rparr>) (N_Dispatch rs junk port (MSG_ID (Obj_RemoveForwardNode v)) (Obj_RemoveForwardNode v))
      = Inr (s\<lparr>m_pTcpClient := Some ?t, m_pUdpClient := Some (OnRemoveForwardNodeMsg v u)\<rparr>, [])"
    using assms(2) by (simp add: net_handle_def module_OnDispatchMsg_def module_handle_def SEND_MEDIA_MSG_def
        REQ_UDP_LOGIN_MSG_def REMOVE_FORWARD_NODE_MSG_def)
  moreover have "map_of (m_mapPeerClientCtx (OnRemoveForwardNodeMsg v u)) v = None"
    "map_of (m_mapP2PTimer (OnRemoveForwardNodeMsg v u)) v = None"
    by (simp_all add: OnRemoveForwardNodeMsg_def removeP2PTimer_def)
  moreover obtain r' where "relay_handle env r (Tcp (Ev_Recv (ne_le en) a (int (length ?w)) ?w)) = Inr (r', [])"
    "links (m_pUdpServer_obj r') = links (m_pUdpServer_obj r) - {(tm_userId t, v)}"
    using wire_of_update [OF assms(4-8), where m = ?m and env = env and junk = "ne_junk en" and w = ?w] assms(9,10)
    by auto
  ultimately show ?thesis by fastforce
qed

section \<open>Voice through the relay\<close>

text \<open>No peer is reached directly: a module in this state sends what it has to the server, once.\<close>

definition all_relayed :: "udp_module \<Rightarrow> bool" where
  "all_relayed u \<longleftrightarrow> \<not> m_bEnableP2P u \<or> m_mapPeerClientCtx u \<noteq> []
     \<and> (\<forall>(k, c)\<in>set (m_mapPeerClientCtx u). p2p_status c \<in> {Pending, RequireRelay})"

lemma send_direct_none:
  "\<forall>(k, c)\<in>set cs. p2p_status c \<in> {Pending, RequireRelay} \<Longrightarrow> send_direct d cs = Inr ([], cs \<noteq> [])"
  by (induction cs) auto

lemma all_relayed_sends:
  "all_relayed u \<Longrightarrow> OnSendMediaMsg d u = Inr (u, [Udp_Out (Sendmsg d (m_serverAddr u))])"
  using send_direct_none [of "m_mapPeerClientCtx u" d] by (auto simp: all_relayed_def OnSendMediaMsg_def)

lemma media_calls_net: "media_calls en (map (\<lambda>b. Net (f b)) bs) s = Inr (s, map (\<lambda>b. Out_Media (Net (f b))) bs)"
  by (induction bs) (simp_all add: media_call_def)

lemma relay_forwards:
  assumes "relay_inv r" "6 \<le> length w" "length w \<le> UDP_BUFFER_SIZE" "unat (w ! 5) mod 128 < MULTI_FORWARD_MSG"
    "of_nat (from_le (take 4 w)) = k"
  shows "\<exists>r' ds. relay_handle env r (Udp now w (Some src)) = Inr (r', ds)
    \<and> set ds = {Out_Media (Net (Sendmsg w (the (address (m_pUdpServer_obj r) b)))) |b. (k, b) \<in> links (m_pUdpServer_obj r)}"
proof -
  have "up_userId (udp_of_bytes (udp_recv_into w (uh_buf (m_pUdpServer_obj r)))) = k"
    using assms(1,2,3,5) by (simp add: udp_of_bytes_def udp_recv_into_def relay_inv_def media_inv_def)
  from media_goes [OF assms(1-4) this, of now src] obtain m' bs where
    "media_handle (m_pUdpServer_obj r) (Datagram now w (Some src))
      = Inr (m', map (\<lambda>b. Net (Sendmsg w (the (address (m_pUdpServer_obj r) b)))) bs)"
    "set bs = {b. (k, b) \<in> links (m_pUdpServer_obj r)}" by blast
  then show ?thesis by (auto simp: relay_handle_def to_media_def media_calls_net)
qed

lemma module_calls_out: "set out \<subseteq> range Udp_Out \<Longrightarrow> module_calls en out s = Inr (s, map N_Module out)"
  by (induction out) auto

text \<open>The packet at the receiving module.\<close>

lemma receiver_gets:
  assumes "m_pUdpClient p = Some v" "length (uh_buf v) = UDP_BUFFER_SIZE" "2 \<le> length d" "length d \<le> 60000"
    "map_of (m_mapPeerClientCtx v) k \<noteq> None" "m_pVoipDataListener v"
  shows "\<exists>p' out. net_handle en p (N_Loop_Udp (Packet (le_bytes 4 (unat k) @ d) (Some src))) = Inr (p', out)
    \<and> (if unat (d ! 1) mod 128 < MULTI_FORWARD_MSG then out = [N_Module (Voip_Data d k)]
       else \<forall>x y. N_Module (Voip_Data x y) \<notin> set out)"
proof -
  obtain v' out where v: "module_handle v (Packet (le_bytes 4 (unat k) @ d) (Some src)) = Inr (v', out)"
    "if unat (d ! 1) mod 128 < MULTI_FORWARD_MSG then out = [Voip_Data d k] else set out \<subseteq> range Udp_Out"
    using voip_received [OF assms(2-6), of src] by blast
  show ?thesis
  proof (cases "unat (d ! 1) mod 128 < MULTI_FORWARD_MSG")
    case True
    then show ?thesis using assms(1) v by (simp add: net_handle_def)
  next
    case False
    then have "set out \<subseteq> range Udp_Out" using v(2) by simp
    then show ?thesis using False assms(1) v(1) by (auto simp: net_handle_def module_calls_out)
  qed
qed

text \<open>
  Property C1. A voice packet of one application at the listener of another. The sender's module reaches no
  peer directly, the packet has 2 to 60000 bytes, the relay is in any state of its invariant, and the user at
  the receiving module is one the relay has a link to from the sender. The packet is posted to the thread of the sender's module and sent to the server
  once. When the type bits of its second byte are below those of the control messages, the relay forwards it
  to the address of every linked user and to no other, the receiver's among them, and a module that knows the
  sender and has a listener hands it over as it was given, under the id of the sender. With other type bits it is
  never handed to a listener.
\<close>

theorem voice_relayed:
  assumes "m_pUdpClient s = Some u" "cn_userId s = Some k" "all_relayed u" "m_serverAddr u = server"
    "2 \<le> length d" "length d \<le> 60000" "relay_inv r"
    "m_pUdpClient p = Some v" "length (uh_buf v) = UDP_BUFFER_SIZE" "map_of (m_mapPeerClientCtx v) k \<noteq> None" "m_pVoipDataListener v"
    "(k, um_userId v) \<in> links (m_pUdpServer_obj r)"
  shows "\<exists>m w p' out. net_sendVoipData d s = Inr (s, [N_Post (MSG_ID m) m], 0)
    \<and> net_handle en s (N_Dispatch rs junk port (MSG_ID m) m) = Inr (s, [N_Module (Udp_Out (Sendmsg w server))])
    \<and> net_handle en' p (N_Loop_Udp (Packet w (Some server))) = Inr (p', out)
    \<and> (if unat (d ! 1) mod 128 < MULTI_FORWARD_MSG
       then (\<exists>r' ds. relay_handle env r (Udp now w (Some src)) = Inr (r', ds)
          \<and> set ds = {Out_Media (Net (Sendmsg w (the (address (m_pUdpServer_obj r) b)))) |b. (k, b) \<in> links (m_pUdpServer_obj r)}
          \<and> Out_Media (Net (Sendmsg w (the (address (m_pUdpServer_obj r) (um_userId v))))) \<in> set ds
          \<and> address (m_pUdpServer_obj r) (um_userId v) \<noteq> None \<and> out = [N_Module (Voip_Data d k)])
       else \<forall>x y. N_Module (Voip_Data x y) \<notin> set out)"
proof -
  let ?w = "le_bytes 4 (unat k) @ d"
  let ?m = "Obj_SendMedia ?w"
  have 1: "net_sendVoipData d s = Inr (s, [N_Post (MSG_ID ?m) ?m], 0)"
    using assms(1,2) by (simp add: net_sendVoipData_def SendUvThreadMessage_def)
  have 2: "net_handle en s (N_Dispatch rs junk port (MSG_ID ?m) ?m) = Inr (s, [N_Module (Udp_Out (Sendmsg ?w server))])"
    using assms(1,4) all_relayed_sends [OF assms(3)]
    by (simp add: net_handle_def module_OnDispatchMsg_def module_handle_def)
  obtain p' out where 3: "net_handle en' p (N_Loop_Udp (Packet ?w (Some server))) = Inr (p', out)"
    "if unat (d ! 1) mod 128 < MULTI_FORWARD_MSG then out = [N_Module (Voip_Data d k)]
       else \<forall>x y. N_Module (Voip_Data x y) \<notin> set out"
    using receiver_gets [OF assms(8,9,5,6,10,11)] by blast
  have 4: "\<exists>r' ds. relay_handle env r (Udp now ?w (Some src)) = Inr (r', ds)
      \<and> set ds = {Out_Media (Net (Sendmsg ?w (the (address (m_pUdpServer_obj r) b)))) |b. (k, b) \<in> links (m_pUdpServer_obj r)}"
    if "unat (d ! 1) mod 128 < MULTI_FORWARD_MSG"
    by (rule relay_forwards [OF assms(7)])
      (use assms(5,6) that in \<open>simp_all add: UDP_BUFFER_SIZE_def nth_append\<close>)
  have "address (m_pUdpServer_obj r) (um_userId v) \<noteq> None"
    using assms(7,12) link_ok_target by (fastforce simp: relay_inv_def media_inv_def address_def)
  then show ?thesis using 1 2 3 4 assms(12) by (cases "unat (d ! 1) mod 128 < MULTI_FORWARD_MSG") auto
qed

section \<open>Instances\<close>

definition last_try_module :: udp_module where
  "last_try_module = (udp_module_new quiet_addr 2 1)\<lparr>
     m_mapPeerClientCtx := [(1, \<lparr>WANAddr = Some quiet_addr, LANAddr = Some quiet_addr, p2p_status = Pending\<rparr>)],
     m_mapP2PTimer := [(1, \<lparr>tm_msg = quiet_junk\<lparr>up_del := True, up_dstUserId := 1\<rparr>, repeatTimes = 0, tm_repeat = 150\<rparr>)]\<rparr>"

lemma last_try_inv: "p2p_inv last_try_module"
  by (simp add: p2p_inv_def timers_ok_def last_try_module_def udp_module_new_def udp_handle.extend_def
      udp_module.fields_def udp_handle_new_def)

definition relayed_module :: udp_module where
  "relayed_module = (udp_module_new quiet_addr 1 1)\<lparr>m_mapPeerClientCtx := [(2, \<lparr>WANAddr = Some quiet_addr, LANAddr = Some quiet_addr,
     p2p_status = RequireRelay\<rparr>)]\<rparr>"

definition listening_module :: udp_module where
  "listening_module = last_try_module\<lparr>m_pVoipDataListener := True\<rparr>"

lemma demo_net_fields:
  "m_pTcpClient (demo_net last_try_module) = Some (demo_tcp_module 2)"
  "m_pUdpClient (demo_net last_try_module) = Some last_try_module"
  "tm_userId (demo_tcp_module 2) = 2"
  by (simp_all add: demo_net_def last_try_module_def udp_module_new_def udp_module.defs udp_handle.defs
      demo_tcp_module_def tcp_module_new_def)

lemma demo_relay_fields:
  "map_of (ctxs (m_pTcpServer demo_relay)) 0 = Some (demo_client (sync_started 1 2 junk_packet))"
  "tcphandle (demo_client ps) = Handle_Reading" "tc_packet (demo_client ps) = ps"
  "address (m_pUdpServer_obj demo_relay) = [1 \<mapsto> demo_addr 1, 2 \<mapsto> demo_addr 2]"
  "links (m_pUdpServer_obj demo_relay) = {(1, 2)}"
  by (simp_all add: demo_relay_def demo_tcp_def demo_client_def demo_abs)

lemma demo_sync:
  "sync_ready le SERVER_PACKET_HEAD SERVER_PACKET_TAIL (sync_started 1 2 junk_packet)"
  "pending (sync_started 1 2 junk_packet) = []"
  using sync_started_ready(1) [of le 1 2 junk_packet] sync_started_ready(2) [of 1 2 junk_packet]
  by (simp_all add: SERVER_PACKET_HEAD_def SERVER_PACKET_TAIL_def)

theorem fallback_relays_witness:
  "\<exists>s' out w r' m' ds. net_handle demo_net_env (demo_net last_try_module) (N_Loop_Udp (P2P_Tick quiet_junk 1)) = Inr (s', out)
    \<and> {x. N_Tcp (C_Accept x) \<in> set out} = {w}
    \<and> relay_handle demo_env demo_relay (Tcp (Ev_Recv True 0 (int (length w)) w)) = Inr (r', [])
    \<and> links (m_pUdpServer_obj r') = {(1, 2), (2, 1)}
    \<and> media_handle (m_pUdpServer_obj r') (Datagram 0 [2, 0, 0, 0, 0, 0x10, 7] (Some quiet_addr)) = Inr (m', ds)
    \<and> Net (Sendmsg [2, 0, 0, 0, 0, 0x10, 7] (demo_addr 1)) \<in> set ds"
proof -
  let ?t = "demo_tcp_module 2" and ?d = "[2, 0, 0, 0, 0, 0x10, 7] :: bytes"
  obtain ctx where ctx: "map_of (m_mapP2PTimer last_try_module) 1 = Some ctx" "repeatTimes ctx = 0" "up_del (tm_msg ctx)"
    by (simp add: last_try_module_def)
  have room: "roomy ?t (msg_AddForwardNode 1 ?t)"
    by (rule demo_roomy) (simp add: msg_AddForwardNode_def bytes_CReqUpdateForwardTableMsg_def)
  have d: "6 \<le> length ?d" "length ?d \<le> UDP_BUFFER_SIZE" "unat (?d ! 5) mod 128 < MULTI_FORWARD_MSG"
    "of_nat (from_le (take 4 ?d)) = tm_userId ?t"
    by (simp_all add: UDP_BUFFER_SIZE_def MULTI_FORWARD_MSG_def from_le_def demo_net_fields)
  have en: "ne_le demo_net_env = True" by (simp add: demo_net_env_def)
  from fallback_relays [OF demo_net_fields(1,2) last_try_inv ctx room demo_relay_inv demo_relay_fields(1,2) _ _ _ _ d,
      of demo_net_env quiet_junk demo_env 0 quiet_addr]
  show ?thesis by (simp add: demo_relay_fields demo_sync demo_net_fields en insert_commute)
qed

theorem remove_member_unlinks_witness:
  "\<exists>s1 w s2 u2 r'. RemoveGroupClientNode demo_net_env 1 (demo_net last_try_module)
      = Inr (s1, [N_Tcp C_Async, N_Post (MSG_ID (Obj_RemoveForwardNode 1)) (Obj_RemoveForwardNode 1)])
    \<and> net_handle demo_net_env s1 (N_Dispatch [] quiet_junk 0 (MSG_ID (Obj_RemoveForwardNode 1)) (Obj_RemoveForwardNode 1)) = Inr (s2, [])
    \<and> m_pUdpClient s2 = Some u2 \<and> map_of (m_mapP2PTimer u2) 1 = None
    \<and> relay_handle demo_env demo_relay (Tcp (Ev_Recv True 0 (int (length w)) w)) = Inr (r', [])
    \<and> links (m_pUdpServer_obj r') = {(1, 2)}"
proof -
  have en: "ne_le demo_net_env = True" by (simp add: demo_net_env_def)
  have "(1 :: u32) \<noteq> tm_userId (demo_tcp_module 2)" by (simp add: demo_net_fields)
  from remove_member_unlinks [OF demo_net_fields(1,2) this demo_relay_inv demo_relay_fields(1,2), where en = demo_net_env
      and env = demo_env and rs = "[]" and junk = quiet_junk and port = 0]
  show ?thesis by (fastforce simp: demo_relay_fields demo_sync demo_net_fields en)
qed

theorem reconnect_loses_links_witness:
  "\<exists>r1 r2 s' out w r4 m'. relay_handle demo_env demo_relay (Tcp (Ev_Recv True 0 (- 1) [])) = Inr (r1, [Out_Tcp (Uv_Close 0)])
    \<and> relay_handle demo_env r1 (Tcp (Ev_After_Close 0)) = Inr (r2, [])
    \<and> AfterReconnectSuccess demo_net_env (demo_net last_try_module) = Inr (s', out) \<and> {x. N_Tcp (C_Accept x) \<in> set out} = {w}
    \<and> w = wire_of True junk_packet (bytes_userId 2, REQ_BIND_USERID)
    \<and> relay_handle demo_env (r2\<lparr>m_pTcpServer := demo_tcp (sync_started 1 2 junk_packet) []\<rparr>)
        (Tcp (Ev_Recv True 0 (int (length w)) w)) = Inr (r4, [])
    \<and> map_of (m_mapClientId (m_pTcpServer r4)) 1 = Some \<lparr>tcpClientCtx = 0, ex_userId = 2\<rparr>
    \<and> media_handle (m_pUdpServer_obj r4) (Datagram 0 [2, 0, 0, 0, 0, 0x10, 7] (Some quiet_addr)) = Inr (m', [])"
proof -
  let ?t = "demo_tcp_module 2" and ?d = "[2, 0, 0, 0, 0, 0x10, 7] :: bytes" and ?ex = "\<lparr>tcpClientCtx = 0, ex_userId = 2\<rparr>"
  let ?T = "demo_tcp (sync_started 1 2 junk_packet) []"
  have room: "roomy ?t (msg_bindUserIdOnServer ?t)"
    by (rule demo_roomy) (simp add: msg_bindUserIdOnServer_def bytes_userId_def)
  have d: "6 \<le> length ?d" "length ?d \<le> UDP_BUFFER_SIZE" "unat (?d ! 5) mod 128 < MULTI_FORWARD_MSG"
    "of_nat (from_le (take 4 ?d)) = tm_userId ?t"
    by (simp_all add: UDP_BUFFER_SIZE_def MULTI_FORWARD_MSG_def from_le_def demo_net_fields)
  have ex: "\<not> mutex_held (m_pTcpServer demo_relay)" "map_of (m_mapClientId (m_pTcpServer demo_relay)) 1 = Some ?ex"
    "map_of (ctxs (m_pTcpServer demo_relay)) (tcpClientCtx ?ex) = Some (demo_client (sync_started 1 2 junk_packet))"
    "ex_userId ?ex = tm_userId ?t"
    by (simp_all add: demo_relay_def demo_tcp_def demo_bound_def demo_net_fields)
  obtain r1 r2 s' out w where r: "relay_handle demo_env demo_relay (Tcp (Ev_Recv True 0 (- 1) [])) = Inr (r1, [Out_Tcp (Uv_Close 0)])"
    "relay_handle demo_env r1 (Tcp (Ev_After_Close 0)) = Inr (r2, [])"
    "AfterReconnectSuccess demo_net_env (demo_net last_try_module) = Inr (s', out)" "{x. N_Tcp (C_Accept x) \<in> set out} = {w}"
    "w = wire_of (ne_le demo_net_env) (ne_junk demo_net_env) (bytes_userId (tm_userId ?t), REQ_BIND_USERID)"
    and later: "\<And>r3 a' c'. relay_inv r3 \<and> m_pUdpServer_obj r3 = m_pUdpServer_obj r2
        \<and> map_of (ctxs (m_pTcpServer r3)) a' = Some c' \<and> tcphandle c' = Handle_Reading
        \<and> sync_ready (ne_le demo_net_env) SERVER_PACKET_HEAD SERVER_PACKET_TAIL (tc_packet c') \<and> pending (tc_packet c') = []
        \<and> map_of (m_mapClientId (m_pTcpServer r3)) (tc_clientid c') = None
      \<Longrightarrow> \<exists>r4 m'. relay_handle demo_env r3 (Tcp (Ev_Recv (ne_le demo_net_env) a' (int (length w)) w)) = Inr (r4, [])
          \<and> map_of (m_mapClientId (m_pTcpServer r4)) (tc_clientid c') = Some \<lparr>tcpClientCtx = a', ex_userId = tm_userId ?t\<rparr>
          \<and> media_handle (m_pUdpServer_obj r4) (Datagram 0 ?d (Some quiet_addr)) = Inr (m', [])"
    using reconnect_loses_links [OF demo_net_fields(1) room demo_relay_inv ex(1-3) demo_relay_fields(2) ex(4) _ d,
      where n = "- 1" and env = demo_env and le = True and buf = "[]" and en = demo_net_env and now = 0 and src = quiet_addr]
    by auto
  have "relay_inv r2" using relay_handle_inv [OF relay_handle_inv [OF demo_relay_inv r(1)] r(2)] .
  then have inv: "relay_inv (r2\<lparr>m_pTcpServer := ?T\<rparr>)" by (simp add: relay_inv_def demo_sig)
  have "map_of (ctxs ?T) 0 = Some (demo_client (sync_started 1 2 junk_packet))" by (simp add: demo_tcp_def)
  then show ?thesis
    using r later [of "r2\<lparr>m_pTcpServer := ?T\<rparr>" 0 "demo_client (sync_started 1 2 junk_packet)"] inv
    by (fastforce simp: demo_relay_fields demo_sync demo_net_env_def demo_net_fields demo_tcp_def demo_client_def)
qed

theorem voice_relayed_witness:
  "\<exists>m w p' r' ds. net_sendVoipData [1, 2, 3] (demo_net relayed_module) = Inr (demo_net relayed_module, [N_Post (MSG_ID m) m], 0)
    \<and> net_handle demo_net_env (demo_net relayed_module) (N_Dispatch [] quiet_junk 0 (MSG_ID m) m)
        = Inr (demo_net relayed_module, [N_Module (Udp_Out (Sendmsg w quiet_addr))])
    \<and> relay_handle demo_env demo_relay (Udp 0 w (Some quiet_addr)) = Inr (r', ds)
    \<and> set ds = {Out_Media (Net (Sendmsg w (demo_addr 2)))}
    \<and> net_handle demo_net_env (demo_net listening_module) (N_Loop_Udp (Packet w (Some quiet_addr)))
        = Inr (p', [N_Module (Voip_Data [1, 2, 3] 1)])"
proof -
  have s: "m_pUdpClient (demo_net relayed_module) = Some relayed_module" "cn_userId (demo_net relayed_module) = Some 1"
    "all_relayed relayed_module" "m_serverAddr relayed_module = quiet_addr"
    by (simp_all add: demo_net_def relayed_module_def udp_module_new_def udp_module.defs udp_handle.defs all_relayed_def)
  have d: "2 \<le> length [1, 2, 3 :: u8]" "length [1, 2, 3 :: u8] \<le> 60000" "unat ([1, 2, 3 :: u8] ! 1) mod 128 < MULTI_FORWARD_MSG"
    by (simp_all add: MULTI_FORWARD_MSG_def)
  have p: "m_pUdpClient (demo_net listening_module) = Some listening_module" "length (uh_buf listening_module) = UDP_BUFFER_SIZE"
    "map_of (m_mapPeerClientCtx listening_module) 1 \<noteq> None" "m_pVoipDataListener listening_module"
    "(1, um_userId listening_module) \<in> links (m_pUdpServer_obj demo_relay)"
    using last_try_inv by (simp_all add: demo_net_def listening_module_def p2p_inv_def last_try_module_def
        udp_module_new_def udp_module.defs udp_handle.defs demo_relay_fields)
  show ?thesis
    using voice_relayed [OF s d(1,2) demo_relay_inv p, of demo_net_env "[]" quiet_junk 0 demo_net_env demo_env 0 quiet_addr] d(3)
    by (auto simp: demo_relay_fields simp del: One_nat_def)
qed

end
