(* ===== verification/Client_Sessions.thy ===== *)
theory Client_Sessions
  imports Client_Relay
begin

text \<open>
  Two conversations of a client with the relay server, over both sockets and with every step in between: how
  a user logs in on the UDP server, and how it learns the address of a peer.
\<close>

section \<open>Logging in on the UDP server\<close>

definition login_packet :: "UdpPacket \<Rightarrow> u16 \<Rightarrow> u8 \<Rightarrow> udp_module \<Rightarrow> UdpPacket" where
  "login_packet junk port i u = junk\<lparr>up_userId := um_userId u, up_type := of_nat LOGIN_MSG, up_dstUserId := um_sessionId u,
     up_localPort := port, up_index := i\<rparr>"

lemma login_packet_type: "unat (up_type (login_packet junk port i u)) = LOGIN_MSG" "up_userId (login_packet junk port i u) = um_userId u"
  by (simp_all add: login_packet_def LOGIN_MSG_def)

text \<open>The client's part: the posted request arms a timer, each tick of which sends the login packet.\<close>

lemma login_sent:
  assumes "m_pUdpClient s = Some u" "map_of (m_mapTimer u) i = None" "length (uh_buf u) = UDP_BUFFER_SIZE"
  shows "\<exists>s1 s2 u2. net_handle en s (N_Dispatch [i] junk port (MSG_ID Obj_UdpLogin) Obj_UdpLogin) = Inr (s1, [])
    \<and> net_handle en s1 (N_Loop_Udp (Login_Tick i))
        = Inr (s2, [N_Module (Udp_Out (Udp_Send (udp_bytes (login_packet junk port i u)) (m_serverAddr u)))])
    \<and> m_pUdpClient s2 = Some u2 \<and> length (uh_buf u2) = UDP_BUFFER_SIZE"
proof -
  let ?ctx = "\<lparr>tm_msg = login_packet junk port i u, repeatTimes = 0, tm_repeat = 300\<rparr>"
  let ?u1 = "u\<lparr>m_mapTimer := AList.update i ?ctx (m_mapTimer u)\<rparr>"
  have 1: "net_handle en s (N_Dispatch [i] junk port (MSG_ID Obj_UdpLogin) Obj_UdpLogin) = Inr (s\<lparr>m_pUdpClient := Some ?u1\<rparr>, [])"
    using assms(1,2) by (simp add: net_handle_def module_OnDispatchMsg_def module_handle_def OnUdpLoginMsg_def gernerateLoginTimer_def
        generateTimerCtx_def login_packet_def REQ_UDP_LOGIN_MSG_def SEND_MEDIA_MSG_def del: map_of_eq_Some_iff)
  have "module_handle ?u1 (Login_Tick i) = Inr (LoginTimer ?ctx ?u1)"
    by (simp add: module_handle_def update_conv' del: map_of_eq_Some_iff)
  moreover obtain u2 where "LoginTimer ?ctx ?u1 = (u2, [Udp_Out (Udp_Send (udp_bytes (login_packet junk port i u)) (m_serverAddr u))])"
    "length (uh_buf u2) = length (uh_buf u)"
    by (simp add: LoginTimer_def Let_def)
  ultimately show ?thesis using 1 assms(3)
    by (intro exI [of _ "s\<lparr>m_pUdpClient := Some ?u1\<rparr>"] exI [of _ "s\<lparr>m_pUdpClient := Some u2\<rparr>"] exI [of _ u2])
      (simp add: net_handle_def)
qed

text \<open>The server's part.\<close>

lemma relay_udp_packet:
  assumes "relay_inv r"
  obtains m where "media_handle (m_pUdpServer_obj r) (Datagram now (udp_bytes p) (Some src)) = Inr (ParsePacket now p (udp_bytes p) src m)"
    "media_inv m" "links m = links (m_pUdpServer_obj r)" "address m = address (m_pUdpServer_obj r)"
    "m_mapForwardTable m = m_mapForwardTable (m_pUdpServer_obj r)"
proof -
  let ?s = "m_pUdpServer_obj r"
  have i: "media_inv ?s" using assms by (simp add: relay_inv_def)
  then have "snd (udp_receive (udp_bytes p) (Some src) ?s) = Some (p, udp_bytes p, src)"
    using udp_receive_some [of ?s "udp_bytes p" src] by (simp add: media_inv_def UDP_PACKET_SIZE_def UDP_BUFFER_SIZE_def udp_of_bytes_append)
  then show thesis
    using that [of "fst (udp_receive (udp_bytes p) (Some src) ?s)"] i
    by (simp add: media_handle_Datagram udp_receive_inv udp_receive_fields(1) del: media_handle.simps)
qed

lemma login_at_server:
  assumes "relay_inv r" "unat (up_type p) = LOGIN_MSG" "address (m_pUdpServer_obj r) (up_userId p) = None"
  shows "\<exists>r1 r2. relay_handle env r (Udp now (udp_bytes p) (Some src)) = Inr (r1, [Out_Media (Queue_Work \<lparr>vc_msg = p, vc_srcAddr = src\<rparr>)])
    \<and> relay_handle env r1 (Verified now' \<lparr>vc_msg = p, vc_srcAddr = src\<rparr> True) = Inr (r1, [])
    \<and> relay_handle env r1 (Verified now' \<lparr>vc_msg = p, vc_srcAddr = src\<rparr> False)
        = Inr (r2, [Out_Media (Net (Udp_Send (udp_bytes (p\<lparr>up_del := False, up_type := of_nat ACK_LOGIN\<rparr>)) src))])
    \<and> relay_inv r2 \<and> address (m_pUdpServer_obj r1) = address (m_pUdpServer_obj r)
    \<and> address (m_pUdpServer_obj r2) = (address (m_pUdpServer_obj r))(up_userId p \<mapsto> src)
    \<and> links (m_pUdpServer_obj r2) = links (m_pUdpServer_obj r)"
proof -
  obtain m where m: "media_handle (m_pUdpServer_obj r) (Datagram now (udp_bytes p) (Some src)) = Inr (ParsePacket now p (udp_bytes p) src m)"
    "media_inv m" "links m = links (m_pUdpServer_obj r)" "address m = address (m_pUdpServer_obj r)"
    by (rule relay_udp_packet [OF assms(1)])
  let ?ctx = "\<lparr>vc_msg = p, vc_srcAddr = src\<rparr>" and ?r1 = "r\<lparr>m_pUdpServer_obj := m\<rparr>"
  have n: "map_of (m_mapForwardTable m) (up_userId p) = None"
    using assms(3) unfolding m(4) [symmetric] by (simp add: address_def del: map_of_eq_Some_iff)
  then have "ParsePacket now p (udp_bytes p) src m = (m, [Queue_Work ?ctx])"
    using assms(2) by (simp add: ParsePacket_def OnRecvLoginMsg_def LOGIN_MSG_def MULTI_FORWARD_MSG_def)
  then have 1: "relay_handle env r (Udp now (udp_bytes p) (Some src)) = Inr (?r1, [Out_Media (Queue_Work ?ctx)])"
    using m(1) by (simp add: relay_handle_def to_media_def media_call_def)
  have 2: "relay_handle env ?r1 (Verified now' ?ctx True) = Inr (?r1, [])"
    by (simp add: relay_handle_def to_media_def AfterVerification_def)
  obtain m2 where m2: "OnUpdateLoginInfo now' p src m = (m2, [Net (Udp_Send (udp_bytes (p\<lparr>up_del := False, up_type := of_nat ACK_LOGIN\<rparr>)) src)])"
    by (simp add: OnUpdateLoginInfo_def OnAckClient_def udp_send_def Let_def ACK_LOGIN_def ACK_P2P_ADDR_def)
  have ok: "address m2 = (address m)(up_userId p \<mapsto> src)" "links m2 = links m"
    using OnUpdateLoginInfo_ok(1,2) [of now' p src m] m2 assms(3) m(4) by simp_all
  have 3: "relay_handle env ?r1 (Verified now' ?ctx False)
      = Inr (?r1\<lparr>m_pUdpServer_obj := m2\<rparr>, [Out_Media (Net (Udp_Send (udp_bytes (p\<lparr>up_del := False, up_type := of_nat ACK_LOGIN\<rparr>)) src))])"
    using assms(2) m2 by (simp add: relay_handle_def to_media_def AfterVerification_def media_call_def)
  have "relay_inv (?r1\<lparr>m_pUdpServer_obj := m2\<rparr>)" using relay_handle_inv [OF relay_handle_inv [OF assms(1) 1] 3] .
  then show ?thesis using 1 2 3 m ok by (intro exI [of _ ?r1] exI [of _ "?r1\<lparr>m_pUdpServer_obj := m2\<rparr>"]) simp
qed

section \<open>The login\<close>

text \<open>
  Property C2. Logging in on the UDP server. A client that was asked to log in sends its packet at the first
  tick of the timer; the server has it verified before it does anything; a refusal changes nothing; an
  acceptance gives the user the address the packet came from, and only that, and the answer makes the
  client that waits for it see its success.
\<close>

theorem login_handshake:
  assumes "m_pUdpClient s = Some u" "map_of (m_mapTimer u) i = None" "length (uh_buf u) = UDP_BUFFER_SIZE"
    "relay_inv r" "address (m_pUdpServer_obj r) (um_userId u) = None"
  shows "\<exists>s1 s2 s3 u3 w ctx ack r1 r2. net_handle en s (N_Dispatch [i] junk port (MSG_ID Obj_UdpLogin) Obj_UdpLogin) = Inr (s1, [])
    \<and> net_handle en s1 (N_Loop_Udp (Login_Tick i)) = Inr (s2, [N_Module (Udp_Out (Udp_Send w (m_serverAddr u)))])
    \<and> relay_handle env r (Udp now w (Some src)) = Inr (r1, [Out_Media (Queue_Work ctx)])
    \<and> address (m_pUdpServer_obj r1) = address (m_pUdpServer_obj r)
    \<and> relay_handle env r1 (Verified now' ctx True) = Inr (r1, [])
    \<and> relay_handle env r1 (Verified now' ctx False) = Inr (r2, [Out_Media (Net (Udp_Send ack src))])
    \<and> address (m_pUdpServer_obj r2) = (address (m_pUdpServer_obj r))(um_userId u \<mapsto> src)
    \<and> links (m_pUdpServer_obj r2) = links (m_pUdpServer_obj r)
    \<and> net_handle en s2 (N_Loop_Udp (Packet ack (Some server))) = Inr (s3, []) \<and> m_pUdpClient s3 = Some u3 \<and> m_bLoginSuccess u3"
proof -
  let ?p = "login_packet junk port i u"
  let ?ack = "?p\<lparr>up_del := False, up_type := of_nat ACK_LOGIN\<rparr>"
  note t = login_packet_type [of junk port i u]
  obtain s1 s2 u2 where c: "net_handle en s (N_Dispatch [i] junk port (MSG_ID Obj_UdpLogin) Obj_UdpLogin) = Inr (s1, [])"
    "net_handle en s1 (N_Loop_Udp (Login_Tick i)) = Inr (s2, [N_Module (Udp_Out (Udp_Send (udp_bytes ?p) (m_serverAddr u)))])"
    "m_pUdpClient s2 = Some u2" "length (uh_buf u2) = UDP_BUFFER_SIZE"
    using login_sent [OF assms(1-3), of en junk port] by blast
  obtain b n where "module_handle u2 (Packet (udp_bytes ?ack) (Some server))
      = module_ParsePacket ?ack (udp_bytes ?ack) server (u2\<lparr>uh_buf := b, m_nRecvByteCount := n\<rparr>)"
    using packet_handled [OF c(4)] by blast
  then obtain u3 where "module_handle u2 (Packet (udp_bytes ?ack) (Some server)) = Inr (u3, [])" "m_bLoginSuccess u3"
    by (simp add: module_ParsePacket_def ACK_LOGIN_def MULTI_FORWARD_MSG_def)
  then have a: "net_handle en s2 (N_Loop_Udp (Packet (udp_bytes ?ack) (Some server))) = Inr (s2\<lparr>m_pUdpClient := Some u3\<rparr>, [])"
    "m_pUdpClient (s2\<lparr>m_pUdpClient := Some u3\<rparr>) = Some u3" "m_bLoginSuccess u3"
    using c(3) by (simp_all add: net_handle_def)
  have "address (m_pUdpServer_obj r) (up_userId ?p) = None" using assms(5) t(2) by simp
  from login_at_server [OF assms(4) t(1) this, of env now src now'] c(1,2) a show ?thesis unfolding t(2) by blast
qed

section \<open>Learning the address of a peer\<close>

lemma htons_twice [simp]: "htons le (htons le x) = x"
  by (simp add: htons_def)

lemma view_bytes_RspP2PAddr:
  "\<exists>k. view_CRspP2PAddrMsg (bytes_CRspP2PAddrMsg m) = Inr (m\<lparr>rsp_clientId := k\<rparr>)"
  by (cases m) (auto simp: view_CRspP2PAddrMsg_def bytes_CRspP2PAddrMsg_def msg_view_def u32_at_def u16_at_def nth_append)

lemma length_RspP2PAddr [simp]: "length (bytes_CRspP2PAddrMsg m) = 17"
  by (simp add: bytes_CRspP2PAddrMsg_def)

text \<open>The server's part: the answer goes out on the connection the request came in on.\<close>

lemma p2p_request_received:
  assumes "relay_inv r" "map_of (ctxs (m_pTcpServer r)) a = Some c" "tcphandle c = Handle_Reading"
    "sync_ready le SERVER_PACKET_HEAD SERVER_PACKET_TAIL (tc_packet c)" "pending (tc_packet c) = []"
    "map_of (m_mapClientId (m_pTcpServer r)) (tc_clientid c) = Some ex" "tcpClientCtx ex = a" "env_ret env a = 0"
    "w = wire_of le junk (bytes_CReqP2PAddrMsg q, REQ_P2PADDR)"
  shows "\<exists>r'. relay_handle env r (Tcp (Ev_Recv le a (int (length w)) w)) = Inr (r', [Out_Tcp (Uv_Write a (wire_of (env_le env) (env_junk env)
      (bytes_CRspP2PAddrMsg (OnReqP2PAddr (p2p_dstUserId q) (tc_clientid c) (m_pUdpServer_obj r)), RSP_P2PADDR)))])"
proof -
  let ?q = "(bytes_CReqP2PAddrMsg q, REQ_P2PADDR)" and ?T = "m_pTcpServer r"
    and ?m = "OnReqP2PAddr (p2p_dstUserId q) (tc_clientid c) (m_pUdpServer_obj r)"
  let ?a = "(bytes_CRspP2PAddrMsg ?m, RSP_P2PADDR)"
  have len: "length (fst ?q) < 1000" by (simp add: bytes_CReqP2PAddrMsg_def)
  have k: "rsp_clientId ?m = tc_clientid c" by (simp add: OnReqP2PAddr_def split: option.split)
  obtain ps' where h: "relay_handle env r (Tcp (Ev_Recv le a (int (length w)) w)) = tcp_calls env
      [Parse a (fst (with_check (head_of junk ?q, bytes_CReqP2PAddrMsg q))) (bytes_CReqP2PAddrMsg q)]
      (r\<lparr>m_pTcpServer := modify_ctx a (\<lambda>c. c\<lparr>tc_packet := ps'\<rparr>) ?T\<rparr>)"
    using recv_packet [OF assms(2-5), of "head_of junk ?q" "bytes_CReqP2PAddrMsg q"] head_of_sendable [OF len, of junk] assms(9)
    by (auto simp: wire_of_def)
  let ?t = "modify_ctx a (\<lambda>c. c\<lparr>tc_packet := ps'\<rparr>) ?T"
  have f: "m_pUdpServer ?t" "m_mapClientId ?t = m_mapClientId ?T"
    using assms(1) by (simp_all add: relay_inv_def sig_but_def modify_ctx_def split: option.split)
  have 1: "sig_ParsePacket (fst (with_check (head_of junk ?q, bytes_CReqP2PAddrMsg q))) (bytes_CReqP2PAddrMsg q) a ?t
      = Inr (?t, [To_Media (P2PAddr_Msg (p2p_dstUserId q) (tc_clientid c))])"
    using assms(2) f(1) by (simp add: sig_ParsePacket_def client_ctx_def with_check_def head_of_def OnP2PAddr_def call_media_def Let_def
        REQ_P2PADDR_def REQ_UPDATE_FORWARDTABLE_def REQ_LOGOUT_def REQ_BIND_USERID_def)
  have d: "PacketData (env_le env) (env_junk env) (bytes_CRspP2PAddrMsg ?m) RSP_P2PADDR = Inr (wire_of (env_le env) (env_junk env) ?a)"
    using PacketData_wire [of ?a "env_le env" "env_junk env"] by simp
  have "wire_of (env_le env) (env_junk env) ?a \<noteq> []" using length_wire_of [of ?a "env_le env" "env_junk env"] by (intro notI) simp
  then obtain t' where s: "sendinl (env_ret env) (wire_of (env_le env) (env_junk env) ?a) a ?t
      = (t', [Uv_Write a (wire_of (env_le env) (env_junk env) ?a)], True)"
    using assms(8) by (cases "m_listWriteParam ?t") (auto simp: sendinl_def Let_def)
  have 2: "OnRspP2PAddr (env_le env) (env_junk env) (env_ret env) ?m ?t = Inr (t', [Tcp_Out (Uv_Write a (wire_of (env_le env) (env_junk env) ?a))])"
    using assms(2,6,7) f(2) d s by (simp add: OnRspP2PAddr_def k)
  show ?thesis unfolding h using 1 2
    by (simp add: tcp_call_def to_media_def media_call_def)
qed

text \<open>The client's part: a read writes what was to be written first, and hands the packet to the module.\<close>

definition only_writes :: "client_out list \<Rightarrow> bool" where
  "only_writes out \<longleftrightarrow> (\<forall>x\<in>set out. \<exists>d. x = C_Write d \<or> x = C_Lost d)"

lemma send_loop_only_writes: "send_loop fuel rets i s = Inr (s', out) \<Longrightarrow> only_writes out"
proof (induction fuel arbitrary: i s out)
  case (Suc fuel)
  show ?case
  proof (cases "m_bEmpty (m_buferWrite s)")
    case False
    then show ?thesis using Suc
      by (fastforce simp: only_writes_def Let_def bind_outcome_Inr_iff split: list.splits)
  qed (use Suc.prems in \<open>simp add: only_writes_def\<close>)
qed simp

lemma client_calls_writes:
  "only_writes out \<Longrightarrow> client_calls en junk (out @ ys) s = map_outcome (\<lambda>(s, o'). (s, map N_Tcp out @ o')) (client_calls en junk ys s)"
proof (induction out)
  case (Cons x out)
  then have "client_call en junk x s = Inr (s, [N_Tcp x])" "only_writes out" by (auto simp: only_writes_def client_call_def)
  then show ?case using Cons.IH by (cases "client_calls en junk ys s") auto
qed (cases "client_calls en junk ys s"; auto)

lemma OnTcpRspP2PAddr_clientId [simp]: "OnTcpRspP2PAddr le junk (m\<lparr>rsp_clientId := k\<rparr>) u = OnTcpRspP2PAddr le junk m u"
  by (simp add: OnTcpRspP2PAddr_def OnRspP2PAddrMsg_def Let_def split: option.split)

lemma uv_ip4_addr_port [simp]: "sin_port (fst (uv_ip4_addr le ip port)) = htons le port"
  by (simp add: uv_ip4_addr_def Let_def split: option.split)

lemma tcp_ParsePacket_rsp:
  assumes "unat (np_type p) = RSP_P2PADDR" "view_CRspP2PAddrMsg d = Inr (m\<lparr>rsp_clientId := k\<rparr>)" "m_pUdpClient s = Some u"
  shows "\<exists>s'. tcp_ParsePacket en junk p d s = Inr (s', []) \<and> m_pUdpClient s' = Some (OnTcpRspP2PAddr (ne_le en) junk m u)"
proof -
  have "RSP_P2PADDR \<noteq> GET_SLAVE_ADDR_MSG" by (simp add: RSP_P2PADDR_def GET_SLAVE_ADDR_MSG_def)
  then have "tcp_ParsePacket en junk p d s = (if \<not> rsp_success m \<and> \<not> m_bInRoom u then Inr (s, [])
      else Inr (s\<lparr>m_pUdpClient := Some (OnTcpRspP2PAddr (ne_le en) junk m u)\<rparr>, []))"
    using assms by (simp add: tcp_ParsePacket_def in_room_def)
  moreover have "\<not> rsp_success m \<Longrightarrow> \<not> m_bInRoom u \<Longrightarrow> OnTcpRspP2PAddr (ne_le en) junk m u = u"
    by (simp add: OnTcpRspP2PAddr_def)
  ultimately show ?thesis using assms(3) by (cases "\<not> rsp_success m \<and> \<not> m_bInRoom u") auto
qed

lemma p2p_answer_received:
  fixes en :: net_env
  assumes "m_pTcpClient s = Some t" "c_handle (tm_client t) = CH_Reading" "c_data (tm_client t) = Data_Context"
    "sync_ready (ne_le en) SERVER_PACKET_HEAD SERVER_PACKET_TAIL (c_packet (tm_client t))" "pending (c_packet (tm_client t)) = []"
    "buffer_inv (tm_client t)" "m_pUdpClient s = Some u" "w = wire_of (ne_le en) junk (bytes_CRspP2PAddrMsg m, RSP_P2PADDR)"
  shows "\<exists>s' out. net_handle en s (N_Loop_Tcp junk' (Cl_Recv (ne_le en) (int (length w)) w rets)) = Inr (s', out)
    \<and> m_pUdpClient s' = Some (OnTcpRspP2PAddr (ne_le en) junk' m u)"
proof -
  let ?m = "(bytes_CRspP2PAddrMsg m, RSP_P2PADDR)" and ?c = "tm_client t"
  let ?p = "fst (with_check (head_of junk ?m, bytes_CRspP2PAddrMsg m))"
  obtain c1 out1 where c1: "send_inl None rets ?c = Inr (c1, out1)" "same_but_buffer ?c c1"
    using send_inl_law [OF assms(6), of None rets] by auto
  have o: "only_writes out1" using c1(1) by (simp only: send_inl_def option.case Let_def) (erule send_loop_only_writes)
  have "sendable SERVER_PACKET_HEAD SERVER_PACKET_TAIL (head_of junk ?m, bytes_CRspP2PAddrMsg m)"
    using head_of_sendable [of ?m junk] by simp
  then obtain ps' where ps': "recvdata (ne_le en) (c_packet ?c) w = Some (Inr (ps', [with_check (head_of junk ?m, bytes_CRspP2PAddrMsg m)]))"
    using recvdata_wire [OF assms(4,5)] assms(8) by (auto simp: wire_of_def SERVER_PACKET_TAIL_def)
  have "0 < length w" using length_wire_of [of ?m "ne_le en" junk] assms(8) by simp
  then have h: "client_handle ?c (Cl_Recv (ne_le en) (int (length w)) w rets)
      = Inr (c1\<lparr>c_packet := ps'\<rparr>, out1 @ [C_Packet ?p (bytes_CRspP2PAddrMsg m)])"
    using assms(2,3) ps' c1 same_but_buffer_fields(1) [OF c1(2)]
    by (simp add: client_handle_def client_enabled_def c_AfterRecv_def with_check_def)
  let ?s = "s\<lparr>m_pTcpClient := Some (t\<lparr>tm_client := c1\<lparr>c_packet := ps'\<rparr>\<rparr>)\<rparr>"
  obtain k where k: "view_CRspP2PAddrMsg (bytes_CRspP2PAddrMsg m) = Inr (m\<lparr>rsp_clientId := k\<rparr>)"
    using view_bytes_RspP2PAddr by blast
  have ty: "unat (np_type ?p) = RSP_P2PADDR" by (simp add: with_check_def head_of_def RSP_P2PADDR_def)
  obtain s' where "tcp_ParsePacket en junk' ?p (bytes_CRspP2PAddrMsg m) ?s = Inr (s', [])"
      "m_pUdpClient s' = Some (OnTcpRspP2PAddr (ne_le en) junk' m u)"
    using tcp_ParsePacket_rsp [OF ty k, of ?s u en junk'] assms(7) by auto
  then show ?thesis using assms(1) h
    by (intro exI [of _ s'] exI [of _ "map N_Tcp out1"]) (simp add: net_handle_def client_calls_writes [OF o] client_call_def)
qed

lemma TryP2PConnect_asks:
  fixes en :: net_env and v :: u32
  assumes "m_pTcpClient s = Some t" "roomy t (msg_GetP2PAddr (ne_clientId en) v t)"
  defines "w \<equiv> wire_of (ne_le en) (ne_junk en) (msg_GetP2PAddr (ne_clientId en) v t)"
  obtains b where "TryP2PConnect en v s = Inr (s\<lparr>m_pTcpClient := Some (t\<lparr>tm_client := (tm_client t)\<lparr>m_buferWrite := b\<rparr>\<rparr>)\<rparr>,
      map N_Tcp [C_Async, C_Accept w, C_Async, C_Return (length w)])" "cb_inv b"
proof -
  have len: "length (fst (msg_GetP2PAddr (ne_clientId en) v t)) < 1000" by (simp add: msg_GetP2PAddr_def bytes_CReqP2PAddrMsg_def)
  obtain b where "loop_send (ne_le en) (ne_junk en) (msg_GetP2PAddr (ne_clientId en) v t) t
      = Inr (t\<lparr>tm_client := (tm_client t)\<lparr>m_buferWrite := b\<rparr>\<rparr>, [C_Async, C_Accept w, C_Async, C_Return (length w)])" "cb_inv b"
    using loop_send_eq [OF len assms(2)] unfolding w_def by blast
  then show thesis using that assms(1) by (simp add: TryP2PConnect_def via_tcp_def)
qed

lemma OnTcpRspP2PAddr_learned:
  assumes "map_of (m_mapPeerClientCtx u) (rsp_dstUserId m) \<noteq> None" "rsp_success m"
  shows "\<exists>x. map_of (m_mapPeerClientCtx (OnTcpRspP2PAddr le junk m u)) (rsp_dstUserId m) = Some x
    \<and> WANAddr x = Some \<lparr>sin_family = AF_INET, sin_port = rsp_dstPort m, sin_addr = rsp_dstIp m, sin_zero = replicate 8 0\<rparr>
    \<and> map_option sin_port (LANAddr x) = Some (rsp_dstLocalUdpPort m)
    \<and> map_of (m_mapP2PTimer (OnTcpRspP2PAddr le junk m u)) (rsp_dstUserId m) \<noteq> None"
  using assms by (auto simp: OnTcpRspP2PAddr_def OnRspP2PAddrMsg_def Let_def tryLANP2PConnect_def gernerateP2PTimer_def
      removeP2PTimer_def punchhole_msg_def uv_ip4_addr_ip_int2string update_conv' simp del: map_of_eq_Some_iff)

lemma OnTcpRspP2PAddr_answer:
  fixes le :: bool and junk :: UdpPacket and k :: int and r :: media_server
  assumes "map_of (m_mapPeerClientCtx u) v \<noteq> None" "m_bInRoom u"
  defines "u2 \<equiv> OnTcpRspP2PAddr le junk (OnReqP2PAddr v k r) u"
  shows "case map_of (m_mapForwardTable r) v of None \<Rightarrow> v \<in> set (m_setFailRequest u2)
       | Some ft \<Rightarrow> map_of (m_mapP2PTimer u2) v \<noteq> None \<and> (\<exists>x. map_of (m_mapPeerClientCtx u2) v = Some x
           \<and> WANAddr x = Some \<lparr>sin_family = AF_INET, sin_port = sin_port (ft_addr ft), sin_addr = sin_addr (ft_addr ft),
               sin_zero = replicate 8 0\<rparr>
           \<and> map_option sin_port (LANAddr x) = Some (ft_localUdpPort ft))"
proof -
  let ?m = "OnReqP2PAddr v k r"
  have v: "rsp_dstUserId ?m = v" by (simp add: OnReqP2PAddr_def split: option.split)
  show ?thesis
  proof (cases "map_of (m_mapForwardTable r) v")
    case None
    then have "\<not> rsp_success ?m" by (simp add: OnReqP2PAddr_def del: map_of_eq_None_iff)
    moreover obtain y where "map_of (m_mapPeerClientCtx u) v = Some y" using assms(1) by blast
    ultimately show ?thesis using assms(2) None v by (simp add: u2_def OnTcpRspP2PAddr_def del: map_of_eq_Some_iff)
  next
    case (Some ft)
    then have f: "rsp_success ?m" "rsp_dstIp ?m = sin_addr (ft_addr ft)" "rsp_dstPort ?m = sin_port (ft_addr ft)"
      "rsp_dstLocalUdpPort ?m = ft_localUdpPort ft"
      by (simp_all add: OnReqP2PAddr_def del: map_of_eq_Some_iff)
    have "map_of (m_mapPeerClientCtx u) (rsp_dstUserId ?m) \<noteq> None" using assms(1) v by simp
    from OnTcpRspP2PAddr_learned [OF this f(1), of le junk] show ?thesis unfolding u2_def v f(2-4) Some option.case by blast
  qed
qed

text \<open>
  Property C3. The address of a peer. The request of a client goes through the bytes of its connection to the
  server that has the peer's address, and the answer back on the same connection: a client that is in
  a room with the peer then knows the address the peer logged in from and its local port, and has
  begun to punch through to it; if the peer is not logged in, it is remembered to be asked for again.
\<close>

theorem peer_address_learned:
  fixes en :: net_env
  assumes "m_pTcpClient s = Some t" "roomy t (msg_GetP2PAddr (ne_clientId en) v t)" "c_handle (tm_client t) = CH_Reading"
    "c_data (tm_client t) = Data_Context"
    "sync_ready (ne_le en) SERVER_PACKET_HEAD SERVER_PACKET_TAIL (c_packet (tm_client t))" "pending (c_packet (tm_client t)) = []"
    "m_pUdpClient s = Some u" "map_of (m_mapPeerClientCtx u) v \<noteq> None" "m_bInRoom u"
    "relay_inv r" "map_of (ctxs (m_pTcpServer r)) a = Some c" "tcphandle c = Handle_Reading"
    "sync_ready (ne_le en) SERVER_PACKET_HEAD SERVER_PACKET_TAIL (tc_packet c)" "pending (tc_packet c) = []"
    "map_of (m_mapClientId (m_pTcpServer r)) (tc_clientid c) = Some ex" "tcpClientCtx ex = a"
    "env_ret env a = 0" "env_le env = ne_le en"
  shows "\<exists>s1 out w r' d s2 out2 u2. TryP2PConnect en v s = Inr (s1, out) \<and> {x. N_Tcp (C_Accept x) \<in> set out} = {w}
    \<and> relay_handle env r (Tcp (Ev_Recv (ne_le en) a (int (length w)) w)) = Inr (r', [Out_Tcp (Uv_Write a d)])
    \<and> net_handle en s1 (N_Loop_Tcp junk (Cl_Recv (ne_le en) (int (length d)) d rets)) = Inr (s2, out2) \<and> m_pUdpClient s2 = Some u2
    \<and> (case map_of (m_mapForwardTable (m_pUdpServer_obj r)) v of
         None \<Rightarrow> v \<in> set (m_setFailRequest u2)
       | Some ft \<Rightarrow> map_of (m_mapP2PTimer u2) v \<noteq> None \<and> (\<exists>x. map_of (m_mapPeerClientCtx u2) v = Some x
           \<and> WANAddr x = Some \<lparr>sin_family = AF_INET, sin_port = sin_port (ft_addr ft), sin_addr = sin_addr (ft_addr ft),
               sin_zero = replicate 8 0\<rparr>
           \<and> map_option sin_port (LANAddr x) = Some (ft_localUdpPort ft)))"
proof -
  let ?q = "\<lparr>p2p_srcUserId = tm_userId t, p2p_dstUserId = v, p2p_clientId = ne_clientId en\<rparr>"
  let ?m = "OnReqP2PAddr v (tc_clientid c) (m_pUdpServer_obj r)"
  let ?w = "wire_of (ne_le en) (ne_junk en) (msg_GetP2PAddr (ne_clientId en) v t)"
    and ?d = "wire_of (ne_le en) (env_junk env) (bytes_CRspP2PAddrMsg ?m, RSP_P2PADDR)"
  obtain b where b: "TryP2PConnect en v s = Inr (s\<lparr>m_pTcpClient := Some (t\<lparr>tm_client := (tm_client t)\<lparr>m_buferWrite := b\<rparr>\<rparr>)\<rparr>,
      map N_Tcp [C_Async, C_Accept ?w, C_Async, C_Return (length ?w)])" "cb_inv b"
    by (rule TryP2PConnect_asks [OF assms(1,2)])
  have "?w = wire_of (ne_le en) (ne_junk en) (bytes_CReqP2PAddrMsg ?q, REQ_P2PADDR)" by (simp add: msg_GetP2PAddr_def)
  from p2p_request_received [OF assms(10-17) this] obtain r' where
    r: "relay_handle env r (Tcp (Ev_Recv (ne_le en) a (int (length ?w)) ?w)) = Inr (r', [Out_Tcp (Uv_Write a ?d)])"
    by (auto simp: assms(18))
  let ?t = "t\<lparr>tm_client := (tm_client t)\<lparr>m_buferWrite := b\<rparr>\<rparr>"
  let ?s = "s\<lparr>m_pTcpClient := Some ?t\<rparr>"
  have i: "buffer_inv (tm_client ?t)" using assms(2) b(2) by (simp add: roomy_def c_roomy_def buffer_inv_def)
  obtain s2 out2 where s2: "net_handle en ?s (N_Loop_Tcp junk (Cl_Recv (ne_le en) (int (length ?d)) ?d rets)) = Inr (s2, out2)"
    "m_pUdpClient s2 = Some (OnTcpRspP2PAddr (ne_le en) junk ?m u)"
    using p2p_answer_received [of ?s ?t en u ?d "env_junk env" ?m junk rets] assms(3-7) i by auto
  let ?u = "OnTcpRspP2PAddr (ne_le en) junk ?m u"
  note OnTcpRspP2PAddr_answer [OF assms(8,9), where r = "m_pUdpServer_obj r" and le = "ne_le en" and junk = junk and k = "tc_clientid c"]
  then show ?thesis using b(1) r s2 by (intro exI [of _ ?s] exI [of _ "map N_Tcp [C_Async, C_Accept ?w, C_Async, C_Return (length ?w)]"]
      exI [of _ ?w] exI [of _ r'] exI [of _ ?d] exI [of _ s2] exI [of _ out2] exI [of _ ?u]) simp
qed

section \<open>Instances\<close>

definition asking_tcp :: tcp_module where
  "asking_tcp = demo_tcp_module 2\<lparr>tm_client := (tm_client (demo_tcp_module 2))\<lparr>c_packet := sync_started 1 2 junk_packet\<rparr>\<rparr>"

definition asking_udp :: udp_module where
  "asking_udp = (udp_module_new quiet_addr 2 1)\<lparr>m_mapPeerClientCtx := [(1, \<lparr>WANAddr = None, LANAddr = None, p2p_status = Pending\<rparr>)],
     m_bInRoom := True\<rparr>"

definition asking_net :: client_network where
  "asking_net = (demo_net asking_udp)\<lparr>m_pTcpClient := Some asking_tcp\<rparr>"

theorem login_handshake_witness:
  "\<exists>s1 s2 s3 u3 w ctx ack r1 r2. net_handle demo_net_env (demo_net (udp_module_new quiet_addr 9 1))
        (N_Dispatch [4] quiet_junk 7 (MSG_ID Obj_UdpLogin) Obj_UdpLogin) = Inr (s1, [])
    \<and> net_handle demo_net_env s1 (N_Loop_Udp (Login_Tick 4)) = Inr (s2, [N_Module (Udp_Out (Udp_Send w quiet_addr))])
    \<and> relay_handle demo_env demo_relay (Udp 0 w (Some (demo_addr 9))) = Inr (r1, [Out_Media (Queue_Work ctx)])
    \<and> relay_handle demo_env r1 (Verified 0 ctx False) = Inr (r2, [Out_Media (Net (Udp_Send ack (demo_addr 9)))])
    \<and> address (m_pUdpServer_obj r2) = (address (m_pUdpServer_obj demo_relay))(9 \<mapsto> demo_addr 9)
    \<and> net_handle demo_net_env s2 (N_Loop_Udp (Packet ack (Some quiet_addr))) = Inr (s3, []) \<and> m_pUdpClient s3 = Some u3 \<and> m_bLoginSuccess u3"
proof -
  let ?u = "udp_module_new quiet_addr 9 1"
  have u: "m_pUdpClient (demo_net ?u) = Some ?u" "map_of (m_mapTimer ?u) 4 = None" "length (uh_buf ?u) = UDP_BUFFER_SIZE"
    using udp_module_new_inv [of quiet_addr 9 1]
    by (simp_all add: demo_net_def p2p_inv_def) (simp add: udp_module_new_def udp_module.defs udp_handle.defs)
  have r: "address (m_pUdpServer_obj demo_relay) (um_userId ?u) = None" by (simp add: demo_relay_fields)
  from login_handshake [OF u demo_relay_inv r, of demo_net_env quiet_junk 7 demo_env 0 "demo_addr 9" 0 quiet_addr]
  show ?thesis unfolding udp_module_new_fields by (elim exE conjE) (intro exI conjI; assumption)
qed

theorem peer_address_learned_witness:
  "\<exists>s1 out w r' d s2 out2 u2 x. TryP2PConnect demo_net_env 1 asking_net = Inr (s1, out) \<and> {x. N_Tcp (C_Accept x) \<in> set out} = {w}
    \<and> relay_handle demo_env demo_relay (Tcp (Ev_Recv True 0 (int (length w)) w)) = Inr (r', [Out_Tcp (Uv_Write 0 d)])
    \<and> net_handle demo_net_env s1 (N_Loop_Tcp quiet_junk (Cl_Recv True (int (length d)) d (\<lambda>_. 0))) = Inr (s2, out2)
    \<and> m_pUdpClient s2 = Some u2 \<and> map_of (m_mapPeerClientCtx u2) 1 = Some x 
    \<and> WANAddr x = Some \<lparr>sin_family = AF_INET, sin_port = sin_port (demo_addr 1), sin_addr = sin_addr (demo_addr 1), sin_zero = replicate 8 0\<rparr>"
proof -
  have y: "sync_ready le SERVER_PACKET_HEAD SERVER_PACKET_TAIL (c_packet (tm_client asking_tcp))" "pending (c_packet (tm_client asking_tcp)) = []" for le
    using demo_sync by (simp_all add: asking_tcp_def)
  have t: "m_pTcpClient asking_net = Some asking_tcp" "c_handle (tm_client asking_tcp) = CH_Reading" "c_data (tm_client asking_tcp) = Data_Context"
    "m_pUdpClient asking_net = Some asking_udp" "map_of (m_mapPeerClientCtx asking_udp) 1 \<noteq> None" "m_bInRoom asking_udp"
    by (simp_all add: asking_net_def asking_tcp_def demo_tcp_module_def tcp_module_new_def tcp_client_new_def demo_net_def asking_udp_def)
  have room: "roomy asking_tcp (msg_GetP2PAddr (ne_clientId demo_net_env) 1 asking_tcp)"
    by (simp add: roomy_def c_roomy_def asking_tcp_def demo_tcp_module_def tcp_module_new_def buffer_inv_def tcp_client_new_def
        cb_new_def cb_inv_def cb_contents_def NET_PACKAGE_HEADLEN_def BUFFER_SIZE_def msg_GetP2PAddr_def bytes_CReqP2PAddrMsg_def)
  have e: "env_ret demo_env 0 = 0" "env_le demo_env = ne_le demo_net_env" "ne_le demo_net_env = True"
    by (simp_all add: demo_env_def demo_net_env_def)
  have k: "map_of (m_mapClientId (m_pTcpServer demo_relay)) (tc_clientid (demo_client (sync_started 1 2 junk_packet)))
      = Some \<lparr>tcpClientCtx = 0, ex_userId = 2\<rparr>" "tcpClientCtx \<lparr>tcpClientCtx = 0, ex_userId = 2\<rparr> = 0"
    by (simp_all add: demo_relay_def demo_tcp_def demo_bound_def demo_client_def)
  obtain ft where ft: "map_of (m_mapForwardTable (m_pUdpServer_obj demo_relay)) 1 = Some ft" "ft_addr ft = demo_addr 1"
    using fun_cong [OF demo_relay_fields(4), of 1] by (auto simp: address_def)
  have c: "sync_ready (ne_le demo_net_env) SERVER_PACKET_HEAD SERVER_PACKET_TAIL (tc_packet (demo_client (sync_started 1 2 junk_packet)))"
    "pending (tc_packet (demo_client (sync_started 1 2 junk_packet))) = []"
    using demo_sync by (simp_all add: demo_relay_fields)
  from peer_address_learned [OF t(1) room t(2,3) y t(4-6) demo_relay_inv demo_relay_fields(1,2) c k e(1,2), of quiet_junk "\<lambda>_. 0"]
  show ?thesis unfolding e(3) ft option.case by (elim exE conjE) (intro exI conjI; assumption)
qed

end
