(* ===== verification/Slave.thy ===== *)
theory Slave
  imports Client_Network Relay_System Master
begin

text \<open>
  A relay server as a slave of a master (\<open>relay_server_sdk/slave.cpp\<close>, \<open>slave.h\<close>) and the master
  on its TCP server: the TCP client of the slave with the login it sends, the report of its traffic, and the
  events of the master's loop. The handlers of the master are those of \<open>Master\<close>; every
  event of its loop is a run of their events. The address a slave logs in with is the one a client of
  a session gets.
\<close>

section \<open>The slave's connection\<close>

text \<open>\<open>CSlave\<close>; the constructor takes the port with 16 bits.\<close>

record slave =
  sl_client :: tcp_client
  m_nSlaveServerIp :: u32
  m_nSlaveServerPort :: u32

definition slave_new :: "NetPacket \<Rightarrow> u32 \<Rightarrow> u16 \<Rightarrow> slave" where
  "slave_new junk ip port = \<lparr>sl_client = tcp_client_new junk, m_nSlaveServerIp = ip, m_nSlaveServerPort = ucast port\<rparr>"

definition msg_LoginAsSlave :: "slave \<Rightarrow> bytes \<times> nat" where
  "msg_LoginAsSlave s = (bytes_SlaveNode \<lparr>node_ip = m_nSlaveServerIp s, node_port = ucast (m_nSlaveServerPort s)\<rparr>, SLAVE_LOGIN_MSG)"

type_synonym slave_result = "(slave \<times> client_out list) outcome"

text \<open>\<open>LoginAsSlave\<close> on the thread that starts the server, and on the thread of the slave's own loop.\<close>

definition LoginAsSlave :: "bool \<Rightarrow> NetPacket \<Rightarrow> slave \<Rightarrow> slave_result" where
  "LoginAsSlave le junk s = map_outcome (\<lambda>(c, out). (s\<lparr>sl_client := c\<rparr>, out))
     (c_SendUvMessage le junk (fst (msg_LoginAsSlave s)) (snd (msg_LoginAsSlave s)) (sl_client s))"

definition slave_AfterReconnectSuccess :: "bool \<Rightarrow> NetPacket \<Rightarrow> slave \<Rightarrow> slave_result" where
  "slave_AfterReconnectSuccess le junk s = map_outcome (\<lambda>(c, out). (s\<lparr>sl_client := c\<rparr>, out))
     (c_loop_send le junk (msg_LoginAsSlave s) (sl_client s))"

text \<open>The virtual functions of \<open>CTCPClient\<close>; \<open>CSlave\<close> binds no message and does nothing when disconnected.\<close>

definition slave_call :: "bool \<Rightarrow> NetPacket \<Rightarrow> client_out \<Rightarrow> slave \<Rightarrow> slave_result" where
  "slave_call le junk c s = (case c of
       C_Reconnected \<Rightarrow> slave_AfterReconnectSuccess le junk s
     | C_Disconnected \<Rightarrow> Inr (s, [])
     | C_Packet _ _ \<Rightarrow> Inr (s, [])
     | _ \<Rightarrow> Inr (s, [c]))"

fun slave_calls :: "bool \<Rightarrow> NetPacket \<Rightarrow> client_out list \<Rightarrow> slave \<Rightarrow> slave_result" where
  "slave_calls le junk [] s = Inr (s, [])"
| "slave_calls le junk (c # cs) s = bind_outcome (slave_call le junk c s) (\<lambda>(s, out).
     map_outcome (\<lambda>(s, out'). (s, out @ out')) (slave_calls le junk cs s))"

definition slave_handle :: "bool \<Rightarrow> NetPacket \<Rightarrow> slave \<Rightarrow> client_event \<Rightarrow> slave_result" where
  "slave_handle le junk s e = bind_outcome (client_handle (sl_client s) e) (\<lambda>(c, out).
     slave_calls le junk out (s\<lparr>sl_client := c\<rparr>))"

text \<open>What \<open>statusDetection\<close> of the media server sends; \<open>client_number\<close> is not set and is \<open>number\<close>.\<close>

definition msg_StatusReport :: "u32 \<Rightarrow> u64 \<Rightarrow> bytes \<times> nat" where
  "msg_StatusReport number network_status =
     (le_bytes 8 (unat network_status) @ le_bytes 4 (unat number), SLAVE_STATUS_REPORT_MSG)"

definition slave_report :: "bool \<Rightarrow> NetPacket \<Rightarrow> u32 \<Rightarrow> media_out \<Rightarrow> slave \<Rightarrow> slave_result" where
  "slave_report le junk number call s = (case call of
       Report_Status n \<Rightarrow> map_outcome (\<lambda>(c, out). (s\<lparr>sl_client := c\<rparr>, out))
         (c_SendUvMessage le junk (fst (msg_StatusReport number n)) (snd (msg_StatusReport number n)) (sl_client s))
     | _ \<Rightarrow> Inr (s, []))"

section \<open>The loop of the master\<close>

text \<open>
  What the master's loop meets: byte order, uninitialised headers, the answers of \<open>uv_write\<close>, what \<open>rand\<close>
  returns for each packet of the event, and the address \<open>uv_tcp_getsockname\<close> stores.
\<close>

record master_env =
  me_le :: bool
  me_junk :: NetPacket
  me_ret :: "nat \<Rightarrow> int"
  me_rand :: "nat \<Rightarrow> nat"
  me_sockname :: u32

definition master_call :: "master_env \<Rightarrow> nat \<Rightarrow> tcp_out \<Rightarrow> master \<Rightarrow> master_result" where
  "master_call en i call s = (case call of
       Parse a packet buf \<Rightarrow>
         master_ParsePacket (me_le en) (me_junk en) (me_ret en) (me_rand en i) (me_sockname en) packet buf a s
     | Close_CB k \<Rightarrow> Inr (master_CloseCB k s, [])
     | _ \<Rightarrow> Inr (s, [call]))"

fun master_calls :: "master_env \<Rightarrow> nat \<Rightarrow> tcp_out list \<Rightarrow> master \<Rightarrow> master_result" where
  "master_calls en i [] s = Inr (s, [])"
| "master_calls en i (c # cs) s = bind_outcome (master_call en i c s) (\<lambda>(s, out).
     map_outcome (\<lambda>(s, out'). (s, out @ out')) (master_calls en (Suc i) cs s))"

definition master_loop :: "master \<Rightarrow> master_env \<times> tcp_event \<Rightarrow> master_result" where
  "master_loop s ev = (let (en, e) = ev in bind_outcome (tcp_handle s e) (\<lambda>(s, out). master_calls en 0 out s))"

section \<open>The handlers behind the loop\<close>

text \<open>What the handlers of \<open>Master\<close> see: the state without the TCP server's part.\<close>

definition master_abs :: "master \<Rightarrow> master" where
  "master_abs s = tcp_server.extend empty_server (tcp_server.more s)"

lemma master_abs_fields [simp]:
  "m_vectorIndex (master_abs s) = m_vectorIndex s" "m_mapSlaveAddr (master_abs s) = m_mapSlaveAddr s"
  "m_setSlaveNodeWhitelist (master_abs s) = m_setSlaveNodeWhitelist s" "m_mapSessionIndex (master_abs s) = m_mapSessionIndex s"
  by (cases s; simp add: master_abs_def tcp_server.extend_def)+

lemma master_abs_update [simp]:
  "master_abs (s\<lparr>m_vectorIndex := v\<rparr>) = master_abs s\<lparr>m_vectorIndex := v\<rparr>"
  "master_abs (s\<lparr>m_mapSlaveAddr := n\<rparr>) = master_abs s\<lparr>m_mapSlaveAddr := n\<rparr>"
  "master_abs (s\<lparr>m_mapSessionIndex := i\<rparr>) = master_abs s\<lparr>m_mapSessionIndex := i\<rparr>"
  by (cases s; simp add: master_abs_def tcp_server.extend_def)+

lemma master_abs_more: "tcp_server.more s' = tcp_server.more s \<Longrightarrow> master_abs s' = master_abs s"
  by (simp add: master_abs_def)

lemma master_abs_send [simp]: "master_abs (fst (sendinl ret d a s)) = master_abs s"
  by (rule master_abs_more) (rule send_step(1))

lemma find_slave_abs: "find_slave r u (master_abs s) = map_outcome (\<lambda>(t, n). (master_abs t, n)) (find_slave r u s)"
  by (simp add: find_slave_def AllocateServerToSessionId_def Let_def del: map_of_eq_Some_iff split: option.split)

lemma master_ParsePacket_abs:
  assumes "master_ParsePacket le junk ret r sockname p buf a s = Inr (s', out)"
  shows "\<exists>es o'. run_events master_handle (master_abs s) es = Inr (master_abs s', o')"
proof -
  have none: ?thesis if "master_abs s' = master_abs s"
    using that by (intro exI [of _ "[]"] exI [of _ "[]"]) simp
  obtain c where c: "client_ctx a s = Inr c" using assms by (auto simp: master_ParsePacket_def bind_outcome_Inr_iff)
  let ?ty = "unat (np_type p)"
  consider m where "view_CSlaveLoginMsg buf = Inr m" "s' = fst (OnSlaveLogin sockname m (tc_clientid c) s)"
    | u where "OnReqSlaveAddr le junk ret r u a s = Inr (s', out)" | "s' = s"
    using assms c by (auto simp: master_ParsePacket_def Let_def bind_outcome_Inr_iff split: if_splits)
  then show ?thesis
  proof cases
    case 1
    have "run_events master_handle (master_abs s) [Slave_Login sockname m (tc_clientid c)] = Inr (master_abs s', [])"
      by (simp add: 1(2) master_handle_def OnSlaveLogin_def)
    then show ?thesis by blast
  next
    case 2
    then obtain t n where f: "find_slave r u s = Inr (t, n)" "master_abs s' = master_abs t"
      by (auto simp: OnReqSlaveAddr_def bind_outcome_Inr_iff case_prod_beta split: option.splits)
    then have "run_events master_handle (master_abs s) [Req_Slave r u] = Inr (master_abs s', [n])"
      by (simp add: master_handle_def find_slave_abs)
    then show ?thesis by blast
  qed (use none in simp)
qed

lemma run_events_append_ok:
  "run_events h s es = Inr (t, o1) \<Longrightarrow> run_events h t es' = Inr (u, o2) \<Longrightarrow> run_events h s (es @ es') = Inr (u, o1 @ o2)"
  by (induction es arbitrary: s o1) (auto simp: bind_outcome_Inr_iff)

lemma master_calls_abs:
  "master_calls en i cs s = Inr (s', out) \<Longrightarrow> \<exists>es o'. run_events master_handle (master_abs s) es = Inr (master_abs s', o')"
proof (induction cs arbitrary: i s out)
  case (Cons c cs)
  then obtain t o1 o2 where h: "master_call en i c s = Inr (t, o1)" "master_calls en (Suc i) cs t = Inr (s', o2)"
    by (auto simp: bind_outcome_Inr_iff)
  have "\<exists>es o'. run_events master_handle (master_abs s) es = Inr (master_abs t, o')"
  proof (cases c)
    case (Close_CB k)
    then have "run_events master_handle (master_abs s) [Slave_Closed k] = Inr (master_abs t, [])"
      using h(1) by (auto simp: master_call_def master_handle_def master_CloseCB_def)
    then show ?thesis by blast
  next
    case (Parse a p b)
    then show ?thesis using h(1) master_ParsePacket_abs by (simp add: master_call_def)
  qed (use h(1) in \<open>auto simp: master_call_def intro: exI [of _ "[]"]\<close>)
  moreover obtain es' o' where "run_events master_handle (master_abs t) es' = Inr (master_abs s', o')"
    using Cons.IH [OF h(2)] by blast
  ultimately show ?case using run_events_append_ok by metis
qed (auto intro: exI [of _ "[]"])

text \<open>
  The invariant of the whole: that of the TCP server, and every slave the master knows, but those in \<open>K\<close>, is
  a client that is connected.
\<close>

definition slaves_but :: "int set \<Rightarrow> master \<Rightarrow> bool" where
  "slaves_but K s \<longleftrightarrow> tcp_inv s \<and> reading_inv s
     \<and> (\<forall>k. map_of (m_mapSlaveAddr s) k \<noteq> None \<longrightarrow> k \<notin> K \<longrightarrow> map_of (m_mapClientsList s) k \<noteq> None)"

lemma tcp_inv_master [simp]:
  "tcp_inv (s\<lparr>m_vectorIndex := v\<rparr>) = tcp_inv s" "tcp_inv (s\<lparr>m_mapSlaveAddr := n\<rparr>) = tcp_inv s"
  "tcp_inv (s\<lparr>m_mapSessionIndex := i\<rparr>) = tcp_inv s"
  by (simp_all add: tcp_inv_defs)

text \<open>What a call of the handlers does to the TCP server and to the slaves.\<close>

definition call_frame :: "tcp_out \<Rightarrow> master \<Rightarrow> master \<Rightarrow> bool" where
  "call_frame c s s' \<longleftrightarrow> (tcp_inv s \<longrightarrow> tcp_inv s') \<and> m_mapClientsList s' = m_mapClientsList s \<and> ctxs s' = ctxs s
     \<and> (\<forall>k. map_of (m_mapSlaveAddr s') k \<noteq> None \<longrightarrow> map_of (m_mapSlaveAddr s) k \<noteq> None \<and> c \<noteq> Close_CB k
          \<or> (\<exists>a p d x. c = Parse a p d \<and> map_of (ctxs s) a = Some x \<and> tc_clientid x = k))"

lemma OnSlaveLogin_frame:
  "client_ctx a s = Inr x \<Longrightarrow> call_frame (Parse a p d) s (fst (OnSlaveLogin sockname m (tc_clientid x) s))"
  by (auto simp: call_frame_def OnSlaveLogin_def client_ctx_def update_conv' simp del: map_of_eq_Some_iff
      split: option.splits if_splits)

lemma find_slave_frame: "find_slave r u s = Inr (t, n) \<Longrightarrow> call_frame (Parse a p d) s t"
  by (erule find_slave_cases) (simp_all add: call_frame_def)

lemma call_frame_send: "call_frame c s t \<Longrightarrow> call_frame c s (fst (sendinl ret w a t))"
proof -
  have "m_mapSlaveAddr (fst (sendinl ret w a t)) = m_mapSlaveAddr t" by (simp add: sendinl_def Let_def split: list.split)
  then show "call_frame c s t \<Longrightarrow> call_frame c s (fst (sendinl ret w a t))"
    by (simp add: call_frame_def sendinl_inv(1) send_step(2,3))
qed

lemma master_call_frame:
  assumes "master_call en i c s = Inr (s', out)"
  shows "call_frame c s s'"
proof (cases c)
  case (Parse a p b)
  obtain x where x: "client_ctx a s = Inr x"
    using assms by (auto simp: master_call_def Parse master_ParsePacket_def bind_outcome_Inr_iff)
  consider m where "s' = fst (OnSlaveLogin (me_sockname en) m (tc_clientid x) s)"
    | u where "OnReqSlaveAddr (me_le en) (me_junk en) (me_ret en) (me_rand en i) u a s = Inr (s', out)" | "s' = s"
    using assms x by (auto simp: master_call_def Parse master_ParsePacket_def Let_def bind_outcome_Inr_iff split: if_splits)
  then show ?thesis
  proof cases
    case 1
    then show ?thesis using OnSlaveLogin_frame [OF x] by (simp add: Parse)
  next
    case 2
    then obtain t n where f: "find_slave (me_rand en i) u s = Inr (t, n)" "s' = t \<or> s' \<in> range (\<lambda>w. fst (sendinl (me_ret en) w a t))"
      by (auto simp: OnReqSlaveAddr_def bind_outcome_Inr_iff case_prod_beta split: option.splits)
    then show ?thesis using find_slave_frame [OF f(1)] call_frame_send by (auto simp: Parse)
  qed (simp add: call_frame_def Parse)
qed (use assms in \<open>auto simp: master_call_def master_CloseCB_def call_frame_def delete_conv' simp del: map_of_eq_Some_iff
      split: if_splits\<close>)

lemma slaves_call:
  assumes "slaves_but K s" "call_frame c s s'" "\<And>k. k \<in> K \<Longrightarrow> c = Close_CB k"
    "\<And>a p d. c = Parse a p d \<Longrightarrow> a \<in> set (clients_of s)"
  shows "slaves_but {} s'"
proof -
  have "map_of (m_mapClientsList s) k \<noteq> None" if k: "map_of (m_mapSlaveAddr s') k \<noteq> None" for k
  proof -
    consider "map_of (m_mapSlaveAddr s) k \<noteq> None" "c \<noteq> Close_CB k"
      | a p d x where "c = Parse a p d" "map_of (ctxs s) a = Some x" "tc_clientid x = k"
      using assms(2) k unfolding call_frame_def by blast
    then show ?thesis
    proof cases
      case 1
      then show ?thesis using assms(1,3) unfolding slaves_but_def by blast
    next
      case 2
      have "clients_inv s" using assms(1) by (simp add: slaves_but_def tcp_inv_def)
      then obtain j ac where "(j, ac) \<in> set (m_mapClientsList s)" "m_pClientHandle ac = a" "parent_acceptclient x = Some j"
        using owned_ctx [OF _ 2(2) assms(4) [OF 2(1)]] by blast
      moreover have "map_of (m_mapClientsList s) j = Some ac"
        using map_of_is_SomeI [OF clients_sorted_distinct calculation(1)] \<open>clients_inv s\<close> by (simp add: clients_inv_def)
      ultimately have "j = k" using clients_invD(3) [OF \<open>clients_inv s\<close>, of j ac] 2(2,3) by auto
      then show ?thesis using \<open>map_of (m_mapClientsList s) j = Some ac\<close> by simp
    qed
  qed
  then show ?thesis using assms(1,2) by (simp add: slaves_but_def call_frame_def reading_inv_def clients_of_def)
qed

lemma slaves_calls:
  "master_calls en i cs s = Inr (s', out) \<Longrightarrow> slaves_but {} s \<Longrightarrow> (\<And>a p d. Parse a p d \<in> set cs \<Longrightarrow> a \<in> set (clients_of s))
    \<Longrightarrow> slaves_but {} s'"
proof (induction cs arbitrary: i s out)
  case (Cons c cs)
  then obtain t o1 o2 where h: "master_call en i c s = Inr (t, o1)" "master_calls en (Suc i) cs t = Inr (s', o2)"
    by (auto simp: bind_outcome_Inr_iff)
  have f: "call_frame c s t" by (rule master_call_frame [OF h(1)])
  have "slaves_but {} t" using slaves_call [OF Cons.prems(2) f] Cons.prems(3) by auto
  moreover have "clients_of t = clients_of s" using f by (simp add: call_frame_def clients_of_def)
  ultimately show ?case using Cons.IH [OF h(2)] Cons.prems(3) by auto
qed simp

lemma master_loop_step:
  assumes "slaves_but {} s" "master_loop s ev = Inr (s', out)"
  shows "slaves_but {} s'" "\<exists>es o'. run_events master_handle (master_abs s) es = Inr (master_abs s', o')"
proof -
  obtain en e where ev: "ev = (en, e)" by (cases ev)
  have i: "tcp_inv s" "reading_inv s" using assms(1) by (simp_all add: slaves_but_def)
  obtain t o1 where h: "tcp_handle s e = Inr (t, o1)" "master_calls en 0 o1 t = Inr (s', out)"
    using assms(2) by (auto simp: master_loop_def ev bind_outcome_Inr_iff)
  have st: "step_clients s t o1" by (rule tcp_handle_step [OF i(1) h(1)])
  have m: "tcp_server.more t = tcp_server.more s" using st by (simp add: step_clients_def)
  have t: "m_mapSlaveAddr t = m_mapSlaveAddr s" "master_abs t = master_abs s" using m by (cases s; cases t; simp) (rule master_abs_more [OF m])
  have ti: "tcp_inv t" "reading_inv t" using tcp_handle_inv [OF i(1) h(1)] st i(2) by (simp_all add: step_clients_def)
  have keep: "slaves_but K t" if K: "\<And>k. o1 = [Close_CB k] \<Longrightarrow> k \<in> K" for K
  proof -
    have "map_of (m_mapClientsList t) k \<noteq> None" if k: "map_of (m_mapSlaveAddr s) k \<noteq> None" "k \<notin> K" for k
    proof -
      obtain ac where "map_of (m_mapClientsList s) k = Some ac" using assms(1) k(1) unfolding slaves_but_def by blast
      then have "map_of (m_mapClientsList t) k = Some ac \<or> o1 = [Close_CB k]" using st unfolding step_clients_def by blast
      then show ?thesis using K [of k] k(2) by (elim disjE) simp_all
    qed
    then show ?thesis using ti by (simp add: slaves_but_def t(1))
  qed
  show "slaves_but {} s'"
  proof (cases "\<exists>k. o1 = [Close_CB k]")
    case True
    then obtain k where k: "o1 = [Close_CB k]" by blast
    have "slaves_but {k} t" by (rule keep) (simp add: k)
    moreover obtain out' where "master_call en 0 (Close_CB k) t = Inr (s', out')"
      using h(2) by (auto simp: k bind_outcome_Inr_iff)
    ultimately show ?thesis by (rule slaves_call [OF _ master_call_frame]) simp_all
  next
    case False
    then have "slaves_but {} t" by (intro keep) simp
    moreover have "a \<in> set (clients_of t)" if "Parse a p d \<in> set o1" for a p d
      using that st False i(2) by (fastforce simp: step_clients_def)
    ultimately show ?thesis using slaves_calls [OF h(2)] by blast
  qed
  show "\<exists>es o'. run_events master_handle (master_abs s) es = Inr (master_abs s', o')"
    using master_calls_abs [OF h(2)] t(2) by simp
qed

interpretation master_net: event_handler master_loop "slaves_but {}" "\<lambda>_. True"
  by unfold_locales (rule master_loop_step(1))

lemma master_run_abs:
  "run_events master_loop s evs = Inr (s', out) \<Longrightarrow> slaves_but {} s \<Longrightarrow>
    \<exists>es o'. run_events master_handle (master_abs s) es = Inr (master_abs s', o')"
proof (induction evs arbitrary: s out)
  case (Cons ev evs)
  then obtain t o1 o2 where h: "master_loop s ev = Inr (t, o1)" "run_events master_loop t evs = Inr (s', o2)"
    by (auto simp: bind_outcome_Inr_iff)
  obtain es o1' where 1: "run_events master_handle (master_abs s) es = Inr (master_abs t, o1')"
    using master_loop_step(2) [OF Cons.prems(2) h(1)] by blast
  obtain es' o2' where 2: "run_events master_handle (master_abs t) es' = Inr (master_abs s', o2')"
    using Cons.IH [OF h(2) master_loop_step(1) [OF Cons.prems(2) h(1)]] by blast
  from run_events_append_ok [OF 1 2] show ?case by blast
qed (auto intro: exI [of _ "[]"])

section \<open>From the slave's login to the client\<close>

lemma view_SlaveNode [simp]:
  "view_CSlaveLoginMsg (bytes_SlaveNode n) = Inr n"
  "view_CRspSlaveAddrMsg (bytes_SlaveNode n) = Inr (node_ip n, node_port n)"
  "view_sessionId (bytes_userId u) = Inr u"
  by (simp_all add: view_CSlaveLoginMsg_def view_CRspSlaveAddrMsg_def view_sessionId_def bytes_SlaveNode_def bytes_userId_def
      msg_view_def u32_at_def u16_at_def)

lemma message_sizes [simp]:
  "length (bytes_SlaveNode n) = 6" "length (bytes_userId u) = 4"
  by (simp_all add: bytes_SlaveNode_def bytes_userId_def)

lemma slave_reconnected:
  assumes "m_bIsReconnecting (sl_client s)" "c_connecting (sl_client s)" "c_handle (sl_client s) = CH_Open"
    "c_data (sl_client s) = Data_Context" "c_roomy (sl_client s) (msg_LoginAsSlave s)"
  shows "\<exists>s' out. slave_handle le junk s (Cl_Connected 0 0) = Inr (s', out)
    \<and> {w. C_Accept w \<in> set out} = {wire_of le junk (msg_LoginAsSlave s)}"
proof -
  let ?c = "StopReconnect (sl_client s\<lparr>c_connecting := False, m_nConnectStatus := CONNECT_FINISH, c_handle := CH_Reading\<rparr>)"
  let ?m = "msg_LoginAsSlave s"
  have h: "client_handle (sl_client s) (Cl_Connected 0 0) = Inr (?c, [C_Reconnected])"
    using assms(1-4) by (simp add: client_handle_def client_enabled_def AfterConnect_def)
  have m: "msg_LoginAsSlave (s\<lparr>sl_client := ?c\<rparr>) = ?m" by (simp add: msg_LoginAsSlave_def)
  have r: "c_roomy ?c ?m" using assms(5) by (simp add: c_roomy_def buffer_inv_def StopReconnect_def)
  have l: "length (fst ?m) < 1000" by (simp add: msg_LoginAsSlave_def)
  obtain b where "c_loop_send le junk ?m ?c = Inr (?c\<lparr>m_buferWrite := b\<rparr>,
      [C_Async, C_Accept (wire_of le junk ?m), C_Async, C_Return (length (wire_of le junk ?m))])"
    using c_loop_send_eq [OF l r] by blast
  then show ?thesis by (auto simp: slave_handle_def h slave_call_def slave_AfterReconnectSuccess_def m)
qed

text \<open>A message on a connection of the master.\<close>

lemma master_receives:
  fixes junk :: NetPacket
  assumes "map_of (ctxs s) a = Some c" "tcphandle c = Handle_Reading"
    "sync_ready le SERVER_PACKET_HEAD SERVER_PACKET_TAIL (tc_packet c)" "pending (tc_packet c) = []"
    "length (fst m) < 1000" "snd m < 2 ^ 31"
  defines "w \<equiv> wire_of le junk m"
  shows "\<exists>ps' p. master_loop s (en, Ev_Recv le a (int (length w)) w)
      = master_calls en 0 [Parse a p (fst m)] (modify_ctx a (\<lambda>c. c\<lparr>tc_packet := ps'\<rparr>) s)
    \<and> unat (np_type p) = snd m"
proof -
  note q = head_of_sendable [OF assms(5), of junk]
  obtain ps' where "tcp_handle s (Ev_Recv le a (int (length w)) w)
    = Inr (modify_ctx a (\<lambda>c. c\<lparr>tc_packet := ps'\<rparr>) s, [Parse a (fst (with_check (head_of junk m, fst m))) (fst m)])"
    using tcp_recv_packet [OF assms(1-4) q] by (auto simp: w_def wire_of_def)
  moreover have "unat (np_type (fst (with_check (head_of junk m, fst m)))) = snd m"
    using assms(6) by (simp add: with_check_def head_of_def unsigned_of_nat take_bit_nat_eq_self)
  ultimately show ?thesis by (intro exI conjI) (simp_all add: master_loop_def)
qed

lemma modify_ctx_master [simp]:
  "m_vectorIndex (modify_ctx a f s) = m_vectorIndex s" "m_mapSlaveAddr (modify_ctx a f s) = m_mapSlaveAddr s"
  "m_setSlaveNodeWhitelist (modify_ctx a f s) = m_setSlaveNodeWhitelist s" "m_mapSessionIndex (modify_ctx a f s) = m_mapSessionIndex s"
  by (simp_all add: modify_ctx_def split: option.split)

lemma master_login_received:
  fixes junk :: NetPacket and n :: SlaveNode
  assumes "map_of (ctxs s) a = Some c" "tcphandle c = Handle_Reading"
    "sync_ready le SERVER_PACKET_HEAD SERVER_PACKET_TAIL (tc_packet c)" "pending (tc_packet c) = []"
    "me_sockname en \<in> set (m_setSlaveNodeWhitelist s)" "map_of (m_mapSlaveAddr s) (tc_clientid c) = None"
  defines "w \<equiv> wire_of le junk (bytes_SlaveNode n, SLAVE_LOGIN_MSG)"
  shows "\<exists>s'. master_loop s (en, Ev_Recv le a (int (length w)) w) = Inr (s', [])
    \<and> map_of (m_mapSlaveAddr s') (tc_clientid c) = Some n \<and> m_vectorIndex s' = m_vectorIndex s @ [tc_clientid c]
    \<and> m_mapSessionIndex s' = m_mapSessionIndex s \<and> (\<forall>b. b \<noteq> a \<longrightarrow> map_of (ctxs s') b = map_of (ctxs s) b)"
proof -
  obtain ps' p where h: "master_loop s (en, Ev_Recv le a (int (length w)) w)
      = master_calls en 0 [Parse a p (bytes_SlaveNode n)] (modify_ctx a (\<lambda>c. c\<lparr>tc_packet := ps'\<rparr>) s)"
    "unat (np_type p) = SLAVE_LOGIN_MSG"
    using master_receives [OF assms(1-4), where m = "(bytes_SlaveNode n, SLAVE_LOGIN_MSG)" and junk = junk and en = en]
    unfolding w_def by (auto simp: SLAVE_LOGIN_MSG_def simp del: master_calls.simps)
  show ?thesis unfolding h(1) using assms(1,5,6) h(2)
    by (simp add: master_call_def master_ParsePacket_def client_ctx_def OnSlaveLogin_def update_conv' del: map_of_eq_Some_iff)
qed

lemma master_request_received:
  fixes junk :: NetPacket
  assumes "map_of (ctxs s) a = Some c" "tcphandle c = Handle_Reading"
    "sync_ready le SERVER_PACKET_HEAD SERVER_PACKET_TAIL (tc_packet c)" "pending (tc_packet c) = []"
    "map_of (m_mapSessionIndex s) u = None" "m_vectorIndex s \<noteq> []"
    "m_vectorIndex s ! (me_rand en 0 mod length (m_vectorIndex s)) = k" "map_of (m_mapSlaveAddr s) k = Some n"
    "me_ret en a = 0"
  defines "w \<equiv> wire_of le junk (bytes_userId u, GET_SLAVE_ADDR_MSG)"
  shows "\<exists>s'. master_loop s (en, Ev_Recv le a (int (length w)) w)
    = Inr (s', [Uv_Write a (wire_of (me_le en) (me_junk en) (bytes_SlaveNode n, GET_SLAVE_ADDR_MSG))])"
proof -
  let ?m = "(bytes_userId u, GET_SLAVE_ADDR_MSG)" and ?r = "(bytes_SlaveNode n, GET_SLAVE_ADDR_MSG)"
  obtain ps' p where h: "master_loop s (en, Ev_Recv le a (int (length w)) w)
      = master_calls en 0 [Parse a p (bytes_userId u)] (modify_ctx a (\<lambda>c. c\<lparr>tc_packet := ps'\<rparr>) s)"
    "unat (np_type p) = GET_SLAVE_ADDR_MSG"
    using master_receives [OF assms(1-4), where m = ?m and junk = junk and en = en] unfolding w_def by (auto simp: GET_SLAVE_ADDR_MSG_def simp del: master_calls.simps)
  have d: "PacketData (me_le en) (me_junk en) (bytes_SlaveNode n) GET_SLAVE_ADDR_MSG = Inr (wire_of (me_le en) (me_junk en) ?r)"
    using PacketData_wire [of ?r "me_le en" "me_junk en"] by simp
  have "wire_of (me_le en) (me_junk en) ?r \<noteq> []" using length_wire_of [of ?r "me_le en" "me_junk en"] by (intro notI) simp
  then have s: "\<exists>t. sendinl (me_ret en) (wire_of (me_le en) (me_junk en) ?r) a q
      = (t, [Uv_Write a (wire_of (me_le en) (me_junk en) ?r)], True)" for q :: master
    using assms(9) by (cases "m_listWriteParam q") (auto simp: sendinl_def Let_def)
  let ?t = "modify_ctx a (\<lambda>c. c\<lparr>tc_packet := ps'\<rparr>) s"
  have f: "find_slave (me_rand en 0) u ?t = Inr (?t\<lparr>m_mapSessionIndex := AList.update u k (m_mapSessionIndex s)\<rparr>, Some n)"
    using assms(5-8) by (simp add: find_slave_def AllocateServerToSessionId_def Let_def del: map_of_eq_Some_iff)
  show ?thesis unfolding h(1) using assms(1) h(2) d f s [of "?t\<lparr>m_mapSessionIndex := AList.update u k (m_mapSessionIndex s)\<rparr>"]
    by (auto simp: master_call_def master_ParsePacket_def client_ctx_def OnReqSlaveAddr_def
        SLAVE_LOGIN_MSG_def SLAVE_STATUS_REPORT_MSG_def GET_SLAVE_ADDR_MSG_def)
qed

lemma client_answer_received:
  fixes junk :: NetPacket and n :: SlaveNode
  assumes "m_pTcpClient s = Some t" "c_handle (tm_client t) = CH_Reading" "c_data (tm_client t) = Data_Context"
    "sync_ready le SERVER_PACKET_HEAD SERVER_PACKET_TAIL (c_packet (tm_client t))" "pending (c_packet (tm_client t)) = []"
    "m_bEmpty (m_buferWrite (tm_client t))"
  defines "w \<equiv> wire_of le junk (bytes_SlaveNode n, GET_SLAVE_ADDR_MSG)"
  shows "\<exists>s' t'. net_handle en s (N_Loop_Tcp junk' (Cl_Recv le (int (length w)) w rets)) = Inr (s', [])
    \<and> m_pTcpClient s' = Some t' \<and> m_nRelayServerAddr t' = Some (node_ip n) \<and> m_nRelayServerPort t' = Some (node_port n)
    \<and> m_bGetAddrSuccess t'"
proof -
  let ?m = "(bytes_SlaveNode n, GET_SLAVE_ADDR_MSG)"
  have "sendable SERVER_PACKET_HEAD SERVER_PACKET_TAIL (head_of junk ?m, bytes_SlaveNode n)"
    using head_of_sendable [of ?m junk] by simp
  then obtain ps' where ps': "recvdata le (c_packet (tm_client t)) w = Some (Inr (ps', [with_check (head_of junk ?m, bytes_SlaveNode n)]))"
    using recvdata_wire [OF assms(4,5)] by (auto simp: w_def wire_of_def SERVER_PACKET_TAIL_def)
  have "0 < length w" using length_wire_of [of ?m le junk] by (simp add: w_def)
  then have "client_handle (tm_client t) (Cl_Recv le (int (length w)) w rets) = Inr (tm_client t\<lparr>c_packet := ps'\<rparr>,
      [C_Packet (fst (with_check (head_of junk ?m, bytes_SlaveNode n))) (bytes_SlaveNode n)])"
    using assms(2,3,6) ps' by (simp add: client_handle_def client_enabled_def c_AfterRecv_def send_inl_def with_check_def)
  then show ?thesis using assms(1)
    by (simp add: net_handle_def client_call_def tcp_ParsePacket_def with_check_def head_of_def GET_SLAVE_ADDR_MSG_def OnRspSlaveAddr_def)
qed

section \<open>Properties\<close>

text \<open>
  Property C34. The master on its TCP server does what its handlers do: every run of its loop, with any
  bytes from the clients, is a run of logins, requests and disconnects, and keeps their
  invariant; and every slave the master knows is a client that is still connected.
\<close>

theorem master_loop_refines:
  assumes "run_events master_loop (master_new tcp_server_started\<lparr>m_setSlaveNodeWhitelist := w\<rparr>) evs = Inr (s, out)"
  shows "\<exists>es o'. run_events master_handle (master_new empty_server\<lparr>m_setSlaveNodeWhitelist := w\<rparr>) es = Inr (master_abs s, o')
    \<and> master_inv (master_abs s) \<and> dom (map_of (m_mapSlaveAddr s)) \<subseteq> dom (map_of (m_mapClientsList s))"
proof -
  let ?s = "master_new tcp_server_started\<lparr>m_setSlaveNodeWhitelist := w\<rparr>"
    and ?a = "master_new empty_server\<lparr>m_setSlaveNodeWhitelist := w\<rparr>"
  have a: "master_abs ?s = ?a" by (simp add: master_abs_def master_new_def tcp_server_started_def empty_server_def tcp_server.defs master.defs)
  have i: "slaves_but {} ?s"
    by (simp add: slaves_but_def tcp_inv_defs reading_inv_def master_new_def tcp_server_started_def tcp_server.defs master.defs)
  then obtain es o' where r: "run_events master_handle ?a es = Inr (master_abs s, o')"
    using master_run_abs [OF assms] by (auto simp: a)
  have m: "master_inv ?a" by (simp add: master_inv_def master_new_def empty_server_def tcp_server.defs master.defs)
  have "slaves_but {} s" using master_net.run_inv [OF i _ assms] by simp
  then have "dom (map_of (m_mapSlaveAddr s)) \<subseteq> dom (map_of (m_mapClientsList s))"
    unfolding slaves_but_def by blast
  then show ?thesis using master.run_inv [OF m _ r] r by fastforce
qed

text \<open>
  Property C19. From a slave to a client. A slave whose connection to the master is back logs in; the
  master, if it knows the address of its own end from the whitelist and the client id is not a slave already,
  gives this slave to a new session that is drawn for it; and the client that asked has the address and the low
  16 bits of the port the slave was built with.
\<close>

theorem slave_announced:
  fixes junk' :: NetPacket
  assumes "m_bIsReconnecting (sl_client s)" "c_connecting (sl_client s)" "c_handle (sl_client s) = CH_Open"
    "c_data (sl_client s) = Data_Context" "c_roomy (sl_client s) (msg_LoginAsSlave s)"
    and "map_of (ctxs m) a = Some ca" "tcphandle ca = Handle_Reading"
    "sync_ready le SERVER_PACKET_HEAD SERVER_PACKET_TAIL (tc_packet ca)" "pending (tc_packet ca) = []"
    "me_sockname en \<in> set (m_setSlaveNodeWhitelist m)" "map_of (m_mapSlaveAddr m) (tc_clientid ca) = None"
    and "map_of (ctxs m) b = Some cb" "b \<noteq> a" "tcphandle cb = Handle_Reading"
    "sync_ready le SERVER_PACKET_HEAD SERVER_PACKET_TAIL (tc_packet cb)" "pending (tc_packet cb) = []"
    "map_of (m_mapSessionIndex m) u = None" "me_rand en 0 mod Suc (length (m_vectorIndex m)) = length (m_vectorIndex m)"
    "me_ret en b = 0"
    and "m_pTcpClient net = Some t" "c_handle (tm_client t) = CH_Reading" "c_data (tm_client t) = Data_Context"
    "sync_ready (me_le en) SERVER_PACKET_HEAD SERVER_PACKET_TAIL (c_packet (tm_client t))"
    "pending (c_packet (tm_client t)) = []" "m_bEmpty (m_buferWrite (tm_client t))"
  defines "q \<equiv> wire_of le junk' (msg_requestRelayServerAddr u)"
  shows "\<exists>s' out w m1 m2 d net' t'. slave_handle le junk s (Cl_Connected 0 0) = Inr (s', out) \<and> {w. C_Accept w \<in> set out} = {w}
    \<and> master_loop m (en, Ev_Recv le a (int (length w)) w) = Inr (m1, [])
    \<and> master_loop m1 (en, Ev_Recv le b (int (length q)) q) = Inr (m2, [Uv_Write b d])
    \<and> net_handle nen net (N_Loop_Tcp up (Cl_Recv (me_le en) (int (length d)) d rets)) = Inr (net', [])
    \<and> m_pTcpClient net' = Some t' \<and> m_bGetAddrSuccess t' \<and> m_nRelayServerAddr t' = Some (m_nSlaveServerIp s)
    \<and> m_nRelayServerPort t' = Some (ucast (m_nSlaveServerPort s))"
proof -
  let ?n = "\<lparr>node_ip = m_nSlaveServerIp s, node_port = ucast (m_nSlaveServerPort s)\<rparr>"
  let ?w = "wire_of le junk (msg_LoginAsSlave s)" and ?d = "wire_of (me_le en) (me_junk en) (bytes_SlaveNode ?n, GET_SLAVE_ADDR_MSG)"
  obtain s' out where s': "slave_handle le junk s (Cl_Connected 0 0) = Inr (s', out)" "{w. C_Accept w \<in> set out} = {?w}"
    using slave_reconnected [OF assms(1-5)] by blast
  obtain m1 where m1: "master_loop m (en, Ev_Recv le a (int (length ?w)) ?w) = Inr (m1, [])"
    "map_of (m_mapSlaveAddr m1) (tc_clientid ca) = Some ?n" "m_vectorIndex m1 = m_vectorIndex m @ [tc_clientid ca]"
    "m_mapSessionIndex m1 = m_mapSessionIndex m" "map_of (ctxs m1) b = Some cb"
    using master_login_received [OF assms(6-11), of junk ?n] assms(12,13) by (auto simp: msg_LoginAsSlave_def)
  have v: "m_vectorIndex m1 \<noteq> []" "m_vectorIndex m1 ! (me_rand en 0 mod length (m_vectorIndex m1)) = tc_clientid ca"
    using assms(18) by (simp_all add: m1(3))
  have u: "map_of (m_mapSessionIndex m1) u = None" using assms(17) by (simp add: m1(4))
  obtain m2 where m2: "master_loop m1 (en, Ev_Recv le b (int (length q)) q) = Inr (m2, [Uv_Write b ?d])"
    using master_request_received [OF m1(5) assms(14-16) u v m1(2) assms(19), of junk']
    by (auto simp: q_def msg_requestRelayServerAddr_def)
  show ?thesis using s' m1(1) m2 client_answer_received [OF assms(20-25), of nen up "me_junk en" ?n rets] by fastforce
qed

section \<open>Instances\<close>

definition demo_master_env :: master_env where
  "demo_master_env = \<lparr>me_le = True, me_junk = junk_packet, me_ret = (\<lambda>_. 0), me_rand = (\<lambda>_. 5), me_sockname = 7\<rparr>"

definition demo_slave :: slave where
  "demo_slave = (slave_new junk_packet 0x0100007F 12345)\<lparr>sl_client := (tcp_client_new junk_packet)\<lparr>m_bIsReconnecting := True,
     c_connecting := True, c_handle := CH_Open, c_bIsClosed := False\<rparr>\<rparr>"

definition demo_ctxs :: "(nat \<times> TcpClientCtx) list" where
  "demo_ctxs = [(0, demo_client (sync_started 1 2 junk_packet)), (1, demo_client (sync_started 1 2 junk_packet)\<lparr>tc_clientid := 2\<rparr>)]"

definition demo_master :: "(nat \<times> TcpClientCtx) list \<Rightarrow> master" where
  "demo_master cs = (master_new tcp_server_started)\<lparr>ctxs := cs, m_setSlaveNodeWhitelist := [7]\<rparr>"

definition demo_asking :: client_network where
  "demo_asking = (demo_net quiet_start)\<lparr>m_pTcpClient := Some (demo_tcp_module 2\<lparr>tm_client :=
     (tm_client (demo_tcp_module 2))\<lparr>c_packet := sync_started 1 2 junk_packet\<rparr>\<rparr>)\<rparr>"

lemma demo_master_fields:
  "ctxs (demo_master cs) = cs" "m_setSlaveNodeWhitelist (demo_master cs) = [7]" "m_mapSlaveAddr (demo_master cs) = []"
  "m_mapSessionIndex (demo_master cs) = []" "m_vectorIndex (demo_master cs) = []"
  by (simp_all add: demo_master_def master_new_def tcp_server_started_def tcp_server.defs master.defs)

theorem slave_announced_witness:
  "\<exists>s' out w m1 m2 d net' t'. slave_handle True junk_packet demo_slave (Cl_Connected 0 0) = Inr (s', out)
    \<and> {w. C_Accept w \<in> set out} = {w}
    \<and> master_loop (demo_master demo_ctxs) (demo_master_env, Ev_Recv True 0 (int (length w)) w) = Inr (m1, [])
    \<and> (let q = wire_of True junk_packet (msg_requestRelayServerAddr 42) in
       master_loop m1 (demo_master_env, Ev_Recv True 1 (int (length q)) q) = Inr (m2, [Uv_Write 1 d]))
    \<and> net_handle demo_net_env demo_asking (N_Loop_Tcp quiet_junk (Cl_Recv True (int (length d)) d (\<lambda>_. 0))) = Inr (net', [])
    \<and> m_pTcpClient net' = Some t' \<and> m_bGetAddrSuccess t' \<and> m_nRelayServerAddr t' = Some 0x0100007F
    \<and> m_nRelayServerPort t' = Some 12345"
proof -
  let ?ps = "sync_started 1 2 junk_packet"
  have y: "sync_ready True SERVER_PACKET_HEAD SERVER_PACKET_TAIL ?ps" "pending ?ps = []"
    using sync_started_ready(1) [of True 1 2 junk_packet] sync_started_ready(2) [of 1 2 junk_packet]
    by (simp_all add: SERVER_PACKET_HEAD_def SERVER_PACKET_TAIL_def)
  have s: "m_bIsReconnecting (sl_client demo_slave)" "c_connecting (sl_client demo_slave)" "c_handle (sl_client demo_slave) = CH_Open"
    "c_data (sl_client demo_slave) = Data_Context" "c_roomy (sl_client demo_slave) (msg_LoginAsSlave demo_slave)"
    by (simp_all add: demo_slave_def tcp_client_new_def c_roomy_def buffer_inv_def msg_LoginAsSlave_def
        cb_new_def cb_inv_def cb_contents_def NET_PACKAGE_HEADLEN_def BUFFER_SIZE_def)
  have a: "map_of (ctxs (demo_master demo_ctxs)) 0 = Some (demo_client ?ps)" "tcphandle (demo_client ?ps) = Handle_Reading"
    "tc_packet (demo_client ?ps) = ?ps"
    "map_of (ctxs (demo_master demo_ctxs)) 1 = Some (demo_client ?ps\<lparr>tc_clientid := 2\<rparr>)"
    by (simp_all add: demo_master_fields demo_ctxs_def demo_client_def)
  let ?t = "demo_tcp_module 2\<lparr>tm_client := (tm_client (demo_tcp_module 2))\<lparr>c_packet := ?ps\<rparr>\<rparr>"
  have t: "m_pTcpClient demo_asking = Some ?t" "c_handle (tm_client ?t) = CH_Reading" "c_data (tm_client ?t) = Data_Context"
    "c_packet (tm_client ?t) = ?ps" "m_bEmpty (m_buferWrite (tm_client ?t))"
    by (simp_all add: demo_asking_def demo_tcp_module_def tcp_module_new_def tcp_client_new_def cb_new_def)
  have e: "me_le demo_master_env = True" "me_sockname demo_master_env = 7" "me_rand demo_master_env 0 = 5" "me_ret demo_master_env b = 0" for b
    by (simp_all add: demo_master_env_def)
  have p: "m_nSlaveServerIp demo_slave = 0x0100007F" "(ucast (m_nSlaveServerPort demo_slave) :: u16) = 12345"
    by (simp_all add: demo_slave_def slave_new_def)
  show ?thesis
    using slave_announced [OF s a(1,2), where en = demo_master_env and b = 1 and cb = "demo_client ?ps\<lparr>tc_clientid := 2\<rparr>" and u = 42
        and net = demo_asking and t = ?t and le = True and nen = demo_net_env and up = quiet_junk and rets = "\<lambda>_. 0"
        and junk = junk_packet and junk' = junk_packet] a t e y p
    by (simp add: demo_master_fields Let_def)
qed

theorem master_loop_refines_witness:
  "\<exists>s out es o' w. run_events master_loop (demo_master []) [(demo_master_env, Ev_Accept 0 0 0 0 junk_packet),
      (demo_master_env, Ev_Recv True 0 (int (length w)) w)] = Inr (s, out)
    \<and> run_events master_handle (master_new empty_server\<lparr>m_setSlaveNodeWhitelist := [7]\<rparr>) es = Inr (master_abs s, o')
    \<and> m_vectorIndex s = [1] \<and> map_of (m_mapSlaveAddr s) 1 = Some \<lparr>node_ip = 0x0100007F, node_port = 12345\<rparr>"
proof -
  let ?ps = "sync_started 1 2 junk_packet" and ?n = "\<lparr>node_ip = 0x0100007F, node_port = 12345\<rparr>"
  let ?w = "wire_of True junk_packet (bytes_SlaveNode ?n, SLAVE_LOGIN_MSG)"
  obtain m out where 1: "master_loop (demo_master []) (demo_master_env, Ev_Accept 0 0 0 0 junk_packet) = Inr (m, out)"
    "map_of (ctxs m) 0 = Some (demo_client ?ps)" "m_setSlaveNodeWhitelist m = [7]" "m_mapSlaveAddr m = []" "m_vectorIndex m = []"
    by (simp add: master_loop_def demo_master_def master_new_def tcp_server_started_def tcp_server.defs master.defs tcp_eval
        master_call_def demo_client_def sync_started_def SetPacketCB_def Start_def SERVER_PACKET_HEAD_def SERVER_PACKET_TAIL_def)
  have y: "sync_ready True SERVER_PACKET_HEAD SERVER_PACKET_TAIL (tc_packet (demo_client ?ps))" "pending (tc_packet (demo_client ?ps)) = []"
    using sync_started_ready(1) [of True 1 2 junk_packet] sync_started_ready(2) [of 1 2 junk_packet]
    by (simp_all add: SERVER_PACKET_HEAD_def SERVER_PACKET_TAIL_def demo_client_def)
  have c: "tcphandle (demo_client ?ps) = Handle_Reading" "tc_clientid (demo_client ?ps) = 1" by (simp_all add: demo_client_def)
  have e: "me_sockname demo_master_env \<in> set (m_setSlaveNodeWhitelist m)" "map_of (m_mapSlaveAddr m) (tc_clientid (demo_client ?ps)) = None"
    by (simp_all add: demo_master_env_def 1)
  obtain s where s: "master_loop m (demo_master_env, Ev_Recv True 0 (int (length ?w)) ?w) = Inr (s, [])"
    "map_of (m_mapSlaveAddr s) 1 = Some ?n" "m_vectorIndex s = [1]"
    using master_login_received [OF 1(2) c(1) y e, of junk_packet ?n] 1(5) c(2) by auto
  have "run_events master_loop (master_new tcp_server_started\<lparr>m_setSlaveNodeWhitelist := [7]\<rparr>)
      [(demo_master_env, Ev_Accept 0 0 0 0 junk_packet), (demo_master_env, Ev_Recv True 0 (int (length ?w)) ?w)] = Inr (s, out)"
    using 1(1) s(1) by (simp add: demo_master_def master_new_def tcp_server_started_def tcp_server.defs master.defs)
  from this master_loop_refines [OF this] show ?thesis using s(2,3)
    by (fastforce simp: demo_master_def master_new_def tcp_server_started_def tcp_server.defs master.defs)
qed

end
