(* ===== verification/Server_Start.thy ===== *)
theory Server_Start
  imports Slave
begin

text \<open>
  How the servers start: \<open>CTCPServer::Start\<close> (\<open>tcpserver.cpp\<close>), \<open>CUDPServer::Start\<close> (\<open>UDPServer.cpp\<close>,
  \<open>UDPHandle.cpp\<close>), \<open>CMediaServer::Start\<close> with its connection to the master, \<open>CRelayServer::Start\<close> and
  \<open>CTestGateWay::Start\<close>. What libuv answers is an argument; the theorems say which state the loop
  starts in and what the result does not tell.
\<close>

section \<open>The TCP server\<close>

text \<open>
  The answers of the library while a TCP server starts: \<open>uv_async_init\<close> and \<open>uv_tcp_init\<close> in
  \<open>CTCPHandle::init\<close>, \<open>uv_tcp_nodelay\<close>, \<open>uv_ip4_addr\<close> (or \<open>uv_ip6_addr\<close>), \<open>uv_tcp_bind\<close>, \<open>uv_listen\<close>,
  \<open>uv_thread_create\<close>, and what the caller sees of \<open>m_nStartsSatus\<close> at each of its looks.
\<close>

record start_answers =
  sa_async :: int
  sa_tcp :: int
  sa_nodelay :: int
  sa_addr :: int
  sa_bind :: int
  sa_listen :: int
  sa_thread :: int
  sa_seen :: "nat \<Rightarrow> connect_status"

definition server_handle_init :: "int \<Rightarrow> int \<Rightarrow> 'a tcp_server_scheme \<Rightarrow> 'a tcp_server_scheme \<times> bool" where
  "server_handle_init async_ret tcp_ret s = (
     if \<not> m_bIsClosed s then (s, True)
     else if async_ret \<noteq> 0 \<or> tcp_ret \<noteq> 0 then (s, False)
     else (s\<lparr>m_bIsClosed := False\<rparr>, True))"

text \<open>
  \<open>CTCPServer::init\<close> does not look at the result of \<open>CTCPHandle::init\<close>: \<open>uv_tcp_nodelay\<close> then gets a handle
  that was never initialised.
\<close>

definition server_init :: "start_answers \<Rightarrow> 'a tcp_server_scheme \<Rightarrow> ('a tcp_server_scheme \<times> bool) outcome" where
  "server_init sa s = (let (s, ok) = server_handle_init (sa_async sa) (sa_tcp sa) s in
     if \<not> ok then Inl Handle_Misuse else Inr (s, sa_nodelay sa = 0))"

definition server_bind :: "start_answers \<Rightarrow> bool" where
  "server_bind sa = (if sa_addr sa \<noteq> 0 then False else sa_bind sa = 0)"

definition server_listen :: "start_answers \<Rightarrow> bool" where
  "server_listen sa = (sa_listen sa = 0)"

text \<open>
  \<open>Start\<close>: the server, whether the thread that runs the loop was created, and the result. The loop that
  waits for the thread is the one of the client: at most 101 looks. \<open>Start6\<close> differs in the function for the
  address only.
\<close>

definition tcp_Start :: "start_answers \<Rightarrow> 'a tcp_server_scheme \<Rightarrow> ('a tcp_server_scheme \<times> bool \<times> bool) outcome" where
  "tcp_Start sa s = bind_outcome (closeinl s) (\<lambda>(s, _).
     map_outcome (\<lambda>(s, ok).
       if \<not> ok then (s, False, False)
       else if \<not> server_bind sa then (s, False, False)
       else if \<not> server_listen sa then (s, False, False)
       else if sa_thread sa \<noteq> 0 then (s, False, False)
       else (s, True, wait_connect (sa_seen sa) 0 = CONNECT_FINISH)) (server_init sa s))"

section \<open>The UDP server\<close>

text \<open>The answers of \<open>uv_ip4_addr\<close>, \<open>uv_udp_bind\<close>, the second \<open>setsockopt\<close> and \<open>uv_udp_recv_start\<close>.\<close>

record udp_start_answers =
  ua_addr :: int
  ua_bind :: int
  ua_sockopt :: int
  ua_recv :: int

definition udp_bind :: "udp_start_answers \<Rightarrow> bool" where
  "udp_bind ua = (if ua_addr ua \<noteq> 0 then False else ua_bind ua = 0)"

definition setSocketBufSize :: "udp_start_answers \<Rightarrow> bool" where
  "setSocketBufSize ua = (ua_sockopt ua = 0)"

text \<open>
  \<open>Start\<close>: whether the socket receives, whether buffers that could not be enlarged are logged, and the
  result, which does not depend on \<open>uv_udp_recv_start\<close>. \<open>Start6\<close> leaves the buffers as they are.
\<close>

definition udp_Start :: "udp_start_answers \<Rightarrow> bool \<times> bool \<times> bool" where
  "udp_Start ua = (if \<not> udp_bind ua then (False, False, False) else (ua_recv ua = 0, \<not> setSocketBufSize ua, True))"

definition udp_Start6 :: "udp_start_answers \<Rightarrow> bool \<times> bool" where
  "udp_Start6 ua = (if \<not> udp_bind ua then (False, False) else (ua_recv ua = 0, True))"

section \<open>The media server\<close>

text \<open>
  What \<open>CMediaServer::Start\<close> leaves: the slave, whether the timer of the reports runs, what the slave does,
  and the result of \<open>CUDPServer::Start\<close>. The timer for users that are offline runs in any case. \<open>ca\<close> are the
  answers to \<open>Connect\<close>.
\<close>

record media_start =
  ms_slave :: "slave option"
  ms_report :: bool
  ms_out :: "client_out list"
  ms_receiving :: bool
  ms_success :: bool

type_synonym connect_answers = "(int \<times> int \<times> int \<times> int \<times> int \<times> int \<times> int) \<times> (nat \<Rightarrow> connect_status)"

definition start_slave ::
  "bool \<Rightarrow> NetPacket \<Rightarrow> connect_answers \<Rightarrow> relay_settings \<Rightarrow> (slave option \<times> bool \<times> client_out list) outcome" where
  "start_slave le junk ca st = (
     if m_strMasterIP st = [] then Inr (None, False, [])
     else bind_outcome (ip_string2int le (m_strServerIP st)) (\<lambda>ip.
       let s = slave_new junk ip (word_of_int (m_nServerPort st));
           ((c1, c2, c3, c4, c5, c6, c7), seen) = ca
       in bind_outcome (Connect (m_strMasterIP st, relay_settings.m_nMasterPort st) c1 c2 c3 c4 c5 c6 c7 seen (sl_client s)) (\<lambda>(c, connected).
            if \<not> connected then Inr (Some (s\<lparr>sl_client := c\<rparr>), False, [])
            else map_outcome (\<lambda>(s, out). (Some s, True, out)) (LoginAsSlave le junk (s\<lparr>sl_client := c\<rparr>)))))"

definition media_Start ::
  "bool \<Rightarrow> NetPacket \<Rightarrow> connect_answers \<Rightarrow> udp_start_answers \<Rightarrow> relay_settings \<Rightarrow> media_start outcome" where
  "media_Start le junk ca ua st = map_outcome (\<lambda>(sl, report, out). let (receiving, _, ok) = udp_Start ua in
       \<lparr>ms_slave = sl, ms_report = report, ms_out = out, ms_receiving = receiving, ms_success = ok\<rparr>)
     (start_slave le junk ca st)"

section \<open>The relay server and the master\<close>

definition relay_new :: "relay_settings \<Rightarrow> relay_server" where
  "relay_new st = \<lparr>m_pTcpServer = signaling_server_new (tcp_server_started\<lparr>m_bIsClosed := True\<rparr>),
     m_pUdpServer_obj = media_new (set_strValidateUrl st) (set_strValidateUrlOnLogin st)\<rparr>"

text \<open>
  \<open>CRelayServer::Start\<close>: the media server first, then the TCP server, then each learns of the other.
  Beside the new state: its result, and whether a thread runs the loop of both.
\<close>

record relay_start =
  rs_success :: bool
  rs_running :: bool
  rs_media :: media_start

definition relay_Start ::
  "bool \<Rightarrow> NetPacket \<Rightarrow> connect_answers \<Rightarrow> udp_start_answers \<Rightarrow> start_answers \<Rightarrow> relay_settings \<Rightarrow> relay_server
   \<Rightarrow> (relay_server \<times> relay_start) outcome" where
  "relay_Start le junk ca ua sa st s = bind_outcome (media_Start le junk ca ua st) (\<lambda>ms.
     map_outcome (\<lambda>(t, running, tcp_ok).
       (s\<lparr>m_pTcpServer := setUdpServer t\<rparr>,
        \<lparr>rs_success = (ms_success ms \<or> tcp_ok), rs_running = running, rs_media = ms\<rparr>))
       (tcp_Start sa (m_pTcpServer s)))"

text \<open>The port of the master has no value before a file was read.\<close>

definition master_Start :: "start_answers \<Rightarrow> master \<Rightarrow> (master \<times> bool \<times> bool) outcome" where
  "master_Start sa s = (case m_nMasterPort s of None \<Rightarrow> Inl Indeterminate_Value | Some port \<Rightarrow> tcp_Start sa s)"

section \<open>What starting shows\<close>

lemma start_slave_cases:
  assumes "start_slave le junk ca st = Inr (sl, report, out)"
  shows "m_strMasterIP st = [] \<and> sl = None \<and> \<not> report
    \<or> (\<exists>s ip. sl = Some s \<and> ip_string2int le (m_strServerIP st) = Inr ip \<and> m_nSlaveServerIp s = ip
        \<and> m_nSlaveServerPort s = ucast (word_of_int (m_nServerPort st) :: u16) \<and> (report \<longleftrightarrow> out = [C_Async])
        \<and> (report \<longrightarrow> (wire_of le junk (msg_LoginAsSlave s), 0) \<in> set (c_sends (sl_client s))))"
proof (cases "m_strMasterIP st = []")
  case False
  obtain cs seen where ca: "ca = (cs, seen)" by (cases ca)
  obtain c1 c2 c3 c4 c5 c6 c7 where cs: "cs = (c1, c2, c3, c4, c5, c6, c7)" by (cases cs)
  have log: "LoginAsSlave le junk s = Inr (s\<lparr>sl_client := (sl_client s)\<lparr>c_sends := c_sends (sl_client s)
      @ [(wire_of le junk (msg_LoginAsSlave s), 0)]\<rparr>\<rparr>, [C_Async])" for s
    using c_SendUvMessage_eq [of "msg_LoginAsSlave s" le junk "sl_client s"] by (simp add: LoginAsSlave_def msg_LoginAsSlave_def)
  show ?thesis using assms False
    by (auto simp: start_slave_def Let_def ca cs bind_outcome_Inr_iff log slave_new_def msg_LoginAsSlave_def split: if_splits)
qed (use assms in \<open>simp add: start_slave_def\<close>)

text \<open>
  Starting the relay server. If the handles can be initialised, the server is in the state the other
  theorems start from. The result says less: it is true as soon as the UDP port could be bound, also when no
  thread runs the loop of both servers, and also when the socket receives nothing.
\<close>

theorem relay_start_outcomes:
  assumes "media_Start le junk ca ua st = Inr ms" "sa_async sa = 0" "sa_tcp sa = 0"
  shows "\<exists>r. relay_Start le junk ca ua sa st (relay_new st) = Inr (relay_started (set_strValidateUrl st) (set_strValidateUrlOnLogin st), r)
    \<and> (ua_addr ua = 0 \<and> ua_bind ua = 0 \<longrightarrow> rs_success r)
    \<and> (rs_running r \<longleftrightarrow> sa_nodelay sa = 0 \<and> sa_addr sa = 0 \<and> sa_bind sa = 0 \<and> sa_listen sa = 0 \<and> sa_thread sa = 0)
    \<and> (ms_receiving (rs_media r) \<longleftrightarrow> ua_addr ua = 0 \<and> ua_bind ua = 0 \<and> ua_recv ua = 0)"
  using assms
  by (auto simp: relay_Start_def media_Start_def udp_Start_def udp_bind_def tcp_Start_def closeinl_def server_init_def
      server_handle_init_def server_bind_def server_listen_def relay_new_def relay_started_def signaling_server_new_def
      tcp_server_started_def tcp_server.defs signaling_server.defs setUdpServer_def Let_def)

theorem relay_start_outcomes_witness:
  "\<exists>r. relay_Start True junk_packet ((0, 0, 0, 0, 0, 0, 0), \<lambda>_. CONNECT_DIS)
      \<lparr>ua_addr = 0, ua_bind = 0, ua_sockopt = 0, ua_recv = 0\<rparr>
      \<lparr>sa_async = 0, sa_tcp = 0, sa_nodelay = 0, sa_addr = 0, sa_bind = -98, sa_listen = 0, sa_thread = 0, sa_seen = \<lambda>_. CONNECT_DIS\<rparr>
      relay_settings_new (relay_new relay_settings_new) = Inr (relay_started [] [], r)
    \<and> rs_success r \<and> \<not> rs_running r"
proof -
  let ?ua = "\<lparr>ua_addr = 0, ua_bind = 0, ua_sockopt = 0, ua_recv = 0\<rparr>"
  obtain ms where ms: "media_Start True junk_packet ((0, 0, 0, 0, 0, 0, 0), \<lambda>_. CONNECT_DIS) ?ua relay_settings_new = Inr ms"
    by (simp add: media_Start_def start_slave_def relay_settings_new_def)
  show ?thesis
    using relay_start_outcomes [OF ms, of "\<lparr>sa_async = 0, sa_tcp = 0, sa_nodelay = 0, sa_addr = 0, sa_bind = -98, sa_listen = 0,
      sa_thread = 0, sa_seen = \<lambda>_. CONNECT_DIS\<rparr>"]
    by (auto simp: relay_settings_new_def)
qed

text \<open>
  A message that arrives before \<open>setUdpServer\<close>: the loop runs already, and the handler calls through a null
  pointer.
\<close>

lemma start_window:
  "OnUpdateForwardTableMsg m (signaling_server_new tcp_server_started) = Inl Null_Dereference"
  by (simp add: OnUpdateForwardTableMsg_def call_media_def signaling_server_new_def tcp_server_started_def
      tcp_server.defs signaling_server.defs)

text \<open>A configuration that names the master but not the own address.\<close>

lemma slave_without_ip:
  "m_strMasterIP st \<noteq> [] \<Longrightarrow> m_strServerIP st = [] \<Longrightarrow> relay_Start True junk ca ua sa st s = Inl Indeterminate_Value"
proof -
  have "ip_string2int True [] = Inl Indeterminate_Value" by code_simp
  then show "m_strMasterIP st \<noteq> [] \<Longrightarrow> m_strServerIP st = [] \<Longrightarrow> relay_Start True junk ca ua sa st s = Inl Indeterminate_Value"
    by (simp add: relay_Start_def media_Start_def start_slave_def)
qed

lemma slave_config_without_ip:
  "map_outcome (\<lambda>st. (m_strMasterIP st, m_strServerIP st)) (LoadConfiguration (Some (''master_ip=10.0.0.9'' @ [CHR 0x0A])) relay_settings_new)
    = Inr (''10.0.0.9'', [])"
  by code_simp

lemma master_without_config: "master_Start sa (master_new srv) = Inl Indeterminate_Value"
  by (simp add: master_Start_def master_new_def tcp_server.defs master.defs)

end
