(* ===== verification/Server_Stop.thy ===== *)
theory Server_Stop
  imports Server_Start
begin

text \<open>
  How the relay server stops: \<open>CRelayServer::Close\<close> (\<open>relay_server.cpp\<close>), \<open>CUDPHandle::Close\<close>
  (\<open>UDPHandle.cpp\<close>) and what the walk of \<open>closeinl\<close> does to the handles of the loop. The state of the whole life
  of a server, from its constructor through starts and closes, and what holds of it: media stops with
  \<open>Close\<close>, and a server that has been closed stays closed.
\<close>

section \<open>A mutex that is never released\<close>

text \<open>
  Once \<open>closeinl\<close> has run, the mutex of the clients is held. No later event of the loop releases it, and none adds
  a client to the map or removes one.
\<close>

definition locked_as :: "int list \<Rightarrow> 'a tcp_server_scheme \<Rightarrow> bool" where
  "locked_as ks s \<longleftrightarrow> mutex_held s \<and> map fst (m_mapClientsList s) = ks"

lemma locked_modify [simp]: "locked_as ks (modify_ctx a f s) = locked_as ks s"
  by (simp add: locked_as_def modify_ctx_def split: option.split)

lemma locked_fields [simp]:
  "locked_as ks (s\<lparr>m_listWriteParam := w\<rparr>) = locked_as ks s"
  "locked_as ks (s\<lparr>m_listAvaiTcpHandle := l\<rparr>) = locked_as ks s"
  "locked_as ks (s\<lparr>s_id := i\<rparr>) = locked_as ks s"
  "locked_as ks (s\<lparr>ctxs := c\<rparr>) = locked_as ks s"
  "locked_as ks (s\<lparr>m_bIsClosed := b\<rparr>) = locked_as ks s"
  "locked_as ks (s\<lparr>m_bIsUserAskForClosed := b\<rparr>) = locked_as ks s"
  by (simp_all add: locked_as_def)

lemma locked_lock: "locked_as ks s \<Longrightarrow> lock_clients s = Inl Deadlock"
  by (simp add: locked_as_def lock_clients_def)

lemma locked_take: "locked_as ks s \<Longrightarrow> take_ctx junk s = (s', a) \<Longrightarrow> locked_as ks s'"
  by (auto simp: take_ctx_def AllocTcpClientCtx_def locked_as_def modify_ctx_def Let_def split: list.splits option.splits)

lemma locked_accept:
  assumes "locked_as ks s" "AcceptConnection st i ar r junk s = Inr (s', out)"
  shows "locked_as ks s'"
proof -
  obtain t a where t: "take_ctx junk s = (t, a)" by (cases "take_ctx junk s")
  have l: "locked_as ks t" by (rule locked_take [OF assms(1) t])
  then show ?thesis using assms
    by (auto simp: AcceptConnection_def t bind_outcome_Inr_iff uv_tcp_init_Inr uv_close_Inr push_ctx_def Let_def
        new_AcceptClient_def locked_lock [of ks] split: if_splits)
qed

lemma locked_close_client: "locked_as ks s \<Longrightarrow> AcceptClient_Close k s = Inr (s', out) \<Longrightarrow> locked_as ks s'"
  by (auto simp: AcceptClient_Close_def uv_close_Inr Let_def split: option.splits if_splits)

lemma locked_after_close:
  assumes "locked_as ks s" "after_close a s = Inr (s', out)"
  shows "locked_as ks s'"
  using assms(2)
proof (cases rule: after_close_cases)
  case recycled
  then show ?thesis using assms(1)
    by (auto simp: recycle_ctx_def FreeTcpClientCtx_def split: if_splits)
next
  case (client c k)
  let ?t = "modify_ctx a (\<lambda>c. c\<lparr>tcphandle := Handle_None\<rparr>) s"
  have l: "mutex_held ?t" "locked_as ks ?t" using assms(1) by (simp_all add: locked_as_def)
  from client(4) show ?thesis
    using l by (auto simp: AfterClientClose_def SubClientClosed_def lock_clients_def split: option.splits if_splits)
qed (use assms(1) in simp)

lemma locked_step:
  assumes "locked_as ks s" "tcp_handle s e = Inr (s', out)"
  shows "locked_as ks s'"
proof (cases "tcp_enabled e s")
  case True
  show ?thesis
  proof (cases e)
    case (Ev_Accept st i ar r junk)
    then show ?thesis using assms True locked_accept by (auto simp: tcp_handle_def)
  next
    case (Ev_Recv le a n b)
    then have "AfterRecv le a n b s = Inr (s', out)" using assms(2) True by (simp add: tcp_handle_def)
    then consider k where "AcceptClient_Close k s = Inr (s', out)" | "s' = s"
      | ps where "s' = modify_ctx a (\<lambda>c. c\<lparr>tc_packet := ps\<rparr>) s"
      by (fastforce simp: AfterRecv_def bind_outcome_Inr_iff split: if_splits option.splits)
    then show ?thesis using assms(1) locked_close_client by cases auto
  next
    case (Ev_After_Close a)
    then show ?thesis using assms True locked_after_close by (auto simp: tcp_handle_def)
  next
    case (Ev_Broadcast ret d ex)
    then show ?thesis using assms True by (auto simp: tcp_handle_def broadcast_def locked_lock [of ks] split: if_splits)
  next
    case Ev_Async_Close
    then show ?thesis using assms True
      by (auto simp: tcp_handle_def AsyncCloseCB_def closeinl_def locked_lock [of ks] split: if_splits)
  qed (use assms True in \<open>auto simp: tcp_handle_def AfterSend_def tcp_Close_def loop_end_def sendinl_def Let_def
      split: if_splits list.splits\<close>)
qed (use assms in \<open>simp add: tcp_handle_def\<close>)

interpretation locked: event_handler tcp_handle "locked_as ks" "\<lambda>_. True" for ks
  by unfold_locales (rule locked_step)

section \<open>The life of a server\<close>

text \<open>
  Beside the two servers: the UDP socket, whether a thread runs the loop (\<open>rl_running\<close>), whether the
  listening socket, the timer for offline users and the asyncs of the loop are open (\<open>rl_open\<close>), and whether
  the timer of the reports runs.
\<close>

record relay_life =
  rl_server :: relay_server
  rl_udp :: udp_socket
  rl_running :: bool
  rl_open :: bool
  rl_reports :: bool

datatype life_event =
    L_Start connect_answers udp_start_answers start_answers relay_settings
  | L_Close
  | L_Loop relay_event

definition life_new :: "relay_settings \<Rightarrow> relay_life" where
  "life_new st = \<lparr>rl_server = relay_new st, rl_udp = Udp_Open, rl_running = False, rl_open = False, rl_reports = False\<rparr>"

text \<open>
  \<open>CUDPServer::Start\<close> on the socket as it is; for one that was not closed it is \<open>udp_Start\<close>.
\<close>

definition udp_socket_Start :: "udp_start_answers \<Rightarrow> udp_socket \<Rightarrow> (udp_socket \<times> bool) outcome" where
  "udp_socket_Start ua u = (if \<not> udp_bind ua then Inr (u, False)
     else map_outcome (\<lambda>u. (u, True)) (udp_recv_start (ua_recv ua) u))"

lemma udp_socket_Start_open:
  "\<exists>u. udp_socket_Start ua Udp_Open = Inr (u, snd (snd (udp_Start ua))) \<and> (u = Udp_Receiving \<longleftrightarrow> fst (udp_Start ua))"
  by (simp add: udp_socket_Start_def udp_recv_start_def udp_Start_def)

text \<open>
  \<open>Start\<close>. On a server that is not closed (it runs, or an earlier \<open>Start\<close> failed half way) \<open>closeinl\<close> closes
  every handle of the loop first, the timers just started among them.
\<close>

definition life_Start ::
  "env \<Rightarrow> connect_answers \<Rightarrow> udp_start_answers \<Rightarrow> start_answers \<Rightarrow> relay_settings \<Rightarrow> relay_life
   \<Rightarrow> (relay_life \<times> relay_out list) outcome" where
  "life_Start en ca ua sa st L = (
     let walk = \<not> m_bIsClosed (m_pTcpServer (rl_server L)) in
     bind_outcome (media_Start (env_le en) (env_junk en) ca ua st) (\<lambda>ms.
     bind_outcome (udp_socket_Start ua (rl_udp L)) (\<lambda>(u, _).
     map_outcome (\<lambda>(s, r).
         (L\<lparr>rl_server := s, rl_udp := (if walk then Udp_Closed else u), rl_running := (rl_running L \<or> rs_running r),
            rl_open := \<not> walk, rl_reports := (\<not> walk \<and> (rl_reports L \<or> ms_report ms))\<rparr>, []))
       (relay_Start (env_le en) (env_junk en) ca ua sa st (rl_server L)))))"

definition relay_Close :: "relay_life \<Rightarrow> (relay_life \<times> relay_out list) outcome" where
  "relay_Close L = (let (t, out) = tcp_Close (m_pTcpServer (rl_server L)) in
     map_outcome (\<lambda>u. (L\<lparr>rl_server := (rl_server L)\<lparr>m_pTcpServer := t\<rparr>, rl_udp := u\<rparr>, map Out_Tcp out))
       (udp_Close (rl_udp L)))"

text \<open>
  The loop delivers an event only to a handle that is open, and it ends when none is left. \<open>uv_walk\<close> in
  \<open>closeinl\<close> closes all of them.
\<close>

definition life_enabled :: "relay_event \<Rightarrow> relay_life \<Rightarrow> bool" where
  "life_enabled re L \<longleftrightarrow> rl_running L \<and> (case re of
       Tcp te \<Rightarrow> tcp_enabled te (m_pTcpServer (rl_server L)) \<and> (case te of
           Ev_Accept _ _ _ _ _ \<Rightarrow> rl_open L
         | Ev_Async_Close \<Rightarrow> rl_open L
         | Ev_Loop_End \<Rightarrow> \<not> rl_open L
         | Ev_Close \<Rightarrow> False
         | _ \<Rightarrow> True)
     | Udp _ _ _ \<Rightarrow> rl_udp L = Udp_Receiving
     | Verified _ _ _ \<Rightarrow> True
     | Offline _ \<Rightarrow> rl_open L
     | Status \<Rightarrow> rl_open L \<and> rl_reports L)"

definition life_after :: "relay_event \<Rightarrow> relay_life \<Rightarrow> relay_life" where
  "life_after re L = (
     if re = Tcp Ev_Async_Close \<and> m_bIsUserAskForClosed (m_pTcpServer (rl_server L)) \<and> \<not> m_bIsClosed (m_pTcpServer (rl_server L))
     then L\<lparr>rl_udp := Udp_Closed, rl_open := False, rl_reports := False\<rparr>
     else if re = Tcp Ev_Loop_End then L\<lparr>rl_running := False\<rparr> else L)"

definition life_handle :: "env \<Rightarrow> relay_life \<Rightarrow> life_event \<Rightarrow> (relay_life \<times> relay_out list) outcome" where
  "life_handle en L e = (case e of
       L_Start ca ua sa st \<Rightarrow> life_Start en ca ua sa st L
     | L_Close \<Rightarrow> relay_Close L
     | L_Loop re \<Rightarrow> if \<not> life_enabled re L then Inr (L, [])
         else map_outcome (\<lambda>(s, out). ((life_after re L)\<lparr>rl_server := s\<rparr>, out)) (relay_handle en (rl_server L) re))"

section \<open>From start to stop\<close>

text \<open>The two servers as \<open>Start\<close> connects them, and the invariant of a life.\<close>

definition wired :: "relay_server \<Rightarrow> relay_server" where
  "wired s = s\<lparr>m_pTcpServer := setUdpServer (m_pTcpServer s)\<rparr>"

definition life_inv :: "relay_life \<Rightarrow> bool" where
  "life_inv L \<longleftrightarrow> relay_inv (wired (rl_server L))
     \<and> (rl_running L \<longrightarrow> m_pUdpServer (m_pTcpServer (rl_server L)))
     \<and> (rl_udp L = Udp_Closed \<longrightarrow> mutex_held (m_pTcpServer (rl_server L)))"

text \<open>A server whose handles have been closed, while the clients \<open>ks\<close> were connected.\<close>

definition closed_as :: "int list \<Rightarrow> relay_life \<Rightarrow> bool" where
  "closed_as ks L \<longleftrightarrow> life_inv L \<and> rl_udp L = Udp_Closed \<and> map fst (m_mapClientsList (m_pTcpServer (rl_server L))) = ks"

lemma wired_running: "m_pUdpServer (m_pTcpServer s) \<Longrightarrow> wired s = s"
  by (simp add: wired_def setUdpServer_def)

lemma life_inv_running: "life_inv L \<Longrightarrow> rl_running L \<Longrightarrow> relay_inv (rl_server L)"
  by (auto simp: life_inv_def wired_running)

lemma relay_inv_wired: "relay_inv s \<Longrightarrow> wired s = s" "relay_inv s \<Longrightarrow> m_pUdpServer (m_pTcpServer s)"
  by (simp_all add: relay_inv_def sig_but_def wired_running)

lemma sig_but_cong:
  assumes "sig_but K (setUdpServer s)" "tcp_server.more s' = tcp_server.more s" "tcp_inv s'" "reading_inv s'"
    "m_mapClientsList s' = m_mapClientsList s"
  shows "sig_but K (setUdpServer s')"
proof -
  have "m_mapClientId s' = m_mapClientId s" "m_mapUserId s' = m_mapUserId s"
    using assms(2) by (cases s; cases s'; simp)+
  then show ?thesis using assms by (auto simp: sig_but_def setUdpServer_def tcp_inv_defs reading_inv_def)
qed

lemma setUdpServer_fields [simp]:
  "tcp_inv (setUdpServer s) = tcp_inv s" "reading_inv (setUdpServer s) = reading_inv s"
  "locked_as ks (setUdpServer s) = locked_as ks s" "m_mapClientsList (setUdpServer s) = m_mapClientsList s"
  "mutex_held (setUdpServer s) = mutex_held s" "ctxs (setUdpServer s) = ctxs s"
  "setUdpServer (setUdpServer s) = setUdpServer s" "m_pUdpServer (setUdpServer s)"
  "m_mapUserId (setUdpServer s) = m_mapUserId s" "m_mapClientId (setUdpServer s) = m_mapClientId s"
  by (simp_all add: setUdpServer_def tcp_inv_defs reading_inv_def locked_as_def)

lemma wired_fields [simp]:
  "m_pTcpServer (wired s) = setUdpServer (m_pTcpServer s)" "m_pUdpServer_obj (wired s) = m_pUdpServer_obj s"
  by (simp_all add: wired_def)

lemma relay_inv_wired_iff:
  "relay_inv (wired s) \<longleftrightarrow> sig_but {} (setUdpServer (m_pTcpServer s)) \<and> media_inv (m_pUdpServer_obj s)"
  by (simp add: relay_inv_def)

lemma locked_close_clients: "locked_as ks s \<Longrightarrow> close_clients ids s = Inr (s', out) \<Longrightarrow> locked_as ks s'"
proof (induction ids arbitrary: s out)
  case (Cons k ids)
  then show ?case using locked_close_client by (fastforce simp: bind_outcome_Inr_iff)
qed simp

lemma closeinl_locks:
  assumes "closeinl s = Inr (s', out)" "\<not> m_bIsClosed s"
  shows "\<not> mutex_held s" "locked_as (map fst (m_mapClientsList s)) s'"
proof -
  obtain t where t: "\<not> mutex_held s" "close_clients (map fst (m_mapClientsList s)) (s\<lparr>mutex_held := True\<rparr>) = Inr (t, out)"
    "s' = t\<lparr>ctxs := map (\<lambda>(a, c). (a, CloseWalkCB c)) (ctxs t)\<rparr>"
    using assms by (auto simp: closeinl_def bind_outcome_Inr_iff lock_clients_def split: if_splits)
  have "locked_as (map fst (m_mapClientsList s)) (s\<lparr>mutex_held := True\<rparr>)" by (simp add: locked_as_def)
  with locked_close_clients [OF _ t(2)] t show "\<not> mutex_held s" "locked_as (map fst (m_mapClientsList s)) s'" by simp_all
qed

text \<open>
  \<open>tcp_Start\<close> is \<open>closeinl\<close> and otherwise only resets \<open>m_bIsClosed\<close>.
\<close>

lemma tcp_Start_cases:
  assumes "tcp_Start sa s = Inr (t, run, ok)"
  obtains u o1 b where "closeinl s = Inr (u, o1)" "t = u\<lparr>m_bIsClosed := b\<rparr>"
proof -
  obtain u o1 where u: "closeinl s = Inr (u, o1)" using assms by (auto simp: tcp_Start_def bind_outcome_Inr_iff)
  have "t = u\<lparr>m_bIsClosed := False\<rparr> \<or> t = u"
    using assms u by (auto simp: tcp_Start_def bind_outcome_Inr_iff server_init_def server_handle_init_def Let_def
        split: if_splits prod.splits)
  then show thesis using that u by (metis tcp_server.surjective tcp_server.update_convs(7))
qed

lemma tcp_Start_life:
  assumes "tcp_Start sa s = Inr (t, run, ok)" "sig_but {} (setUdpServer s)"
  shows "sig_but {} (setUdpServer t)" "map fst (m_mapClientsList t) = map fst (m_mapClientsList s)"
    "m_bIsClosed s \<Longrightarrow> mutex_held t = mutex_held s" "\<not> m_bIsClosed s \<Longrightarrow> \<not> mutex_held s \<and> mutex_held t"
proof -
  obtain u o1 b where u: "closeinl s = Inr (u, o1)" "t = u\<lparr>m_bIsClosed := b\<rparr>" by (rule tcp_Start_cases [OF assms(1)])
  have i: "tcp_inv s" "reading_inv s" using assms(2) by (simp_all add: sig_but_def)
  note c = closeinl_inv [OF i(1) u(1)] closeinl_step [OF u(1)]
  have "tcp_inv t" "reading_inv t" "tcp_server.more t = tcp_server.more s" "m_mapClientsList t = m_mapClientsList s"
    using c i by (simp_all add: u(2))
  then show "sig_but {} (setUdpServer t)" "map fst (m_mapClientsList t) = map fst (m_mapClientsList s)"
    using sig_but_cong [OF assms(2)] by simp_all
  show "m_bIsClosed s \<Longrightarrow> mutex_held t = mutex_held s" using u by (simp add: closeinl_def)
  show "\<not> m_bIsClosed s \<Longrightarrow> \<not> mutex_held s \<and> mutex_held t"
    using closeinl_locks [OF u(1)] u(2) by (simp add: locked_as_def)
qed

lemma life_new_inv: "life_inv (life_new st)"
proof -
  have "sig_but {} (setUdpServer (m_pTcpServer (relay_started [] [])))"
    using relay_started_inv [of "[]" "[]"] by (simp add: relay_inv_def relay_started_def)
  from sig_but_cong [OF this, of "m_pTcpServer (relay_new st)"] this media_new_ok(2)
  show ?thesis
    by (simp add: life_inv_def life_new_def relay_inv_wired_iff relay_new_def relay_started_def signaling_server_new_def
        setUdpServer_def tcp_server.defs signaling_server.defs tcp_server_started_def sig_but_def tcp_inv_defs reading_inv_def)
qed

lemma life_Start_inv:
  assumes "life_inv L" "life_Start en ca ua sa st L = Inr (L', out)"
  shows "life_inv L'" "rl_udp L = Udp_Closed \<Longrightarrow> rl_udp L' = Udp_Closed"
    "map fst (m_mapClientsList (m_pTcpServer (rl_server L'))) = map fst (m_mapClientsList (m_pTcpServer (rl_server L)))"
    "m_pUdpServer_obj (rl_server L') = m_pUdpServer_obj (rl_server L)"
proof -
  let ?T = "m_pTcpServer (rl_server L)"
  obtain ms u b t run ok where h: "udp_socket_Start ua (rl_udp L) = Inr (u, b)" "tcp_Start sa ?T = Inr (t, run, ok)"
    "rl_server L' = (rl_server L)\<lparr>m_pTcpServer := setUdpServer t\<rparr>"
    "rl_udp L' = (if m_bIsClosed ?T then u else Udp_Closed)"
    using assms(2) by (auto simp: life_Start_def relay_Start_def Let_def bind_outcome_Inr_iff)
  have s: "sig_but {} (setUdpServer ?T)" "media_inv (m_pUdpServer_obj (rl_server L))"
    using assms(1) by (simp_all add: life_inv_def relay_inv_wired_iff)
  note t = tcp_Start_life [OF h(2) s(1)]
  have u: "u = Udp_Closed \<longleftrightarrow> rl_udp L = Udp_Closed"
    using h(1) by (auto simp: udp_socket_Start_def udp_recv_start_def split: if_splits)
  then show "life_inv L'" "rl_udp L = Udp_Closed \<Longrightarrow> rl_udp L' = Udp_Closed"
    using assms(1) s(2) t(1,3,4) by (auto simp: life_inv_def relay_inv_wired_iff h(3,4))
  show "map fst (m_mapClientsList (m_pTcpServer (rl_server L'))) = map fst (m_mapClientsList ?T)"
    "m_pUdpServer_obj (rl_server L') = m_pUdpServer_obj (rl_server L)"
    using t(2) by (simp_all add: h(3))
qed

lemma tcp_Close_life:
  assumes "tcp_Close s = (t, out)"
  shows "sig_but K (setUdpServer t) = sig_but K (setUdpServer s)" "mutex_held t = mutex_held s"
    "m_mapClientsList t = m_mapClientsList s" "m_pUdpServer t = m_pUdpServer s"
  using assms by (auto simp: tcp_Close_def sig_but_def split: if_splits)

lemma relay_Close_inv:
  assumes "life_inv L" "relay_Close L = Inr (L', out)"
  shows "life_inv L'" "rl_udp L \<noteq> Udp_Closed" "rl_udp L' = Udp_Open"
proof -
  obtain t o1 where t: "tcp_Close (m_pTcpServer (rl_server L)) = (t, o1)" by (cases "tcp_Close (m_pTcpServer (rl_server L))")
  note c = tcp_Close_life [OF t]
  have "L' = L\<lparr>rl_server := (rl_server L)\<lparr>m_pTcpServer := t\<rparr>, rl_udp := Udp_Open\<rparr>" "rl_udp L \<noteq> Udp_Closed"
    using assms(2) t by (auto simp: relay_Close_def udp_Close_def split: if_splits)
  then show "life_inv L'" "rl_udp L \<noteq> Udp_Closed" "rl_udp L' = Udp_Open"
    using assms(1) c by (simp_all add: life_inv_def relay_inv_wired_iff)
qed

lemma relay_handle_locked:
  assumes "relay_inv s" "relay_handle en s e = Inr (s', out)" "locked_as ks (m_pTcpServer s)"
  shows "locked_as ks (m_pTcpServer s')"
proof (cases "\<exists>te. e = Tcp te")
  case True
  then obtain te where te: "relay_handle en s (Tcp te) = Inr (s', out)" using assms(2) by blast
  obtain t o1 where "tcp_handle (m_pTcpServer s) te = Inr (t, o1)" "same_clients t (m_pTcpServer s')"
    by (rule relay_handle_tcp [OF assms(1) te])
  then show ?thesis using locked_step [OF assms(3)] by (simp add: same_clients_def locked_as_def)
next
  case False
  then have "same_clients (m_pTcpServer s) (m_pTcpServer s')" using relay_handle_media(2) [OF assms(1,2)] by blast
  then show ?thesis using assms(3) by (simp add: same_clients_def locked_as_def)
qed

text \<open>The walk closes the handles and leaves the mutex held.\<close>

lemma relay_handle_walk:
  assumes "relay_inv s" "relay_handle en s (Tcp Ev_Async_Close) = Inr (s', out)"
    "m_bIsUserAskForClosed (m_pTcpServer s)" "\<not> m_bIsClosed (m_pTcpServer s)"
  shows "locked_as (map fst (m_mapClientsList (m_pTcpServer s))) (m_pTcpServer s')"
proof -
  obtain t o1 where t: "tcp_handle (m_pTcpServer s) Ev_Async_Close = Inr (t, o1)" "same_clients t (m_pTcpServer s')"
    by (rule relay_handle_tcp [OF assms(1,2)])
  then have "closeinl (m_pTcpServer s) = Inr (t, o1)"
    using assms(3) by (simp add: tcp_handle_def tcp_enabled_def AsyncCloseCB_def)
  from closeinl_locks(2) [OF this assms(4)] t(2) show ?thesis by (simp add: same_clients_def locked_as_def)
qed

lemma life_handle_inv:
  assumes "life_inv L" "life_handle en L e = Inr (L', out)"
  shows "life_inv L'"
proof (cases e)
  case (L_Start ca ua sa st)
  then show ?thesis using assms(2) life_Start_inv(1) [OF assms(1)] by (simp add: life_handle_def)
next
  case L_Close
  then show ?thesis using assms(2) relay_Close_inv(1) [OF assms(1)] by (simp add: life_handle_def)
next
  case (L_Loop re)
  show ?thesis
  proof (cases "life_enabled re L")
    case True
    then have r: "rl_running L" by (simp add: life_enabled_def)
    have i: "relay_inv (rl_server L)" by (rule life_inv_running [OF assms(1) r])
    obtain s where s: "relay_handle en (rl_server L) re = Inr (s, out)" "L' = (life_after re L)\<lparr>rl_server := s\<rparr>"
      using assms(2) L_Loop True by (auto simp: life_handle_def)
    note i' = relay_handle_inv [OF i s(1)]
    let ?walk = "re = Tcp Ev_Async_Close \<and> m_bIsUserAskForClosed (m_pTcpServer (rl_server L)) \<and> \<not> m_bIsClosed (m_pTcpServer (rl_server L))"
    have "mutex_held (m_pTcpServer s)" if "rl_udp L' = Udp_Closed"
    proof (cases ?walk)
      case True
      then show ?thesis using relay_handle_walk [OF i] s(1) by (simp add: locked_as_def)
    next
      case False
      then have "rl_udp L = Udp_Closed" using that by (auto simp: s(2) life_after_def split: if_splits)
      then have "locked_as (map fst (m_mapClientsList (m_pTcpServer (rl_server L)))) (m_pTcpServer (rl_server L))"
        using assms(1) by (simp add: life_inv_def locked_as_def)
      from relay_handle_locked [OF i s(1) this] show ?thesis by (simp add: locked_as_def)
    qed
    then show ?thesis using i' relay_inv_wired [OF i'] by (simp add: life_inv_def s(2))
  qed (use assms L_Loop in \<open>simp add: life_handle_def\<close>)
qed

interpretation life: event_handler "life_handle en" life_inv "\<lambda>_. True" for en
  by unfold_locales (rule life_handle_inv)

lemma closed_as_step:
  assumes "closed_as ks L" "life_handle en L e = Inr (L', out)"
  shows "closed_as ks L'"
proof -
  have i: "life_inv L" "rl_udp L = Udp_Closed" "locked_as ks (m_pTcpServer (rl_server L))"
    using assms(1) by (simp_all add: closed_as_def life_inv_def locked_as_def)
  have "rl_udp L' = Udp_Closed \<and> map fst (m_mapClientsList (m_pTcpServer (rl_server L'))) = ks"
  proof (cases e)
    case (L_Start ca ua sa st)
    then show ?thesis using assms(2) life_Start_inv(2,3) [OF i(1)] i(2,3) by (simp add: life_handle_def locked_as_def)
  next
    case L_Close
    then show ?thesis using assms(2) relay_Close_inv(2) [OF i(1)] i(2) by (simp add: life_handle_def)
  next
    case (L_Loop re)
    show ?thesis
    proof (cases "life_enabled re L")
      case True
      then have r: "relay_inv (rl_server L)" using life_inv_running [OF i(1)] by (simp add: life_enabled_def)
      obtain s where s: "relay_handle en (rl_server L) re = Inr (s, out)" "L' = (life_after re L)\<lparr>rl_server := s\<rparr>"
        using assms(2) L_Loop True by (auto simp: life_handle_def)
      then show ?thesis using relay_handle_locked [OF r s(1) i(3)] i(2)
        by (auto simp: locked_as_def life_after_def)
    qed (use assms L_Loop in \<open>simp add: life_handle_def closed_as_def\<close>)
  qed
  then show ?thesis using life_handle_inv [OF i(1) assms(2)] by (simp add: closed_as_def)
qed

interpretation closed: event_handler "life_handle en" "closed_as ks" "\<lambda>_. True" for en ks
  by unfold_locales (rule closed_as_step)

lemma life_view_new: "relay_view (rl_server (life_new st)) = empty_relay"
  by (simp add: relay_view_def life_new_def relay_new_def)

lemma life_handle_refines:
  assumes "life_inv L" "life_handle en L e = Inr (L', out)"
  shows "relay_steps zero_addr (relay_view (rl_server L)) (relay_view (rl_server L'))"
proof (cases e)
  case (L_Start ca ua sa st)
  then show ?thesis using assms(2) life_Start_inv(4) [OF assms(1)]
    by (simp add: life_handle_def relay_view_def steps_refl)
next
  case L_Close
  then show ?thesis using assms(2)
    by (auto simp: life_handle_def relay_Close_def relay_view_def steps_refl Let_def split: prod.splits)
next
  case (L_Loop re)
  have m: "media_inv (m_pUdpServer_obj (rl_server L))" using assms(1) by (simp add: life_inv_def relay_inv_wired_iff)
  show ?thesis
  proof (cases "life_enabled re L")
    case True
    then obtain s where s: "relay_handle en (rl_server L) re = Inr (s, out)" "L' = (life_after re L)\<lparr>rl_server := s\<rparr>"
      using assms(2) L_Loop by (auto simp: life_handle_def)
    then show ?thesis using relay_handle_refines [OF m s(1)] by simp
  qed (use assms(2) L_Loop in \<open>simp add: life_handle_def steps_refl\<close>)
qed

interpretation life_ref: relay_refinement "life_handle en" life_inv "\<lambda>L. relay_view (rl_server L)" zero_addr for en
  by unfold_locales (rule life_handle_refines)

section \<open>Media stops with Close\<close>

lemma sweep_out: "sweep now ks m = Inr (m', out) \<Longrightarrow> Net u \<notin> set out"
proof (induction ks arbitrary: m out)
  case (Cons k ks)
  then show ?case by (auto simp: sweep_Cons split: if_splits)
qed simp

text \<open>Only a datagram, and a verification that ends, make the media server send one.\<close>

lemma media_handle_quiet:
  assumes "media_handle s e = Inr (s', out)" "\<And>now d a. e \<noteq> Datagram now d a" "\<And>now c ok. e \<noteq> Work_Done now c ok"
  shows "Net u \<notin> set out"
  using assms sweep_out by (cases e) (fastforce simp: offlineDetection_def statusDetection_def)+

lemma media_calls_quiet:
  "media_calls en cs s = Inr (s', out) \<Longrightarrow> Net u \<notin> set cs \<Longrightarrow> Out_Media (Net u) \<notin> set out"
proof (induction cs arbitrary: s out)
  case (Cons c cs)
  then obtain t o1 o2 where h: "media_call en c s = Inr (t, o1)" "media_calls en cs t = Inr (s', o2)" "out = o1 @ o2"
    by (auto simp: bind_outcome_Inr_iff)
  have "Out_Media (Net u) \<notin> set o1" using h(1) Cons.prems(2) by (auto simp: media_call_def split: media_out.splits sig_out.splits)
  then show ?case using Cons.IH [OF h(2)] Cons.prems(2) h(3) by simp
qed simp

lemma to_media_quiet:
  assumes "to_media en e s = Inr (s', out)" "\<And>now d a. e \<noteq> Datagram now d a" "\<And>now c ok. e \<noteq> Work_Done now c ok"
  shows "Out_Media (Net u) \<notin> set out"
proof -
  obtain m o1 where h: "media_handle (m_pUdpServer_obj s) e = Inr (m, o1)"
    "media_calls en o1 (s\<lparr>m_pUdpServer_obj := m\<rparr>) = Inr (s', out)"
    using assms(1) by (auto simp: to_media_def bind_outcome_Inr_iff)
  show ?thesis using media_calls_quiet [OF h(2)] media_handle_quiet [OF h(1)] assms(2,3) by blast
qed

text \<open>What the signaling server passes on is neither.\<close>

definition from_client :: "sig_out \<Rightarrow> bool" where
  "from_client x \<longleftrightarrow> (case x of To_Media (Datagram _ _ _) \<Rightarrow> False | To_Media (Work_Done _ _ _) \<Rightarrow> False | _ \<Rightarrow> True)"

lemma sig_calls_quiet:
  "sig_calls en cs s = Inr (s', out) \<Longrightarrow> \<forall>x\<in>set cs. from_client x \<Longrightarrow> Out_Media (Net u) \<notin> set out"
proof (induction cs arbitrary: s out)
  case (Cons c cs)
  then obtain t o1 o2 where h: "(case c of To_Media e \<Rightarrow> to_media en e s | Tcp_Out y \<Rightarrow> Inr (s, [Out_Tcp y])) = Inr (t, o1)"
    "sig_calls en cs t = Inr (s', o2)" "out = o1 @ o2"
    by (auto simp: bind_outcome_Inr_iff)
  have "Out_Media (Net u) \<notin> set o1"
  proof (cases c)
    case (To_Media e)
    then have "e \<noteq> Datagram now d a" "e \<noteq> Work_Done now ctx ok" for now d a ctx ok
      using Cons.prems(2) by (auto simp: from_client_def)
    then show ?thesis using h(1) To_Media to_media_quiet [of en e s t o1 u] by simp
  qed (use h(1) in auto)
  then show ?case using Cons.IH [OF h(2)] Cons.prems(2) h(3) by simp
qed simp

lemma call_media_from: "call_media e s = Inr (s', out) \<Longrightarrow> from_client (To_Media e) \<Longrightarrow> \<forall>x\<in>set out. from_client x"
  by (simp add: call_media_Inr)

lemma sig_from_client:
  "sig_CloseCB k s = Inr (s', out) \<Longrightarrow> \<forall>x\<in>set out. from_client x"
  "sig_ParsePacket p d a s = Inr (s', out) \<Longrightarrow> \<forall>x\<in>set out. from_client x"
proof -
  show c: "sig_CloseCB k s = Inr (s', out) \<Longrightarrow> \<forall>x\<in>set out. from_client x" for k s s' out
    by (auto simp: sig_CloseCB_def call_media_Inr from_client_def split: option.splits)
  show "sig_ParsePacket p d a s = Inr (s', out) \<Longrightarrow> \<forall>x\<in>set out. from_client x"
    using c by (auto simp: sig_ParsePacket_def bind_outcome_Inr_iff OnUpdateForwardTableMsg_def OnP2PAddr_def
        OnLeaveRoomMsg_def OnBindUserId_def call_media_Inr Let_def from_client_def split: if_splits)
qed

lemma tcp_call_quiet:
  assumes "tcp_call en c s = Inr (s', out)"
  shows "Out_Media (Net u) \<notin> set out"
proof -
  consider t o1 where "sig_calls en o1 (s\<lparr>m_pTcpServer := t\<rparr>) = Inr (s', out)" "\<forall>x\<in>set o1. from_client x" | "out = [Out_Tcp c]"
    using assms sig_from_client by (cases c) (fastforce simp: tcp_call_def bind_outcome_Inr_iff)+
  then show ?thesis by cases (use sig_calls_quiet in auto)
qed

lemma tcp_calls_quiet: "tcp_calls en cs s = Inr (s', out) \<Longrightarrow> Out_Media (Net u) \<notin> set out"
proof (induction cs arbitrary: s out)
  case (Cons c cs)
  then show ?case using tcp_call_quiet [of en c s] by (fastforce simp: bind_outcome_Inr_iff)
qed simp

lemma relay_handle_quiet:
  assumes "relay_handle en s e = Inr (s', out)" "\<And>now d a. e \<noteq> Udp now d a" "\<And>now c ok. e \<noteq> Verified now c ok"
  shows "Out_Media (Net u) \<notin> set out"
proof (cases e)
  case (Tcp te)
  then show ?thesis using assms(1) tcp_calls_quiet by (fastforce simp: relay_handle_def bind_outcome_Inr_iff)
qed (use assms to_media_quiet in \<open>fastforce simp: relay_handle_def\<close>)+

text \<open>The events of a server that is not started again and has no verification under way.\<close>

definition stopping :: "life_event \<Rightarrow> bool" where
  "stopping e \<longleftrightarrow> (case e of L_Start _ _ _ _ \<Rightarrow> False | L_Close \<Rightarrow> True
     | L_Loop re \<Rightarrow> (case re of Verified _ _ _ \<Rightarrow> False | _ \<Rightarrow> True))"

lemma stopping_step:
  assumes "rl_udp L \<noteq> Udp_Receiving" "stopping e" "life_handle en L e = Inr (L', out)"
  shows "rl_udp L' \<noteq> Udp_Receiving" "Out_Media (Net u) \<notin> set out"
proof -
  have "rl_udp L' \<noteq> Udp_Receiving \<and> Out_Media (Net u) \<notin> set out"
  proof (cases e)
    case (L_Loop re)
    show ?thesis
    proof (cases "life_enabled re L")
      case True
      obtain s where s: "relay_handle en (rl_server L) re = Inr (s, out)" "L' = (life_after re L)\<lparr>rl_server := s\<rparr>"
        using assms(3) L_Loop True by (auto simp: life_handle_def)
      have "re \<noteq> Udp now d a" "re \<noteq> Verified now c ok" for now d a c ok
        using True assms(1,2) L_Loop by (auto simp: life_enabled_def stopping_def)
      then show ?thesis using relay_handle_quiet [OF s(1)] assms(1) by (auto simp: s(2) life_after_def)
    qed (use assms L_Loop in \<open>simp add: life_handle_def\<close>)
  qed (use assms in \<open>auto simp: stopping_def life_handle_def relay_Close_def tcp_Close_def udp_Close_def Let_def split: if_splits\<close>)
  then show "rl_udp L' \<noteq> Udp_Receiving" "Out_Media (Net u) \<notin> set out" by blast+
qed

lemma stopping_run:
  "rl_udp L \<noteq> Udp_Receiving \<Longrightarrow> \<forall>e\<in>set es. stopping e \<Longrightarrow> run_events (life_handle en) L es = Inr (L', out)
    \<Longrightarrow> Out_Media (Net u) \<notin> set out"
proof (induction es arbitrary: L out)
  case (Cons e es)
  then obtain t o1 o2 where h: "life_handle en L e = Inr (t, o1)" "run_events (life_handle en) t es = Inr (L', o2)" "out = o1 @ o2"
    by (auto simp: bind_outcome_Inr_iff)
  have e: "stopping e" "\<forall>e\<in>set es. stopping e" using Cons.prems(2) by simp_all
  note s = stopping_step [OF Cons.prems(1) e(1) h(1)]
  show ?case using Cons.IH [OF s(1) e(2) h(2)] s(2) h(3) by simp
qed simp

section \<open>Properties\<close>

text \<open>
  Property C8. The whole server as the abstract relay: starts and closes, the bytes of the clients, datagrams,
  verifications and timers, each is a run of it, and at all times media flows only between users that have an
  address.
\<close>

theorem life_refines_relay:
  assumes "run_events (life_handle en) (life_new st) es = Inr (L, out)"
  shows "relay_steps zero_addr empty_relay (relay_view (rl_server L)) \<and> relay_wf (relay_view (rl_server L))"
  using life_ref.run_from_empty [OF life_new_inv life_view_new assms] by blast

text \<open>
  After \<open>Close\<close> no media is sent, whatever else the loop still does, unless the server is
  started again or a verification that was under way ends.
\<close>

theorem close_stops_media:
  assumes "life_handle en L L_Close = Inr (L1, out1)" "run_events (life_handle en) L1 es = Inr (L2, out2)"
    "\<forall>e\<in>set es. stopping e"
  shows "Out_Media (Net u) \<notin> set out2"
proof -
  have "rl_udp L1 = Udp_Open" using assms(1)
    by (auto simp: life_handle_def relay_Close_def udp_Close_def Let_def split: if_splits prod.splits)
  then show ?thesis using stopping_run [OF _ assms(3,2)] by simp
qed

text \<open>
  A server without clients stops: the three steps of closing it end with the loop, every flag is as at the
  beginning, and the users that were logged in are still in the table.
\<close>

theorem stop_without_clients:
  assumes "life_inv L" "rl_running L" "rl_open L" "rl_udp L \<noteq> Udp_Closed"
    "\<not> m_bIsClosed (m_pTcpServer (rl_server L))" "\<not> mutex_held (m_pTcpServer (rl_server L))"
    "m_mapClientsList (m_pTcpServer (rl_server L)) = []" "\<forall>(a, c)\<in>set (ctxs (m_pTcpServer (rl_server L))). tcphandle c = Handle_None"
  shows "\<exists>L'. run_events (life_handle en) L [L_Close, L_Loop (Tcp Ev_Async_Close), L_Loop (Tcp Ev_Loop_End)]
      = Inr (L', [Out_Tcp Uv_Async_Send])
    \<and> \<not> rl_running L' \<and> \<not> rl_open L' \<and> m_bIsClosed (m_pTcpServer (rl_server L')) \<and> \<not> m_bIsUserAskForClosed (m_pTcpServer (rl_server L'))
    \<and> m_pUdpServer_obj (rl_server L') = m_pUdpServer_obj (rl_server L)"
proof -
  let ?T = "m_pTcpServer (rl_server L)"
  have "sig_but {} ?T" using life_inv_running [OF assms(1,2)] by (simp add: relay_inv_def)
  then have ids: "map_of (m_mapClientId ?T) k = None" for k
    using assms(7) by (cases "map_of (m_mapClientId ?T) k") (auto simp: sig_but_def simp del: map_of_eq_Some_iff map_of_eq_None_iff)
  have walk: "map (\<lambda>(a, c). (a, CloseWalkCB c)) (ctxs ?T) = ctxs ?T"
    by (rule map_idI) (use assms(8) in \<open>auto simp: CloseWalkCB_def\<close>)
  let ?T1 = "?T\<lparr>m_bIsUserAskForClosed := True\<rparr>"
  let ?L1 = "L\<lparr>rl_server := (rl_server L)\<lparr>m_pTcpServer := ?T1\<rparr>, rl_udp := Udp_Open\<rparr>"
  let ?T2 = "?T1\<lparr>mutex_held := True, ctxs := ctxs ?T\<rparr>"
  let ?L2 = "?L1\<lparr>rl_server := (rl_server L)\<lparr>m_pTcpServer := ?T2\<rparr>, rl_udp := Udp_Closed, rl_open := False, rl_reports := False\<rparr>"
  let ?T3 = "?T2\<lparr>m_bIsClosed := True, m_bIsUserAskForClosed := False\<rparr>"
  let ?L3 = "?L2\<lparr>rl_server := (rl_server L)\<lparr>m_pTcpServer := ?T3\<rparr>, rl_running := False\<rparr>"
  have 1: "life_handle en L L_Close = Inr (?L1, [Out_Tcp Uv_Async_Send])"
    using assms(4,5) by (simp add: life_handle_def relay_Close_def tcp_Close_def udp_Close_def)
  have 2: "life_handle en ?L1 (L_Loop (Tcp Ev_Async_Close)) = Inr (?L2, [])"
    using assms(2,3,5-7) walk by (simp add: life_handle_def life_enabled_def life_after_def relay_handle_def tcp_handle_def
        tcp_enabled_def AsyncCloseCB_def closeinl_def lock_clients_def)
  have 3: "life_handle en ?L2 (L_Loop (Tcp Ev_Loop_End)) = Inr (?L3, [])"
    using assms(2,8) ids by (simp add: life_handle_def life_enabled_def life_after_def relay_handle_def tcp_handle_def
        tcp_enabled_def loop_end_def tcp_call_def sig_CloseCB_def)
  show ?thesis using 1 2 3 by simp
qed

text \<open>Its users are still there after the next \<open>Start\<close> too.\<close>

lemma start_keeps_users:
  "life_inv L \<Longrightarrow> life_handle en L (L_Start ca ua sa st) = Inr (L', out) \<Longrightarrow> m_pUdpServer_obj (rl_server L') = m_pUdpServer_obj (rl_server L)"
  using life_Start_inv(4) by (simp add: life_handle_def)

lemma closed_keeps_running:
  "closed_as ks L \<Longrightarrow> ks \<noteq> [] \<Longrightarrow> rl_running L \<Longrightarrow> life_handle en L e = Inr (L', out) \<Longrightarrow> rl_running L'"
proof (cases e)
  case (L_Loop re)
  assume a: "closed_as ks L" "ks \<noteq> []" "rl_running L" "life_handle en L e = Inr (L', out)"
  let ?T = "m_pTcpServer (rl_server L)"
  have "sig_but {} ?T" using a(1,3) life_inv_running by (auto simp: closed_as_def relay_inv_def)
  then have ci: "clients_inv ?T" by (simp add: sig_but_def tcp_inv_def)
  obtain k ac xs where "m_mapClientsList ?T = (k, ac) # xs"
    using a(1,2) by (cases "m_mapClientsList ?T") (auto simp: closed_as_def)
  then obtain c where "map_of (ctxs ?T) (m_pClientHandle ac) = Some c" "tcphandle c \<noteq> Handle_None"
    using ci by (fastforce simp: clients_inv_def)
  then have "\<not> life_enabled (Tcp Ev_Loop_End) L"
    by (force simp: life_enabled_def tcp_enabled_def dest: map_of_SomeD)
  then show ?thesis using a(3,4) L_Loop
    by (auto simp: life_handle_def life_after_def split: if_splits)
next
  case (L_Start ca ua sa st)
  assume "rl_running L" "life_handle en L e = Inr (L', out)"
  then show ?thesis using L_Start by (auto simp: life_handle_def life_Start_def Let_def bind_outcome_Inr_iff)
next
  case L_Close
  assume "rl_running L" "life_handle en L e = Inr (L', out)"
  then show ?thesis using L_Close by (auto simp: life_handle_def relay_Close_def Let_def split: prod.splits)
qed

lemma closed_run:
  "closed_as ks L \<Longrightarrow> run_events (life_handle en) L es = Inr (L', out) \<Longrightarrow> closed_as ks L' \<and> (ks \<noteq> [] \<longrightarrow> rl_running L \<longrightarrow> rl_running L')"
proof (induction es arbitrary: L out)
  case (Cons e es)
  then obtain t o1 o2 where h: "life_handle en L e = Inr (t, o1)" "run_events (life_handle en) t es = Inr (L', o2)"
    by (auto simp: bind_outcome_Inr_iff)
  show ?case using Cons.IH [OF closed_as_step [OF Cons.prems(1) h(1)] h(2)] closed_keeps_running [OF Cons.prems(1) _ _ h(1)] by blast
qed simp

text \<open>
  Property C40. Once \<open>Close\<close> has been handled by the loop, the server is closed for good: it receives nothing
  any more; the mutex is never released, so that no client is added or removed, and if one was
  connected the loop never ends; a second \<open>Close\<close>, and a \<open>Start\<close> that can bind its UDP port and begins to receive, use
  the closed socket.
\<close>

theorem closed_for_good:
  assumes "run_events (life_handle en) (life_new st) es = Inr (L, out)" "rl_udp L = Udp_Closed"
    "run_events (life_handle en) L es' = Inr (L', out')"
  defines "clients \<equiv> \<lambda>L. map fst (m_mapClientsList (m_pTcpServer (rl_server L)))"
  shows "rl_udp L' = Udp_Closed \<and> clients L' = clients L \<and> (rl_running L \<and> clients L \<noteq> [] \<longrightarrow> rl_running L')
    \<and> life_handle en L' L_Close = Inl Handle_Misuse
    \<and> (udp_bind ua \<and> ua_recv ua = 0 \<longrightarrow> (\<exists>f. life_handle en L' (L_Start ca ua sa st') = Inl f))"
proof -
  have "life_inv L" using life.run_inv [OF life_new_inv _ assms(1)] by simp
  then have "closed_as (clients L) L" using assms(2) by (simp add: closed_as_def clients_def)
  note c = closed_run [OF this assms(3)]
  then have u: "rl_udp L' = Udp_Closed" by (simp add: closed_as_def)
  have "\<exists>f. life_handle en L' (L_Start ca ua sa st') = Inl f" if "udp_bind ua" "ua_recv ua = 0"
    using that u by (cases "media_Start (env_le en) (env_junk en) ca ua st'")
      (auto simp: life_handle_def life_Start_def udp_socket_Start_def udp_recv_start_def Let_def)
  then show ?thesis using c u
    by (auto simp: closed_as_def clients_def life_handle_def relay_Close_def udp_Close_def Let_def split: prod.splits)
qed

text \<open>
  The master, which has no UDP socket, can be started again after it was closed; but it accepts nobody.
\<close>

theorem restart_accepts_nobody:
  assumes "mutex_held s" "m_bIsClosed s" "tcp_Start sa s = Inr (t, True, ok)"
  shows "\<exists>f. tcp_handle t (Ev_Accept 0 0 0 0 junk) = Inl f"
proof -
  obtain u o1 b where u: "closeinl s = Inr (u, o1)" "t = u\<lparr>m_bIsClosed := b\<rparr>" by (rule tcp_Start_cases [OF assms(3)])
  then have l: "locked_as (map fst (m_mapClientsList t)) t" using assms(1,2) by (simp add: closeinl_def locked_as_def)
  obtain v a where v: "take_ctx junk t = (v, a)" by (cases "take_ctx junk t")
  show ?thesis
  proof (cases "uv_tcp_init a v")
    case (Inr w)
    then have "locked_as (map fst (m_mapClientsList t)) w" using locked_take [OF l v] by (auto simp: uv_tcp_init_Inr)
    then have "mutex_held w" by (simp add: locked_as_def)
    then have "lock_clients (modify_ctx x f (modify_ctx y g (modify_ctx z h (modify_ctx q i (w\<lparr>s_id := n\<rparr>))))) = Inl Deadlock"
      for x y z q f g h i n
      by (simp add: lock_clients_def modify_ctx_def split: option.split)
    then show ?thesis using Inr
      by (cases "2 ^ 31 \<le> s_id w + 1") (simp_all add: tcp_handle_def tcp_enabled_def AcceptConnection_def v new_AcceptClient_def Let_def)
  qed (simp add: tcp_handle_def tcp_enabled_def AcceptConnection_def v)
qed

section \<open>Instances\<close>

definition demo_start :: life_event where
  "demo_start = L_Start ((0, 0, 0, 0, 0, 0, 0), \<lambda>_. CONNECT_DIS) \<lparr>ua_addr = 0, ua_bind = 0, ua_sockopt = 0, ua_recv = 0\<rparr>
     \<lparr>sa_async = 0, sa_tcp = 0, sa_nodelay = 0, sa_addr = 0, sa_bind = 0, sa_listen = 0, sa_thread = 0, sa_seen = \<lambda>_. CONNECT_FINISH\<rparr>
     relay_settings_new"

definition demo_life :: "signaling_server \<Rightarrow> udp_socket \<Rightarrow> bool \<Rightarrow> relay_life" where
  "demo_life t u op = \<lparr>rl_server = \<lparr>m_pTcpServer = t, m_pUdpServer_obj = media_new [] []\<rparr>, rl_udp = u, rl_running = True,
     rl_open = op, rl_reports = False\<rparr>"

definition demo_sig :: "tcp_server \<Rightarrow> signaling_server" where
  "demo_sig t = setUdpServer (signaling_server_new t)"

lemma demo_started: "life_handle demo_env (life_new relay_settings_new) demo_start = Inr (demo_life (demo_sig tcp_server_started) Udp_Receiving True, [])"
  by (simp add: life_handle_def demo_start_def life_Start_def life_new_def relay_Start_def media_Start_def start_slave_def
      udp_socket_Start_def udp_recv_start_def udp_Start_def udp_bind_def tcp_Start_def closeinl_def server_init_def
      server_handle_init_def server_bind_def server_listen_def relay_new_def relay_settings_new_def signaling_server_new_def
      tcp_server_started_def tcp_server.defs signaling_server.defs setUdpServer_def Let_def demo_life_def demo_sig_def
      wait_connect.simps)

definition demo_ctx :: "u32 \<Rightarrow> VerifyCtx" where
  "demo_ctx u = \<lparr>vc_msg = \<lparr>up_userId = u, up_index = 0, up_type = 0x51, up_del = False, up_dstUserId = 0,
     up_localPort = 5000\<rparr>, vc_srcAddr = demo_addr u\<rparr>"

lemma life_refines_relay_witness:
  "\<exists>L out. run_events (life_handle demo_env) (life_new relay_settings_new)
      [demo_start, L_Loop (Verified 0 (demo_ctx 1) False), L_Loop (Verified 0 (demo_ctx 2) False)] = Inr (L, out)
    \<and> users (relay_view (rl_server L)) = [1 \<mapsto> demo_addr 1, 2 \<mapsto> demo_addr 2]
    \<and> relay_steps zero_addr empty_relay (relay_view (rl_server L))"
proof -
  let ?es = "[L_Loop (Verified 0 (demo_ctx 1) False), L_Loop (Verified 0 (demo_ctx 2) False)]"
  let ?L = "demo_life (demo_sig tcp_server_started) Udp_Receiving True"
  have "\<exists>L out. run_events (life_handle demo_env) ?L ?es = Inr (L, out)
    \<and> address (m_pUdpServer_obj (rl_server L)) = [1 \<mapsto> demo_addr 1, 2 \<mapsto> demo_addr 2]"
    by (simp add: demo_life_def life_handle_def life_enabled_def life_after_def relay_handle_def to_media_def
        media_call_def demo_ctx_def demo_defs m_nTimeout_def UDP_PACKET_SIZE_def address_def fun_eq_iff)
  then obtain L out where r: "run_events (life_handle demo_env) ?L ?es = Inr (L, out)"
    and a: "address (m_pUdpServer_obj (rl_server L)) = [1 \<mapsto> demo_addr 1, 2 \<mapsto> demo_addr 2]" by blast
  have run: "run_events (life_handle demo_env) (life_new relay_settings_new) (demo_start # ?es) = Inr (L, out)"
    using demo_started r by simp
  have "users (relay_view (rl_server L)) = [1 \<mapsto> demo_addr 1, 2 \<mapsto> demo_addr 2]" using a by (simp add: relay_view_def)
  with run conjunct1 [OF life_refines_relay [OF run]] show ?thesis by blast
qed

lemma close_stops_media_witness:
  "\<exists>L1 out1 L2 out2. life_handle demo_env (demo_life (demo_sig tcp_server_started) Udp_Receiving True) L_Close = Inr (L1, out1)
    \<and> run_events (life_handle demo_env) L1 [L_Loop (Udp 0 (demo_packet 1 2) (Some (demo_addr 1))), L_Loop Status] = Inr (L2, out2)
    \<and> Out_Media (Net (Udp_Send (demo_packet 1 2) (demo_addr 1))) \<notin> set out2"
proof -
  let ?L = "demo_life (demo_sig tcp_server_started) Udp_Receiving True"
  let ?L1 = "demo_life ((demo_sig tcp_server_started)\<lparr>m_bIsUserAskForClosed := True\<rparr>) Udp_Open True"
  have 1: "life_handle demo_env ?L L_Close = Inr (?L1, [Out_Tcp Uv_Async_Send])"
    by (simp add: life_handle_def relay_Close_def tcp_Close_def udp_Close_def demo_life_def demo_sig_def setUdpServer_def
        signaling_server_new_def tcp_server_started_def tcp_server.defs signaling_server.defs)
  have 2: "run_events (life_handle demo_env) ?L1 [L_Loop (Udp 0 (demo_packet 1 2) (Some (demo_addr 1))), L_Loop Status] = Inr (?L1, [])"
    by (simp add: life_handle_def life_enabled_def demo_life_def)
  have 3: "\<forall>e\<in>set [L_Loop (Udp 0 (demo_packet 1 2) (Some (demo_addr 1))), L_Loop Status]. stopping e" by (simp add: stopping_def)
  from 1 2 close_stops_media [OF 1 2 3] show ?thesis by blast
qed

lemma closed_for_good_witness:
  "\<exists>L out. run_events (life_handle demo_env) (life_new relay_settings_new)
      [demo_start, L_Loop (Tcp (Ev_Accept 0 0 0 0 junk_packet)), L_Close, L_Loop (Tcp Ev_Async_Close)] = Inr (L, out)
    \<and> rl_running L \<and> map fst (m_mapClientsList (m_pTcpServer (rl_server L))) = [1] \<and> rl_udp L = Udp_Closed
    \<and> life_handle demo_env L L_Close = Inl Handle_Misuse"
proof -
  let ?T = "tcp_server_started\<lparr>ctxs := [(0, fresh_client 1)], next_ctx := 1, m_mapClientsList := [(1, \<lparr>m_pClientHandle = 0, ac_bIsClosed = False\<rparr>)],
    s_id := 1\<rparr>"
  let ?c = "(fresh_client 1)\<lparr>tcphandle_data := Data_Accept 1, tcphandle := Handle_Closing AfterClientClose_CB\<rparr>"
  let ?T' = "?T\<lparr>m_bIsUserAskForClosed := True, mutex_held := True, ctxs := [(0, ?c)]\<rparr>"
  let ?L = "demo_life (demo_sig ?T') Udp_Closed False"
  note sig = demo_life_def demo_sig_def setUdpServer_def signaling_server_new_def tcp_server.defs signaling_server.defs
  have 2: "life_handle demo_env (demo_life (demo_sig tcp_server_started) Udp_Receiving True) (L_Loop (Tcp (Ev_Accept 0 0 0 0 junk_packet)))
    = Inr (demo_life (demo_sig ?T) Udp_Receiving True, [Out_Tcp (New_Connect 1)])"
    by (simp add: life_handle_def life_enabled_def life_after_def relay_handle_def tcp_eval tcp_call_def sig fresh_client_def)
  have 3: "life_handle demo_env (demo_life (demo_sig ?T) Udp_Receiving True) L_Close
    = Inr (demo_life (demo_sig (?T\<lparr>m_bIsUserAskForClosed := True\<rparr>)) Udp_Open True, [Out_Tcp Uv_Async_Send])"
    by (simp add: life_handle_def relay_Close_def tcp_Close_def udp_Close_def sig tcp_server_started_def)
  have 4: "life_handle demo_env (demo_life (demo_sig (?T\<lparr>m_bIsUserAskForClosed := True\<rparr>)) Udp_Open True) (L_Loop (Tcp Ev_Async_Close))
    = Inr (?L, [Out_Tcp (Uv_Close 0)])"
    by (simp add: life_handle_def life_enabled_def life_after_def relay_handle_def tcp_eval AsyncCloseCB_def closeinl_def
        AcceptClient_Close_def uv_close_def CloseWalkCB_def tcp_call_def sig fresh_client_def)
  have run: "run_events (life_handle demo_env) (life_new relay_settings_new)
      [demo_start, L_Loop (Tcp (Ev_Accept 0 0 0 0 junk_packet)), L_Close, L_Loop (Tcp Ev_Async_Close)]
    = Inr (?L, [Out_Tcp (New_Connect 1), Out_Tcp Uv_Async_Send, Out_Tcp (Uv_Close 0)])"
    using demo_started 2 3 4 by simp
  have st: "rl_running ?L" "map fst (m_mapClientsList (m_pTcpServer (rl_server ?L))) = [1]" "rl_udp ?L = Udp_Closed"
    by (simp_all add: sig)
  have "life_handle demo_env ?L L_Close = Inl Handle_Misuse" using closed_for_good [OF run st(3), of "[]" ?L "[]"] by simp
  then show ?thesis by (intro exI conjI) (rule run st)+
qed

end
