(* ===== verification/Uv_Framing.thy ===== *)
theory Uv_Framing
  imports Net_Base Stream_Spec
begin

text \<open>
  Message framing on a libuv stream (\<open>simple_uv/UVMsgFraming.cpp\<close>, \<open>UVMsgFraming.h\<close>): a message
  goes out behind its size in network order; the receiver collects bytes in one buffer, which it
  enlarges to the size of the message at hand, and hands over every complete message in it. The
  lengths are the \<open>int\<close> and \<open>size_t\<close> of the code, the allocation callback is a parameter. The messages come
  back whatever the pieces are; a size of minus four is never finished with.
\<close>

section \<open>State\<close>

text \<open>
  A \<open>uv_msg_t\<close>: \<open>buf\<close> is the memory the allocation callback handed out, \<open>None\<close> for the null
  pointer; whether a \<open>free_cb\<close> is set is \<open>has_free_cb\<close>.
\<close>

record uv_msg =
  msg_buf :: "bytes option"
  alloc_size :: int
  filled :: int
  has_free_cb :: bool

datatype uv_stream_type = UV_TCP | UV_NAMED_PIPE | Other_Stream

definition UV_EINVAL :: int where "UV_EINVAL = -22"

text \<open>
  What the library calls: the message callback with a message, with a negative size, or with
  the error of a read; and \<open>free_cb\<close>.
\<close>

datatype msg_out = Msg_Read bytes | Msg_Negative int | Msg_Error int | Msg_Free

text \<open>\<open>rc\<close> is the answer of \<open>uv_tcp_init\<close> or \<open>uv_pipe_init\<close>; \<open>m\<close> is the memory of the handle.\<close>

definition uv_msg_init :: "uv_stream_type \<Rightarrow> int \<Rightarrow> uv_msg \<Rightarrow> uv_msg \<times> int" where
  "uv_msg_init stream_type rc m = (case stream_type of
       Other_Stream \<Rightarrow> (m, UV_EINVAL)
     | _ \<Rightarrow> if rc \<noteq> 0 then (m, rc)
            else (\<lparr>msg_buf = None, alloc_size = 0, filled = 0, has_free_cb = False\<rparr>, 0))"

definition uv_msg_read_start :: "bool \<Rightarrow> uv_msg \<Rightarrow> uv_msg" where
  "uv_msg_read_start free_cb m = m\<lparr>has_free_cb := free_cb\<rparr>"

section \<open>Integers in memory\<close>

text \<open>An \<open>int\<close> in the memory of the host, and the conversions to \<open>int\<close> and \<open>size_t\<close>.\<close>

definition store32 :: "bool \<Rightarrow> u32 \<Rightarrow> bytes" where
  "store32 le x = (if le then le_bytes 4 (unat x) else rev (le_bytes 4 (unat x)))"

definition load32 :: "bool \<Rightarrow> bytes \<Rightarrow> u32" where
  "load32 le b = of_nat (from_le (if le then take 4 b else rev (take 4 b)))"

definition to_int32 :: "int \<Rightarrow> int" where
  "to_int32 n = sint (of_int n :: u32)"

definition to_size_t :: "int \<Rightarrow> nat" where
  "to_size_t n = unat (of_int n :: u64)"

section \<open>Sending\<close>

text \<open>
  The two buffers that go to \<open>uv_write\<close>, or the error code. A null pointer is \<open>None\<close>; \<open>req\<close>
  and \<open>stream\<close> say whether the others are set.
\<close>

definition uv_msg_send :: "bool \<Rightarrow> bool \<Rightarrow> bool \<Rightarrow> bytes option \<Rightarrow> int \<Rightarrow> (int + bytes list) outcome" where
  "uv_msg_send le req stream msg sz = (case msg of
       None \<Rightarrow> Inr (Inl UV_EINVAL)
     | Some d \<Rightarrow> if \<not> req \<or> \<not> stream \<or> sz \<le> 0 then Inr (Inl UV_EINVAL)
         else if int (length d) < sz then Inl Out_Of_Bounds
         else Inr (Inr [store32 le (htonl le (of_int sz)), take (nat sz) d]))"

section \<open>Receiving\<close>

definition load_size :: "bool \<Rightarrow> bytes \<Rightarrow> nat \<Rightarrow> int" where
  "load_size le b p = sint (ntohl le (load32 le (drop p b)))"

definition uv_stream_msg_free_buffer :: "uv_msg \<Rightarrow> uv_msg \<times> msg_out list" where
  "uv_stream_msg_free_buffer m =
     (m\<lparr>msg_buf := None, alloc_size := 0\<rparr>, if has_free_cb m then [Msg_Free] else [])"

text \<open>
  The allocation callback \<open>alloc\<close> answers a suggested size with the memory it allocates, or with
  no memory. The old contents are copied over before the old memory is freed.
\<close>

definition uv_stream_msg_realloc ::
  "(nat \<Rightarrow> bytes option) \<Rightarrow> nat \<Rightarrow> uv_msg \<Rightarrow> (uv_msg \<times> bool \<times> msg_out list) outcome" where
  "uv_stream_msg_realloc alloc suggested_size m = (case alloc suggested_size of
       None \<Rightarrow> Inr (m, False, [])
     | Some b \<Rightarrow> if length b < suggested_size then Inr (m, False, [])
         else (case msg_buf m of
             None \<Rightarrow> Inl Null_Dereference
           | Some old \<Rightarrow>
               if filled m < 0 \<or> length old < nat (filled m) \<or> length b < nat (filled m) then Inl Out_Of_Bounds
               else Inr (m\<lparr>msg_buf := Some (take (nat (filled m)) old @ drop (nat (filled m)) b),
                      alloc_size := to_int32 (int (length b))\<rparr>,
                    True, if has_free_cb m then [Msg_Free] else [])))"

text \<open>The offset and the length of the room for the next bytes; \<open>None\<close> is a null base.\<close>

definition uv_stream_msg_alloc :: "bool \<Rightarrow> (nat \<Rightarrow> bytes option) \<Rightarrow> nat \<Rightarrow> uv_msg
    \<Rightarrow> (uv_msg \<times> (int \<times> nat) option \<times> msg_out list) outcome" where
  "uv_stream_msg_alloc le alloc suggested_size m = (
     let m = (case (msg_buf m, alloc suggested_size) of
           (None, Some b) \<Rightarrow> m\<lparr>msg_buf := Some b, alloc_size := to_int32 (int (length b))\<rparr>
         | _ \<Rightarrow> m)
     in case msg_buf m of
       None \<Rightarrow> Inr (m, None, [])
     | Some b \<Rightarrow>
         if 4 \<le> filled m then
           if length b < 4 then Inl Out_Of_Bounds
           else let msg_size = load_size le b 0 in
             if 2 ^ 31 \<le> msg_size + 4 then Inl Signed_Overflow
             else let entire = msg_size + 4 in
               if alloc_size m < entire then
                 map_outcome (\<lambda>(m, ok, out).
                     (m, if ok then Some (filled m, to_size_t (entire - filled m)) else None, out))
                   (uv_stream_msg_realloc alloc (to_size_t entire) m)
               else Inr (m, Some (filled m, to_size_t (entire - filled m)), [])
         else if alloc_size m < 4 then
           map_outcome (\<lambda>(m, ok, out).
               (m, if ok then Some (filled m, to_size_t (alloc_size m - filled m)) else None, out))
             (uv_stream_msg_realloc alloc (64 * 1024) m)
         else Inr (m, Some (filled m, to_size_t (alloc_size m - filled m)), []))"

definition msg_event :: "bytes \<Rightarrow> int \<Rightarrow> int \<Rightarrow> msg_out" where
  "msg_event b p msg_size =
     (if msg_size < 0 then Msg_Negative msg_size else Msg_Read (take (nat msg_size) (drop (nat p + 4) b)))"

text \<open>
  The loop over the messages in the buffer: \<open>p\<close> is \<open>ptr - buf\<close>, \<open>f\<close> is \<open>filled\<close>. A size of
  minus four leaves both as they are, so the loop is a partial function.
\<close>

partial_function (option) msg_loop ::
  "bool \<Rightarrow> bytes \<Rightarrow> int \<Rightarrow> int \<Rightarrow> msg_out list \<Rightarrow> (int \<times> int \<times> msg_out list) outcome option" where
  "msg_loop le b p f out = (
     if f < 4 then Some (Inr (p, f, out))
     else if p < 0 \<or> int (length b) < p + 4 then Some (Inl Out_Of_Bounds)
     else let msg_size = load_size le b (nat p) in
       if 2 ^ 31 \<le> msg_size + 4 then Some (Inl Signed_Overflow)
       else let entire = msg_size + 4 in
         if f < entire then Some (Inr (p, f, out))
         else if 2 ^ 31 \<le> f - entire then Some (Inl Signed_Overflow)
         else msg_loop le b (if entire < f then p + entire else p) (f - entire) (out @ [msg_event b p msg_size]))"

definition uv_stream_msg_read :: "bool \<Rightarrow> int \<Rightarrow> uv_msg \<Rightarrow> (uv_msg \<times> msg_out list) outcome option" where
  "uv_stream_msg_read le nread m = (
     if nread = 0 then Some (Inr (m, []))
     else if nread < 0 then
       let (m, out) = uv_stream_msg_free_buffer m in Some (Inr (m, out @ [Msg_Error nread]))
     else if 2 ^ 31 \<le> filled m + nread then Some (Inl Signed_Overflow)
     else case msg_buf m of
       None \<Rightarrow> Some (Inl Null_Dereference)
     | Some b \<Rightarrow> map_option (\<lambda>r. bind_outcome r (\<lambda>(p, f, out).
         let m = m\<lparr>filled := f\<rparr> in
         if 0 < p \<and> 0 < f then
           if length b < nat (p + f) then Inl Out_Of_Bounds
           else Inr (m\<lparr>msg_buf := Some (take (nat f) (drop (nat p) b) @ drop (nat f) b)\<rparr>, out)
         else if f = 0 then let (m, out') = uv_stream_msg_free_buffer m in Inr (m, out @ out')
         else Inr (m, out))) (msg_loop le b 0 (filled m + nread) []))"

section \<open>The stream\<close>

text \<open>
  libuv suggests 64 KiB to the allocation callback, stores what has come in, up to the length of
  the room, at its base, and calls the read callback; no room is the error \<open>UV_ENOBUFS\<close>. Bytes
  that do not fit wait for the next call.
\<close>

definition uv_suggested_size :: nat where "uv_suggested_size = 65536"
definition UV_ENOBUFS :: int where "UV_ENOBUFS = -105"

definition write_at :: "nat \<Rightarrow> bytes \<Rightarrow> bytes \<Rightarrow> bytes" where
  "write_at p d b = take p b @ d @ drop (p + length d) b"

definition uv_read_once :: "bool \<Rightarrow> (nat \<Rightarrow> bytes option) \<Rightarrow> uv_msg \<Rightarrow> bytes
    \<Rightarrow> (uv_msg \<times> nat \<times> msg_out list) outcome option" where
  "uv_read_once le alloc m inp = (case uv_stream_msg_alloc le alloc uv_suggested_size m of
       Inl e \<Rightarrow> Some (Inl e)
     | Inr (m, room, out) \<Rightarrow> (case (room, msg_buf m) of
         (Some (base, len), Some b) \<Rightarrow>
           if len = 0 then map_option (map_outcome (\<lambda>(m, out'). (m, 0, out @ out'))) (uv_stream_msg_read le UV_ENOBUFS m)
           else let n = min len (length inp) in
             if base < 0 \<or> length b < nat base + n then Some (Inl Out_Of_Bounds)
             else map_option (map_outcome (\<lambda>(m, out'). (m, n, out @ out')))
                    (uv_stream_msg_read le (int n) (m\<lparr>msg_buf := Some (write_at (nat base) (take n inp) b)\<rparr>))
       | _ \<Rightarrow> map_option (map_outcome (\<lambda>(m, out'). (m, 0, out @ out'))) (uv_stream_msg_read le UV_ENOBUFS m)))"

function uv_read :: "bool \<Rightarrow> (nat \<Rightarrow> bytes option) \<Rightarrow> uv_msg \<Rightarrow> bytes
    \<Rightarrow> (uv_msg \<times> msg_out list) outcome option" where
  "uv_read le alloc m inp = (if inp = [] then Some (Inr (m, []))
     else case uv_read_once le alloc m inp of
       None \<Rightarrow> None
     | Some (Inl e) \<Rightarrow> Some (Inl e)
     | Some (Inr (m, n, out)) \<Rightarrow> if n = 0 then Some (Inr (m, out))
         else map_option (map_outcome (\<lambda>(m, out'). (m, out @ out'))) (uv_read le alloc m (drop n inp)))"
  by pat_completeness auto
termination by (relation "measure (\<lambda>(_, _, _, inp). length inp)") auto

declare uv_read.simps [simp del]
section \<open>Headers\<close>

definition net32 :: "u32 \<Rightarrow> bytes" where
  "net32 x = rev (le_bytes 4 (unat x))"

lemma length_net32 [simp]: "length (net32 x) = 4"
  by (simp add: net32_def)

lemma le_bytes_u32:
  "le_bytes 4 (unat (x :: u32)) = map (\<lambda>i. ucast (drop_bit (8 * i) x)) [0..<4]"
proof -
  have "(of_nat (unat x div 256 ^ i) :: u8) = ucast (drop_bit (8 * i) x)" for i
  proof -
    have "unat (drop_bit (8 * i) x) = unat x div 256 ^ i"
      by (simp only: unat_drop_bit_eq) (simp add: drop_bit_eq_div power_mult)
    then show ?thesis by (metis of_nat_unat)
  qed
  then show ?thesis by (simp add: le_bytes_def)
qed

text \<open>The header is the same on every host, and every host reads it back.\<close>

lemma store32_htonl: "store32 le (htonl le x) = net32 x"
proof (cases le)
  case True
  have "le_bytes 4 (unat (bswap32 x)) = rev (le_bytes 4 (unat x))"
    unfolding le_bytes_u32
    by (simp add: upt_rec, intro conjI; rule word8_eqI, unfold bit_index_sets)
      (simp_all add: bswap32_def bit_simps)
  then show ?thesis using True by (simp add: store32_def htonl_def net32_def)
qed (simp add: store32_def htonl_def net32_def)

lemma load32_store32: "take 4 b = store32 le x \<Longrightarrow> load32 le b = x"
  by (simp add: load32_def store32_def)

lemma load_size_net32: "take 4 (drop p b) = net32 x \<Longrightarrow> load_size le b p = sint x"
  using load32_store32 [of "drop p b" le "htonl le x"] by (simp add: load_size_def store32_htonl)

lemma sint_of_nat32: "n < 2 ^ 31 \<Longrightarrow> sint (of_nat n :: u32) = int n"
  by (simp add: signed_of_nat signed_take_bit_int_eq_self)

lemma to_int32_id [simp]: "0 \<le> n \<Longrightarrow> n < 2 ^ 31 \<Longrightarrow> to_int32 n = n"
  by (simp add: to_int32_def signed_of_int signed_take_bit_int_eq_self)

lemma to_size_t_id [simp]: "0 \<le> n \<Longrightarrow> n < 2 ^ 31 \<Longrightarrow> to_size_t n = nat n"
  by (simp add: to_size_t_def unsigned_of_int take_bit_int_eq_self)
section \<open>Frames\<close>

definition frame :: "bytes \<Rightarrow> bytes" where
  "frame d = net32 (of_nat (length d)) @ d"

abbreviation framed :: "bytes list \<Rightarrow> bytes" where
  "framed ms \<equiv> concat (map frame ms)"

definition framable :: "bytes \<Rightarrow> bool" where
  "framable d \<longleftrightarrow> d \<noteq> [] \<and> length d + 4 < 2 ^ 31"

text \<open>What may stay behind in the buffer: a proper beginning of a frame.\<close>

definition incomplete :: "bytes \<Rightarrow> bool" where
  "incomplete r \<longleftrightarrow> (\<exists>d z. framable d \<and> frame d = r @ z \<and> z \<noteq> [])"

lemma length_frame [simp]: "length (frame d) = length d + 4"
  by (simp add: frame_def)

lemma frame_neq_Nil [simp]: "frame d \<noteq> []"
  using length_frame [of d] by (metis add_is_0 list.size(3) zero_neq_numeral)

lemma uv_msg_send_frame:
  "uv_msg_send le True True (Some d) (int (length d)) = Inr (Inr bs)
    \<longleftrightarrow> d \<noteq> [] \<and> bs = [net32 (of_nat (length d)), d]"
  by (auto simp: uv_msg_send_def store32_htonl)

lemma incomplete_Nil [simp]: "incomplete []"
  unfolding incomplete_def by (intro exI [of _ "[0]"] exI [of _ "frame [0]"]) (simp add: framable_def)

lemma incomplete_prefix: "incomplete (x @ y) \<Longrightarrow> incomplete x"
  unfolding incomplete_def by auto

lemma size_of_frame:
  assumes "framable d" "take 4 (drop p b) = take 4 (frame d)"
  shows "load_size le b p = int (length d)"
  using assms load_size_net32 [of p b "of_nat (length d)" le]
  by (simp add: frame_def framable_def sint_of_nat32)

lemma size_of_incomplete:
  assumes "incomplete r" "4 \<le> length r" "take (length r) (drop p b) = r"
  shows "int (length r) < load_size le b p + 4 \<and> load_size le b p + 4 < 2 ^ 31"
proof -
  obtain d z where d: "framable d" "frame d = r @ z" "z \<noteq> []" using assms(1) by (auto simp: incomplete_def)
  have "take 4 (drop p b) = take 4 (take (length r) (drop p b))" using assms(2) by simp
  also have "\<dots> = take 4 (frame d)" using assms(2,3) d(2) by simp
  finally have "load_size le b p = int (length d)" by (rule size_of_frame [OF d(1)])
  moreover have "length d + 4 = length r + length z" "0 < length z"
    using arg_cong [OF d(2), of length] d(3) by simp_all
  ultimately show ?thesis using d(1) by (simp add: framable_def del: length_greater_0_conv)
qed

lemma not_incomplete_frame:
  assumes "framable d" "incomplete (frame d @ x)" shows False
proof -
  have "load_size le (frame d @ x) 0 = int (length d)" for le by (rule size_of_frame [OF assms(1)]) simp
  then show False using size_of_incomplete [OF assms(2), of 0 "frame d @ x"] by simp
qed

lemma split_frames:
  "x @ y = framed ms @ r' \<Longrightarrow> incomplete r' \<Longrightarrow> \<forall>d\<in>set ms. framable d \<Longrightarrow>
    \<exists>ms1 ms2 r. ms = ms1 @ ms2 \<and> x = framed ms1 @ r \<and> incomplete r \<and> r @ y = framed ms2 @ r'"
proof (induction ms arbitrary: x)
  case Nil
  then show ?case using incomplete_prefix [of x y] by simp
next
  case (Cons d ms)
  show ?case
  proof (cases "length x < length (frame d)")
    case True
    have "x = take (length x) (frame d)"
      using arg_cong [OF Cons.prems(1), of "take (length x)"] True by simp
    then have "frame d = x @ drop (length x) (frame d)" by (metis append_take_drop_id)
    moreover have "drop (length x) (frame d) \<noteq> []" using True by simp
    ultimately have "incomplete x" using Cons.prems(3) unfolding incomplete_def by (metis list.set_intros(1))
    then have "d # ms = [] @ (d # ms) \<and> x = framed [] @ x \<and> incomplete x \<and> x @ y = framed (d # ms) @ r'"
      using Cons.prems(1) by simp
    then show ?thesis by blast
  next
    case False
    then obtain x' where x: "x = frame d @ x'"
      using Cons.prems(1) by (auto simp: append_eq_append_conv_if append_eq_conv_conj)
    have "x' @ y = framed ms @ r'" using Cons.prems(1) by (simp add: x)
    from Cons.IH [OF this Cons.prems(2)] Cons.prems(3) obtain ms1 ms2 r where
      "ms = ms1 @ ms2" "x' = framed ms1 @ r" "incomplete r" "r @ y = framed ms2 @ r'" by auto
    then have "d # ms = (d # ms1) @ ms2 \<and> x = framed (d # ms1) @ r \<and> incomplete r \<and> r @ y = framed ms2 @ r'"
      by (simp add: x)
    then show ?thesis by blast
  qed
qed

section \<open>The loop\<close>

lemma msg_loop_stop: "f < 4 \<Longrightarrow> msg_loop le b p f out = Some (Inr (p, f, out))"
  by (simp add: msg_loop.simps)

lemma msg_loop_frames:
  assumes "\<forall>d\<in>set ms. framable d" "incomplete r"
    "b = pre @ framed ms @ r @ junk" "length (framed ms @ r) < 2 ^ 31"
  shows "\<exists>p. msg_loop le b (int (length pre)) (int (length (framed ms @ r))) out
      = Some (Inr (p, int (length r), out @ map Msg_Read ms))
    \<and> (r \<noteq> [] \<longrightarrow> p = int (length (pre @ framed ms)))"
  using assms
proof (induction ms arbitrary: pre out)
  case Nil
  show ?case
  proof (cases "length r < 4")
    case False
    then have "int (length r) < load_size le b (length pre) + 4 \<and> load_size le b (length pre) + 4 < 2 ^ 31"
      using Nil.prems size_of_incomplete [of r "length pre" b le] by simp
    then show ?thesis using False by (subst msg_loop.simps) (auto simp: Nil.prems(3) Let_def)
  qed (simp add: msg_loop_stop)
next
  case (Cons d ms)
  let ?pre = "pre @ frame d" and ?out = "out @ [Msg_Read d]"
  have d: "framable d" and b: "b = ?pre @ framed ms @ r @ junk" using Cons.prems by simp_all
  have "load_size le b (length pre) = int (length d)" by (rule size_of_frame [OF d]) (simp add: b)
  moreover have "msg_event b (int (length pre)) (int (length d)) = Msg_Read d"
    by (simp add: msg_event_def b frame_def)
  moreover have "length d + 4 < 2 ^ 31" using d by (simp add: framable_def)
  ultimately have l: "msg_loop le b (int (length pre)) (int (length (framed (d # ms) @ r))) out
      = msg_loop le b (if 0 < int (length (framed ms @ r)) then int (length ?pre) else int (length pre)) (int (length (framed ms @ r))) ?out"
    using Cons.prems(4) by (subst msg_loop.simps) (simp add: b)
  show ?case
  proof (cases "framed ms @ r = []")
    case True
    then have "ms = []" by (cases ms) auto
    then show ?thesis using True by (subst l) (simp add: msg_loop_stop)
  next
    case False
    then have "0 < int (length (framed ms @ r))" by (simp only: length_greater_0_conv of_nat_0_less_iff not_False_eq_True)
    with Cons.IH [of ?pre ?out] Cons.prems b show ?thesis by (subst l) (simp only: if_P, simp)
  qed
qed

text \<open>
  The loop returns when no size in the buffer is minus four or less; at a size of minus four
  it does not.
\<close>

lemma msg_loop_total:
  "(\<And>i. i + 4 \<le> length b \<Longrightarrow> -4 < load_size le b i) \<Longrightarrow> msg_loop le b p f out \<noteq> None"
proof (induction "nat f" arbitrary: p f out rule: less_induct)
  case less
  show ?case
  proof (cases "f < 4 \<or> p < 0 \<or> int (length b) < p + 4")
    case False
    let ?e = "load_size le b (nat p) + 4"
    have "-4 < load_size le b (nat p)" using False by (intro less.prems) linarith
    then have "msg_loop le b q (f - ?e) out' \<noteq> None" for q out'
      using False by (intro less.hyps less.prems) auto
    then show ?thesis by (subst msg_loop.simps) (auto simp: Let_def)
  qed (subst msg_loop.simps, auto)
qed

lemma msg_loop_stuck:
  assumes "4 \<le> f" "f < 2 ^ 31" "0 \<le> p" "p + 4 \<le> int (length b)" "load_size le b (nat p) = -4"
  shows "msg_loop le b p f out = None"
proof -
  let ?P = "\<lambda>le' b' p' f' _ _. le' = le \<longrightarrow> b' = b \<longrightarrow> p' = p \<longrightarrow> f' \<noteq> f"
  have "?P le' b' p' f' out' r" if "msg_loop le' b' p' f' out' = Some r" for le' b' p' f' out' r
  proof (rule msg_loop.raw_induct [where P = ?P, OF _ that], intro impI notI)
    fix loop le' b' p' f' out' r
    assume IH: "\<And>le' b' p' f' out' r. loop le' b' p' f' out' = Some r \<Longrightarrow> ?P le' b' p' f' out' r"
      and eq: "le' = le" "b' = b" "p' = p" "f' = f"
      and body: "(if f' < 4 then Some (Inr (p', f', out'))
        else if p' < 0 \<or> int (length b') < p' + 4 then Some (Inl Out_Of_Bounds)
        else let msg_size = load_size le' b' (nat p')
          in if 2 ^ 31 \<le> msg_size + 4 then Some (Inl Signed_Overflow)
             else let entire = msg_size + 4
               in if f' < entire then Some (Inr (p', f', out'))
                  else if 2 ^ 31 \<le> f' - entire then Some (Inl Signed_Overflow)
                  else loop le' b' (if entire < f' then p' + entire else p') (f' - entire)
                    (out' @ [msg_event b' p' msg_size])) = Some r"
    have "loop le b p f (out' @ [msg_event b p (-4)]) = Some r"
      using body assms by (simp add: eq)
    then show False using IH by blast
  qed
  then show ?thesis by (cases "msg_loop le b p f out") blast+
qed
section \<open>The buffer\<close>

text \<open>The bytes \<open>r\<close> of an unfinished frame lie at the front of the buffer, and nothing else counts.\<close>

definition holds :: "uv_msg \<Rightarrow> bytes \<Rightarrow> bool" where
  "holds m r \<longleftrightarrow> incomplete r \<and> filled m = int (length r) \<and> (case msg_buf m of
       None \<Rightarrow> r = []
     | Some b \<Rightarrow> alloc_size m = int (length b) \<and> length b < 2 ^ 31 \<and> (\<exists>junk. b = r @ junk))"

text \<open>What is asked of the allocation callback: at least as much memory as suggested, of a size an \<open>int\<close> can hold.\<close>

definition good_alloc :: "(nat \<Rightarrow> bytes option) \<Rightarrow> bool" where
  "good_alloc alloc \<longleftrightarrow> (\<forall>n. n < 2 ^ 31 \<longrightarrow> (\<exists>b. alloc n = Some b \<and> n \<le> length b \<and> length b < 2 ^ 31))"

lemma good_allocE:
  assumes "good_alloc alloc" "n < 2 ^ 31"
  obtains b where "alloc n = Some b" "n \<le> length b" "length b < 2 ^ 31"
  using assms unfolding good_alloc_def by blast

lemma holds_realloc:
  assumes "good_alloc alloc" "holds m r" "msg_buf m = Some b" "length r \<le> n" "n < 2 ^ 31"
  obtains m' b' out where "uv_stream_msg_realloc alloc n m = Inr (m', True, out)" "holds m' r"
    "msg_buf m' = Some b'" "n \<le> length b'" "set out \<subseteq> {Msg_Free}"
proof -
  obtain a where a: "alloc n = Some a" "n \<le> length a" "length a < 2 ^ 31"
    by (rule good_allocE [OF assms(1,5)])
  have r: "filled m = int (length r)" "take (length r) b = r" "length r \<le> length b" "incomplete r"
    using assms(2,3) by (auto simp: holds_def)
  let ?b = "r @ drop (length r) a"
  have "uv_stream_msg_realloc alloc n m
      = Inr (m\<lparr>msg_buf := Some ?b, alloc_size := int (length a)\<rparr>, True, if has_free_cb m then [Msg_Free] else [])"
    using a r assms(3,4) by (simp add: uv_stream_msg_realloc_def)
  then show thesis
    by (rule that [of _ _ ?b]) (use a r assms(4) in \<open>auto simp: holds_def\<close>)
qed

text \<open>
  The room that is handed out is never empty, lies within the buffer right behind what was
  received, and ends where the message ends once its size is known.
\<close>

lemma holds_alloc:
  assumes "good_alloc alloc" "holds m r"
  obtains m' b len out where "uv_stream_msg_alloc le alloc uv_suggested_size m = Inr (m', Some (int (length r), len), out)"
    "holds m' r" "msg_buf m' = Some b" "0 < len" "length r + len \<le> length b" "set out \<subseteq> {Msg_Free}"
    "4 \<le> length r \<Longrightarrow> int (length r + len) = load_size le r 0 + 4"
proof -
  obtain a where a: "alloc uv_suggested_size = Some a" "uv_suggested_size \<le> length a" "length a < 2 ^ 31"
    by (rule good_allocE [OF assms(1), of uv_suggested_size]) (simp add: uv_suggested_size_def)
  define m0 where "m0 = (case (msg_buf m, alloc uv_suggested_size) of
      (None, Some b) \<Rightarrow> m\<lparr>msg_buf := Some b, alloc_size := to_int32 (int (length b))\<rparr> | _ \<Rightarrow> m)"
  obtain b where b: "msg_buf m0 = Some b" and h: "holds m0 r"
    using assms(2) a by (cases "msg_buf m") (auto simp: m0_def holds_def)
  have m0: "filled m0 = int (length r)" "alloc_size m0 = int (length b)" "length r \<le> length b"
    "length b < 2 ^ 31" "take (length r) b = r" "incomplete r"
    using h b by (auto simp: holds_def)
  have size: "int (length r) < load_size le b 0 + 4" "load_size le b 0 + 4 < 2 ^ 31"
    "load_size le b 0 = load_size le r 0" if "4 \<le> length r"
  proof -
    show "int (length r) < load_size le b 0 + 4" "load_size le b 0 + 4 < 2 ^ 31"
      using size_of_incomplete [OF m0(6) that, of 0 b le] m0(5) by simp_all
    have "take 4 b = take 4 r" using that m0(5) by (metis min.absorb1 take_take)
    then show "load_size le b 0 = load_size le r 0" by (simp add: load_size_def load32_def)
  qed
  have alloc: "uv_stream_msg_alloc le alloc uv_suggested_size m = uv_stream_msg_alloc le alloc uv_suggested_size m0"
    using a by (cases "msg_buf m") (simp_all add: uv_stream_msg_alloc_def m0_def)
  consider (room) "4 \<le> length r" "load_size le r 0 + 4 \<le> int (length b)"
    | (grow) "4 \<le> length r" "int (length b) < load_size le r 0 + 4"
    | (head) "length r < 4" "4 \<le> length b" | (tiny) "length r < 4" "length b < 4" by linarith
  then show thesis
  proof cases
    case room
    let ?len = "nat (load_size le r 0 + 4) - length r"
    have "uv_stream_msg_alloc le alloc uv_suggested_size m0 = Inr (m0, Some (int (length r), ?len), [])"
      using room size m0(1-4) b by (simp add: uv_stream_msg_alloc_def nat_diff_distrib')
    then show thesis unfolding alloc [symmetric] by (rule that [OF _ h b]) (use room size in auto)
  next
    case grow
    let ?n = "nat (load_size le r 0 + 4)"
    obtain m' b' out where r: "uv_stream_msg_realloc alloc ?n m0 = Inr (m', True, out)" "holds m' r"
      "msg_buf m' = Some b'" "?n \<le> length b'" "set out \<subseteq> {Msg_Free}"
      using grow size by (auto intro: holds_realloc [OF assms(1) h b, of ?n])
    have "uv_stream_msg_alloc le alloc uv_suggested_size m0 = Inr (m', Some (int (length r), ?n - length r), out)"
      using grow size m0(1-4) b r(1,2) by (simp add: uv_stream_msg_alloc_def nat_diff_distrib' holds_def)
    then show thesis unfolding alloc [symmetric] by (rule that [OF _ r(2,3)]) (use r grow size in auto)
  next
    case head
    have "uv_stream_msg_alloc le alloc uv_suggested_size m0 = Inr (m0, Some (int (length r), length b - length r), [])"
      using head m0(1-4) b by (simp add: uv_stream_msg_alloc_def)
    then show thesis unfolding alloc [symmetric] by (rule that [OF _ h b]) (use head in auto)
  next
    case tiny
    obtain m' b' out where r: "uv_stream_msg_realloc alloc 65536 m0 = Inr (m', True, out)" "holds m' r"
      "msg_buf m' = Some b'" "65536 \<le> length b'" "set out \<subseteq> {Msg_Free}"
      using tiny by (auto intro: holds_realloc [OF assms(1) h b, of 65536])
    then have m': "filled m' = int (length r)" "alloc_size m' = int (length b')" "length b' < 2 ^ 31"
      by (simp_all add: holds_def)
    have "uv_stream_msg_alloc le alloc uv_suggested_size m0 = Inr (m', Some (int (length r), length b' - length r), out)"
      using tiny m0(1-4) b r m' by (simp add: uv_stream_msg_alloc_def)
    then show thesis unfolding alloc [symmetric] by (rule that [OF _ r(2,3)]) (use r tiny in auto)
  qed
qed

text \<open>A read that ends the frames of \<open>ms\<close> hands them over and keeps the beginning of the next one.\<close>

lemma holds_read:
  assumes "holds m r" "msg_buf m = Some b" "d \<noteq> []" "length r + length d \<le> length b"
    "r @ d = framed ms @ r'" "\<forall>d\<in>set ms. framable d" "incomplete r'"
  obtains m' out where "uv_stream_msg_read le (int (length d)) (m\<lparr>msg_buf := Some (write_at (length r) d b)\<rparr>)
      = Some (Inr (m', out))" "filter (\<lambda>x. x \<noteq> Msg_Free) out = map Msg_Read ms" "holds m' r'"
proof -
  have r: "filled m = int (length r)" "alloc_size m = int (length b)" "length b < 2 ^ 31" "take (length r) b = r"
    using assms(1,2) by (auto simp: holds_def)
  let ?junk = "drop (length r + length d) b" and ?m = "m\<lparr>msg_buf := Some (write_at (length r) d b)\<rparr>"
  have b: "write_at (length r) d b = framed ms @ r' @ ?junk"
    using r(4) assms(5) by (simp add: write_at_def)
  have len: "length (framed ms @ r') = length r + length d" using arg_cong [OF assms(5), of length] by simp
  then have small: "length (framed ms @ r') < 2 ^ 31" using assms(4) r(3) by linarith
  obtain p where p: "msg_loop le (write_at (length r) d b) 0 (int (length r + length d)) []
      = Some (Inr (p, int (length r'), map Msg_Read ms))" "r' \<noteq> [] \<Longrightarrow> p = int (length (framed ms))"
    using msg_loop_frames [OF assms(6,7) _ small, of "write_at (length r) d b" "[]" ?junk le "[]"]
    unfolding len by (auto simp: b)
  have len_b: "length (write_at (length r) d b) = length b" using assms(4) by (simp add: write_at_def)
  have nofree: "filter (\<lambda>x. x \<noteq> Msg_Free) (map Msg_Read ms) = map Msg_Read ms" by (induction ms) simp_all
  note read = uv_stream_msg_read_def p(1) [unfolded of_nat_add] r(1)
  show thesis
  proof (cases "r' = []")
    case True
    have "uv_stream_msg_read le (int (length d)) ?m = Some (Inr
        (?m\<lparr>filled := 0, msg_buf := None, alloc_size := 0\<rparr>, map Msg_Read ms @ (if has_free_cb m then [Msg_Free] else [])))"
      using small len assms(3) True by (simp add: read uv_stream_msg_free_buffer_def)
    then show thesis by (rule that) (simp_all add: nofree holds_def True)
  next
    case False
    let ?b = "r' @ drop (length r') (write_at (length r) d b)"
    have "uv_stream_msg_read le (int (length d)) ?m
        = Some (Inr (?m\<lparr>filled := int (length r'), msg_buf := Some ?b\<rparr>, map Msg_Read ms))"
    proof (cases "p > 0")
      case True
      have "take (length r') (drop (length (framed ms)) (write_at (length r) d b)) = r'"
        "length (framed ms) + length r' \<le> length b" using len assms(4) by (simp_all add: b)
      then show ?thesis using small len assms(3) False True len_b
        by (simp add: read p(2) nat_add_distrib)
    next
      case False
      then have "framed ms = []" using p(2) \<open>r' \<noteq> []\<close> by simp
      then have "?b = write_at (length r) d b" "length r' = length r + length d"
        using len by (simp_all add: b)
      moreover have "int (length r) + int (length d) \<noteq> 0" using assms(3) by (cases d) auto
      ultimately show ?thesis using small assms(3) False \<open>r' \<noteq> []\<close>
        by (simp add: read)
    qed
    then show thesis
      by (rule that) (use r len_b len assms(4,7) in \<open>auto simp: nofree holds_def\<close>)
  qed
qed
section \<open>The stream\<close>

lemma holds_once:
  assumes "good_alloc alloc" "holds m r" "inp \<noteq> []" "r @ inp = framed ms @ r'"
    "\<forall>d\<in>set ms. framable d" "incomplete r'"
  shows "\<exists>m' n out ms1 ms2 r1. uv_read_once le alloc m inp = Some (Inr (m', n, out)) \<and> 0 < n \<and> n \<le> length inp
    \<and> filter (\<lambda>x. x \<noteq> Msg_Free) out = map Msg_Read ms1 \<and> holds m' r1
    \<and> ms = ms1 @ ms2 \<and> r1 @ drop n inp = framed ms2 @ r'"
proof -
  obtain m0 b len out0 where a: "uv_stream_msg_alloc le alloc uv_suggested_size m = Inr (m0, Some (int (length r), len), out0)"
    "holds m0 r" "msg_buf m0 = Some b" "0 < len" "length r + len \<le> length b" "set out0 \<subseteq> {Msg_Free}"
    by (rule holds_alloc [OF assms(1,2)]) blast
  let ?n = "min len (length inp)"
  have split: "(r @ take ?n inp) @ drop ?n inp = framed ms @ r'" using assms(4) by simp
  obtain ms1 ms2 r1 where s: "ms = ms1 @ ms2" "r @ take ?n inp = framed ms1 @ r1" "incomplete r1"
    "r1 @ drop ?n inp = framed ms2 @ r'"
    using split_frames [OF split assms(6,5)] by blast
  have ms1: "\<forall>d\<in>set ms1. framable d" using assms(5) s(1) by simp
  have take: "take ?n inp \<noteq> []" "length r + length (take ?n inp) \<le> length b" "length (take ?n inp) = ?n"
    using a(4,5) assms(3) by simp_all
  obtain m' out where r: "uv_stream_msg_read le (int (length (take ?n inp)))
      (m0\<lparr>msg_buf := Some (write_at (length r) (take ?n inp) b)\<rparr>) = Some (Inr (m', out))"
    "filter (\<lambda>x. x \<noteq> Msg_Free) out = map Msg_Read ms1" "holds m' r1"
    by (rule holds_read [OF a(2,3) take(1,2) s(2) ms1 s(3)])
  have "filter (\<lambda>x. x \<noteq> Msg_Free) out0 = []" using a(6) by (auto simp: filter_empty_conv)
  then have "uv_read_once le alloc m inp = Some (Inr (m', ?n, out0 @ out))
      \<and> filter (\<lambda>x. x \<noteq> Msg_Free) (out0 @ out) = map Msg_Read ms1"
    using a r(1,2) take(2) unfolding take(3) by (simp add: uv_read_once_def Let_def)
  moreover have "0 < ?n \<and> ?n \<le> length inp" using a(4) assms(3) by simp
  ultimately show ?thesis using r(3) s(1,4) by blast
qed

lemma holds_uv_read:
  assumes "good_alloc alloc"
  shows "holds m r \<Longrightarrow> r @ inp = framed ms @ r' \<Longrightarrow> \<forall>d\<in>set ms. framable d \<Longrightarrow> incomplete r' \<Longrightarrow>
    \<exists>m' out. uv_read le alloc m inp = Some (Inr (m', out))
      \<and> filter (\<lambda>x. x \<noteq> Msg_Free) out = map Msg_Read ms \<and> holds m' r'"
proof (induction "length inp" arbitrary: inp m r ms rule: less_induct)
  case less
  show ?case
  proof (cases "inp = []")
    case True
    then have r: "r = framed ms @ r'" "incomplete r" using less.prems by (simp_all add: holds_def)
    then have "ms = []" using less.prems(3) not_incomplete_frame [of "hd ms"] by (cases ms) auto
    then show ?thesis using True r less.prems by (simp add: uv_read.simps)
  next
    case False
    obtain m' n out ms1 ms2 r1 where o: "uv_read_once le alloc m inp = Some (Inr (m', n, out))" "0 < n" "n \<le> length inp"
      "filter (\<lambda>x. x \<noteq> Msg_Free) out = map Msg_Read ms1" "holds m' r1" "ms = ms1 @ ms2" "r1 @ drop n inp = framed ms2 @ r'"
      using holds_once [OF assms less.prems(1) False less.prems(2,3,4)] by blast
    have "length (drop n inp) < length inp" "\<forall>d\<in>set ms2. framable d" using o(2,6) False less.prems(3) by simp_all
    from less.hyps [OF this(1) o(5,7) this(2) less.prems(4)] obtain m'' out' where
      "uv_read le alloc m' (drop n inp) = Some (Inr (m'', out'))"
      "filter (\<lambda>x. x \<noteq> Msg_Free) out' = map Msg_Read ms2" "holds m'' r'" by blast
    then show ?thesis using False o by (subst uv_read.simps) simp
  qed
qed

lemma holds_chunks:
  assumes "good_alloc alloc"
  shows "holds m r \<Longrightarrow> r @ concat cs = framed ms @ r' \<Longrightarrow> \<forall>d\<in>set ms. framable d \<Longrightarrow> incomplete r' \<Longrightarrow>
    \<exists>m' out. run_chunks (uv_read le alloc) m cs = Some (Inr (m', out))
      \<and> filter (\<lambda>x. x \<noteq> Msg_Free) out = map Msg_Read ms \<and> holds m' r'"
proof (induction cs arbitrary: m r ms)
  case Nil
  then show ?case using holds_uv_read [OF assms Nil.prems(1), of "[]" ms r' le] by (simp add: uv_read.simps)
next
  case (Cons c cs)
  have "(r @ c) @ concat cs = framed ms @ r'" using Cons.prems(2) by simp
  from split_frames [OF this Cons.prems(4,3)] obtain ms1 ms2 r1 where s: "ms = ms1 @ ms2"
    "r @ c = framed ms1 @ r1" "incomplete r1" "r1 @ concat cs = framed ms2 @ r'" by blast
  have ms: "\<forall>d\<in>set ms1. framable d" "\<forall>d\<in>set ms2. framable d" using s(1) Cons.prems(3) by simp_all
  obtain m1 out1 where "uv_read le alloc m c = Some (Inr (m1, out1))"
    "filter (\<lambda>x. x \<noteq> Msg_Free) out1 = map Msg_Read ms1" "holds m1 r1"
    using holds_uv_read [OF assms Cons.prems(1) s(2) ms(1) s(3)] by blast
  moreover from Cons.IH [OF this(3) s(4) ms(2) Cons.prems(4)] obtain m2 out2 where
    "run_chunks (uv_read le alloc) m1 cs = Some (Inr (m2, out2))"
    "filter (\<lambda>x. x \<noteq> Msg_Free) out2 = map Msg_Read ms2" "holds m2 r'" by blast
  ultimately show ?case using s(1) by simp
qed
text \<open>The stream of a sender that sends the messages one after the other.\<close>

fun send_all :: "bool \<Rightarrow> bytes list \<Rightarrow> bytes option" where
  "send_all le [] = Some []"
| "send_all le (d # ds) = (case uv_msg_send le True True (Some d) (int (length d)) of
     Inr (Inr bufs) \<Rightarrow> map_option ((@) (concat bufs)) (send_all le ds)
   | _ \<Rightarrow> None)"

definition uv_msg_new :: "bool \<Rightarrow> uv_msg" where
  "uv_msg_new free_cb = uv_msg_read_start free_cb
     (fst (uv_msg_init UV_TCP 0 \<lparr>msg_buf = None, alloc_size = 0, filled = 0, has_free_cb = False\<rparr>))"

lemma send_all_framed:
  "send_all le ms = Some s \<Longrightarrow> \<forall>d\<in>set ms. length d + 4 < 2 ^ 31 \<Longrightarrow> s = framed ms \<and> (\<forall>d\<in>set ms. framable d)"
proof (induction ms arbitrary: s)
  case (Cons d ms)
  obtain bufs where "uv_msg_send le True True (Some d) (int (length d)) = Inr (Inr bufs)"
    using Cons.prems(1) by (simp split: sum.splits)
  moreover from this have "d \<noteq> []" "bufs = [net32 (of_nat (length d)), d]" by (simp_all add: uv_msg_send_frame)
  ultimately show ?case using Cons by (auto simp: framable_def frame_def)
qed simp

lemma send_all_nonempty: "[] \<notin> set ms \<Longrightarrow> send_all le ms = Some (framed ms)"
proof (induction ms)
  case (Cons d ms)
  then have "uv_msg_send le True True (Some d) (int (length d)) = Inr (Inr [net32 (of_nat (length d)), d])"
    by (auto simp: uv_msg_send_frame)
  with Cons show ?case by (auto simp: frame_def)
qed simp

lemma holds_new: "holds (uv_msg_new b) []"
  by (simp add: holds_def uv_msg_new_def uv_msg_init_def uv_msg_read_start_def)

text \<open>Four bytes are enough to stop the receiver.\<close>

lemma uv_read_stuck:
  assumes "good_alloc alloc"
  shows "uv_read le alloc (uv_msg_new fr) [0xff, 0xff, 0xff, 0xfc] = None"
proof -
  let ?d = "[0xff, 0xff, 0xff, 0xfc] :: bytes"
  obtain a where a: "alloc 65536 = Some a" "65536 \<le> length a" "length a < 2 ^ 31"
    by (rule good_allocE [OF assms, of 65536]) simp
  let ?b = "write_at 0 ?d a"
  have "take 4 (drop 0 ?b) = net32 (of_int (-4))" by (simp add: write_at_def net32_def le_bytes_def upt_rec)
  then have "load_size le ?b (nat 0) = -4" using load_size_net32 [of 0 ?b "of_int (-4)" le] by simp
  then have "msg_loop le ?b 0 4 [] = None" using a(2) by (intro msg_loop_stuck) (simp_all add: write_at_def)
  moreover have "a \<noteq> []" using a(2) by auto
  ultimately have "uv_read_once le alloc (uv_msg_new fr) ?d = None"
    using a by (simp add: uv_read_once_def uv_stream_msg_alloc_def uv_stream_msg_read_def uv_suggested_size_def
        uv_msg_new_def uv_msg_init_def uv_msg_read_start_def min_def)
  then show ?thesis by (subst uv_read.simps) simp
qed

section \<open>Properties\<close>

text \<open>
  Property C6. What one host sends message by message, another host, of whatever byte order,
  receives as the same messages, however the stream is cut into reads, as long as the allocation
  callback finds memory; every call returns, and in the end nothing is left in the buffer.
\<close>

theorem framing_roundtrip:
  assumes "good_alloc alloc" "send_all le ms = Some stream" "\<forall>d\<in>set ms. length d + 4 < 2 ^ 31"
    "concat cs = stream"
  shows "\<exists>m out. run_chunks (uv_read le' alloc) (uv_msg_new fr) cs = Some (Inr (m, out))
    \<and> filter (\<lambda>x. x \<noteq> Msg_Free) out = map Msg_Read ms \<and> filled m = 0"
  using holds_chunks [OF assms(1) holds_new, of cs ms "[]"] send_all_framed [OF assms(2,3)] assms(4)
  by (fastforce simp: holds_def)

theorem framing_roundtrip_witness:
  "\<exists>m out. run_chunks (uv_read True (\<lambda>n. Some (replicate n 0))) (uv_msg_new True)
      [[0], [0, 0, 2, 7], [8, 0, 0, 0], [1], [9, 0, 0, 0, 3, 1, 2, 3]] = Some (Inr (m, out))
    \<and> filter (\<lambda>x. x \<noteq> Msg_Free) out = map Msg_Read [[7, 8], [9], [1, 2, 3]] \<and> filled m = 0"
  by (rule framing_roundtrip [of _ False _ "[0, 0, 0, 2, 7, 8, 0, 0, 0, 1, 9, 0, 0, 0, 3, 1, 2, 3]"])
    (simp_all add: good_alloc_def send_all_nonempty frame_def net32_def le_bytes_def upt_rec del: send_all.simps)

text \<open>
  Property C31. Let a receiver that has just been set up, with an allocation callback that finds memory, read any
  beginning of a stream of messages sent with \<open>uv_msg_send\<close>, cut at any places and at any point of a message. Then every
  read returns, and the room that libuv is given for the next one is not empty and lies within the buffer, right
  behind the bytes that wait there. Sizes that no sender of this kind writes, and a receiver that is used again
  after a read error, are not covered.
\<close>

theorem framing_room:
  assumes "good_alloc alloc" "send_all le ms = Some (concat cs @ rest)" "\<forall>d\<in>set ms. length d + 4 < 2 ^ 31"
  shows "\<exists>m out m' len out' b. run_chunks (uv_read le' alloc) (uv_msg_new fr) cs = Some (Inr (m, out))
    \<and> uv_stream_msg_alloc le' alloc uv_suggested_size m = Inr (m', Some (filled m, len), out')
    \<and> msg_buf m' = Some b \<and> 0 < len \<and> 0 \<le> filled m \<and> filled m + int len \<le> int (length b)"
proof -
  have "concat cs @ rest = framed ms @ []" "\<forall>d\<in>set ms. framable d"
    using send_all_framed [OF assms(2,3)] by simp_all
  from split_frames [OF this(1) incomplete_Nil this(2)] obtain ms1 ms2 r where
    s: "ms = ms1 @ ms2" "[] @ concat cs = framed ms1 @ r" "incomplete r" by auto
  have "\<forall>d\<in>set ms1. framable d" using \<open>\<forall>d\<in>set ms. framable d\<close> s(1) by simp
  then obtain m out where h: "run_chunks (uv_read le' alloc) (uv_msg_new fr) cs = Some (Inr (m, out))" "holds m r"
    using holds_chunks [OF assms(1) holds_new s(2) _ s(3), where le = le' and b2 = fr] by auto
  then have "filled m = int (length r)" by (simp add: holds_def)
  moreover obtain m' b len out' where "uv_stream_msg_alloc le' alloc uv_suggested_size m = Inr (m', Some (int (length r), len), out')"
    "msg_buf m' = Some b" "0 < len" "length r + len \<le> length b"
    by (rule holds_alloc [OF assms(1) h(2)]) blast
  ultimately show ?thesis using h(1) by auto
qed

theorem framing_room_witness:
  "\<exists>m out m' len out' b. run_chunks (uv_read True (\<lambda>n. Some (replicate n 0))) (uv_msg_new True) [[0], [0, 0, 2, 7]]
      = Some (Inr (m, out))
    \<and> uv_stream_msg_alloc True (\<lambda>n. Some (replicate n 0)) uv_suggested_size m = Inr (m', Some (filled m, len), out')
    \<and> msg_buf m' = Some b \<and> 0 < len \<and> 0 \<le> filled m \<and> filled m + int len \<le> int (length b)"
proof -
  have a: "good_alloc (\<lambda>n. Some (replicate n 0) :: bytes option)" by (simp add: good_alloc_def)
  have "send_all True [[7, 8]] = Some (concat [[0], [0, 0, 2, 7]] @ [8])"
    by (simp add: send_all_nonempty frame_def net32_def le_bytes_def upt_rec del: send_all.simps)
  from framing_room [OF a this] show ?thesis by simp
qed

text \<open>
  Property C30. The loop over the messages in the buffer returns when no four bytes of the buffer
  read as a size of minus four or less; at a size of minus four it runs forever, so four bytes
  from the network stop the loop of the host.
\<close>

theorem framing_terminates:
  "((\<forall>i. i + 4 \<le> length b \<longrightarrow> -4 < load_size le b i) \<longrightarrow> (\<exists>r. msg_loop le b p f out = Some r))
    \<and> (4 \<le> f \<and> f < 2 ^ 31 \<and> 0 \<le> p \<and> p + 4 \<le> int (length b) \<and> load_size le b (nat p) = -4
        \<longrightarrow> msg_loop le b p f out = None)
    \<and> (good_alloc alloc \<longrightarrow> uv_read le alloc (uv_msg_new fr) [0xff, 0xff, 0xff, 0xfc] = None)"
  using msg_loop_total [of b le p f out] msg_loop_stuck [of f p b le out] uv_read_stuck [of alloc le fr] by auto

theorem framing_terminates_witness:
  "(\<exists>r. msg_loop True [0, 0, 0, 1, 9] 0 5 [] = Some r)
    \<and> msg_loop True [0xff, 0xff, 0xff, 0xfc] 0 4 [] = None
    \<and> uv_read True (\<lambda>n. Some (replicate n 0)) (uv_msg_new False) [0xff, 0xff, 0xff, 0xfc] = None"
proof -
  have size: "load_size True [0, 0, 0, 1, 9] 0 = 1" "load_size True [0, 0, 0, 1, 9] 1 = 265"
    using load_size_net32 [of 0 "[0, 0, 0, 1, 9]" 1 True] load_size_net32 [of 1 "[0, 0, 0, 1, 9]" 265 True]
    by (simp_all add: net32_def le_bytes_def upt_rec)
  have "\<forall>i. i + 4 \<le> length [0, 0, 0, 1, 9 :: u8] \<longrightarrow> -4 < load_size True [0, 0, 0, 1, 9] i"
  proof (intro allI impI)
    fix i assume "i + 4 \<le> length [0, 0, 0, 1, 9 :: u8]"
    then consider "i = 0" | "i = 1" by force
    then show "-4 < load_size True [0, 0, 0, 1, 9] i" by cases (simp_all add: size size [unfolded One_nat_def])
  qed
  moreover have "load_size True [0xff, 0xff, 0xff, 0xfc] (nat 0) = -4"
    using load_size_net32 [of 0 "[0xff, 0xff, 0xff, 0xfc]" "of_int (-4)" True]
    by (simp add: net32_def le_bytes_def upt_rec)
  moreover have "good_alloc (\<lambda>n. Some (replicate n 0))" by (simp add: good_alloc_def)
  ultimately show ?thesis
    using framing_terminates [of "[0, 0, 0, 1, 9]" True 0 5 "[]"]
      framing_terminates [of "[0xff, 0xff, 0xff, 0xfc]" True 0 4 "[]" "\<lambda>n. Some (replicate n 0)" False]
    by simp
qed

end
