(* ===== verification/Spec2Isabelle.thy ===== *)
theory Spec2Isabelle
  imports Relay_Prelude Net_Base Fifo_Spec Circular_Buffer Md5 Stream_Spec Packet_Sync
    Udp_Handle Media_Server Relay_Spec Media_Relay Tcp_Server Tcp_Server_Proofs Thread_Msg
    Thread_Registry Signaling_Server Relay_System Ip_Address Udp_Module Udp_Module_Proofs
    Config_File Master Tcp_Client Tcp_Client_Proofs Client_Network Client_Relay
    Client_Sessions Slave Server_Start Server_Stop Uv_Framing
begin

text \<open>
  A verification development for the relay server, the master of its slaves and the client library
  (the C++ code under \<open>src/src\<close>).

  THE PROGRAM. A relay server (\<open>relay_server_sdk\<close>) relays voice between users. It has a UDP socket for
  media (the media server) and a TCP server for control messages (the signaling server) on one loop of
  libuv. A user logs in by a UDP packet, which fixes the address its media is sent to; control
  messages then add and remove the links over which media is copied from one user to another, and hand a
  user the address of a peer, so that both can try to reach each other directly. A relay server may be a
  slave: it logs in at a master (\<open>relay_server_master\<close>), which allocates slaves to sessions. The client
  library (\<open>client_network\<close>) logs in on both sockets, tries the direct path to every peer and falls back
  to the relay, and reconnects when its TCP connection breaks. All of them rest on a library of their
  own over libuv (\<open>simple_uv\<close>): the TCP server and client, the packet format with its digest, the
  queues between threads, configuration files.

  HOW THE CODE IS TRANSLATED. A class is a record with the names of its fields, a derived class extends the
  record of its base (\<open>media_server\<close> and \<open>udp_module\<close> extend \<open>udp_handle\<close>, \<open>signaling_server\<close> and
  \<open>master\<close> extend \<open>tcp_server\<close>). A member function is a function from its arguments and the object to
  the new object, together with the list of what it asks of its surroundings: packets and streams written,
  virtual functions called, handles closed, messages posted. Overloads and functions whose name HOL has
  taken carry a prefix or a suffix (\<open>c_AfterRecv\<close> is that of the client, \<open>sig_CloseCB\<close> that of the signaling
  server, \<open>OnBindUserId\<close> is \<open>OnUvMessage(CReqBindUserId)\<close>). Integers are words of the width the code
  gives them, or \<open>int\<close> with the conversions of the code written out; chars are words or the \<open>char\<close> type of
  HOL where the code works on text. A \<open>std::map\<close> and a \<open>std::unordered_map\<close> are association lists in
  iteration order. Objects the code shares by pointers (the contexts of connections, the nodes of a thread's
  queue) lie on a heap, an association list from addresses. Where the code leaves the defined behaviour of
  the language (reading outside a buffer, a null or freed pointer, an indeterminate value, a failed
  assertion, an invalidated iterator, a shift or a signed overflow) or never returns, the result is
  \<open>Inl\<close> of a \<open>fault\<close>; so every theorem that gives \<open>Inr\<close> also says that this does not happen.

  WHAT IS A PARAMETER. What libuv and the system answer (return codes, the number of bytes read, the
  time) is an argument of the operation or the event; so are the random numbers, the result of
  the HTTP request that verifies a user, the contents of memory the code never sets (\<open>junk\<close>), what
  a thread that waits in a loop sees of a variable another thread sets, and the allocation callback of the
  framing. \<open>le\<close> tells whether the host is little-endian. The rules of libuv the code relies on are part of the
  model where the code can break them: a handle may not be initialised while it is in use or be closed
  twice (\<open>Handle_Misuse\<close>), and callbacks come after the operation they belong to (\<open>tcp_enabled\<close>,
  \<open>client_enabled\<close>). The Linux variant of conditional code is the one translated.
\<close>

section \<open>The theories\<close>

text \<open>
  Shared theories.
  \<^item> \<open>Relay_Prelude\<close>: machine integers, \<open>fault\<close> and \<open>outcome\<close>, lists, little-endian bytes, association
    lists, and \<open>run_events\<close>, the run of a handler over a list of events. The locale \<open>event_handler\<close> (a
    handler keeps an invariant on the events it is given) and its extension \<open>safe_event_handler\<close> (and never
    faults on them) carry the induction over runs.
  \<^item> \<open>Fifo_Spec\<close>: the contract \<open>bounded_fifo\<close> of a bounded queue of bytes. \<open>Stream_Spec\<close>: the contract
    \<open>stream_receiver\<close> of a parser that is fed in pieces; that the pieces do not matter is proved there.
    \<open>Relay_Spec\<close>: the abstract relay, users with addresses and links between them, with the step relation
    \<open>relay_step\<close>, and the contract \<open>relay_refinement\<close> of a component that runs as one, which the media server, the
    relay server and its whole life interpret.

  The library \<open>simple_uv\<close>.
  \<^item> \<open>Net_Base\<close> (\<open>net_base.h\<close>): byte order, integers as bytes, the 34-byte packet header.
  \<^item> \<open>Md5\<close> (\<open>md5.cpp\<close>): the digest with its 64-bit registers and its buffering, and RFC 1321, which it
    computes (\<open>MD5_rfc1321\<close>).
  \<^item> \<open>Circular_Buffer\<close> (\<open>PodCircularBuffer.h\<close>): the ring, which interprets \<open>bounded_fifo\<close>.
  \<^item> \<open>Packet_Sync\<close> (\<open>PacketSync.cpp\<close>, \<open>PacketSync.h\<close>): \<open>recvdata\<close>, which cuts a stream into packets,
    \<open>PacketData2\<close>, which builds them, and the grammar \<open>frames\<close> of the stream. \<open>recvdata\<close> interprets
    \<open>stream_receiver\<close>.
  \<^item> \<open>Uv_Framing\<close> (\<open>UVMsgFraming.cpp\<close>, \<open>UVMsgFraming.h\<close>): messages behind their size, with the part of
    libuv's \<open>stream.c\<close> that asks for a buffer and reads into it.
  \<^item> \<open>Tcp_Server\<close>, \<open>Tcp_Server_Proofs\<close> (\<open>tcpserver.cpp\<close>, \<open>BaseMsgDefine.cpp\<close>, \<open>TcpHandle.h\<close>): accepting,
    reading, sending, broadcasting, closing, and the lists of recycled contexts and write requests.
  \<^item> \<open>Tcp_Client\<close>, \<open>Tcp_Client_Proofs\<close> (\<open>tcpclient.cpp\<close>, \<open>TcpHandle.cpp\<close>): connecting, sending through
    the ring, receiving, reconnecting, closing. It uses the ring through \<open>bounded_fifo\<close>.
  \<^item> \<open>Udp_Handle\<close> (\<open>UDPHandle.cpp\<close>, \<open>UdpPacket.h\<close>): the datagrams.
  \<^item> \<open>Thread_Msg\<close> (\<open>ThreadMsgBase.cpp\<close>): the queue of a thread on its heap, which interprets the contract
    \<open>mailbox\<close>. \<open>Thread_Registry\<close> (\<open>UVThread.cpp\<close>, \<open>UVThreadMng.cpp\<close>): the threads and their manager.
  \<^item> \<open>Config_File\<close> (\<open>config.cpp\<close>, \<open>config.h\<close> and the settings of \<open>relay_server.cpp\<close>). \<open>Ip_Address\<close>
    (\<open>common.cpp\<close> and libuv's \<open>inet.c\<close>).

  The servers.
  \<^item> \<open>Media_Server\<close> (\<open>media_server.cpp\<close>, \<open>media_server.h\<close>): the table of users and every handler and timer of
    it. \<open>Media_Relay\<close>: its refinement of \<open>Relay_Spec\<close> and the properties of its runs.
  \<^item> \<open>Signaling_Server\<close> (\<open>signaling_server.cpp\<close>, \<open>client_tcpserver_msg.h\<close>): the messages of the clients and
    their handlers. \<open>Relay_System\<close> (\<open>relay_server.cpp\<close>): both servers on one loop, every event with all the
    calls it leads to (\<open>relay_handle\<close>).
  \<^item> \<open>Master\<close> (\<open>master.cpp\<close>, \<open>master.h\<close>): the handlers of the master. \<open>Slave\<close> (\<open>slave.cpp\<close>): the
    slave's connection and the loop of the master over the bytes of its clients.
  \<^item> \<open>Server_Start\<close>: the Start functions of all servers. \<open>Server_Stop\<close>: closing the relay server, its life from
    the constructor through starts and closes (\<open>life_handle\<close>), and what holds in all of it.

  The client.
  \<^item> \<open>Udp_Module\<close>, \<open>Udp_Module_Proofs\<close> (\<open>udp_module.cpp\<close>, \<open>timer_module.cpp\<close>): login, punch-through,
    fallback, media.
  \<^item> \<open>Client_Network\<close> (\<open>network_module.cpp\<close>, \<open>tcp_module.cpp\<close>): the messages between the threads, the facade
    the application calls, and the loop of both modules (\<open>net_handle\<close>).
  \<^item> \<open>Client_Relay\<close>, \<open>Client_Sessions\<close>: the client and the relay server together, over the bytes
    that pass between them.
\<close>

section \<open>What is shown\<close>

text \<open>
  \<^item> Bytes. Headers and packets survive their way through any cut of the stream (\<open>packets_roundtrip\<close>,
    \<open>framing_roundtrip\<close>), the parsers refine a grammar of the whole stream (\<open>recvdata_stream\<close>), the digest
    is that of the RFC, addresses come back from their text, and reading any configuration file gives exactly
    the entries its lines spell, comments and continuation lines included (\<open>config_roundtrip\<close>).
  \<^item> Queues and threads. The ring and the queue of a thread lose, duplicate and reorder nothing (\<open>cb_fifo\<close>,
    \<open>thread_queue_fifo\<close>); what \<open>Send\<close> places in the buffer of the client leaves it in order in every run, and packets that
    one thread sends on a connection that holds arrive as they were sent, after a reconnect as well
    (\<open>client_stream\<close>); what is in the buffer when a connection breaks may be lost. In orderly runs
    (no start interrupted, one start per type, a thread unregistered before it is deleted) the manager and the
    threads agree on who is registered, and nobody registered has been deleted (\<open>threads_agree\<close>).
  \<^item> The relay. Every life of the relay server, from its start through the bytes of its clients to its
    stop, is a run of the abstract relay (\<open>life_refines_relay\<close>); media
    goes to exactly the linked users at the addresses they logged in from (\<open>forward_exact\<close>); addresses come from
    verified logins only, except for the all-zero entry that a UDP logout can leave through
    \<open>operator[]\<close> (\<open>login_gate\<close>); logouts remove exactly what belongs to the user, and so do timeouts
    unless earlier UDP logouts or room leaves have left one-sided links, over which the sweep can invalidate
    its own iterator (\<open>offline_exact\<close>).
  \<^item> Connections. The contexts of the TCP server have one owner each (\<open>tcp_run_inv\<close>); answers go to the live
    connection of the client that asked (\<open>replies_reach_client\<close>); a broken connection logs its user out; the
    client always has its reconnect timer or a callback outstanding (\<open>reconnect_live\<close>).
  \<^item> The whole. Voice of one application reaches every linked one through facade, thread message, relay and
    module, if all peers of the sender are relayed and the type bits of the voice are not those of a
    control message (\<open>voice_relayed\<close>); logging in and asking for a peer are followed through both programs and all the
    bytes in between (\<open>login_handshake\<close>, \<open>peer_address_learned\<close>); a peer that cannot be reached directly is
    relayed (\<open>p2p_fallback\<close>, \<open>fallback_relays\<close>); the address a slave announces is what clients are given
    (\<open>slave_announced\<close>).
  \<^item> What goes wrong. Where the code faults or loses data, a theorem shows how: oversized packets, recycled
    connections that continue an old stream, sends of two threads that interleave, the deadlock of a server
    that is closed with a client connected, frames of size minus four, slaves that have gone.
\<close>

section \<open>Bounds and fuel\<close>

text \<open>
  The loops of the parsers (\<open>sync_loop\<close>, \<open>msg_loop\<close>) are partial functions into \<open>option\<close>, where \<open>None\<close> is a
  loop that does not end; \<open>recvdata_stream\<close> and \<open>framing_terminates\<close> say when they return. The loop of
  \<open>send_inl\<close> has as fuel one more than the bytes in the ring, and every round takes at least one of them. A
  \<open>Send\<close> that finds no room waits for the thread of the loop: its rounds are events of the client
  (\<open>Cl_Round\<close>), and where the caller is the loop itself (\<open>c_loop_send\<close>) the wait is the fault
  \<open>No_Return\<close>. \<open>wait_connect\<close> looks at the status at most 101 times and
  \<open>wait_flag\<close> 5 or 20 times, as in the code. The delays of a reconnect are 64-bit integers in milliseconds:
  53 doublings of 1000 fit, and the theorem on them is stated for as many. The lists of
  recycled objects grow to \<open>MAXLISTSIZE + 1\<close>, that is 21, because their size is tested before the push. The static
  counter of connections is a 32-bit \<open>int\<close>: accepting after \<open>2 ^ 31 - 1\<close> connections is the fault
  \<open>Signed_Overflow\<close>. A datagram
  is read into a static buffer of 65536 bytes, which keeps what earlier datagrams left in it. All other recursions
  are over the data.
\<close>

section \<open>Not modelled\<close>

text \<open>
  \<^item> \<open>log4z.cpp\<close>, \<open>log4z.h\<close>, \<open>LogMng.cpp\<close>, \<open>LogMng.h\<close>: a logging library and its start; log output is left
    out everywhere. \<open>DumpFile.h\<close>: crash dumps on Windows.
  \<^item> \<open>SimpleLocks.h\<close>: wrappers whose methods are one call of libuv each. The locks themselves are modelled where
    the order of holding and releasing them matters (\<open>lock_clients\<close>, the rounds of \<open>Send\<close>, the parts of
    \<open>RegistThread\<close>).
  \<^item> The HTTP requests of \<open>relay_server.cpp\<close> are calls of libcurl; how their answer is read is in \<open>Config_File\<close>
    (\<open>Validate\<close>, \<open>ValidateOnLogin\<close>).
  \<^item> \<open>get_sys_info.cpp\<close> reads \<open>/proc/stat\<close> in a loop and computes in floating point; nothing calls it.
  \<^item> The \<open>main\<close> functions, which create one object and wait; project and export headers.
  \<^item> IPv6 addresses as text (\<open>uv_ip6_addr\<close>): of \<open>Start6\<close> and \<open>Connect6\<close> the control flow is modelled, the
    conversion is a return code.
  \<^item> libuv and libcurl under \<open>src/3rd\<close>, apart from the parts of \<open>inet.c\<close>, \<open>uv-common.c\<close>, \<open>stream.c\<close> and \<open>udp.c\<close>
    that the theories name: their answers are arguments.
  \<^item> The memory model of threads: a handler of the loop is one step, and so is a part of a function that
    another thread runs between taking and releasing a lock. Data races in unlocked accesses are stated where the
    code has them (\<open>registration_race\<close>), not modelled below that.
\<close>

end
